(* ===== verification/Capka_Prelude.thy ===== *)
theory Capka_Prelude
  imports Complex_Main "HOL-Library.List_Lexorder" "HOL-Library.Char_ord"
begin

section \<open>Prelude: rows, tables, timed runs and the contracts components share\<close>

text \<open>
  What every component of the development uses: the names of the base types, database tables
  as lists of rows with the four statements the code issues against them (\<open>SELECT\<close> by key,
  \<open>UPDATE \<dots> WHERE\<close>, \<open>DELETE \<dots> WHERE\<close>, \<open>ORDER BY \<dots> LIMIT 1\<close>), JavaScript's \<open>trim\<close>, runs of a
  timed step relation, and two interfaces as locales: a resource that at most one holder owns
  (\<open>lease_exclusion\<close>) and an outcome that is settled once (\<open>settle_once\<close>).
\<close>

type_synonym ident = string
type_synonym time = int \<comment> \<open>milliseconds since the epoch\<close>

named_theorems table_simps
named_theorems row_defs

subsection \<open>Tables\<close>

text \<open>A table is the list of its rows. Nothing below depends on the order of the list except
  where a statement has an \<open>ORDER BY\<close>.\<close>

definition update_where :: "('r \<Rightarrow> bool) \<Rightarrow> ('r \<Rightarrow> 'r) \<Rightarrow> 'r list \<Rightarrow> 'r list" where
  "update_where P f t = map (\<lambda>r. if P r then f r else r) t"

definition delete_where :: "('r \<Rightarrow> bool) \<Rightarrow> 'r list \<Rightarrow> 'r list" where
  "delete_where P t = filter (\<lambda>r. \<not> P r) t"

definition find_row :: "('r \<Rightarrow> 'k) \<Rightarrow> 'k \<Rightarrow> 'r list \<Rightarrow> 'r option" where
  "find_row key k t = find (\<lambda>r. key r = k) t"

fun first_by :: "('r \<Rightarrow> 'o::linorder) \<Rightarrow> 'r list \<Rightarrow> 'r option" where
  "first_by f [] = None"
| "first_by f (x # xs) =
     (case first_by f xs of None \<Rightarrow> Some x | Some y \<Rightarrow> if f x \<le> f y then Some x else Some y)"

lemma set_update_where [simp]:
  "set (update_where P f t) = (\<lambda>r. if P r then f r else r) ` set t"
  by (simp add: update_where_def)

lemma set_delete_where [simp]: "set (delete_where P t) = {r \<in> set t. \<not> P r}"
  by (simp add: delete_where_def)

lemma update_where_Nil [simp]: "update_where P f [] = []"
  by (simp add: update_where_def)

lemma update_where_Cons [simp]:
  "update_where P f (r # t) = (if P r then f r else r) # update_where P f t"
  by (simp add: update_where_def)

lemma delete_where_Nil [simp]: "delete_where P [] = []"
  by (simp add: delete_where_def)

lemma delete_where_Cons [simp]:
  "delete_where P (r # t) = (if P r then delete_where P t else r # delete_where P t)"
  by (simp add: delete_where_def)

lemma find_row_Nil [simp]: "find_row key k [] = None"
  by (simp add: find_row_def)

lemma find_row_Cons [simp]:
  "find_row key k (r # t) = (if key r = k then Some r else find_row key k t)"
  by (simp add: find_row_def)

lemma length_update_where [simp]: "length (update_where P f t) = length t"
  by (simp add: update_where_def)

lemma update_where_none [table_simps]:
  "\<forall>r \<in> set t. \<not> P r \<Longrightarrow> update_where P f t = t"
  by (induction t) auto

lemma delete_where_none [table_simps]: "\<forall>r \<in> set t. \<not> P r \<Longrightarrow> delete_where P t = t"
  by (induction t) auto

lemma keys_update_where [table_simps]:
  "(\<And>r. key (f r) = key r) \<Longrightarrow> map key (update_where P f t) = map key t"
  by (induction t) auto

lemma distinct_delete_where [intro]:
  "distinct (map key t) \<Longrightarrow> distinct (map key (delete_where P t))"
  by (simp add: delete_where_def distinct_map_filter)

lemma find_row_append [table_simps]:
  "find_row key k (t @ u) =
     (case find_row key k t of Some r \<Rightarrow> Some r | None \<Rightarrow> find_row key k u)"
  by (induction t) auto

lemma find_row_update_where [table_simps]:
  "(\<And>r. key (f r) = key r) \<Longrightarrow>
   find_row key k (update_where P f t) = map_option (\<lambda>r. if P r then f r else r) (find_row key k t)"
  by (induction t) auto

lemma update_where_hit: "x \<in> set t \<Longrightarrow> P x \<Longrightarrow> f x \<in> set (update_where P f t)"
  by force

lemma find_row_SomeD: "find_row key k t = Some r \<Longrightarrow> r \<in> set t \<and> key r = k"
  by (induction t) (auto split: if_splits)

lemma find_row_None_iff: "find_row key k t = None \<longleftrightarrow> k \<notin> key ` set t"
  by (induction t) auto

lemma find_row_Some_iff:
  "distinct (map key t) \<Longrightarrow> find_row key k t = Some r \<longleftrightarrow> r \<in> set t \<and> key r = k"
proof (induction t)
  case Nil
  then show ?case by simp
next
  case (Cons x t)
  then show ?case by (auto simp: image_iff)
qed

lemma same_key_same_row:
  "distinct (map key t) \<Longrightarrow> a \<in> set t \<Longrightarrow> b \<in> set t \<Longrightarrow> key a = key b \<Longrightarrow> a = b"
  by (induction t) (auto simp: image_iff)

lemma delete_where_unique:
  assumes "distinct (map key t)" and "r \<in> set t" and "P r"
  shows "\<forall>x \<in> set (delete_where P t). key x \<noteq> key r"
  using same_key_same_row [OF assms(1) _ assms(2)] assms(3) unfolding set_delete_where by blast

lemma find_row_delete_where [table_simps]:
  assumes "distinct (map key t)"
  shows "find_row key k (delete_where P t) =
     (case find_row key k t of None \<Rightarrow> None | Some r \<Rightarrow> if P r then None else Some r)"
  using assms
proof (induction t)
  case Nil
  then show ?case by simp
next
  case (Cons x t)
  have "find_row key k (delete_where P t) = None" if "key x = k"
    using Cons.prems that by (auto simp: find_row_None_iff image_iff)
  with Cons show ?case by auto
qed

lemma first_by_None_iff [simp]: "first_by f t = None \<longleftrightarrow> t = []"
  by (cases t) (auto split: option.splits)

lemma first_by_in: "first_by f t = Some r \<Longrightarrow> r \<in> set t"
  by (induction t arbitrary: r) (auto split: option.splits if_splits)

lemma first_by_least: "first_by f t = Some r \<Longrightarrow> x \<in> set t \<Longrightarrow> f r \<le> f x"
proof (induction t arbitrary: r)
  case Nil
  then show ?case by simp
next
  case (Cons y t)
  show ?case
  proof (cases "first_by f t")
    case None
    with Cons.prems show ?thesis by auto
  next
    case (Some z)
    with Cons.IH [OF Some] Cons.prems show ?thesis
      by (auto split: if_splits intro: order_trans)
  qed
qed

lemma filter_empty_if: "\<forall>x \<in> set xs. \<not> P x \<Longrightarrow> filter P xs = []"
  by (induction xs) auto

lemma length_filter_pos_iff: "0 < length (filter P xs) \<longleftrightarrow> (\<exists>x \<in> set xs. P x)"
  by (induction xs) auto

text \<open>\<open>findIndex\<close> is the length of the prefix that does not match.\<close>

lemma find_index:
  assumes "k \<in> key ` set xs"
  shows "length (takeWhile (\<lambda>s. key s \<noteq> k) xs) < length xs"
    and "key (xs ! length (takeWhile (\<lambda>s. key s \<noteq> k) xs)) = k"
proof -
  show "length (takeWhile (\<lambda>s. key s \<noteq> k) xs) < length xs"
    using assms by (induction xs) auto
  from nth_length_takeWhile [OF this] show "key (xs ! length (takeWhile (\<lambda>s. key s \<noteq> k) xs)) = k" by simp
qed

lemma find_index_at:
  assumes "distinct (map key xs)" and "i < length xs"
  shows "length (takeWhile (\<lambda>s. key s \<noteq> key (xs ! i)) xs) = i"
proof -
  let ?j = "length (takeWhile (\<lambda>s. key s \<noteq> key (xs ! i)) xs)"
  have "key (xs ! i) \<in> key ` set xs" using assms(2) by simp
  from find_index [OF this] have "?j < length xs" "key (xs ! ?j) = key (xs ! i)" .
  then have "map key xs ! ?j = map key xs ! i" using assms(2) by simp
  with assms \<open>?j < length xs\<close> show ?thesis by (metis length_map nth_eq_iff_index_eq)
qed

lemma set_map_filter [simp]: "set (List.map_filter f xs) = {y. \<exists>x \<in> set xs. f x = Some y}"
  by (induction xs) (auto simp: List.map_filter_simps split: option.split)

subsection \<open>JavaScript's trim\<close>

text \<open>The code units ECMAScript strips (WhiteSpace and LineTerminator): tab, vertical tab, form feed, no-break
  space, the byte order mark and the space separators of Unicode; line feed, carriage return and the line and
  paragraph separators. A \<^typ>\<open>char\<close> holds those below 256.\<close>

definition js_space_unit :: "nat \<Rightarrow> bool" where
  "js_space_unit n \<longleftrightarrow> n \<in> {9, 11, 12, 0xA0, 0xFEFF} \<or>
     n \<in> {0x20, 0x1680, 0x202F, 0x205F, 0x3000} \<or> (0x2000 \<le> n \<and> n \<le> 0x200A) \<or>
     n \<in> {10, 13, 0x2028, 0x2029}"

definition js_space :: "char \<Rightarrow> bool" where
  "js_space c \<longleftrightarrow> js_space_unit (of_char c)"

text \<open>On the characters modelled these are seven.\<close>

lemma js_space_chars [code]:
  "js_space c \<longleftrightarrow> c = CHR 0x20 \<or> c = CHR 0x0A \<or> c = CHR 0x09 \<or> c = CHR 0x0D \<or> c = CHR 0x0B \<or> c = CHR 0x0C \<or> c = CHR 0xA0"
proof -
  have is_char: "of_char c = (of_char d :: nat) \<longleftrightarrow> c = d" for d by simp
  have "js_space_unit n \<longleftrightarrow> n \<in> {0x20, 0x0A, 0x09, 0x0D, 0x0B, 0x0C, 0xA0}" if "n < 256" for n
    using that by (auto simp: js_space_unit_def)
  from this [OF nat_of_char_less_256]
  have "js_space_unit (of_char c) \<longleftrightarrow> (of_char c :: nat) \<in> {0x20, 0x0A, 0x09, 0x0D, 0x0B, 0x0C, 0xA0}" .
  then show ?thesis
    using is_char [of "CHR 0x20"] is_char [of "CHR 0x0A"] is_char [of "CHR 0x09"] is_char [of "CHR 0x0D"] is_char [of "CHR 0x0B"]
      is_char [of "CHR 0x0C"] is_char [of "CHR 0xA0"]
    by (simp add: js_space_def)
qed

definition js_trim :: "string \<Rightarrow> string" where
  "js_trim s = rev (dropWhile js_space (rev (dropWhile js_space s)))"

lemma js_trim_Nil_iff: "js_trim s = [] \<longleftrightarrow> (\<forall>c \<in> set s. js_space c)"
proof -
  have "js_trim s = [] \<longleftrightarrow> (\<forall>c \<in> set (dropWhile js_space s). js_space c)"
    by (simp add: js_trim_def)
  also have "\<dots> \<longleftrightarrow> (\<forall>c \<in> set s. js_space c)"
    by (induction s) auto
  finally show ?thesis .
qed

subsection \<open>Timed runs\<close>

text \<open>
  The processes of the system (web handlers, workers, the reaper) share one database whose
  clock only moves forward. \<open>step now s s'\<close> is one atomic statement executed at time \<open>now\<close>; a
  run interleaves statements of any process with the passage of time.
\<close>

inductive timed_run :: "(time \<Rightarrow> 's \<Rightarrow> 's \<Rightarrow> bool) \<Rightarrow> time \<times> 's \<Rightarrow> time \<times> 's \<Rightarrow> bool"
  for step :: "time \<Rightarrow> 's \<Rightarrow> 's \<Rightarrow> bool" where
  start: "timed_run step (now, s) (now, s)"
| wait: "timed_run step (t0, s0) (now, s) \<Longrightarrow> now \<le> now' \<Longrightarrow> timed_run step (t0, s0) (now', s)"
| act: "timed_run step (t0, s0) (now, s) \<Longrightarrow> step now s s' \<Longrightarrow> timed_run step (t0, s0) (now, s')"

lemma timed_run_one: "step now s s' \<Longrightarrow> now \<le> now' \<Longrightarrow> timed_run step (now, s) (now', s')"
  by (rule timed_run.wait [where now = now]) (auto intro: timed_run.act [where s = s] timed_run.start)

lemma timed_run_wait: "now \<le> now' \<Longrightarrow> timed_run step (now, s) (now', s)"
  by (blast intro: timed_run.intros)

lemma timed_run_invariant:
  assumes "timed_run step (t0, s0) (t1, s1)"
    and "I s0"
    and "\<And>now s s'. step now s s' \<Longrightarrow> I s \<Longrightarrow> I s'"
  shows "I s1"
  using assms(1,2)
  by (induction "(t0, s0)" "(t1, s1)" arbitrary: t1 s1 rule: timed_run.induct) (auto intro: assms(3))

subsection \<open>Contract: statements that keep an invariant\<close>

text \<open>The base of both contracts below: \<open>ok\<close> is the well-formedness of the store, which every
  statement keeps.\<close>

locale guarded_steps =
  fixes step :: "time \<Rightarrow> 's \<Rightarrow> 's \<Rightarrow> bool"
    and ok :: "'s \<Rightarrow> bool"
  assumes keeps_ok: "step now s s' \<Longrightarrow> ok s \<Longrightarrow> ok s'"
begin

lemma ok_run: "timed_run step (t0, s0) (t1, s1) \<Longrightarrow> ok s0 \<Longrightarrow> ok s1"
  by (erule timed_run_invariant) (auto intro: keeps_ok)

end

subsection \<open>Contract: a resource with at most one holder\<close>

text \<open>
  \<open>holds s now h r\<close>: at time \<open>now\<close> holder \<open>h\<close> owns resource \<open>r\<close> in state \<open>s\<close>. Time can only end
  ownership, and a statement may create an owner only of a resource nobody owns, one owner at
  most. Then ownership is exclusive along every run.
\<close>

locale lease_exclusion = guarded_steps step ok
  for step :: "time \<Rightarrow> 's \<Rightarrow> 's \<Rightarrow> bool" and ok :: "'s \<Rightarrow> bool" +
  fixes holds :: "'s \<Rightarrow> time \<Rightarrow> 'h \<Rightarrow> 'r \<Rightarrow> bool"
  assumes lapse: "now \<le> now' \<Longrightarrow> holds s now' h r \<Longrightarrow> holds s now h r"
    and grant: "step now s s' \<Longrightarrow> ok s \<Longrightarrow> holds s' now h r \<Longrightarrow> \<not> holds s now h r \<Longrightarrow>
      (\<forall>h'. \<not> holds s now h' r) \<and> (\<forall>h'. holds s' now h' r \<longrightarrow> h' = h)"
begin

lemma one_holder_step:
  assumes "\<forall>h h' r. holds s now h r \<longrightarrow> holds s now h' r \<longrightarrow> h = h'" and "ok s"
    and "step now s s'" and h: "holds s' now h r" and h': "holds s' now h' r"
  shows "h = h'"
proof (cases "holds s now h r \<and> holds s now h' r")
  case True
  with assms(1) show ?thesis by auto
next
  case False
  with grant [OF assms(3,2) h] grant [OF assms(3,2) h'] h h' show ?thesis by blast
qed

lemma one_holder_run:
  assumes "timed_run step (t0, s0) (t1, s1)" and "ok s0"
    and "\<forall>h h' r. holds s0 t0 h r \<longrightarrow> holds s0 t0 h' r \<longrightarrow> h = h'"
  shows "\<forall>h h' r. holds s1 t1 h r \<longrightarrow> holds s1 t1 h' r \<longrightarrow> h = h'"
proof -
  have "ok s1 \<and> (\<forall>h h' r. holds s1 t1 h r \<longrightarrow> holds s1 t1 h' r \<longrightarrow> h = h')"
    using assms(1)
  proof (induction "(t0, s0)" "(t1, s1)" arbitrary: t1 s1 rule: timed_run.induct)
    case start
    with assms(2,3) show ?case by auto
  next
    case (wait now s now')
    then show ?case by (blast intro: lapse)
  next
    case (act now s s')
    then show ?case by (blast intro: keeps_ok one_holder_step)
  qed
  then show ?thesis ..
qed

end

subsection \<open>Contract: an outcome settled once\<close>

text \<open>\<open>verdict s now k = Some v\<close>: at time \<open>now\<close> the outcome of \<open>k\<close> is decided and is \<open>v\<close>. Neither
  time nor a statement changes or withdraws a decided outcome, so along a run the first verdict
  stands.\<close>

locale settle_once = guarded_steps step ok
  for step :: "time \<Rightarrow> 's \<Rightarrow> 's \<Rightarrow> bool" and ok :: "'s \<Rightarrow> bool" +
  fixes verdict :: "'s \<Rightarrow> time \<Rightarrow> 'k \<Rightarrow> 'v option"
  assumes persists: "now \<le> now' \<Longrightarrow> verdict s now k = Some v \<Longrightarrow> verdict s now' k = Some v"
    and keeps: "step now s s' \<Longrightarrow> ok s \<Longrightarrow> verdict s now k = Some v \<Longrightarrow> verdict s' now k = Some v"
begin

lemma verdict_run:
  assumes "timed_run step (t0, s0) (t1, s1)" and "ok s0" and "verdict s0 t0 k = Some v"
  shows "verdict s1 t1 k = Some v"
proof -
  have "ok s1 \<and> verdict s1 t1 k = Some v"
    using assms
    by (induction "(t0, s0)" "(t1, s1)" arbitrary: t1 s1 rule: timed_run.induct)
      (auto intro: keeps keeps_ok persists)
  then show ?thesis ..
qed

end

end
