(* ===== verification/Db_Schema.thy ===== *)
theory Db_Schema
  imports Capka_Prelude "HOL-Library.Word"
begin

section \<open>The database rows the components share (src/lib/db/schema.ts)\<close>

text \<open>
  One record per table, with the columns the modelled code reads or writes, and the JSON that the
  \<open>metadata\<close>, \<open>payload\<close> and \<open>input\<close> columns hold. The name of a status or a role is a constructor;
  a nullable column is an option. Timestamps are \<^typ>\<open>time\<close>; money is an exact rational, as the
  \<open>numeric\<close> columns are.
\<close>

subsection \<open>JSON values\<close>

datatype json =
    JNull
  | JBool bool
  | JNum rat
  | JStr string
  | JArr "json list"
  | JObj "(string \<times> json) list"

text \<open>
  Arguments of a tool call with strings of any characters: lists of UTF-16 code units. A number
  carries the text JavaScript prints for it.
\<close>

type_synonym jstr = "16 word list"

datatype js_value =
    VNull
  | VBool bool
  | VNum jstr
  | VStr jstr
  | VArr "js_value list"
  | VObj "(jstr \<times> js_value) list"

subsection \<open>Message parts and message metadata (src/lib/chat/contracts.ts)\<close>

record approval =
  ap_id :: ident
  ap_approved :: "bool option" \<comment> \<open>None: the user has not decided\<close>
  ap_reason :: "string option"

record ask_answer =
  an_form :: json
  an_value :: "json option" \<comment> \<open>None: the user has not answered\<close>

datatype stored_part =
    TextPart string
  | ReasoningPart string
  | ToolCall (call_id: ident) (call_name: string) (call_input: json)
      (call_approval: "approval option") (call_answer: "ask_answer option")
  | ToolResult ident string json
  | ToolError ident string string bool \<comment> \<open>the flag is \<open>invalid\<close>: rejected before it ran\<close>

datatype msg_status =
    MsgRunning | MsgAwaitingApproval | MsgAwaitingAnswer | MsgCompleted | MsgFailed | MsgCancelled

datatype error_category = Interrupted | InterruptedPartial | OtherCategory string

record message_meta =
  mm_task :: "ident option"
  mm_status :: "msg_status option"
  mm_error :: "string option"
  mm_category :: "error_category option"
  mm_parts :: "stored_part list option"
  mm_rest :: json \<comment> \<open>the keys no modelled operation reads\<close>

datatype role = User | Assistant | OtherRole string

record message_row =
  m_id :: ident
  m_chat :: ident
  m_parent :: "ident option"
  m_role :: role
  m_content :: string
  m_platform :: "string option"
  m_meta :: "message_meta option"
  m_untrusted :: bool
  m_created :: "time option"

subsection \<open>Chats\<close>

record chat_row =
  c_id :: ident
  c_user :: ident
  c_project :: "ident option"
  c_title :: "string option"
  c_model :: "string option"
  c_active_leaf :: "ident option"
  c_visibility :: string
  c_share_token :: "ident option"
  c_updated :: time

subsection \<open>Tasks\<close>

datatype task_status = Queued | Running | Completed | Failed | Cancelled

record steer =
  st_id :: ident
  st_text :: string
  st_at :: string

record task_payload =
  pl_resume :: "ident option" \<comment> \<open>\<open>resumeMessageId\<close>\<close>
  pl_rest :: json

record task_row =
  t_id :: ident
  t_chat :: ident
  t_user :: ident
  t_status :: task_status
  t_error :: "string option"
  t_payload :: task_payload
  t_lease :: "time option"
  t_heartbeat :: "time option"
  t_worker :: "ident option"
  t_cancel :: bool
  t_steers :: "steer list"
  t_attempts :: nat
  t_created :: time
  t_updated :: time

subsection \<open>Usage and effects\<close>

record usage_row =
  u_id :: ident
  u_task :: "ident option"
  u_message :: "ident option"
  u_user :: ident
  u_provider :: string
  u_config :: "ident option"
  u_model :: string
  u_input :: int
  u_output :: int
  u_cached :: int
  u_cost :: "rat option"
  u_shared :: bool
  u_purpose :: "string option"
  u_pending :: bool
  u_created :: time

record effect_row =
  e_message :: ident
  e_call :: ident
  e_task :: "ident option"
  e_name :: string
  e_input :: js_value
  e_failed :: bool
  e_settled :: bool
  e_created :: time

text \<open>The tables the task queue and its reaper work on together.\<close>

record database =
  db_tasks :: "task_row list"
  db_chats :: "chat_row list"
  db_messages :: "message_row list"
  db_usage :: "usage_row list"
  db_effects :: "effect_row list"

text \<open>\<open>COALESCE(project_id, id)\<close> of a chat's row: the workspace the chat's turns run in. \<open>None\<close>
  when the chat has no row, which the inner joins of the queue drop.\<close>

definition workspace_of :: "chat_row list \<Rightarrow> ident \<Rightarrow> ident option" where
  "workspace_of chats cid =
     map_option (\<lambda>c. case c_project c of Some p \<Rightarrow> p | None \<Rightarrow> c_id c) (find_row c_id cid chats)"

text \<open>A partial unique index \<open>(key) WHERE P\<close>: no two rows that satisfy \<open>P\<close> share a key.\<close>

definition unique_where :: "('r \<Rightarrow> bool) \<Rightarrow> ('r \<Rightarrow> 'k) \<Rightarrow> 'r list \<Rightarrow> bool" where
  "unique_where P key t \<longleftrightarrow> distinct (map key (filter P t))"

lemma unique_where_Nil [simp]: "unique_where P key []"
  by (simp add: unique_where_def)

lemma unique_where_append1 [table_simps]:
  "unique_where P key (t @ [r]) \<longleftrightarrow>
     unique_where P key t \<and> (P r \<longrightarrow> (\<forall>x \<in> set t. P x \<longrightarrow> key x \<noteq> key r))"
  by (fastforce simp: unique_where_def image_iff)

lemma unique_where_delete: "unique_where P key t \<Longrightarrow> unique_where P key (delete_where Q t)"
proof (induction t)
  case Nil
  then show ?case by simp
next
  case (Cons x t)
  then show ?case by (auto simp: unique_where_def)
qed

text \<open>An update that keeps the key and never makes a row satisfy \<open>P\<close> keeps the index.\<close>

lemma unique_where_update:
  assumes "unique_where P key t"
    and "\<And>r. key (f r) = key r"
    and "\<And>r. Q r \<Longrightarrow> P (f r) \<Longrightarrow> P r"
  shows "unique_where P key (update_where Q f t)"
  using assms(1)
proof (induction t)
  case Nil
  then show ?case by simp
next
  case (Cons x t)
  have sub: "key ` {r \<in> set (update_where Q f u). P r} \<subseteq> key ` {r \<in> set u. P r}" for u
  proof (intro subsetI)
    fix k
    assume "k \<in> key ` {r \<in> set (update_where Q f u). P r}"
    then obtain r where r: "r \<in> set u" and P: "P (if Q r then f r else r)"
      and k: "k = key (if Q r then f r else r)" by auto
    have "P r" using P assms(3) by (cases "Q r") auto
    moreover have "k = key r" using k assms(2) by (cases "Q r") auto
    ultimately show "k \<in> key ` {r \<in> set u. P r}" using r by blast
  qed
  from Cons.prems have "unique_where P key t"
    by (auto simp: unique_where_def split: if_splits)
  from Cons.IH [OF this] have IH: "unique_where P key (update_where Q f t)" .
  have notin: "key x \<notin> key ` {r \<in> set t. P r}" if "P x"
    using Cons.prems that by (auto simp: unique_where_def)
  define y where "y = (if Q x then f x else x)"
  have "key y = key x" and "P y \<Longrightarrow> P x"
    using assms(2,3) by (auto simp: y_def split: if_splits)
  then have "P y \<Longrightarrow> key y \<notin> key ` {r \<in> set (update_where Q f t). P r}"
    using notin sub [of t] by (metis subsetD)
  then have "unique_where P key (y # update_where Q f t)"
    using IH by (auto simp: unique_where_def)
  then show ?case by (simp add: y_def)
qed

lemma unique_whereD:
  assumes "unique_where P key t"
    and "a \<in> set t" "b \<in> set t" "P a" "P b" "key a = key b"
  shows "a = b"
proof -
  from assms have in_filter: "a \<in> set (filter P t)" "b \<in> set (filter P t)" by auto
  from assms(1) have "distinct (map key (filter P t))" by (simp add: unique_where_def)
  from same_key_same_row [OF this in_filter assms(6)] show ?thesis .
qed

end
