(* ===== verification/Task_Queue.thy ===== *)
theory Task_Queue
  imports Db_Schema
begin

section \<open>The durable task queue (src/lib/tasks/queue.ts)\<close>

text \<open>
  Tasks are rows; each function of the file is one or two SQL statements on them. A statement is
  modelled as one function on the table, with the clock as an argument, so that statements of
  different processes can be interleaved: \<open>queue_step\<close> at the end is the relation "one statement of
  some process". A write returns what its \<open>RETURNING\<close> or its row count tells the caller.
\<close>

subsection \<open>Constants and small predicates\<close>

definition LEASE_SECONDS :: int where "LEASE_SECONDS = 60"
definition REAP_MARGIN_MS :: int where "REAP_MARGIN_MS = 15000"
definition STEER_MAX_PER_TURN :: nat where "STEER_MAX_PER_TURN = 10"

definition lease_until :: "time \<Rightarrow> time" where
  "lease_until now = now + LEASE_SECONDS * 1000"

text \<open>\<open>lease_expires_at > now()\<close>: a NULL lease compares as NULL, which a \<open>WHERE\<close> drops.\<close>

definition lease_live :: "time \<Rightarrow> task_row \<Rightarrow> bool" where
  "lease_live now r \<longleftrightarrow> (case t_lease r of Some l \<Rightarrow> now < l | None \<Rightarrow> False)"

definition lease_dead :: "time \<Rightarrow> task_row \<Rightarrow> bool" where
  "lease_dead now r \<longleftrightarrow> (case t_lease r of Some l \<Rightarrow> l < now - REAP_MARGIN_MS | None \<Rightarrow> False)"

fun terminal :: "task_status \<Rightarrow> bool" where
  "terminal Completed = True"
| "terminal Failed = True"
| "terminal Cancelled = True"
| "terminal _ = False"

definition is_queued :: "task_row \<Rightarrow> bool" where
  "is_queued r \<longleftrightarrow> t_status r = Queued"

lemmas queue_consts = LEASE_SECONDS_def REAP_MARGIN_MS_def STEER_MAX_PER_TURN_def lease_until_def

subsection \<open>Enqueueing\<close>

datatype db_fault = UniqueViolation | ForeignKeyViolation

datatype enqueue_error = DbFault db_fault | CouldNotSettle ident

record enqueue_input =
  q_id :: ident
  q_chat :: ident
  q_user :: ident
  q_payload :: task_payload

text \<open>The row an \<open>INSERT\<close> creates: the columns it names, the schema's defaults for the rest.\<close>

definition new_task :: "time \<Rightarrow> enqueue_input \<Rightarrow> task_row" where
  "new_task now q =
     \<lparr>t_id = q_id q, t_chat = q_chat q, t_user = q_user q, t_status = Queued, t_error = None,
      t_payload = q_payload q, t_lease = None, t_heartbeat = None, t_worker = None,
      t_cancel = False, t_steers = [], t_attempts = 0, t_created = now, t_updated = now\<rparr>"

text \<open>The chat's pending turn, if it has one.\<close>

definition queued_of :: "ident \<Rightarrow> task_row list \<Rightarrow> task_row option" where
  "queued_of chat t = find (\<lambda>r. t_chat r = chat \<and> is_queued r) t"

text \<open>
  \<open>INSERT \<dots> ON CONFLICT (chat_id) WHERE status = 'queued' DO NOTHING RETURNING id\<close>: nothing when the
  chat already has a queued row; otherwise the primary key and the reference to \<open>chats\<close> can still
  make the statement fail.
\<close>

definition insert_queued ::
  "chat_row list \<Rightarrow> time \<Rightarrow> enqueue_input \<Rightarrow> task_row list \<Rightarrow> db_fault + (task_row list \<times> ident option)" where
  "insert_queued chats now q t =
     (if queued_of (q_chat q) t \<noteq> None then Inr (t, None)
      else if find_row t_id (q_id q) t \<noteq> None then Inl UniqueViolation
      else if find_row c_id (q_chat q) chats = None then Inl ForeignKeyViolation
      else Inr (t @ [new_task now q], Some (q_id q)))"

text \<open>\<open>wake\<close>: the notifications sent. Inside a caller's transaction none; a publish that fails is
  logged and swallowed.\<close>

definition wake :: "ident \<Rightarrow> bool \<Rightarrow> bool \<Rightarrow> ident list" where
  "wake task in_tx publish_ok = (if in_tx then [] else if publish_ok then [task] else [])"

text \<open>
  The retry loop. \<open>env i\<close> is what other processes commit before our \<open>i\<close>-th access to the table; the
  result is the table after our last access, the id of the turn that will answer and whether we
  created it, and the notifications.
\<close>

fun enqueue_retry ::
  "nat \<Rightarrow> (nat \<Rightarrow> task_row list \<Rightarrow> task_row list) \<Rightarrow> nat \<Rightarrow> chat_row list \<Rightarrow> time \<Rightarrow> enqueue_input \<Rightarrow>
   bool \<Rightarrow> bool \<Rightarrow> task_row list \<Rightarrow>
   task_row list \<times> (enqueue_error + (ident \<times> bool)) \<times> ident list" where
  "enqueue_retry 0 env i chats now q in_tx pub t = (t, Inl (CouldNotSettle (q_chat q)), [])"
| "enqueue_retry (Suc n) env i chats now q in_tx pub t =
     (let t1 = env i t in
      case insert_queued chats now q t1 of
        Inl f \<Rightarrow> (t1, Inl (DbFault f), [])
      | Inr (t', Some new) \<Rightarrow> (t', Inr (new, True), wake new in_tx pub)
      | Inr (t', None) \<Rightarrow>
          (let t2 = env (Suc i) t' in
           case queued_of (q_chat q) t2 of
             Some r \<Rightarrow> (t2, Inr (t_id r, False), [])
           | None \<Rightarrow> enqueue_retry n env (Suc (Suc i)) chats now q in_tx pub t2))"

text \<open>
  The first statement combines the insert with a \<open>SELECT\<close> of the incumbent. Both arms belong to one
  statement, but the \<open>SELECT\<close> reads the statement's snapshot while \<open>ON CONFLICT\<close> sees rows committed
  after it: \<open>env 0\<close> leads to the snapshot, \<open>env 1\<close> to the table the index check sees.
\<close>

definition enqueueTask ::
  "(nat \<Rightarrow> task_row list \<Rightarrow> task_row list) \<Rightarrow> chat_row list \<Rightarrow> time \<Rightarrow> enqueue_input \<Rightarrow> bool \<Rightarrow> bool \<Rightarrow>
   task_row list \<Rightarrow> task_row list \<times> (enqueue_error + (ident \<times> bool)) \<times> ident list" where
  "enqueueTask env chats now q in_tx pub t =
     (let snap = env 0 t; t1 = env 1 snap in
      case insert_queued chats now q t1 of
        Inl f \<Rightarrow> (t1, Inl (DbFault f), [])
      | Inr (t', Some new) \<Rightarrow> (t', Inr (new, True), wake new in_tx pub)
      | Inr (t', None) \<Rightarrow>
          (case queued_of (q_chat q) snap of
             Some r \<Rightarrow> (t', Inr (t_id r, False), [])
           | None \<Rightarrow> enqueue_retry 5 env 2 chats now q in_tx pub t'))"

subsection \<open>Claiming\<close>

text \<open>A turn is under way in workspace \<open>w\<close>: some running task of one of its chats holds an
  unexpired lease.\<close>

definition workspace_busy :: "chat_row list \<Rightarrow> time \<Rightarrow> task_row list \<Rightarrow> ident \<Rightarrow> bool" where
  "workspace_busy chats now t w \<longleftrightarrow>
     (\<exists>r \<in> set t. t_status r = Running \<and> lease_live now r \<and> workspace_of chats (t_chat r) = Some w)"

text \<open>
  The \<open>WHERE\<close> of the claim's sub-select for one row, evaluated on the statement's snapshot:
  \<open>locked w\<close> when another transaction holds the workspace's advisory lock.
\<close>

definition claimable ::
  "chat_row list \<Rightarrow> time \<Rightarrow> (ident \<Rightarrow> bool) \<Rightarrow> task_row list \<Rightarrow> task_row \<Rightarrow> bool" where
  "claimable chats now locked snap r \<longleftrightarrow>
     is_queued r \<and>
     (case workspace_of chats (t_chat r) of
        None \<Rightarrow> False
      | Some w \<Rightarrow> \<not> locked w \<and> \<not> workspace_busy chats now snap w)"

definition take_lease :: "time \<Rightarrow> ident \<Rightarrow> task_row \<Rightarrow> task_row" where
  "take_lease now worker r =
     r\<lparr>t_status := Running, t_worker := Some worker, t_lease := Some (lease_until now),
       t_heartbeat := Some now, t_attempts := Suc (t_attempts r), t_updated := now\<rparr>"

text \<open>
  The claim. Candidates are judged on the statement's snapshot \<open>snap\<close>; \<open>FOR UPDATE OF t SKIP LOCKED\<close>
  then locks the first of them in creation order that no other transaction has locked (\<open>skip\<close>) and
  that is still a queued row of the current table \<open>t\<close>, and the update is applied to \<open>t\<close>. When no
  other process commits while the statement runs, \<open>snap = t\<close>.
\<close>

definition claimNextTask ::
  "chat_row list \<Rightarrow> time \<Rightarrow> ident \<Rightarrow> (ident \<Rightarrow> bool) \<Rightarrow> (ident \<Rightarrow> bool) \<Rightarrow> task_row list \<Rightarrow> task_row list \<Rightarrow>
   task_row list \<times> task_row option" where
  "claimNextTask chats now worker locked skip snap t =
     (case first_by t_created
             (filter (\<lambda>r. claimable chats now locked snap r \<and> \<not> skip (t_id r) \<and>
                (\<exists>c \<in> set t. t_id c = t_id r \<and> is_queued c)) snap) of
        None \<Rightarrow> (t, None)
      | Some r \<Rightarrow>
          (let t' = update_where (\<lambda>x. t_id x = t_id r) (take_lease now worker) t
           in (t', find_row t_id (t_id r) t')))"

subsection \<open>The statements of a running or waiting turn\<close>

text \<open>\<open>absorbQueuedTasks\<close>: delete the chat's other queued tasks and return them.\<close>

definition absorb_target :: "ident \<Rightarrow> ident \<Rightarrow> task_row \<Rightarrow> bool" where
  "absorb_target chat except_id r \<longleftrightarrow> t_chat r = chat \<and> is_queued r \<and> t_id r \<noteq> except_id"

definition absorbQueuedTasks :: "ident \<Rightarrow> ident \<Rightarrow> task_row list \<Rightarrow> task_row list \<times> task_row list" where
  "absorbQueuedTasks chat except_id t =
     (delete_where (absorb_target chat except_id) t, filter (absorb_target chat except_id) t)"

definition renewable :: "ident \<Rightarrow> ident \<Rightarrow> time \<Rightarrow> task_row \<Rightarrow> bool" where
  "renewable task worker now r \<longleftrightarrow>
     t_id r = task \<and> t_status r = Running \<and> t_worker r = Some worker \<and> lease_live now r"

definition renew_lease :: "time \<Rightarrow> task_row \<Rightarrow> task_row" where
  "renew_lease now r = r\<lparr>t_heartbeat := Some now, t_lease := Some (lease_until now)\<rparr>"

text \<open>\<open>heartbeat\<close>: \<open>None\<close> when the task is no longer ours, otherwise its cancel flag.\<close>

definition heartbeat :: "time \<Rightarrow> ident \<Rightarrow> ident \<Rightarrow> task_row list \<Rightarrow> task_row list \<times> bool option" where
  "heartbeat now task worker t =
     (update_where (renewable task worker now) (renew_lease now) t,
      map_option t_cancel (find (renewable task worker now) t))"

text \<open>\<open>finalizeTask\<close>: the compare-and-set against a terminal status, with the owner check only when
  a worker is given. True when the row was updated.\<close>

definition finalizable :: "ident \<Rightarrow> ident option \<Rightarrow> task_row \<Rightarrow> bool" where
  "finalizable task worker r \<longleftrightarrow>
     t_id r = task \<and> \<not> terminal (t_status r) \<and>
     (case worker of None \<Rightarrow> True | Some w \<Rightarrow> t_worker r = Some w)"

definition set_outcome :: "time \<Rightarrow> task_status \<Rightarrow> string option \<Rightarrow> task_row \<Rightarrow> task_row" where
  "set_outcome now status err r = r\<lparr>t_status := status, t_error := err, t_updated := now\<rparr>"

definition finalizeTask ::
  "time \<Rightarrow> ident \<Rightarrow> task_status \<Rightarrow> string option \<Rightarrow> ident option \<Rightarrow> task_row list \<Rightarrow> task_row list \<times> bool" where
  "finalizeTask now task status err worker t =
     (update_where (finalizable task worker) (set_outcome now status err) t,
      0 < length (filter (finalizable task worker) t))"

definition requestCancel :: "time \<Rightarrow> ident \<Rightarrow> task_row list \<Rightarrow> task_row list" where
  "requestCancel now task t =
     update_where (\<lambda>r. t_id r = task) (\<lambda>r. r\<lparr>t_cancel := True, t_updated := now\<rparr>) t"

definition isCancelRequested :: "ident \<Rightarrow> task_row list \<Rightarrow> bool" where
  "isCancelRequested task t =
     (case find_row t_id task t of Some r \<Rightarrow> t_cancel r | None \<Rightarrow> False)"

text \<open>\<open>appendSteer\<close>: the guard of the update holds the whole decision; the probe that tells the two
  refusals apart is a second statement, so it reads a later table \<open>env t\<close>.\<close>

datatype steer_result = SteerOk | SteerTooLate | SteerTooMany

definition steerable :: "ident \<Rightarrow> ident \<Rightarrow> task_row \<Rightarrow> bool" where
  "steerable task user r \<longleftrightarrow>
     t_id r = task \<and> t_user r = user \<and> t_status r = Running \<and>
     length (t_steers r) < STEER_MAX_PER_TURN"

definition add_steer :: "time \<Rightarrow> steer \<Rightarrow> task_row \<Rightarrow> task_row" where
  "add_steer now s r = r\<lparr>t_steers := t_steers r @ [s], t_updated := now\<rparr>"

definition appendSteer ::
  "(task_row list \<Rightarrow> task_row list) \<Rightarrow> time \<Rightarrow> ident \<Rightarrow> ident \<Rightarrow> steer \<Rightarrow> task_row list \<Rightarrow>
   task_row list \<times> steer_result" where
  "appendSteer env now task user s t =
     (if find (steerable task user) t \<noteq> None
      then (update_where (steerable task user) (add_steer now s) t, SteerOk)
      else (let t' = env t in
        (t', case find (\<lambda>r. t_id r = task \<and> t_user r = user) t' of
               Some r \<Rightarrow> if t_status r = Running \<and> STEER_MAX_PER_TURN \<le> length (t_steers r)
                         then SteerTooMany else SteerTooLate
             | None \<Rightarrow> SteerTooLate)))"

definition readSteers :: "ident \<Rightarrow> task_row list \<Rightarrow> steer list" where
  "readSteers task t = (case find_row t_id task t of Some r \<Rightarrow> t_steers r | None \<Rightarrow> [])"

text \<open>The delete of \<open>cancelQueuedTurn\<close> and the \<open>dead\<close> arm of \<open>reconcileZombies\<close>, on the tasks alone;
  the rest of both is in the theory of the turn's outcome.\<close>

definition delete_queued :: "ident \<Rightarrow> task_row list \<Rightarrow> task_row list" where
  "delete_queued task t = delete_where (\<lambda>r. t_id r = task \<and> is_queued r) t"

definition reapable :: "time \<Rightarrow> task_row \<Rightarrow> bool" where
  "reapable now r \<longleftrightarrow> t_status r = Running \<and> lease_dead now r"

definition reap_row :: "time \<Rightarrow> task_row \<Rightarrow> task_row" where
  "reap_row now = set_outcome now Failed (Some ''worker lost (lease expired)'')"

definition reap_tasks :: "time \<Rightarrow> task_row list \<Rightarrow> task_row list" where
  "reap_tasks now t = update_where (reapable now) (reap_row now) t"

lemmas row_updates = take_lease_def renew_lease_def set_outcome_def add_steer_def reap_row_def
lemmas row_guards = renewable_def finalizable_def steerable_def absorb_target_def reapable_def
  claimable_def is_queued_def

end
