(* ===== verification/Queue_Runs.thy ===== *)
theory Queue_Runs
  imports Task_Queue
begin

section \<open>Runs of the task queue: its invariant, exclusion and settled outcomes\<close>

text \<open>
  The step relation of the queue (one rule per statement of \<open>queue.ts\<close> that writes \<open>tasks\<close>), the
  invariant the schema and the statements keep, and what follows along every interleaving: one
  pending turn per chat, one live turn per workspace, and a terminal status that no later
  statement changes.
\<close>

subsection \<open>The invariant and the steps\<close>

definition queue_ok :: "chat_row list \<Rightarrow> task_row list \<Rightarrow> bool" where
  "queue_ok chats t \<longleftrightarrow>
     distinct (map t_id t) \<and> unique_where is_queued t_chat t \<and>
     (\<forall>r \<in> set t. workspace_of chats (t_chat r) \<noteq> None)"

text \<open>
  A claim judges its candidates on the snapshot its statement took, which the table may have left behind by the
  time it takes the row. \<open>sees\<close> says which snapshots a claim may meet: \<open>queue_step\<close> admits every one,
  \<open>seeing_step\<close> those that miss no live turn of a workspace whose advisory lock the claim then obtains - the
  condition the lock is there to bring about and, a claim committing in between, does not.
\<close>

definition sees_live_turns ::
  "chat_row list \<Rightarrow> time \<Rightarrow> (ident \<Rightarrow> bool) \<Rightarrow> task_row list \<Rightarrow> task_row list \<Rightarrow> bool" where
  "sees_live_turns chats now locked snap t \<longleftrightarrow>
     (\<forall>r \<in> set snap. \<forall>x \<in> set t. t_id x = t_id r \<longrightarrow> t_chat x = t_chat r) \<and>
     (\<forall>x \<in> set t. t_status x = Running \<longrightarrow> lease_live now x \<longrightarrow>
        (case workspace_of chats (t_chat x) of None \<Rightarrow> True
         | Some w \<Rightarrow> locked w \<or> workspace_busy chats now snap w))"

inductive queue_step_on ::
  "chat_row list \<Rightarrow> (time \<Rightarrow> (ident \<Rightarrow> bool) \<Rightarrow> task_row list \<Rightarrow> task_row list \<Rightarrow> bool) \<Rightarrow> time \<Rightarrow>
   task_row list \<Rightarrow> task_row list \<Rightarrow> bool"
  for chats :: "chat_row list" and sees :: "time \<Rightarrow> (ident \<Rightarrow> bool) \<Rightarrow> task_row list \<Rightarrow> task_row list \<Rightarrow> bool" where
  enqueue: "insert_queued chats now q t = Inr (t', new) \<Longrightarrow> queue_step_on chats sees now t t'"
| claim: "sees now locked snap t \<Longrightarrow> claimNextTask chats now worker locked skip snap t = (t', res) \<Longrightarrow>
     queue_step_on chats sees now t t'"
| absorb: "queue_step_on chats sees now t (fst (absorbQueuedTasks chat except_id t))"
| beat: "queue_step_on chats sees now t (fst (heartbeat now task worker t))"
| finalize: "terminal status \<Longrightarrow>
     queue_step_on chats sees now t (fst (finalizeTask now task status err worker' t))"
| cancel: "queue_step_on chats sees now t (requestCancel now task t)"
| steer: "queue_step_on chats sees now t (fst (appendSteer id now task user s t))"
| drop: "queue_step_on chats sees now t (delete_queued task t)"
| reap: "queue_step_on chats sees now t (reap_tasks now t)"

abbreviation queue_step :: "chat_row list \<Rightarrow> time \<Rightarrow> task_row list \<Rightarrow> task_row list \<Rightarrow> bool" where
  "queue_step chats \<equiv> queue_step_on chats (\<lambda>_ _ _ _. True)"

abbreviation seeing_step :: "chat_row list \<Rightarrow> time \<Rightarrow> task_row list \<Rightarrow> task_row list \<Rightarrow> bool" where
  "seeing_step chats \<equiv> queue_step_on chats (sees_live_turns chats)"

inductive_cases queue_stepE: "queue_step chats now t t'"

text \<open>The shape of every update: the row keeps its id, its chat and its creation time, and no update
  puts a row back in the queue.\<close>

definition keeps_identity :: "(task_row \<Rightarrow> task_row) \<Rightarrow> bool" where
  "keeps_identity f \<longleftrightarrow>
     (\<forall>r. t_id (f r) = t_id r \<and> t_chat (f r) = t_chat r \<and> (is_queued (f r) \<longrightarrow> is_queued r))"

lemma keeps_identity_rows [simp]:
  "keeps_identity (take_lease now worker)"
  "keeps_identity (renew_lease now)"
  "terminal status \<Longrightarrow> keeps_identity (set_outcome now status err)"
  "keeps_identity (add_steer now s)"
  "keeps_identity (reap_row now)"
  "keeps_identity (\<lambda>r. r\<lparr>t_cancel := True, t_updated := now\<rparr>)"
  by (auto simp: keeps_identity_def row_updates is_queued_def)

lemma queue_ok_update:
  assumes "queue_ok chats t" and "keeps_identity f"
  shows "queue_ok chats (update_where P f t)"
proof -
  have f: "\<And>r. t_id (f r) = t_id r" "\<And>r. t_chat (f r) = t_chat r"
    "\<And>r. is_queued (f r) \<Longrightarrow> is_queued r"
    using assms(2) by (auto simp: keeps_identity_def)
  from assms(1) show ?thesis
    by (auto simp: queue_ok_def keys_update_where f intro: unique_where_update f)
qed

lemma queue_ok_delete: "queue_ok chats t \<Longrightarrow> queue_ok chats (delete_where P t)"
  by (auto simp: queue_ok_def intro: unique_where_delete)

lemma queued_of_None_iff: "queued_of chat t = None \<longleftrightarrow> (\<forall>r \<in> set t. t_chat r = chat \<longrightarrow> \<not> is_queued r)"
  by (auto simp: queued_of_def find_None_iff)

lemma queued_of_SomeD: "queued_of chat t = Some r \<Longrightarrow> r \<in> set t \<and> t_chat r = chat \<and> is_queued r"
  by (auto simp: queued_of_def find_Some_iff)

lemma insert_queued_cases:
  assumes "insert_queued chats now q t = Inr (t', new)"
  obtains (conflict) r where "t' = t" "new = None" "queued_of (q_chat q) t = Some r"
  | (inserted) "t' = t @ [new_task now q]" "new = Some (q_id q)" "queued_of (q_chat q) t = None"
      "q_id q \<notin> t_id ` set t" "find_row c_id (q_chat q) chats \<noteq> None"
  using assms by (auto simp: insert_queued_def find_row_None_iff split: if_splits)

lemma new_task_simps [simp]:
  "t_id (new_task now q) = q_id q" "t_chat (new_task now q) = q_chat q"
  "t_status (new_task now q) = Queued" "is_queued (new_task now q)"
  "t_lease (new_task now q) = None"
  by (simp_all add: new_task_def is_queued_def)

lemma queue_ok_insert:
  assumes "queue_ok chats t" and "insert_queued chats now q t = Inr (t', new)"
  shows "queue_ok chats t'"
  using assms(2)
proof (cases rule: insert_queued_cases)
  case conflict
  with assms(1) show ?thesis by simp
next
  case inserted
  have "workspace_of chats (q_chat q) \<noteq> None"
    using inserted(5) by (auto simp: workspace_of_def)
  with assms(1) inserted show ?thesis
    by (auto simp: queue_ok_def unique_where_append1 queued_of_None_iff)
qed

lemma claim_cases:
  assumes "claimNextTask chats now worker locked skip snap t = (t', res)"
  obtains (none) "t' = t" "res = None"
  | (some) r where "r \<in> set snap" "claimable chats now locked snap r" "\<not> skip (t_id r)"
      "\<exists>c \<in> set t. t_id c = t_id r \<and> is_queued c"
      "t' = update_where (\<lambda>x. t_id x = t_id r) (take_lease now worker) t"
      "res = find_row t_id (t_id r) t'"
proof (cases "first_by t_created
    (filter (\<lambda>r. claimable chats now locked snap r \<and> \<not> skip (t_id r) \<and>
       (\<exists>c \<in> set t. t_id c = t_id r \<and> is_queued c)) snap)")
  case None
  with assms show thesis by (intro none) (auto simp: claimNextTask_def)
next
  case (Some r)
  from first_by_in [OF this] Some assms show thesis
    by (intro some [of r]) (auto simp: claimNextTask_def Let_def)
qed

lemma appendSteer_fst:
  "fst (appendSteer id now task user s t) = update_where (steerable task user) (add_steer now s) t"
  by (auto simp: appendSteer_def Let_def find_None_iff update_where_none)

lemma queue_ok_step: "queue_step_on chats sees now t t' \<Longrightarrow> queue_ok chats t \<Longrightarrow> queue_ok chats t'"
proof (induction rule: queue_step_on.induct)
  case (enqueue now q t t' new)
  then show ?case by (blast intro: queue_ok_insert)
next
  case (claim now locked snap t worker skip t' res)
  from claim(2) show ?case
    by (cases rule: claim_cases) (use claim(3) in \<open>auto intro: queue_ok_update\<close>)
qed (auto simp: absorbQueuedTasks_def heartbeat_def finalizeTask_def requestCancel_def
    appendSteer_fst delete_queued_def reap_tasks_def intro: queue_ok_update queue_ok_delete)

subsection \<open>Live leases and their owners\<close>

text \<open>Task \<open>h\<close> has the live turn of workspace \<open>w\<close>.\<close>

definition runs_in :: "chat_row list \<Rightarrow> task_row list \<Rightarrow> time \<Rightarrow> ident \<Rightarrow> ident \<Rightarrow> bool" where
  "runs_in chats t now h w \<longleftrightarrow>
     (\<exists>r \<in> set t. t_id r = h \<and> t_status r = Running \<and> lease_live now r \<and>
        workspace_of chats (t_chat r) = Some w)"

lemma lease_live_mono: "lease_live now' r \<Longrightarrow> now \<le> now' \<Longrightarrow> lease_live now r"
  by (auto simp: lease_live_def split: option.splits)

lemma workspace_busy_iff: "workspace_busy chats now t w \<longleftrightarrow> (\<exists>h. runs_in chats t now h w)"
  by (auto simp: workspace_busy_def runs_in_def)

text \<open>An update that neither starts a turn nor revives a lapsed lease creates no owner.\<close>

lemma runs_in_update:
  assumes "keeps_identity f"
    and "\<And>r. P r \<Longrightarrow> t_status (f r) = Running \<Longrightarrow> lease_live now (f r) \<Longrightarrow>
      t_status r = Running \<and> lease_live now r"
    and "runs_in chats (update_where P f t) now h w"
  shows "runs_in chats t now h w"
proof -
  from assms(3) obtain r where r: "r \<in> set t" "t_id (if P r then f r else r) = h"
    "t_status (if P r then f r else r) = Running" "lease_live now (if P r then f r else r)"
    "workspace_of chats (t_chat (if P r then f r else r)) = Some w"
    by (auto simp: runs_in_def)
  with assms(1,2) show ?thesis
    by (cases "P r") (auto simp: runs_in_def keeps_identity_def)
qed

lemma runs_in_delete: "runs_in chats (delete_where P t) now h w \<Longrightarrow> runs_in chats t now h w"
  by (auto simp: runs_in_def)

lemma runs_in_insert:
  "insert_queued chats now q t = Inr (t', new) \<Longrightarrow> runs_in chats t' now h w \<Longrightarrow> runs_in chats t now h w"
  by (erule insert_queued_cases) (auto simp: runs_in_def)

text \<open>The claim's guard: the new owner's workspace was free in the snapshot.\<close>

lemma runs_in_claim:
  assumes ok: "queue_ok chats t" and sees: "sees_live_turns chats now locked snap t"
    and claim: "claimNextTask chats now worker locked skip snap t = (t', res)"
    and new: "runs_in chats t' now h w" and old: "\<not> runs_in chats t now h w"
  shows "(\<forall>h'. \<not> runs_in chats t now h' w) \<and> (\<forall>h'. runs_in chats t' now h' w \<longrightarrow> h' = h)"
  using claim
proof (cases rule: claim_cases)
  case none
  with new old show ?thesis by simp
next
  case (some r)
  have from_t': "(h' = t_id r \<and> workspace_of chats (t_chat r) = Some w') \<or> runs_in chats t now h' w'"
    if "runs_in chats t' now h' w'" for h' w'
  proof -
    from that obtain x where x: "x \<in> set t"
      and x': "t_id x = h'" "workspace_of chats (t_chat x) = Some w'"
      and live: "t_id x \<noteq> t_id r \<Longrightarrow> t_status x = Running \<and> lease_live now x"
      unfolding some(5) by (auto simp: runs_in_def take_lease_def split: if_splits)
    show ?thesis
    proof (cases "t_id x = t_id r")
      case True
      with sees x(1) some(1) have "t_chat x = t_chat r" unfolding sees_live_turns_def by blast
      with True x' show ?thesis by simp
    next
      case False
      with live x x' show ?thesis by (auto simp: runs_in_def)
    qed
  qed
  from from_t' [OF new] old have h: "h = t_id r" "workspace_of chats (t_chat r) = Some w" by auto
  then have guard: "\<not> locked w" "\<not> workspace_busy chats now snap w" using some(2) by (auto simp: claimable_def)
  have free: "\<not> runs_in chats t now h' w" for h'
  proof
    assume "runs_in chats t now h' w"
    then obtain x where "x \<in> set t" "t_status x = Running" "lease_live now x" "workspace_of chats (t_chat x) = Some w"
      by (auto simp: runs_in_def)
    with sees guard show False unfolding sees_live_turns_def by (metis option.simps(5))
  qed
  with from_t' h show ?thesis by blast
qed

lemma runs_in_grant:
  assumes "seeing_step chats now t t'" and "queue_ok chats t"
    and "runs_in chats t' now h w" and "\<not> runs_in chats t now h w"
  shows "(\<forall>h'. \<not> runs_in chats t now h' w) \<and> (\<forall>h'. runs_in chats t' now h' w \<longrightarrow> h' = h)"
  using assms
proof (cases rule: queue_step_on.cases)
  case (claim locked snap worker skip res)
  from runs_in_claim [OF assms(2) claim assms(3,4)] show ?thesis .
next
  case (enqueue q new)
  with assms show ?thesis by (blast dest: runs_in_insert)
next
  case (absorb chat except_id)
  with assms show ?thesis by (auto simp: absorbQueuedTasks_def dest: runs_in_delete)
next
  case (drop task)
  with assms show ?thesis by (auto simp: delete_queued_def dest: runs_in_delete)
next
  case (beat task worker)
  have "runs_in chats t now h w"
    by (rule runs_in_update [where P = "renewable task worker now" and f = "renew_lease now"])
      (use assms(3) beat in \<open>auto simp: heartbeat_def renewable_def\<close>)
  with assms(4) show ?thesis ..
next
  case (finalize status task err worker')
  have "runs_in chats t now h w"
    by (rule runs_in_update [where P = "finalizable task worker'" and f = "set_outcome now status err"])
      (use assms(3) finalize in \<open>auto simp: finalizeTask_def set_outcome_def\<close>)
  with assms(4) show ?thesis ..
next
  case (cancel task)
  have "runs_in chats t now h w"
    by (rule runs_in_update [where P = "\<lambda>r. t_id r = task" and f = "\<lambda>r. r\<lparr>t_cancel := True, t_updated := now\<rparr>"])
      (use assms(3) cancel in \<open>auto simp: requestCancel_def lease_live_def\<close>)
  with assms(4) show ?thesis ..
next
  case (steer task user s)
  have "runs_in chats t now h w"
    by (rule runs_in_update [where P = "steerable task user" and f = "add_steer now s"])
      (use assms(3) steer in \<open>auto simp: appendSteer_fst add_steer_def lease_live_def\<close>)
  with assms(4) show ?thesis ..
next
  case reap
  have "runs_in chats t now h w"
    by (rule runs_in_update [where P = "reapable now" and f = "reap_row now"])
      (use assms(3) reap in \<open>auto simp: reap_tasks_def reap_row_def set_outcome_def\<close>)
  with assms(4) show ?thesis ..
qed

interpretation workspace: lease_exclusion "seeing_step chats" "queue_ok chats" "runs_in chats"
  for chats
proof unfold_locales
  show "seeing_step chats now s s' \<Longrightarrow> queue_ok chats s \<Longrightarrow> queue_ok chats s'" for now s s'
    by (rule queue_ok_step)
  show "now \<le> now' \<Longrightarrow> runs_in chats s now' h r \<Longrightarrow> runs_in chats s now h r" for now now' s h r
    by (auto simp: runs_in_def intro: lease_live_mono)
qed (blast dest: runs_in_grant)+


subsection \<open>Settled outcomes\<close>

definition task_verdict :: "task_row list \<Rightarrow> ident \<Rightarrow> (task_status \<times> string option) option" where
  "task_verdict t k =
     (case find_row t_id k t of
        Some r \<Rightarrow> if terminal (t_status r) then Some (t_status r, t_error r) else None
      | None \<Rightarrow> None)"

lemma task_verdict_Some:
  "task_verdict t k = Some v \<longleftrightarrow>
     (\<exists>r. find_row t_id k t = Some r \<and> terminal (t_status r) \<and> v = (t_status r, t_error r))"
  by (auto simp: task_verdict_def split: option.splits)

lemma task_verdict_update:
  assumes "keeps_identity f"
    and "\<And>r. r \<in> set t \<Longrightarrow> P r \<Longrightarrow> terminal (t_status r) \<Longrightarrow>
      t_status (f r) = t_status r \<and> t_error (f r) = t_error r"
    and "task_verdict t k = Some v"
  shows "task_verdict (update_where P f t) k = Some v"
proof -
  from assms(3) obtain r where r: "find_row t_id k t = Some r" "terminal (t_status r)"
    "v = (t_status r, t_error r)" by (auto simp: task_verdict_Some)
  have "find_row t_id k (update_where P f t) = Some (if P r then f r else r)"
    using assms(1) r(1) by (simp add: find_row_update_where keeps_identity_def)
  with r assms(2) [of r] find_row_SomeD [OF r(1)] show ?thesis
    by (auto simp: task_verdict_Some)
qed

lemma task_verdict_delete:
  assumes "queue_ok chats t" and "\<And>r. P r \<Longrightarrow> is_queued r" and "task_verdict t k = Some v"
  shows "task_verdict (delete_where P t) k = Some v"
proof -
  from assms(3) obtain r where r: "find_row t_id k t = Some r" "terminal (t_status r)"
    "v = (t_status r, t_error r)" by (auto simp: task_verdict_Some)
  then have "\<not> P r" using assms(2) [of r] by (auto simp: is_queued_def)
  with r assms(1) show ?thesis
    by (auto simp: task_verdict_Some queue_ok_def find_row_delete_where)
qed

lemma task_verdict_step:
  assumes "queue_step chats now t t'" and "queue_ok chats t" and "task_verdict t k = Some v"
  shows "task_verdict t' k = Some v"
  using assms(1)
proof (cases rule: queue_step_on.cases)
  case (enqueue q new)
  then show ?thesis
    by (cases rule: insert_queued_cases)
      (use assms(3) in \<open>auto simp: task_verdict_def find_row_append split: option.splits\<close>)
next
  case (claim locked snap worker skip res)
  from claim(2) show ?thesis
  proof (cases rule: claim_cases)
    case none
    with assms(3) show ?thesis by simp
  next
    case (some r)
    then obtain c where c: "c \<in> set t" "t_id c = t_id r" "is_queued c" by auto
    have "\<not> terminal (t_status x)" if "x \<in> set t" "t_id x = t_id r" for x
      using same_key_same_row [of t_id t x c] that c assms(2)
      by (auto simp: queue_ok_def is_queued_def)
    then show ?thesis
      unfolding some(5) by (intro task_verdict_update assms(3)) auto
  qed
next
  case (absorb chat except_id)
  with assms show ?thesis
    by (auto simp: absorbQueuedTasks_def absorb_target_def intro: task_verdict_delete)
next
  case (drop task)
  with assms show ?thesis by (auto simp: delete_queued_def intro: task_verdict_delete)
next
  case (beat task worker)
  with assms show ?thesis
    by (auto simp: heartbeat_def renew_lease_def intro!: task_verdict_update)
next
  case (finalize status task err worker')
  with assms show ?thesis
    by (auto simp: finalizeTask_def finalizable_def intro!: task_verdict_update)
next
  case (cancel task)
  with assms show ?thesis by (auto simp: requestCancel_def intro!: task_verdict_update)
next
  case (steer task user s)
  with assms show ?thesis
    by (auto simp: appendSteer_fst add_steer_def intro!: task_verdict_update)
next
  case reap
  with assms show ?thesis
    by (auto simp: reap_tasks_def reapable_def intro!: task_verdict_update)
qed

interpretation outcome: settle_once "queue_step chats" "queue_ok chats" "\<lambda>t now. task_verdict t"
  for chats
  by unfold_locales (auto intro: task_verdict_step queue_ok_step)

text \<open>A started turn whose lease has lapsed: its row is neither queued nor live.\<close>

definition stood_down :: "task_row list \<Rightarrow> time \<Rightarrow> ident \<Rightarrow> unit option" where
  "stood_down t now k =
     (case find_row t_id k t of
        Some r \<Rightarrow> if \<not> is_queued r \<and> \<not> (t_status r = Running \<and> lease_live now r) then Some () else None
      | None \<Rightarrow> None)"

lemma stood_down_Some:
  "stood_down t now k = Some v \<longleftrightarrow>
     (\<exists>r. find_row t_id k t = Some r \<and> \<not> is_queued r \<and> \<not> (t_status r = Running \<and> lease_live now r))"
  by (auto simp: stood_down_def split: option.splits)

lemma stood_down_update:
  assumes "keeps_identity f"
    and "\<And>r. r \<in> set t \<Longrightarrow> P r \<Longrightarrow> \<not> is_queued r \<Longrightarrow> t_status (f r) = Running \<Longrightarrow>
      lease_live now (f r) \<Longrightarrow> t_status r = Running \<and> lease_live now r"
    and "stood_down t now k = Some v"
  shows "stood_down (update_where P f t) now k = Some v"
proof -
  from assms(3) obtain r where r: "find_row t_id k t = Some r" "\<not> is_queued r"
    "\<not> (t_status r = Running \<and> lease_live now r)" by (auto simp: stood_down_Some)
  have "find_row t_id k (update_where P f t) = Some (if P r then f r else r)"
    using assms(1) r(1) by (simp add: find_row_update_where keeps_identity_def)
  moreover have "\<not> is_queued (f r)" using assms(1) r(2) by (auto simp: keeps_identity_def)
  ultimately show ?thesis
    using r assms(2) [of r] find_row_SomeD [OF r(1)] by (auto simp: stood_down_Some)
qed

lemma stood_down_delete:
  assumes "queue_ok chats t" and "\<And>r. P r \<Longrightarrow> is_queued r" and "stood_down t now k = Some v"
  shows "stood_down (delete_where P t) now k = Some v"
proof -
  from assms(3) obtain r where r: "find_row t_id k t = Some r" "\<not> is_queued r"
    "\<not> (t_status r = Running \<and> lease_live now r)" by (auto simp: stood_down_Some)
  then have "\<not> P r" using assms(2) [of r] by auto
  with r assms(1) show ?thesis
    by (auto simp: stood_down_Some queue_ok_def find_row_delete_where)
qed

lemma stood_down_step:
  assumes "queue_step chats now t t'" and "queue_ok chats t" and "stood_down t now k = Some v"
  shows "stood_down t' now k = Some v"
  using assms(1)
proof (cases rule: queue_step_on.cases)
  case (enqueue q new)
  then show ?thesis
    by (cases rule: insert_queued_cases)
      (use assms(3) in \<open>auto simp: stood_down_def find_row_append split: option.splits\<close>)
next
  case (claim locked snap worker skip res)
  from claim(2) show ?thesis
  proof (cases rule: claim_cases)
    case none
    with assms(3) show ?thesis by simp
  next
    case (some r)
    then obtain c where c: "c \<in> set t" "t_id c = t_id r" "is_queued c" by auto
    have "is_queued x" if "x \<in> set t" "t_id x = t_id r" for x
      using same_key_same_row [of t_id t x c] that c assms(2) by (auto simp: queue_ok_def)
    then show ?thesis
      unfolding some(5) by (intro stood_down_update assms(3)) auto
  qed
next
  case (absorb chat except_id)
  with assms show ?thesis
    by (auto simp: absorbQueuedTasks_def absorb_target_def intro: stood_down_delete)
next
  case (drop task)
  with assms show ?thesis by (auto simp: delete_queued_def intro: stood_down_delete)
next
  case (beat task worker)
  with assms show ?thesis
    by (auto simp: heartbeat_def renewable_def intro!: stood_down_update)
next
  case (finalize status task err worker')
  with assms show ?thesis
    by (auto simp: finalizeTask_def set_outcome_def intro!: stood_down_update)
next
  case (cancel task)
  with assms show ?thesis
    by (auto simp: requestCancel_def lease_live_def intro!: stood_down_update)
next
  case (steer task user s)
  with assms show ?thesis
    by (auto simp: appendSteer_fst add_steer_def lease_live_def intro!: stood_down_update)
next
  case reap
  with assms show ?thesis
    by (auto simp: reap_tasks_def reap_row_def set_outcome_def intro!: stood_down_update)
qed

lemma stood_down_lapse:
  "now \<le> now' \<Longrightarrow> stood_down t now k = Some v \<Longrightarrow> stood_down t now' k = Some v"
  by (auto simp: stood_down_Some dest: lease_live_mono)

interpretation lapsed: settle_once "queue_step chats" "queue_ok chats" stood_down for chats
  by unfold_locales (auto intro: stood_down_step stood_down_lapse queue_ok_step)

subsection \<open>Steers\<close>

definition steers_ok :: "task_row list \<Rightarrow> bool" where
  "steers_ok t \<longleftrightarrow> (\<forall>r \<in> set t. length (t_steers r) \<le> STEER_MAX_PER_TURN)"

lemma steers_ok_update:
  "steers_ok t \<Longrightarrow> (\<And>r. P r \<Longrightarrow> length (t_steers r) \<le> STEER_MAX_PER_TURN \<Longrightarrow>
     length (t_steers (f r)) \<le> STEER_MAX_PER_TURN) \<Longrightarrow> steers_ok (update_where P f t)"
  by (auto simp: steers_ok_def)

lemma steers_ok_step: "queue_step chats now t t' \<Longrightarrow> steers_ok t \<Longrightarrow> steers_ok t'"
proof (induction rule: queue_step_on.induct)
  case (enqueue now q t t' new)
  from enqueue(1) show ?case
    by (cases rule: insert_queued_cases)
      (use enqueue(2) in \<open>auto simp: steers_ok_def new_task_def\<close>)
next
  case (claim now locked snap t worker skip t' res)
  from claim(2) show ?case
    by (cases rule: claim_cases) (use claim(3) in \<open>auto simp: take_lease_def intro: steers_ok_update\<close>)
next
  case (absorb now t chat except_id)
  then show ?case by (auto simp: absorbQueuedTasks_def steers_ok_def)
next
  case (drop now t task)
  then show ?case by (auto simp: delete_queued_def steers_ok_def)
qed (auto simp: heartbeat_def finalizeTask_def requestCancel_def appendSteer_fst reap_tasks_def
    row_updates steerable_def intro!: steers_ok_update)

end
