(* ===== verification/Queue_Theorems.thy ===== *)
theory Queue_Theorems
  imports Queue_Runs
begin

section \<open>What the task queue guarantees\<close>

text \<open>The properties of the queue, each with a concrete run or table at which its hypotheses hold.
  The tables named \<open>demo_*\<close> are those concrete inputs and model nothing.\<close>

subsection \<open>Concrete tables\<close>

definition demo_chat :: "ident \<Rightarrow> ident option \<Rightarrow> chat_row" where
  "demo_chat cid project =
     \<lparr>c_id = cid, c_user = ''u'', c_project = project, c_title = None, c_model = None,
      c_active_leaf = None, c_visibility = ''private'', c_share_token = None, c_updated = 0\<rparr>"

definition demo_input :: "ident \<Rightarrow> ident \<Rightarrow> enqueue_input" where
  "demo_input task chat =
     \<lparr>q_id = task, q_chat = chat, q_user = ''u'', q_payload = \<lparr>pl_resume = None, pl_rest = JNull\<rparr>\<rparr>"

definition demo_queued :: "ident \<Rightarrow> ident \<Rightarrow> time \<Rightarrow> task_row" where
  "demo_queued task chat now = new_task now (demo_input task chat)"

definition demo_running :: "ident \<Rightarrow> ident \<Rightarrow> ident \<Rightarrow> time \<Rightarrow> task_row" where
  "demo_running task chat worker now = take_lease now worker (demo_queued task chat now)"

text \<open>Two chats of one project, so of one workspace, and a third chat on its own.\<close>

definition demo_chats :: "chat_row list" where
  "demo_chats = [demo_chat ''c1'' (Some ''p''), demo_chat ''c2'' (Some ''p''), demo_chat ''c3'' None]"

lemmas demo_defs = demo_chats_def demo_chat_def demo_queued_def demo_running_def demo_input_def
  new_task_def take_lease_def lease_until_def LEASE_SECONDS_def

lemma demo_workspaces [simp]:
  "workspace_of demo_chats ''c1'' = Some ''p''"
  "workspace_of demo_chats ''c2'' = Some ''p''"
  "workspace_of demo_chats ''c3'' = Some ''c3''"
  by (simp_all add: demo_defs workspace_of_def)

subsection \<open>Exclusion\<close>

text \<open>
  Property C1. Along every interleaving of the queue's statements and the passage of time in which no claim's
  snapshot misses a live turn of a workspace whose lock it obtains, at most one running task of a workspace
  (a project, or a chat outside projects) holds an unexpired lease. Snapshots may be stale in every other way;
  without that condition two turns can run (\<open>stale_snapshot_claims_twice\<close>).
\<close>

theorem one_turn_per_workspace:
  assumes "timed_run (seeing_step chats) (t0, s0) (t1, s1)" and "queue_ok chats s0"
    and "\<forall>h h' w. runs_in chats s0 t0 h w \<longrightarrow> runs_in chats s0 t0 h' w \<longrightarrow> h = h'"
    and "runs_in chats s1 t1 a w" and "runs_in chats s1 t1 b w"
  shows "a = b"
  using workspace.one_holder_run [OF assms(1-3)] assms(4,5) by blast

lemma demo_claim_run:
  "timed_run (seeing_step demo_chats) (0, [demo_queued ''t1'' ''c1'' 0, demo_queued ''t2'' ''c2'' 1])
     (5, [demo_running ''t1'' ''c1'' ''w'' 0, demo_queued ''t2'' ''c2'' 1])"
proof -
  have "seeing_step demo_chats 0 [demo_queued ''t1'' ''c1'' 0, demo_queued ''t2'' ''c2'' 1]
      [demo_running ''t1'' ''c1'' ''w'' 0, demo_queued ''t2'' ''c2'' 1]"
    by (rule queue_step_on.claim [where snap = "[demo_queued ''t1'' ''c1'' 0, demo_queued ''t2'' ''c2'' 1]" and worker = "''w''" and locked = "\<lambda>_. False" and skip = "\<lambda>_. False"])
      (simp_all add: sees_live_turns_def claimNextTask_def claimable_def workspace_busy_def is_queued_def
        demo_queued_def demo_running_def demo_input_def new_task_def take_lease_def)
  then show ?thesis by (rule timed_run_one) simp
qed

lemma demo_queue_ok:
  "queue_ok demo_chats [demo_queued ''t1'' ''c1'' 0, demo_queued ''t2'' ''c2'' 1]"
  by (simp add: queue_ok_def unique_where_def demo_queued_def demo_input_def new_task_def is_queued_def)

theorem one_turn_per_workspace_witness:
  "{b. runs_in demo_chats [demo_running ''t1'' ''c1'' ''w'' 0, demo_queued ''t2'' ''c2'' 1] 5 b ''p''} = {''t1''}"
proof -
  have live: "runs_in demo_chats [demo_running ''t1'' ''c1'' ''w'' 0, demo_queued ''t2'' ''c2'' 1] 5 ''t1'' ''p''"
    by (simp add: runs_in_def lease_live_def demo_running_def demo_queued_def demo_input_def
        new_task_def take_lease_def queue_consts)
  have idle: "\<forall>h h' w. runs_in demo_chats [demo_queued ''t1'' ''c1'' 0, demo_queued ''t2'' ''c2'' 1] 0 h w \<longrightarrow>
      runs_in demo_chats [demo_queued ''t1'' ''c1'' 0, demo_queued ''t2'' ''c2'' 1] 0 h' w \<longrightarrow> h = h'"
    by (simp add: runs_in_def demo_queued_def demo_input_def new_task_def)
  show ?thesis
    using live one_turn_per_workspace [OF demo_claim_run demo_queue_ok idle live] by blast
qed

text \<open>
  The advisory lock does not close the two-worker race: a claim whose statement snapshot
  was taken before another claim committed finds the workspace free and its lock released, and starts
  a second live turn in it. Here both workers read the snapshot with two queued turns of one project.
\<close>

theorem stale_snapshot_claims_twice:
  "\<exists>snap t1 t2 a b.
     queue_ok demo_chats snap \<and>
     claimNextTask demo_chats 0 ''w1'' (\<lambda>_. False) (\<lambda>_. False) snap snap = (t1, Some a) \<and>
     claimNextTask demo_chats 0 ''w2'' (\<lambda>_. False) (\<lambda>_. False) snap t1 = (t2, Some b) \<and>
     t_id a \<noteq> t_id b \<and> runs_in demo_chats t2 0 (t_id a) ''p'' \<and> runs_in demo_chats t2 0 (t_id b) ''p''"
proof (intro exI conjI)
  let ?snap = "[demo_queued ''t1'' ''c1'' 0, demo_queued ''t2'' ''c2'' 1]"
  let ?t1 = "[demo_running ''t1'' ''c1'' ''w1'' 0, demo_queued ''t2'' ''c2'' 1]"
  let ?b = "take_lease 0 ''w2'' (demo_queued ''t2'' ''c2'' 1)"
  let ?t2 = "[demo_running ''t1'' ''c1'' ''w1'' 0, ?b]"
  note defs = claimNextTask_def claimable_def workspace_busy_def is_queued_def
    demo_queued_def demo_running_def demo_input_def new_task_def take_lease_def
  show "queue_ok demo_chats ?snap" by (rule demo_queue_ok)
  show "claimNextTask demo_chats 0 ''w1'' (\<lambda>_. False) (\<lambda>_. False) ?snap ?snap =
      (?t1, Some (demo_running ''t1'' ''c1'' ''w1'' 0))"
    by (simp add: defs)
  show "claimNextTask demo_chats 0 ''w2'' (\<lambda>_. False) (\<lambda>_. False) ?snap ?t1 = (?t2, Some ?b)"
    by (simp add: defs)
  show "t_id (demo_running ''t1'' ''c1'' ''w1'' 0) \<noteq> t_id ?b" by (simp add: defs)
  show "runs_in demo_chats ?t2 0 (t_id (demo_running ''t1'' ''c1'' ''w1'' 0)) ''p''"
    by (simp add: runs_in_def lease_live_def queue_consts defs)
  show "runs_in demo_chats ?t2 0 (t_id ?b) ''p''"
    by (simp add: runs_in_def lease_live_def queue_consts defs)
qed

subsection \<open>Progress of claims\<close>

text \<open>A queued task that no other transaction has locked, in a workspace whose lock is free and where no task runs.\<close>

definition startable ::
  "chat_row list \<Rightarrow> time \<Rightarrow> (ident \<Rightarrow> bool) \<Rightarrow> (ident \<Rightarrow> bool) \<Rightarrow> task_row list \<Rightarrow> task_row \<Rightarrow> bool" where
  "startable chats now locked skip t q \<longleftrightarrow> t_status q = Queued \<and> \<not> skip (t_id q) \<and>
     (\<exists>w. workspace_of chats (t_chat q) = Some w \<and> \<not> locked w \<and> (\<forall>h. \<not> runs_in chats t now h w))"

lemma startable_iff:
  "startable chats now locked skip t q \<longleftrightarrow> claimable chats now locked t q \<and> \<not> skip (t_id q)"
  by (auto simp: startable_def claimable_def is_queued_def workspace_busy_iff split: option.splits)

text \<open>
  Property C14. A claim that meets the current table starts a turn exactly when some task can be started - it is
  queued, its row is not locked, and in its workspace, whose lock is free, no task holds a live lease (so a crashed
  worker blocks its workspace only until its lease lapses). It then takes an oldest of those tasks, leaves it
  running under the claiming worker with a lease of sixty seconds and one more attempt, and changes no other row;
  otherwise it changes nothing.
\<close>

theorem claim_makes_progress:
  assumes "queue_ok chats t" and "claimNextTask chats now worker locked skip t t = (t', res)"
  shows "case res of
      None \<Rightarrow> t' = t \<and> (\<forall>q \<in> set t. \<not> startable chats now locked skip t q)
    | Some r \<Rightarrow> \<exists>q \<in> set t. startable chats now locked skip t q \<and>
        (\<forall>x \<in> set t. startable chats now locked skip t x \<longrightarrow> t_created q \<le> t_created x) \<and>
        r = q\<lparr>t_status := Running, t_worker := Some worker, t_lease := Some (now + 60000), t_heartbeat := Some now,
          t_attempts := Suc (t_attempts q), t_updated := now\<rparr> \<and>
        t' = map (\<lambda>x. if t_id x = t_id q then r else x) t"
proof -
  let ?cands = "filter (\<lambda>r. claimable chats now locked t r \<and> \<not> skip (t_id r) \<and>
    (\<exists>c \<in> set t. t_id c = t_id r \<and> is_queued c)) t"
  have cands: "x \<in> set ?cands \<longleftrightarrow> x \<in> set t \<and> startable chats now locked skip t x" for x
    by (auto simp: startable_iff claimable_def)
  show ?thesis
  proof (cases "first_by t_created ?cands")
    case None
    then have "?cands = []" by (simp only: first_by_None_iff)
    then have "\<forall>q \<in> set t. \<not> startable chats now locked skip t q" using cands by (metis list.set(1) empty_iff)
    with None assms(2) show ?thesis by (auto simp: claimNextTask_def)
  next
    case (Some q)
    have q: "q \<in> set t" "startable chats now locked skip t q" using cands first_by_in [OF Some] by blast+
    have least: "\<forall>x \<in> set t. startable chats now locked skip t x \<longrightarrow> t_created q \<le> t_created x"
      using cands first_by_least [OF Some] by blast
    let ?u = "update_where (\<lambda>x. t_id x = t_id q) (take_lease now worker) t"
    have "find_row t_id (t_id q) t = Some q" using q(1) assms(1) by (auto simp: queue_ok_def find_row_Some_iff)
    then have "find_row t_id (t_id q) ?u = Some (take_lease now worker q)"
      by (simp add: find_row_update_where take_lease_def)
    then have out: "t' = ?u" "res = Some (take_lease now worker q)"
      using Some assms(2) by (auto simp: claimNextTask_def Let_def)
    have "x = q" if "x \<in> set t" "t_id x = t_id q" for x
      using assms(1) q(1) that by (auto simp: queue_ok_def intro: same_key_same_row)
    then have "?u = map (\<lambda>x. if t_id x = t_id q then take_lease now worker q else x) t"
      by (auto simp: update_where_def)
    with q least show ?thesis unfolding out option.case
      by (intro bexI [of _ q]) (simp_all add: take_lease_def queue_consts)
  qed
qed

theorem claim_makes_progress_witness:
  "\<exists>r. claimNextTask demo_chats 70000 ''w2'' (\<lambda>_. False) (\<lambda>_. False)
       [demo_running ''t1'' ''c1'' ''w'' 0, demo_queued ''t2'' ''c2'' 1]
       [demo_running ''t1'' ''c1'' ''w'' 0, demo_queued ''t2'' ''c2'' 1] =
       ([demo_running ''t1'' ''c1'' ''w'' 0, r], Some r) \<and> t_id r = ''t2'' \<and> t_lease r = Some 130000"
proof -
  let ?t = "[demo_running ''t1'' ''c1'' ''w'' 0, demo_queued ''t2'' ''c2'' 1]"
  note defs = demo_running_def demo_queued_def demo_input_def new_task_def take_lease_def queue_consts
  have ok: "queue_ok demo_chats ?t"
    by (simp add: queue_ok_def unique_where_def is_queued_def defs)
  have can: "startable demo_chats 70000 (\<lambda>_. False) (\<lambda>_. False) ?t x \<longleftrightarrow> x = demo_queued ''t2'' ''c2'' 1" if "x \<in> set ?t" for x
    using that by (auto simp: startable_def runs_in_def lease_live_def defs)
  obtain t' res where run: "claimNextTask demo_chats 70000 ''w2'' (\<lambda>_. False) (\<lambda>_. False) ?t ?t = (t', res)"
    by (rule prod.exhaust)
  from claim_makes_progress [OF ok run] can run show ?thesis
    by (cases res) (auto simp: defs)
qed

subsection \<open>Outcomes\<close>

text \<open>
  Property C5. The first terminal status of a task stands: once a task is completed, failed or
  cancelled, its status and its error stay what they are along every later run of claims, heartbeats,
  finalizations, cancellations, steers, deletions and reaps by any process.
\<close>

theorem first_outcome_stands:
  assumes "timed_run (queue_step chats) (t0, s0) (t1, s1)" and "queue_ok chats s0"
    and "find_row t_id k s0 = Some r" and "terminal (t_status r)"
  shows "\<exists>r'. find_row t_id k s1 = Some r' \<and> t_status r' = t_status r \<and> t_error r' = t_error r"
proof -
  have "task_verdict s0 k = Some (t_status r, t_error r)"
    using assms(3,4) by (simp add: task_verdict_def)
  from outcome.verdict_run [OF assms(1,2) this] show ?thesis by (auto simp: task_verdict_Some)
qed

definition demo_failed :: task_row where
  "demo_failed = reap_row 90000 (demo_running ''t1'' ''c1'' ''w'' 0)"

lemma demo_late_finish:
  "timed_run (queue_step demo_chats) (90000, [demo_failed]) (90001, [demo_failed])"
proof -
  have "fst (finalizeTask 90000 ''t1'' Completed None (Some ''w'') [demo_failed]) = [demo_failed]"
    by (simp add: finalizeTask_def finalizable_def demo_failed_def reap_row_def set_outcome_def)
  then have "queue_step demo_chats 90000 [demo_failed] [demo_failed]"
    by (metis queue_step_on.finalize terminal.simps(1))
  then show ?thesis by (rule timed_run_one) simp
qed

theorem first_outcome_stands_witness:
  "\<exists>r'. find_row t_id ''t1'' [demo_failed] = Some r' \<and> t_status r' = t_status demo_failed \<and>
     t_error r' = t_error demo_failed"
proof (rule first_outcome_stands [OF demo_late_finish])
  show "queue_ok demo_chats [demo_failed]"
    by (simp add: queue_ok_def unique_where_def demo_failed_def reap_row_def set_outcome_def
        demo_running_def demo_queued_def take_lease_def is_queued_def demo_input_def)
  show "find_row t_id ''t1'' [demo_failed] = Some demo_failed"
    by (simp add: demo_failed_def reap_row_def set_outcome_def demo_running_def demo_queued_def
        take_lease_def demo_input_def)
  show "terminal (t_status demo_failed)" by (simp add: demo_failed_def reap_row_def set_outcome_def)
qed

text \<open>
  A lapsed lease is never renewed: a started task whose lease has expired is never again a
  running task with a live lease, whatever its worker or any other process does later.
\<close>

theorem lapsed_lease_stays_lapsed:
  assumes "timed_run (queue_step chats) (t0, s0) (t1, s1)" and "queue_ok chats s0"
    and "find_row t_id k s0 = Some r" and "t_status r = Running" and "\<not> lease_live t0 r"
  shows "\<exists>r'. find_row t_id k s1 = Some r' \<and> \<not> (t_status r' = Running \<and> lease_live t1 r') \<and>
     t_status r' \<noteq> Queued"
proof -
  have "stood_down s0 t0 k = Some ()"
    using assms(3-5) by (auto simp: stood_down_Some is_queued_def)
  from lapsed.verdict_run [OF assms(1,2) this] show ?thesis
    by (auto simp: stood_down_Some is_queued_def)
qed

lemma demo_late_beat:
  "timed_run (queue_step demo_chats) (70000, [demo_running ''t1'' ''c1'' ''w'' 0])
     (70001, [demo_running ''t1'' ''c1'' ''w'' 0])"
proof -
  have "fst (heartbeat 70000 ''t1'' ''w'' [demo_running ''t1'' ''c1'' ''w'' 0]) =
      [demo_running ''t1'' ''c1'' ''w'' 0]"
    by (simp add: heartbeat_def renewable_def lease_live_def demo_running_def take_lease_def queue_consts)
  then have "queue_step demo_chats 70000 [demo_running ''t1'' ''c1'' ''w'' 0]
      [demo_running ''t1'' ''c1'' ''w'' 0]"
    by (metis queue_step_on.beat)
  then show ?thesis by (rule timed_run_one) simp
qed

theorem lapsed_lease_stays_lapsed_witness:
  "\<exists>r'. find_row t_id ''t1'' [demo_running ''t1'' ''c1'' ''w'' 0] = Some r' \<and>
     \<not> (t_status r' = Running \<and> lease_live 70001 r') \<and> t_status r' \<noteq> Queued"
proof (rule lapsed_lease_stays_lapsed [OF demo_late_beat])
  show "queue_ok demo_chats [demo_running ''t1'' ''c1'' ''w'' 0]"
    by (simp add: queue_ok_def unique_where_def demo_running_def demo_queued_def take_lease_def
        is_queued_def demo_input_def)
  show "find_row t_id ''t1'' [demo_running ''t1'' ''c1'' ''w'' 0] =
      Some (demo_running ''t1'' ''c1'' ''w'' 0)"
    by (simp add: demo_running_def demo_queued_def take_lease_def demo_input_def)
  show "t_status (demo_running ''t1'' ''c1'' ''w'' 0) = Running"
    by (simp add: demo_running_def take_lease_def)
  show "\<not> lease_live 70000 (demo_running ''t1'' ''c1'' ''w'' 0)"
    by (simp add: lease_live_def demo_running_def take_lease_def queue_consts)
qed

text \<open>
  A heartbeat answers exactly who still owns the turn: with the task running, the worker on
  the row and the lease unexpired it moves the lease to sixty seconds from now and returns the cancel
  flag; in every other case it returns nothing and writes nothing.
\<close>

theorem heartbeat_owner_only:
  assumes "queue_ok chats t" and "find_row t_id k t = Some r"
  shows "heartbeat now k worker t =
    (if t_status r = Running \<and> t_worker r = Some worker \<and> lease_live now r
     then (update_where (\<lambda>x. t_id x = k) (\<lambda>x. x\<lparr>t_heartbeat := Some now, t_lease := Some (now + 60000)\<rparr>) t,
           Some (t_cancel r))
     else (t, None))"
proof -
  have r: "r \<in> set t" "t_id r = k" using find_row_SomeD [OF assms(2)] by auto
  have only: "x = r" if "x \<in> set t" "t_id x = k" for x
    using assms(1) that r by (auto simp: queue_ok_def intro: same_key_same_row)
  show ?thesis
  proof (cases "t_status r = Running \<and> t_worker r = Some worker \<and> lease_live now r")
    case True
    then have renew: "renewable k worker now x \<longleftrightarrow> t_id x = k" if "x \<in> set t" for x
      using only [OF that] by (auto simp: renewable_def)
    then have "find (renewable k worker now) t = find (\<lambda>x. t_id x = k) t"
      by (intro find_cong) auto
    moreover have "update_where (renewable k worker now) (renew_lease now) t =
        update_where (\<lambda>x. t_id x = k) (renew_lease now) t"
      using renew by (auto simp: update_where_def)
    ultimately show ?thesis
      using True assms(2)
      by (simp add: heartbeat_def find_row_def update_where_def renew_lease_def queue_consts)
  next
    case False
    then have "\<not> renewable k worker now x" if "x \<in> set t" for x
      using only [OF that] by (auto simp: renewable_def)
    then have "find (renewable k worker now) t = None"
      and "update_where (renewable k worker now) (renew_lease now) t = t"
      by (auto simp: find_None_iff update_where_none)
    with False show ?thesis by (auto simp: heartbeat_def)
  qed
qed

theorem heartbeat_owner_only_witness:
  "heartbeat 1000 ''t1'' ''w'' [demo_running ''t1'' ''c1'' ''w'' 0] =
     (update_where (\<lambda>x. t_id x = ''t1'') (\<lambda>x. x\<lparr>t_heartbeat := Some 1000, t_lease := Some 61000\<rparr>)
        [demo_running ''t1'' ''c1'' ''w'' 0], Some False)"
proof -
  note defs = demo_running_def demo_queued_def demo_input_def new_task_def take_lease_def queue_consts
  have "queue_ok demo_chats [demo_running ''t1'' ''c1'' ''w'' 0]"
    by (simp add: queue_ok_def unique_where_def is_queued_def defs)
  moreover have "find_row t_id ''t1'' [demo_running ''t1'' ''c1'' ''w'' 0] =
      Some (demo_running ''t1'' ''c1'' ''w'' 0)" by (simp add: defs)
  ultimately show ?thesis
    using heartbeat_owner_only [of demo_chats "[demo_running ''t1'' ''c1'' ''w'' 0]" "''t1''"
        "demo_running ''t1'' ''c1'' ''w'' 0" 1000 "''w''"]
    by (simp add: lease_live_def defs)
qed

subsection \<open>Enqueueing\<close>

lemma insert_queued_ok:
  assumes "insert_queued chats now q t = Inr (t', Some k)"
  shows "k = q_id q \<and> (\<exists>r \<in> set t'. t_id r = k \<and> t_chat r = q_chat q \<and> is_queued r)"
  using assms by (cases rule: insert_queued_cases) auto

lemma enqueue_retry_sound:
  assumes "\<And>i t. queue_ok chats t \<Longrightarrow> queue_ok chats (env i t)" and "queue_ok chats t"
    and "enqueue_retry n env i chats now q in_tx pub t = (t', res, wakes)"
  shows "queue_ok chats t' \<and>
     (\<forall>k created. res = Inr (k, created) \<longrightarrow>
        (\<exists>r \<in> set t'. t_id r = k \<and> t_chat r = q_chat q \<and> is_queued r) \<and>
        (created \<longrightarrow> k = q_id q))"
  using assms(2,3)
proof (induction n arbitrary: i t)
  case 0
  then show ?case by auto
next
  case (Suc n)
  let ?t1 = "env i t"
  have ok1: "queue_ok chats ?t1" using assms(1) Suc.prems(1) by blast
  show ?case
  proof (cases "insert_queued chats now q ?t1")
    case (Inl f)
    with Suc.prems ok1 show ?thesis by auto
  next
    case (Inr p)
    then obtain u new where p: "insert_queued chats now q ?t1 = Inr (u, new)" by (cases p) auto
    have ok_u: "queue_ok chats u" using queue_ok_insert [OF ok1 p] .
    show ?thesis
    proof (cases new)
      case (Some k)
      with p Suc.prems ok_u insert_queued_ok [of chats now q ?t1 u k] show ?thesis by auto
    next
      case None
      show ?thesis
      proof (cases "queued_of (q_chat q) (env (Suc i) u)")
        case (Some r)
        from queued_of_SomeD [OF Some] Some None p Suc.prems assms(1) [OF ok_u] show ?thesis by auto
      next
        case q_none: None
        with None p Suc.prems(2)
        have "enqueue_retry n env (Suc (Suc i)) chats now q in_tx pub (env (Suc i) u) = (t', res, wakes)"
          by simp
        with Suc.IH assms(1) [OF ok_u] show ?thesis by blast
      qed
    qed
  qed
qed

text \<open>
  Whatever other processes commit between its statements, an enqueue leaves the queue
  well-formed, and the id it returns belongs to a queued turn of that chat, seen during the call, never
  to a task that was not inserted; it says "created" only for the id it was given.
\<close>

theorem enqueue_returns_real_turn:
  assumes "\<And>i t. queue_ok chats t \<Longrightarrow> queue_ok chats (env i t)" and "queue_ok chats t"
    and "enqueueTask env chats now q in_tx pub t = (t', res, wakes)"
  shows "queue_ok chats t' \<and>
     (case res of
        Inl _ \<Rightarrow> True
      | Inr (k, created) \<Rightarrow>
          (\<exists>r \<in> set t' \<union> set (env 0 t). t_id r = k \<and> t_chat r = q_chat q \<and> is_queued r) \<and>
          (created \<longrightarrow> k = q_id q))"
proof -
  let ?t1 = "env 1 (env 0 t)"
  have ok1: "queue_ok chats ?t1" using assms(1,2) by blast
  show ?thesis
  proof (cases "insert_queued chats now q ?t1")
    case (Inl f)
    with assms(3) ok1 show ?thesis by (auto simp: enqueueTask_def Let_def)
  next
    case (Inr p)
    then obtain u new where p: "insert_queued chats now q ?t1 = Inr (u, new)" by (cases p) auto
    have ok_u: "queue_ok chats u" using queue_ok_insert [OF ok1 p] .
    show ?thesis
    proof (cases new)
      case (Some k)
      with p assms(3) ok_u insert_queued_ok [of chats now q ?t1 u k] show ?thesis
        by (auto simp: enqueueTask_def Let_def)
    next
      case None
      show ?thesis
      proof (cases "queued_of (q_chat q) (env 0 t)")
        case (Some r)
        from queued_of_SomeD [OF Some] Some None p assms(3) ok_u show ?thesis
          by (auto simp: enqueueTask_def Let_def)
      next
        case q_none: None
        with None p assms(3)
        have "enqueue_retry 5 env 2 chats now q in_tx pub u = (t', res, wakes)"
          by (simp add: enqueueTask_def Let_def)
        from enqueue_retry_sound [OF assms(1) ok_u this] show ?thesis by (auto split: sum.split)
      qed
    qed
  qed
qed

text \<open>The witness: another process enqueues a turn of the chat between our snapshot and our index check,
  and a worker claims it before our next insert, which then creates the follow-up.\<close>

definition demo_race :: "nat \<Rightarrow> task_row list \<Rightarrow> task_row list" where
  "demo_race i t =
     (if i = 2 then fst (claimNextTask demo_chats 0 ''w'' (\<lambda>_. False) (\<lambda>_. False) t t)
      else if i = 1 then (case insert_queued demo_chats 0 (demo_input ''t1'' ''c3'') t of
        Inr (t', _) \<Rightarrow> t' | Inl _ \<Rightarrow> t)
      else t)"

lemma demo_race_ok: "queue_ok demo_chats t \<Longrightarrow> queue_ok demo_chats (demo_race i t)"
  by (auto simp: demo_race_def intro: queue_ok_insert queue_ok_step [OF queue_step_on.claim [where sees = "\<lambda>_ _ _ _. True", OF TrueI prod.collapse [symmetric]]]
      split: sum.splits)

lemma demo_race_run:
  "enqueueTask demo_race demo_chats 0 (demo_input ''t2'' ''c3'') False True [] =
     ([demo_running ''t1'' ''c3'' ''w'' 0, demo_queued ''t2'' ''c3'' 0], Inr (''t2'', True), [''t2''])"
  by (simp add: enqueueTask_def demo_race_def insert_queued_def queued_of_def claimNextTask_def
      claimable_def workspace_busy_def wake_def Let_def is_queued_def eval_nat_numeral
      demo_running_def demo_queued_def demo_input_def new_task_def take_lease_def demo_chats_def demo_chat_def
      workspace_of_def)

theorem enqueue_returns_real_turn_witness:
  "queue_ok demo_chats [demo_running ''t1'' ''c3'' ''w'' 0, demo_queued ''t2'' ''c3'' 0] \<and>
   (\<exists>r \<in> set [demo_running ''t1'' ''c3'' ''w'' 0, demo_queued ''t2'' ''c3'' 0] \<union> set (demo_race 0 []).
      t_id r = ''t2'' \<and> t_chat r = ''c3'' \<and> is_queued r)"
proof -
  have "queue_ok demo_chats []" by (simp add: queue_ok_def)
  from enqueue_returns_real_turn [OF demo_race_ok this demo_race_run] show ?thesis
    by (simp add: demo_input_def)
qed

text \<open>
  With no interference an enqueue settles in its first statement: a chat without a pending
  turn gets exactly the new row and is told "created", a chat with one keeps its rows and gets the id of
  the turn its message folds into; a failed wake-up notification changes neither.
\<close>

theorem enqueue_coalesces:
  assumes "queue_ok chats t" and "find_row c_id (q_chat q) chats \<noteq> None" and "find_row t_id (q_id q) t = None"
  shows "enqueueTask (\<lambda>_ u. u) chats now q in_tx pub t =
    (case queued_of (q_chat q) t of
       None \<Rightarrow> (t @ [new_task now q], Inr (q_id q, True), wake (q_id q) in_tx pub)
     | Some r \<Rightarrow> (t, Inr (t_id r, False), []))"
  using assms by (auto simp: enqueueTask_def insert_queued_def split: option.splits)

theorem enqueue_coalesces_witness:
  "enqueueTask (\<lambda>_ u. u) demo_chats 9 (demo_input ''t2'' ''c1'') False False [demo_queued ''t1'' ''c1'' 0] =
     ([demo_queued ''t1'' ''c1'' 0], Inr (''t1'', False), []) \<and>
   enqueueTask (\<lambda>_ u. u) demo_chats 9 (demo_input ''t2'' ''c2'') False False [demo_queued ''t1'' ''c1'' 0] =
     ([demo_queued ''t1'' ''c1'' 0, demo_queued ''t2'' ''c2'' 9], Inr (''t2'', True), [])"
proof -
  let ?t = "[demo_queued ''t1'' ''c1'' 0]"
  have ok: "queue_ok demo_chats ?t"
    by (simp add: queue_ok_def unique_where_def demo_queued_def demo_input_def is_queued_def)
  have chat: "find_row c_id (q_chat (demo_input ''t2'' c)) demo_chats \<noteq> None" if "c = ''c1'' \<or> c = ''c2''" for c
    using that by (auto simp: demo_input_def demo_chats_def demo_chat_def)
  have fresh: "find_row t_id (q_id (demo_input ''t2'' c)) ?t = None" for c
    by (simp add: demo_input_def demo_queued_def)
  show ?thesis
    using enqueue_coalesces [OF ok chat fresh, of "''c1''" 9 False False]
      enqueue_coalesces [OF ok chat fresh, of "''c2''" 9 False False]
    by (simp add: queued_of_def demo_queued_def demo_input_def is_queued_def wake_def)
qed

subsection \<open>Steers\<close>

text \<open>
  No turn ever holds more than ten steers: the bound is kept along every run of the queue,
  whoever appends.
\<close>

theorem steers_stay_bounded:
  assumes "timed_run (queue_step chats) (t0, s0) (t1, s1)" and "steers_ok s0"
    and "r \<in> set s1"
  shows "length (t_steers r) \<le> 10"
proof -
  have "steers_ok s1"
    using assms(1,2) steers_ok_step by (rule timed_run_invariant)
  with assms(3) show ?thesis by (auto simp: steers_ok_def queue_consts)
qed

definition demo_steer :: steer where
  "demo_steer = \<lparr>st_id = ''s'', st_text = ''hurry'', st_at = ''now''\<rparr>"

lemma demo_steer_run:
  "timed_run (queue_step demo_chats) (0, [demo_running ''t1'' ''c1'' ''w'' 0])
     (1, [add_steer 0 demo_steer (demo_running ''t1'' ''c1'' ''w'' 0)])"
proof -
  have "fst (appendSteer id 0 ''t1'' ''u'' demo_steer [demo_running ''t1'' ''c1'' ''w'' 0]) =
      [add_steer 0 demo_steer (demo_running ''t1'' ''c1'' ''w'' 0)]"
    by (simp add: appendSteer_fst steerable_def demo_running_def demo_queued_def demo_input_def
        new_task_def take_lease_def queue_consts)
  then have "queue_step demo_chats 0 [demo_running ''t1'' ''c1'' ''w'' 0]
      [add_steer 0 demo_steer (demo_running ''t1'' ''c1'' ''w'' 0)]"
    by (metis queue_step_on.steer)
  then show ?thesis by (rule timed_run_one) simp
qed

theorem steers_stay_bounded_witness:
  "length (t_steers (add_steer 0 demo_steer (demo_running ''t1'' ''c1'' ''w'' 0))) \<le> 10"
proof (rule steers_stay_bounded [OF demo_steer_run])
  show "steers_ok [demo_running ''t1'' ''c1'' ''w'' 0]"
    by (simp add: steers_ok_def demo_running_def demo_queued_def new_task_def take_lease_def)
qed simp

end
