(* ===== verification/Turn_Outcome.thy ===== *)
theory Turn_Outcome
  imports Task_Queue
begin

section \<open>Settling a turn: its task, its message and its budget hold\<close>

text \<open>
  The operations of \<open>src/lib/tasks/queue.ts\<close> that write more than the task row: committing a turn's
  outcome, sealing and settling replies that wait on the user, cancelling a queued turn and reaping
  dead ones; with the text helpers of \<open>src/lib/chat/tree.ts\<close> and \<open>src/lib/errors/friendly.ts\<close> whose SQL
  twins the reaper uses, and \<open>releaseHold\<close> of \<open>src/lib/billing/limits.ts\<close>.
\<close>

subsection \<open>The text of a reply and the work it shows\<close>

definition para_break :: string where
  "para_break = [CHR 0x0A, CHR 0x0A]"

fun join_with :: "string \<Rightarrow> string list \<Rightarrow> string" where
  "join_with sep [] = []"
| "join_with sep [s] = s"
| "join_with sep (s # t # ss) = s @ sep @ join_with sep (t # ss)"

fun text_of :: "stored_part \<Rightarrow> string option" where
  "text_of (TextPart s) = Some s"
| "text_of _ = None"

text \<open>\<open>replyText\<close>: the text parts, trimmed, the empty ones dropped, joined by a blank line.\<close>

definition replyText :: "stored_part list \<Rightarrow> string" where
  "replyText parts =
     join_with para_break (filter (\<lambda>s. s \<noteq> []) (map js_trim (List.map_filter text_of parts)))"

definition messageText :: "message_row \<Rightarrow> string" where
  "messageText m =
     (case m_meta m of
        Some meta \<Rightarrow>
          (if mm_status meta = Some MsgRunning
           then (case mm_parts meta of Some parts \<Rightarrow> replyText parts | None \<Rightarrow> m_content m)
           else m_content m)
      | None \<Rightarrow> m_content m)"

text \<open>\<open>producedWork\<close>: finished text, a tool result, or a tool that ran and threw.\<close>

fun part_is_work :: "stored_part \<Rightarrow> bool" where
  "part_is_work (TextPart s) = (js_trim s \<noteq> [])"
| "part_is_work (ToolResult _ _ _) = True"
| "part_is_work (ToolError _ _ _ invalid) = (\<not> invalid)"
| "part_is_work _ = False"

definition producedWork :: "stored_part list \<Rightarrow> bool \<Rightarrow> bool" where
  "producedWork parts executed \<longleftrightarrow> executed \<or> list_ex part_is_work parts"

text \<open>
  The SQL side. \<open>btrim\<close> takes the characters to strip as a set; \<open>string_agg\<close> of no rows is NULL;
  the parts are unnested with their type and each condition of the \<open>WHERE\<close> is tested in turn.
\<close>

definition btrim :: "nat list \<Rightarrow> string \<Rightarrow> string" where
  "btrim cs s = rev (dropWhile (\<lambda>c. of_char c \<in> set cs) (rev (dropWhile (\<lambda>c. of_char c \<in> set cs) s)))"

text \<open>The literal lists code units, most of them above what a \<^typ>\<open>char\<close> holds.\<close>

definition TRIM_CHARS_SQL :: "nat list" where
  "TRIM_CHARS_SQL = [0x0009, 0x000a, 0x000b, 0x000c, 0x000d, 0x0020, 0x00a0, 0x1680, 0x2000, 0x2001, 0x2002,
     0x2003, 0x2004, 0x2005, 0x2006, 0x2007, 0x2008, 0x2009, 0x200a, 0x2028, 0x2029, 0x202f, 0x205f, 0x3000, 0xfeff]"

fun string_agg :: "string \<Rightarrow> string list \<Rightarrow> string option" where
  "string_agg sep [] = None"
| "string_agg sep [s] = Some s"
| "string_agg sep (s # ss) = map_option (\<lambda>rest. s @ sep @ rest) (string_agg sep ss)"

fun text_rows :: "stored_part list \<Rightarrow> string list" where
  "text_rows [] = []"
| "text_rows (TextPart s # ps) =
     (if btrim TRIM_CHARS_SQL s \<noteq> [] then btrim TRIM_CHARS_SQL s # text_rows ps else text_rows ps)"
| "text_rows (_ # ps) = text_rows ps"

definition REPLY_TEXT_SQL :: "message_row \<Rightarrow> string" where
  "REPLY_TEXT_SQL m =
     (case m_meta m of
        Some meta \<Rightarrow>
          (case mm_parts meta of
             Some parts \<Rightarrow> (case string_agg para_break (text_rows parts) of Some s \<Rightarrow> s | None \<Rightarrow> [])
           | None \<Rightarrow> m_content m)
      | None \<Rightarrow> m_content m)"

definition part_is_work_sql :: "stored_part \<Rightarrow> bool" where
  "part_is_work_sql p \<longleftrightarrow>
     (\<exists>i n out. p = ToolResult i n out) \<or>
     (case p of ToolError _ _ _ invalid \<Rightarrow> invalid \<noteq> True | _ \<Rightarrow> False) \<or>
     (case p of TextPart s \<Rightarrow> btrim TRIM_CHARS_SQL s \<noteq> [] | _ \<Rightarrow> False)"

definition PRODUCED_WORK_SQL :: "effect_row list \<Rightarrow> message_row \<Rightarrow> bool" where
  "PRODUCED_WORK_SQL effects m \<longleftrightarrow>
     (\<exists>p \<in> set (case m_meta m of Some meta \<Rightarrow> (case mm_parts meta of Some ps \<Rightarrow> ps | None \<Rightarrow> []) | None \<Rightarrow> []).
        part_is_work_sql p) \<or>
     (\<exists>e \<in> set effects. e_message e = m_id m)"

subsection \<open>Committing an outcome\<close>

record new_reply =
  nr_chat :: ident
  nr_parent :: "ident option"
  nr_platform :: string

record outcome_input =
  o_task :: ident
  o_worker :: ident
  o_status :: task_status
  o_error :: "string option"
  o_message :: ident
  o_content :: string
  o_meta :: message_meta
  o_insert :: "new_reply option" \<comment> \<open>set when the assistant row does not exist yet\<close>

definition reply_row :: "time \<Rightarrow> outcome_input \<Rightarrow> new_reply \<Rightarrow> message_row" where
  "reply_row now i n =
     \<lparr>m_id = o_message i, m_chat = nr_chat n, m_parent = nr_parent n, m_role = Assistant,
      m_content = o_content i, m_platform = Some (nr_platform n), m_meta = Some (o_meta i),
      m_untrusted = False, m_created = Some now\<rparr>"

text \<open>\<open>INSERT INTO messages\<close>: the primary key and the two references can make it fail.\<close>

definition insert_message :: "chat_row list \<Rightarrow> message_row \<Rightarrow> message_row list \<Rightarrow> db_fault + message_row list" where
  "insert_message chats m ms =
     (if find_row m_id (m_id m) ms \<noteq> None then Inl UniqueViolation
      else if find_row c_id (m_chat m) chats = None then Inl ForeignKeyViolation
      else if (case m_parent m of Some p \<Rightarrow> find_row m_id p ms = None | None \<Rightarrow> False)
      then Inl ForeignKeyViolation
      else Inr (ms @ [m]))"

definition point_leaf :: "ident \<Rightarrow> ident \<Rightarrow> chat_row list \<Rightarrow> chat_row list" where
  "point_leaf chat leaf cs = update_where (\<lambda>c. c_id c = chat) (\<lambda>c. c\<lparr>c_active_leaf := Some leaf\<rparr>) cs"

text \<open>
  \<open>commitTurnOutcome\<close>, one transaction: the compare-and-set on the task, then the reply inserted (and
  the chat's leaf moved to it) or updated. \<open>Inr False\<close> is "stand down"; a fault is the throw. Both
  roll back.
\<close>

definition commitTurnOutcome :: "time \<Rightarrow> outcome_input \<Rightarrow> database \<Rightarrow> database \<times> (db_fault + bool)" where
  "commitTurnOutcome now i db =
     (let (tasks', won) = finalizeTask now (o_task i) (o_status i) (o_error i) (Some (o_worker i)) (db_tasks db) in
      if \<not> won then (db, Inr False)
      else case o_insert i of
        Some n \<Rightarrow>
          (case insert_message (db_chats db) (reply_row now i n) (db_messages db) of
             Inl f \<Rightarrow> (db, Inl f)
           | Inr ms \<Rightarrow>
               (db\<lparr>db_tasks := tasks', db_messages := ms,
                  db_chats := point_leaf (nr_chat n) (o_message i) (db_chats db)\<rparr>, Inr True))
      | None \<Rightarrow>
          (if find_row m_id (o_message i) (db_messages db) = None then (db, Inr False)
           else (db\<lparr>db_tasks := tasks',
                   db_messages := update_where (\<lambda>m. m_id m = o_message i)
                     (\<lambda>m. m\<lparr>m_content := o_content i, m_meta := Some (o_meta i)\<rparr>) (db_messages db)\<rparr>,
                 Inr True)))"

subsection \<open>Sealing approved calls that never ran\<close>

fun settled_id :: "stored_part \<Rightarrow> ident option" where
  "settled_id (ToolResult i _ _) = Some i"
| "settled_id (ToolError i _ _ _) = Some i"
| "settled_id _ = None"

definition not_run_output :: "string \<Rightarrow> string \<Rightarrow> json" where
  "not_run_output reason err =
     JObj [(''status'', JStr ''error''), (''code'', JStr ''NOT_RUN''), (''reason'', JStr reason), (''error'', JStr err)]"

text \<open>A call the user approved and nothing has settled.\<close>

definition unrun_approved :: "ident set \<Rightarrow> stored_part \<Rightarrow> bool" where
  "unrun_approved settled p \<longleftrightarrow>
     (case p of
        ToolCall i n inp (Some a) ans \<Rightarrow> ap_approved a = Some True \<and> i \<notin> settled
      | _ \<Rightarrow> False)"

definition settled_ids :: "stored_part list \<Rightarrow> ident list" where
  "settled_ids parts = List.map_filter settled_id parts"

definition sealUnrunApprovals :: "stored_part list \<Rightarrow> string \<Rightarrow> string \<Rightarrow> stored_part list" where
  "sealUnrunApprovals parts reason err =
     (let settled = set (settled_ids parts) in
      parts @ map (\<lambda>p. ToolResult (call_id p) (call_name p) (not_run_output reason err))
                (filter (unrun_approved settled) parts))"

subsection \<open>Settling replies that wait on the user\<close>

definition waits_on_user :: "message_row \<Rightarrow> message_meta option" where
  "waits_on_user m =
     (case m_meta m of
        Some meta \<Rightarrow> if mm_status meta \<in> {Some MsgAwaitingApproval, Some MsgAwaitingAnswer} then Some meta else None
      | None \<Rightarrow> None)"

definition read_waiting :: "ident \<Rightarrow> message_row list \<Rightarrow> message_meta option" where
  "read_waiting mid ms = Option.bind (find_row m_id mid ms) waits_on_user"

text \<open>The write of both settlers: a compare-and-set on the metadata that was read. True when a row
  changed.\<close>

definition write_meta_if :: "ident \<Rightarrow> message_meta \<Rightarrow> message_meta \<Rightarrow> message_row list \<Rightarrow> message_row list \<times> bool" where
  "write_meta_if mid seen new ms =
     (update_where (\<lambda>m. m_id m = mid \<and> m_meta m = Some seen) (\<lambda>m. m\<lparr>m_meta := Some new\<rparr>) ms,
      \<exists>m \<in> set ms. m_id m = mid \<and> m_meta m = Some seen)"

definition parts_of :: "message_meta \<Rightarrow> stored_part list" where
  "parts_of meta = (case mm_parts meta of Some ps \<Rightarrow> ps | None \<Rightarrow> [])"

definition STOPPED_ERROR :: string where
  "STOPPED_ERROR = ''Not run. The turn was stopped before this approved call ran.''"

definition settleCancelledContinuation ::
  "(message_row list \<Rightarrow> message_row list) \<Rightarrow> ident \<Rightarrow> message_row list \<Rightarrow> message_row list" where
  "settleCancelledContinuation env mid ms =
     (case read_waiting mid ms of
        None \<Rightarrow> ms
      | Some meta \<Rightarrow>
          fst (write_meta_if mid meta
            (meta\<lparr>mm_status := Some MsgCancelled,
                mm_parts := Some (sealUnrunApprovals (parts_of meta) ''stopped'' STOPPED_ERROR)\<rparr>)
            (env ms)))"

definition UNDECIDED_APPROVAL_REASON :: string where
  "UNDECIDED_APPROVAL_REASON = ''The user moved on without deciding, so this did not run.''"

definition skip_value :: json where
  "skip_value = JObj [(''action'', JStr ''skip''), (''values'', JObj [])]"

text \<open>The loop body of \<open>settleMovedPast\<close>: the part as it is left, and the result appended for it.\<close>

fun move_past :: "stored_part \<Rightarrow> stored_part \<times> stored_part option" where
  "move_past (ToolCall i n inp (Some a) ans) =
     (if ap_approved a = None
      then (ToolCall i n inp (Some \<lparr>ap_id = ap_id a, ap_approved = Some False,
              ap_reason = Some UNDECIDED_APPROVAL_REASON\<rparr>) ans, None)
      else (case ans of
         Some w \<Rightarrow> (if an_value w = None
            then (ToolCall i n inp (Some a) (Some \<lparr>an_form = an_form w, an_value = Some skip_value\<rparr>),
                  Some (ToolResult i n skip_value))
            else (ToolCall i n inp (Some a) ans, None))
       | None \<Rightarrow> (ToolCall i n inp (Some a) ans, None)))"
| "move_past (ToolCall i n inp None (Some w)) =
     (if an_value w = None
      then (ToolCall i n inp None (Some \<lparr>an_form = an_form w, an_value = Some skip_value\<rparr>),
            Some (ToolResult i n skip_value))
      else (ToolCall i n inp None (Some w), None))"
| "move_past p = (p, None)"

definition moved_parts :: "stored_part list \<Rightarrow> stored_part list" where
  "moved_parts parts = map (fst \<circ> move_past) parts @ List.map_filter (snd \<circ> move_past) parts"

definition part_waiting :: "stored_part \<Rightarrow> bool" where
  "part_waiting p \<longleftrightarrow>
     (case p of
        ToolCall _ _ _ (Some a) ans \<Rightarrow>
          ap_approved a = None \<or> (case ans of Some w \<Rightarrow> an_value w = None | None \<Rightarrow> False)
      | ToolCall _ _ _ None (Some w) \<Rightarrow> an_value w = None
      | _ \<Rightarrow> False)"

text \<open>Three attempts; \<open>env (2 * k)\<close> and \<open>env (2 * k + 1)\<close> are what other processes do before the
  read and before the write of attempt \<open>k\<close>.\<close>

fun settle_moved_past ::
  "nat \<Rightarrow> (nat \<Rightarrow> message_row list \<Rightarrow> message_row list) \<Rightarrow> nat \<Rightarrow> ident \<Rightarrow> message_row list \<Rightarrow> message_row list" where
  "settle_moved_past 0 env i mid ms = ms"
| "settle_moved_past (Suc n) env i mid ms =
     (let ms1 = env i ms in
      case read_waiting mid ms1 of
        None \<Rightarrow> ms1
      | Some meta \<Rightarrow>
          (if \<not> list_ex part_waiting (parts_of meta) then ms1
           else (let (ms2, won) = write_meta_if mid meta
                   (meta\<lparr>mm_status := Some MsgCompleted, mm_parts := Some (moved_parts (parts_of meta))\<rparr>)
                   (env (Suc i) ms1)
                 in if won then ms2 else settle_moved_past n env (Suc (Suc i)) mid ms2)))"

definition settleMovedPast ::
  "(nat \<Rightarrow> message_row list \<Rightarrow> message_row list) \<Rightarrow> ident \<Rightarrow> message_row list \<Rightarrow> message_row list" where
  "settleMovedPast env mid ms = settle_moved_past 3 env 0 mid ms"

subsection \<open>Cancelling a queued turn\<close>

text \<open>\<open>releaseHold\<close>: a failing delete is logged and swallowed.\<close>

definition releaseHold :: "bool \<Rightarrow> ident \<Rightarrow> usage_row list \<Rightarrow> usage_row list" where
  "releaseHold delete_ok task us =
     (if delete_ok then delete_where (\<lambda>u. u_task u = Some task \<and> u_pending u) us else us)"

datatype cancel_result = Removed | Flagged

datatype task_event = TaskFinish ident ident task_status "string option" \<comment> \<open>task, chat, status, error\<close>

text \<open>
  \<open>cancelQueuedTurn\<close>: the plain delete, then the transaction that deletes a continuation together with
  settling its reply, then the cancel flag. \<open>env\<close> is what other processes commit between these.
\<close>

definition is_continuation :: "task_row \<Rightarrow> bool" where
  "is_continuation r \<longleftrightarrow> pl_resume (t_payload r) \<noteq> None"

definition cancelQueuedTurn ::
  "(nat \<Rightarrow> database \<Rightarrow> database) \<Rightarrow> bool \<Rightarrow> time \<Rightarrow> ident \<Rightarrow> ident \<Rightarrow> database \<Rightarrow>
   database \<times> cancel_result \<times> task_event list" where
  "cancelQueuedTurn env hold_ok now task chat db =
     (let db0 = env 0 db;
          plain = (\<lambda>r. t_id r = task \<and> is_queued r \<and> \<not> is_continuation r);
          finish = (\<lambda>d. (d\<lparr>db_usage := releaseHold hold_ok task (db_usage d)\<rparr>, Removed,
                        [TaskFinish task chat Cancelled None]))
      in if find plain (db_tasks db0) \<noteq> None
         then finish (db0\<lparr>db_tasks := delete_where plain (db_tasks db0)\<rparr>)
         else (let db1 = env 1 db0 in
           case find (\<lambda>r. t_id r = task \<and> is_queued r) (db_tasks db1) of
             Some r \<Rightarrow>
               (let db2 = db1\<lparr>db_tasks := delete_queued task (db_tasks db1)\<rparr> in
                finish (case pl_resume (t_payload r) of
                   Some mid \<Rightarrow> db2\<lparr>db_messages :=
                     settleCancelledContinuation (\<lambda>ms. db_messages (env 2 (db2\<lparr>db_messages := ms\<rparr>))) mid (db_messages db2)\<rparr>
                 | None \<Rightarrow> db2))
           | None \<Rightarrow>
               (let db2 = env 2 db1 in
                (db2\<lparr>db_tasks := requestCancel now task (db_tasks db2)\<rparr>, Flagged, []))))"

subsection \<open>Reaping dead turns\<close>

definition ORPHAN_HOLD_AGE_MS :: int where "ORPHAN_HOLD_AGE_MS = 60 * 60000"

text \<open>The two sentences are the statement's parameters \<open>$1\<close> and \<open>$2\<close>.\<close>

record interrupted_texts =
  it_total :: string
  it_partial :: string

definition interrupted_meta :: "interrupted_texts \<Rightarrow> bool \<Rightarrow> message_meta \<Rightarrow> message_meta" where
  "interrupted_meta txt partial meta =
     meta\<lparr>mm_status := Some MsgFailed,
         mm_error := Some (if partial then it_partial txt else it_total txt),
         mm_category := Some (if partial then InterruptedPartial else Interrupted)\<rparr>"

text \<open>The message is the running reply of a task that satisfies \<open>P\<close>.\<close>

definition running_for :: "(task_row \<Rightarrow> bool) \<Rightarrow> task_row list \<Rightarrow> message_row \<Rightarrow> task_row option" where
  "running_for P tasks m =
     (case m_meta m of
        Some meta \<Rightarrow>
          (if mm_status meta = Some MsgRunning
           then (case mm_task meta of Some k \<Rightarrow> find (\<lambda>r. t_id r = k \<and> P r) tasks | None \<Rightarrow> None)
           else None)
      | None \<Rightarrow> None)"

text \<open>The message still waits on the user and a dead continuation was to finish it.\<close>

definition continued_by :: "(task_row \<Rightarrow> bool) \<Rightarrow> task_row list \<Rightarrow> message_row \<Rightarrow> task_row option" where
  "continued_by P tasks m =
     (case waits_on_user m of
        Some _ \<Rightarrow> find (\<lambda>r. pl_resume (t_payload r) = Some (m_id m) \<and> P r) tasks
      | None \<Rightarrow> None)"

definition stopped_badly :: "task_row \<Rightarrow> bool" where
  "stopped_badly r \<longleftrightarrow> t_status r \<in> {Failed, Cancelled}"

definition interrupt_message :: "interrupted_texts \<Rightarrow> effect_row list \<Rightarrow> message_row \<Rightarrow> message_row" where
  "interrupt_message txt effects m =
     m\<lparr>m_meta := map_option (interrupted_meta txt (PRODUCED_WORK_SQL effects m)) (m_meta m)\<rparr>"

text \<open>One message through the three update arms of the statement; the arms read one snapshot, in which
  the dead tasks still run.\<close>

definition reconcile_message ::
  "interrupted_texts \<Rightarrow> time \<Rightarrow> task_row list \<Rightarrow> effect_row list \<Rightarrow> message_row \<Rightarrow> message_row" where
  "reconcile_message txt now tasks effects m =
     (if running_for (reapable now) tasks m \<noteq> None \<or> running_for stopped_badly tasks m \<noteq> None
      then (interrupt_message txt effects m)\<lparr>m_content := REPLY_TEXT_SQL m\<rparr>
      else if continued_by (reapable now) tasks m \<noteq> None then interrupt_message txt effects m
      else m)"

definition stale_hold :: "time \<Rightarrow> task_row list \<Rightarrow> usage_row \<Rightarrow> bool" where
  "stale_hold now tasks u \<longleftrightarrow>
     u_pending u \<and>
     ((\<exists>t \<in> set tasks. u_task u = Some (t_id t) \<and> (terminal (t_status t) \<or> reapable now t)) \<or>
      (u_created u < now - ORPHAN_HOLD_AGE_MS \<and> \<not> (\<exists>t \<in> set tasks. u_task u = Some (t_id t))))"

record zombie =
  z_task :: ident
  z_user :: ident
  z_chat :: ident
  z_partial :: bool

text \<open>The result rows: each dead task left-joined with the verdicts of its messages.\<close>

definition left_join :: "'a list \<Rightarrow> 'a option list" where
  "left_join xs = (if xs = [] then [None] else map Some xs)"

definition zombie_rows :: "time \<Rightarrow> task_row list \<Rightarrow> effect_row list \<Rightarrow> message_row list \<Rightarrow> task_row \<Rightarrow> zombie list" where
  "zombie_rows now tasks effects ms d =
     (let rm = map (PRODUCED_WORK_SQL effects) (filter (\<lambda>m. running_for (reapable now) tasks m = Some d) ms);
          rc = map (PRODUCED_WORK_SQL effects) (filter (\<lambda>m. continued_by (reapable now) tasks m = Some d) ms)
      in concat (map (\<lambda>a. map (\<lambda>b.
           \<lparr>z_task = t_id d, z_user = t_user d, z_chat = t_chat d,
            z_partial = (case a of Some p \<Rightarrow> p | None \<Rightarrow> (case b of Some p \<Rightarrow> p | None \<Rightarrow> False))\<rparr>)
           (left_join rc)) (left_join rm)))"

definition reconcileZombies :: "interrupted_texts \<Rightarrow> time \<Rightarrow> database \<Rightarrow> database \<times> zombie list" where
  "reconcileZombies txt now db =
     (db\<lparr>db_tasks := reap_tasks now (db_tasks db),
        db_messages := map (reconcile_message txt now (db_tasks db) (db_effects db)) (db_messages db),
        db_usage := delete_where (stale_hold now (db_tasks db)) (db_usage db)\<rparr>,
      concat (map (zombie_rows now (db_tasks db) (db_effects db) (db_messages db))
        (filter (reapable now) (db_tasks db))))"

end
