(* ===== verification/Outcome_Theorems.thy ===== *)
theory Outcome_Theorems
  imports Turn_Outcome Queue_Theorems
begin

section \<open>What settling a turn guarantees\<close>

text \<open>
  The properties of the operations that settle a turn together with its message and its budget hold:
  the outcome is one decision, the reaper leaves neither a stranded reply nor a leaked hold, waiting
  replies are settled without overwriting a decision, and the SQL twins agree with their TypeScript
  originals.
\<close>

subsection \<open>Two languages, one definition\<close>

lemma trim_chars_sql: "n \<in> set TRIM_CHARS_SQL \<longleftrightarrow> js_space_unit n"
proof
  assume "js_space_unit n"
  moreover have "n \<in> set TRIM_CHARS_SQL" if "0x2000 \<le> n" "n \<le> 0x200A"
  proof -
    have "n = 8192 \<or> n = 8193 \<or> n = 8194 \<or> n = 8195 \<or> n = 8196 \<or> n = 8197 \<or> n = 8198 \<or> n = 8199 \<or> n = 8200 \<or>
      n = 8201 \<or> n = 8202" using that by presburger
    then show ?thesis by (auto simp: TRIM_CHARS_SQL_def)
  qed
  ultimately show "n \<in> set TRIM_CHARS_SQL" by (auto simp: js_space_unit_def TRIM_CHARS_SQL_def)
qed (auto simp: js_space_unit_def TRIM_CHARS_SQL_def)

lemma btrim_js_trim: "btrim TRIM_CHARS_SQL s = js_trim s"
  by (simp add: btrim_def js_trim_def trim_chars_sql js_space_def [abs_def])

lemma string_agg_join: "(case string_agg sep xs of Some s \<Rightarrow> s | None \<Rightarrow> []) = join_with sep xs"
proof -
  have "xs \<noteq> [] \<Longrightarrow> string_agg sep xs = Some (join_with sep xs)" for xs
    by (induction sep xs rule: join_with.induct) auto
  then show ?thesis by (cases xs) auto
qed

lemma text_rows_replyText:
  "text_rows parts = filter (\<lambda>s. s \<noteq> []) (map js_trim (List.map_filter text_of parts))"
  by (induction parts rule: text_rows.induct) (auto simp: btrim_js_trim List.map_filter_simps)

lemma part_is_work_twin: "part_is_work_sql p = part_is_work p"
  by (cases p) (auto simp: part_is_work_sql_def btrim_js_trim)

text \<open>
  Property C15. The reaper's SQL and the runner's TypeScript agree: \<open>REPLY_TEXT_SQL\<close> of a row with parts is
  \<open>replyText\<close> of them (and the stored content without them), \<open>PRODUCED_WORK_SQL\<close> is
  \<open>producedWork\<close> with the executed-call ledger as its second source, and the literal both trim with lists
  exactly the code units JavaScript's \<open>trim\<close> strips, among all code units.
\<close>

theorem sql_twins_agree:
  "REPLY_TEXT_SQL m =
     (case Option.bind (m_meta m) mm_parts of Some parts \<Rightarrow> replyText parts | None \<Rightarrow> m_content m) \<and>
   PRODUCED_WORK_SQL effects m =
     producedWork (case Option.bind (m_meta m) mm_parts of Some parts \<Rightarrow> parts | None \<Rightarrow> [])
       (list_ex (\<lambda>e. e_message e = m_id m) effects) \<and>
   (unit \<in> set TRIM_CHARS_SQL \<longleftrightarrow> js_space_unit unit)"
proof (intro conjI)
  show "REPLY_TEXT_SQL m =
     (case Option.bind (m_meta m) mm_parts of Some parts \<Rightarrow> replyText parts | None \<Rightarrow> m_content m)"
    by (auto simp: REPLY_TEXT_SQL_def replyText_def string_agg_join text_rows_replyText split: option.split)
next
  show "PRODUCED_WORK_SQL effects m =
     producedWork (case Option.bind (m_meta m) mm_parts of Some parts \<Rightarrow> parts | None \<Rightarrow> [])
       (list_ex (\<lambda>e. e_message e = m_id m) effects)"
    by (cases "m_meta m"; cases "Option.bind (m_meta m) mm_parts")
      (auto simp: PRODUCED_WORK_SQL_def producedWork_def part_is_work_twin list_ex_iff split: option.splits)
qed (rule trim_chars_sql)

subsection \<open>Committing an outcome\<close>

lemma commit_cases:
  assumes "commitTurnOutcome now i db = (db', r)"
  obtains (refused) "db' = db" "r \<noteq> Inr True"
  | (inserted) n ms where "r = Inr True" "\<exists>t \<in> set (db_tasks db). finalizable (o_task i) (Some (o_worker i)) t"
      "o_insert i = Some n" "insert_message (db_chats db) (reply_row now i n) (db_messages db) = Inr ms"
      "db' = db\<lparr>db_tasks := fst (finalizeTask now (o_task i) (o_status i) (o_error i) (Some (o_worker i)) (db_tasks db)),
          db_messages := ms, db_chats := point_leaf (nr_chat n) (o_message i) (db_chats db)\<rparr>"
  | (updated) "r = Inr True" "\<exists>t \<in> set (db_tasks db). finalizable (o_task i) (Some (o_worker i)) t"
      "o_insert i = None" "o_message i \<in> m_id ` set (db_messages db)"
      "db' = db\<lparr>db_tasks := fst (finalizeTask now (o_task i) (o_status i) (o_error i) (Some (o_worker i)) (db_tasks db)),
          db_messages := update_where (\<lambda>m. m_id m = o_message i)
            (\<lambda>m. m\<lparr>m_content := o_content i, m_meta := Some (o_meta i)\<rparr>) (db_messages db)\<rparr>"
proof -
  have won: "snd (finalizeTask now (o_task i) (o_status i) (o_error i) (Some (o_worker i)) (db_tasks db)) \<longleftrightarrow>
      (\<exists>t \<in> set (db_tasks db). finalizable (o_task i) (Some (o_worker i)) t)"
    by (simp add: finalizeTask_def length_filter_pos_iff [simplified])
  show thesis
  proof (cases "\<exists>t \<in> set (db_tasks db). finalizable (o_task i) (Some (o_worker i)) t")
    case False
    with won assms show thesis by (intro refused) (auto simp: commitTurnOutcome_def split: prod.splits)
  next
    case True
    show thesis
    proof (cases "o_insert i")
      case None
      show thesis
      proof (cases "o_message i \<in> m_id ` set (db_messages db)")
        case False
        then have "find_row m_id (o_message i) (db_messages db) = None" by (simp add: find_row_None_iff)
        with None True won assms show thesis
          by (intro refused) (auto simp: commitTurnOutcome_def split: prod.splits)
      next
        case mem: True
        then have "find_row m_id (o_message i) (db_messages db) \<noteq> None" by (simp add: find_row_None_iff)
        with None True won assms mem show thesis
          by (intro updated) (auto simp: commitTurnOutcome_def split: prod.splits)
      qed
    next
      case (Some n)
      show thesis
      proof (cases "insert_message (db_chats db) (reply_row now i n) (db_messages db)")
        case (Inl f)
        with Some True won assms show thesis
          by (intro refused) (auto simp: commitTurnOutcome_def split: prod.splits)
      next
        case (Inr ms)
        with Some True won assms show thesis
          by (intro inserted [of n ms]) (auto simp: commitTurnOutcome_def split: prod.splits)
      qed
    qed
  qed
qed

lemma finalize_hit:
  "t \<in> set ts \<Longrightarrow> finalizable task w t \<Longrightarrow>
     set_outcome now status err t \<in> set (fst (finalizeTask now task status err w ts))"
  by (simp add: finalizeTask_def update_where_hit)

lemma insert_message_Inr: "insert_message chats m ms = Inr ms' \<Longrightarrow> ms' = ms @ [m]"
  by (auto simp: insert_message_def split: if_splits)

text \<open>
  \<open>commitTurnOutcome\<close> is one decision: it answers true exactly when it took an unfinished
  task owned by the caller to its terminal status and the reply row now carries the content and the
  metadata; on every other answer, a fault included, the database is what it was.
\<close>

theorem commit_is_one_decision:
  assumes "commitTurnOutcome now i db = (db', r)"
  shows "r \<noteq> Inr True \<and> db' = db \<or>
    r = Inr True \<and>
    (\<exists>t \<in> set (db_tasks db). finalizable (o_task i) (Some (o_worker i)) t \<and>
       set_outcome now (o_status i) (o_error i) t \<in> set (db_tasks db')) \<and>
    (\<exists>m \<in> set (db_messages db'). m_id m = o_message i \<and> m_content m = o_content i \<and> m_meta m = Some (o_meta i)) \<and>
    db_usage db' = db_usage db"
  using assms
proof (cases rule: commit_cases)
  case refused
  then show ?thesis by simp
next
  case (inserted n ms)
  then obtain t where "t \<in> set (db_tasks db)" "finalizable (o_task i) (Some (o_worker i)) t" by blast
  with inserted show ?thesis by (auto simp: reply_row_def dest!: insert_message_Inr intro: finalize_hit)
next
  case updated
  then obtain t m where t: "t \<in> set (db_tasks db)" "finalizable (o_task i) (Some (o_worker i)) t"
    and m: "m \<in> set (db_messages db)" "m_id m = o_message i" by auto
  let ?m = "m\<lparr>m_content := o_content i, m_meta := Some (o_meta i)\<rparr>"
  have "?m \<in> set (db_messages db')"
    using m updated by (auto intro: update_where_hit)
  with m(2) have "\<exists>m \<in> set (db_messages db'). m_id m = o_message i \<and> m_content m = o_content i \<and> m_meta m = Some (o_meta i)"
    by (intro bexI [of _ ?m]) simp_all
  moreover have "set_outcome now (o_status i) (o_error i) t \<in> set (db_tasks db')"
    using t updated by (auto intro: finalize_hit)
  ultimately show ?thesis using t updated by auto
qed

definition demo_task_message :: "msg_status \<Rightarrow> stored_part list \<Rightarrow> message_row" where
  "demo_task_message st parts =
     \<lparr>m_id = ''m1'', m_chat = ''c1'', m_parent = None, m_role = Assistant, m_content = [], m_platform = None,
      m_meta = Some \<lparr>mm_task = Some ''t1'', mm_status = Some st, mm_error = None, mm_category = None,
         mm_parts = Some parts, mm_rest = JNull\<rparr>, m_untrusted = False, m_created = Some 0\<rparr>"

definition demo_hold :: "ident \<Rightarrow> ident \<Rightarrow> time \<Rightarrow> usage_row" where
  "demo_hold uid task created =
     \<lparr>u_id = uid, u_task = Some task, u_message = None, u_user = ''u'', u_provider = ''p'', u_config = None,
      u_model = ''m'', u_input = 0, u_output = 0, u_cached = 0, u_cost = Some 1, u_shared = True,
      u_purpose = None, u_pending = True, u_created = created\<rparr>"

definition demo_db :: "stored_part list \<Rightarrow> database" where
  "demo_db parts =
     \<lparr>db_tasks = [demo_running ''t1'' ''c1'' ''w'' 0], db_chats = demo_chats,
      db_messages = [demo_task_message MsgRunning parts],
      db_usage = [demo_hold ''h1'' ''t1'' 0, demo_hold ''h2'' ''gone'' 0], db_effects = []\<rparr>"

definition demo_outcome :: "ident \<Rightarrow> outcome_input" where
  "demo_outcome worker =
     \<lparr>o_task = ''t1'', o_worker = worker, o_status = Completed, o_error = None, o_message = ''m1'',
      o_content = ''done'', o_meta = \<lparr>mm_task = Some ''t1'', mm_status = Some MsgCompleted, mm_error = None,
        mm_category = None, mm_parts = Some [TextPart ''done''], mm_rest = JNull\<rparr>, o_insert = None\<rparr>"

lemmas demo_turn_defs = demo_db_def demo_task_message_def demo_hold_def demo_outcome_def

lemma demo_commits:
  "snd (commitTurnOutcome 5 (demo_outcome ''w'') (demo_db [])) = Inr True"
  by (simp add: demo_turn_defs demo_defs commitTurnOutcome_def finalizeTask_def finalizable_def)

theorem commit_is_one_decision_witness:
  "\<exists>m \<in> set (db_messages (fst (commitTurnOutcome 5 (demo_outcome ''w'') (demo_db [])))). m_content m = ''done''"
  using commit_is_one_decision [of 5 "demo_outcome ''w''" "demo_db []"
      "fst (commitTurnOutcome 5 (demo_outcome ''w'') (demo_db []))" "Inr True"] demo_commits
  by (auto simp: prod_eq_iff demo_outcome_def)

subsection \<open>The reaper\<close>

lemma settled_commit_refused:
  assumes "distinct (map t_id (db_tasks db))" and "task_verdict (db_tasks db) (o_task i) = Some v"
  shows "commitTurnOutcome now i db = (db, Inr False)"
proof -
  obtain r where r: "find_row t_id (o_task i) (db_tasks db) = Some r" "terminal (t_status r)"
    using assms(2) by (auto simp: task_verdict_Some)
  have "\<not> finalizable (o_task i) (Some (o_worker i)) t" if "t \<in> set (db_tasks db)" for t
    using r that assms(1) by (auto simp: find_row_Some_iff finalizable_def dest: same_key_same_row)
  then show ?thesis
    by (simp add: commitTurnOutcome_def finalizeTask_def filter_empty_if)
qed

lemma reap_verdict:
  assumes "queue_ok chats ts" and "r \<in> set ts" and "reapable now r"
  shows "task_verdict (reap_tasks now ts) (t_id r) = Some (Failed, Some ''worker lost (lease expired)'')"
proof -
  have "find_row t_id (t_id r) ts = Some r" using assms(1,2) by (simp add: queue_ok_def find_row_Some_iff)
  with assms(3) have "find_row t_id (t_id r) (reap_tasks now ts) = Some (reap_row now r)"
    by (simp add: reap_tasks_def find_row_update_where reap_row_def set_outcome_def)
  then show ?thesis by (simp add: task_verdict_Some reap_row_def set_outcome_def)
qed

text \<open>
  Property C2. A reaped turn never answers: once \<open>reconcileZombies\<close> has failed a task whose worker lost
  its lease, a worker that wakes up later and commits an outcome for it, after any further queue
  statements, is told to stand down and writes neither the task nor the message.
\<close>

theorem reaped_turn_never_answers:
  assumes "queue_ok chats (db_tasks db)" and "r \<in> set (db_tasks db)" and "reapable now r"
    and "timed_run (queue_step chats) (now, db_tasks (fst (reconcileZombies txt now db))) (now', db_tasks db2)"
    and "o_task i = t_id r"
  shows "commitTurnOutcome now' i db2 = (db2, Inr False)"
proof -
  have tasks: "db_tasks (fst (reconcileZombies txt now db)) = reap_tasks now (db_tasks db)"
    by (simp add: reconcileZombies_def)
  have ok: "queue_ok chats (reap_tasks now (db_tasks db))"
    using queue_step_on.reap assms(1) by (rule queue_ok_step)
  have "task_verdict (db_tasks db2) (t_id r) = Some (Failed, Some ''worker lost (lease expired)'')"
    using outcome.verdict_run [OF assms(4) [unfolded tasks] ok reap_verdict [OF assms(1-3)]] .
  moreover have "queue_ok chats (db_tasks db2)"
    using outcome.ok_run [OF assms(4) [unfolded tasks] ok] .
  ultimately show ?thesis using assms(5) by (auto simp: queue_ok_def intro: settled_commit_refused)
qed

theorem reaped_turn_never_answers_witness:
  "commitTurnOutcome 90000 (demo_outcome ''w'') (fst (reconcileZombies \<lparr>it_total = ''a'', it_partial = ''b''\<rparr> 90000 (demo_db []))) =
     (fst (reconcileZombies \<lparr>it_total = ''a'', it_partial = ''b''\<rparr> 90000 (demo_db [])), Inr False)"
proof (rule reaped_turn_never_answers [OF _ _ _ timed_run.start])
  show "queue_ok demo_chats (db_tasks (demo_db []))"
    by (simp add: queue_ok_def unique_where_def demo_turn_defs demo_defs is_queued_def workspace_of_def)
  show "demo_running ''t1'' ''c1'' ''w'' 0 \<in> set (db_tasks (demo_db []))" by (simp add: demo_turn_defs)
  show "reapable 90000 (demo_running ''t1'' ''c1'' ''w'' 0)"
    by (simp add: reapable_def lease_dead_def demo_defs REAP_MARGIN_MS_def)
  show "o_task (demo_outcome ''w'') = t_id (demo_running ''t1'' ''c1'' ''w'' 0)"
    by (simp add: demo_turn_defs demo_defs)
qed

lemma running_for_None_iff:
  "running_for P tasks m = None \<longleftrightarrow>
     (\<forall>meta k t. m_meta m = Some meta \<longrightarrow> mm_status meta = Some MsgRunning \<longrightarrow> mm_task meta = Some k \<longrightarrow>
        t \<in> set tasks \<longrightarrow> t_id t = k \<longrightarrow> \<not> P t)"
  by (auto simp: running_for_def find_None_iff split: option.split)

lemma continued_by_None_iff:
  "continued_by P tasks m = None \<longleftrightarrow>
     (waits_on_user m \<noteq> None \<longrightarrow> (\<forall>t \<in> set tasks. pl_resume (t_payload t) = Some (m_id m) \<longrightarrow> \<not> P t))"
  by (auto simp: continued_by_def find_None_iff split: option.split)

lemma interrupted_not_live:
  "m_meta (interrupt_message txt effects m) = Some meta \<Longrightarrow> mm_status meta = Some MsgFailed"
  by (auto simp: interrupt_message_def interrupted_meta_def)

lemma reconciled_live:
  assumes "m_meta (reconcile_message txt now tasks effects m) = Some meta" and "mm_status meta \<noteq> Some MsgFailed"
  shows "reconcile_message txt now tasks effects m = m" and "running_for (reapable now) tasks m = None"
    and "running_for stopped_badly tasks m = None" and "continued_by (reapable now) tasks m = None"
  using assms by (auto simp: reconcile_message_def dest: interrupted_not_live split: if_splits)

lemma in_reap_tasks:
  "t \<in> set (reap_tasks now ts) \<longleftrightarrow>
     (\<exists>t0 \<in> set ts. t = (if reapable now t0 then reap_row now t0 else t0))"
  by (auto simp: reap_tasks_def)

lemma reap_row_id [simp]: "t_id (reap_row now t) = t_id t" "t_status (reap_row now t) = Failed"
  "t_payload (reap_row now t) = t_payload t"
  by (simp_all add: reap_row_def set_outcome_def)

lemma reap_tasks_ids: "map t_id (reap_tasks now ts) = map t_id ts"
  unfolding reap_tasks_def by (rule keys_update_where) simp

text \<open>
  The reaper strands no reply: after \<open>reconcileZombies\<close> no message still reads running
  under a task that failed or was cancelled (the ones reaped in the same statement included), and no
  message still waits on the user whose continuation was reaped.
\<close>

theorem reaper_strands_no_reply:
  assumes "reconcileZombies txt now db = (db', zs)" and "m \<in> set (db_messages db')" and "m_meta m = Some meta"
  shows "(mm_status meta = Some MsgRunning \<longrightarrow>
      (\<forall>t \<in> set (db_tasks db'). mm_task meta = Some (t_id t) \<longrightarrow> \<not> stopped_badly t)) \<and>
    (waits_on_user m \<noteq> None \<longrightarrow>
      (\<forall>t \<in> set (db_tasks db). reapable now t \<longrightarrow> pl_resume (t_payload t) \<noteq> Some (m_id m)))"
proof -
  let ?rec = "reconcile_message txt now (db_tasks db) (db_effects db)"
  obtain m0 where m0: "m = ?rec m0" using assms(1,2) by (auto simp: reconcileZombies_def)
  have tasks: "db_tasks db' = reap_tasks now (db_tasks db)"
    using assms(1) by (auto simp: reconcileZombies_def)
  show ?thesis
  proof (cases "mm_status meta = Some MsgFailed")
    case True
    with assms(3) show ?thesis by (simp add: waits_on_user_def)
  next
    case False
    from reconciled_live [OF assms(3) [unfolded m0] False] m0
    have "running_for (reapable now) (db_tasks db) m = None" "running_for stopped_badly (db_tasks db) m = None"
      "continued_by (reapable now) (db_tasks db) m = None" by auto
    with assms(3) show ?thesis
      by (auto simp: tasks in_reap_tasks running_for_None_iff continued_by_None_iff)
  qed
qed

definition demo_texts :: interrupted_texts where
  "demo_texts = \<lparr>it_total = ''lost'', it_partial = ''kept''\<rparr>"

theorem reaper_strands_no_reply_witness:
  "\<exists>m \<in> set (db_messages (fst (reconcileZombies demo_texts 90000 (demo_db [TextPart ''hi''])))).
     m_content m = ''hi'' \<and> waits_on_user m = None"
proof -
  let ?out = "reconcileZombies demo_texts 90000 (demo_db [TextPart ''hi''])"
  let ?m = "hd (db_messages (fst ?out))"
  have shape: "db_messages (fst ?out) = [?m]"
    and meta: "m_meta ?m = Some (interrupted_meta demo_texts True
      \<lparr>mm_task = Some ''t1'', mm_status = Some MsgRunning, mm_error = None, mm_category = None,
       mm_parts = Some [TextPart ''hi''], mm_rest = JNull\<rparr>)"
    and content: "m_content ?m = ''hi''"
    by (simp_all add: reconcileZombies_def reconcile_message_def running_for_def reapable_def lease_dead_def
        demo_turn_defs demo_defs REAP_MARGIN_MS_def interrupt_message_def PRODUCED_WORK_SQL_def
        REPLY_TEXT_SQL_def part_is_work_twin btrim_js_trim js_trim_def js_space_def js_space_unit_def)
  have "?m \<in> set (db_messages (fst ?out))" using shape by (metis list.set_intros(1))
  with reaper_strands_no_reply [of demo_texts 90000 "demo_db [TextPart ''hi'']" "fst ?out" "snd ?out" ?m] meta
  have "waits_on_user ?m = None" by (auto simp: waits_on_user_def interrupted_meta_def)
  with content \<open>?m \<in> _\<close> show ?thesis by blast
qed

lemma live_after_reap:
  "t \<in> set (reap_tasks now ts) \<and> \<not> terminal (t_status t) \<longleftrightarrow>
     t \<in> set ts \<and> \<not> terminal (t_status t) \<and> \<not> reapable now t"
  by (cases "reapable now t") (auto simp: in_reap_tasks reapable_def reap_row_def set_outcome_def)

text \<open>
  The hold sweep is exact: after \<open>reconcileZombies\<close> a usage row is left if and only if it
  was there and is a settled charge, or a pending hold of a task that is still queued or running, or a
  pending hold without a task row that is not yet an hour old.
\<close>

theorem hold_sweep_exact:
  assumes "reconcileZombies txt now db = (db', zs)" and "distinct (map t_id (db_tasks db))"
  shows "u \<in> set (db_usage db') \<longleftrightarrow> u \<in> set (db_usage db) \<and>
     (\<not> u_pending u \<or>
      (\<exists>t \<in> set (db_tasks db'). u_task u = Some (t_id t) \<and> \<not> terminal (t_status t)) \<or>
      ((\<forall>t \<in> set (db_tasks db'). u_task u \<noteq> Some (t_id t)) \<and> now - 3600000 \<le> u_created u))"
proof -
  have db': "db_tasks db' = reap_tasks now (db_tasks db)"
    "db_usage db' = delete_where (stale_hold now (db_tasks db)) (db_usage db)"
    using assms(1) by (auto simp: reconcileZombies_def)
  have same: "t = t'" if "t \<in> set (db_tasks db)" "t' \<in> set (db_tasks db)" "t_id t = t_id t'" for t t'
    using same_key_same_row [OF assms(2)] that by blast
  have owned: "(\<exists>t \<in> set (db_tasks db'). u_task u = Some (t_id t)) \<longleftrightarrow> (\<exists>t \<in> set (db_tasks db). u_task u = Some (t_id t))"
  proof -
    have "(\<exists>t \<in> set ts. u_task u = Some (t_id t)) \<longleftrightarrow> u_task u \<in> Some ` set (map t_id ts)" for ts :: "task_row list" by auto
    then show ?thesis by (simp only: db'(1) reap_tasks_ids)
  qed
  have live: "(\<exists>t \<in> set (db_tasks db'). u_task u = Some (t_id t) \<and> \<not> terminal (t_status t)) \<longleftrightarrow>
      (\<exists>t \<in> set (db_tasks db). u_task u = Some (t_id t) \<and> \<not> terminal (t_status t) \<and> \<not> reapable now t)"
    unfolding db'(1) by (metis live_after_reap)
  have "stale_hold now (db_tasks db) u \<longleftrightarrow> u_pending u \<and>
      \<not> (\<exists>t \<in> set (db_tasks db'). u_task u = Some (t_id t) \<and> \<not> terminal (t_status t)) \<and>
      \<not> ((\<forall>t \<in> set (db_tasks db'). u_task u \<noteq> Some (t_id t)) \<and> now - 3600000 \<le> u_created u)"
  proof (cases "\<exists>t \<in> set (db_tasks db). u_task u = Some (t_id t)")
    case True
    then obtain t where t: "t \<in> set (db_tasks db)" "u_task u = Some (t_id t)" by blast
    then have "\<And>t'. t' \<in> set (db_tasks db) \<Longrightarrow> u_task u = Some (t_id t') \<longleftrightarrow> t' = t" using same by auto
    with t show ?thesis using owned unfolding live stale_hold_def by auto
  next
    case False
    with owned show ?thesis unfolding live stale_hold_def ORPHAN_HOLD_AGE_MS_def by auto
  qed
  then show ?thesis by (auto simp: db'(2))
qed

theorem hold_sweep_exact_witness:
  "demo_hold ''h1'' ''t1'' 0 \<notin> set (db_usage (fst (reconcileZombies demo_texts 90000 (demo_db [])))) \<and>
   demo_hold ''h2'' ''gone'' 0 \<in> set (db_usage (fst (reconcileZombies demo_texts 90000 (demo_db []))))"
proof -
  let ?out = "reconcileZombies demo_texts 90000 (demo_db [])"
  have tasks: "db_tasks (fst ?out) = [reap_row 90000 (demo_running ''t1'' ''c1'' ''w'' 0)]"
    by (simp add: reconcileZombies_def reap_tasks_def reapable_def lease_dead_def demo_turn_defs demo_defs
        REAP_MARGIN_MS_def)
  have exact: "u \<in> set (db_usage (fst ?out)) \<longleftrightarrow> u \<in> set (db_usage (demo_db [])) \<and>
     (\<not> u_pending u \<or>
      (\<exists>t \<in> set (db_tasks (fst ?out)). u_task u = Some (t_id t) \<and> \<not> terminal (t_status t)) \<or>
      ((\<forall>t \<in> set (db_tasks (fst ?out)). u_task u \<noteq> Some (t_id t)) \<and> 90000 - 3600000 \<le> u_created u))" for u
    by (rule hold_sweep_exact [of demo_texts 90000 "demo_db []" "fst ?out" "snd ?out"])
      (simp_all add: demo_turn_defs demo_defs)
  show ?thesis
    unfolding exact by (simp add: tasks) (simp add: demo_turn_defs demo_defs)
qed

subsection \<open>Replies that wait on the user\<close>

lemma settled_ids_append: "settled_ids (xs @ ys) = settled_ids xs @ settled_ids ys"
  by (induction xs) (auto simp: settled_ids_def List.map_filter_def)

lemma settled_ids_results:
  "settled_ids (map (\<lambda>p. ToolResult (f p) (g p) out) ps) = map f ps"
  by (induction ps) (auto simp: settled_ids_def List.map_filter_simps)

lemma unrun_approved_call: "unrun_approved S p \<Longrightarrow> call_id p \<notin> S"
  by (cases p) (auto simp: unrun_approved_def split: option.splits)

lemma unrun_approved_mono: "unrun_approved S p \<Longrightarrow> T \<subseteq> S \<Longrightarrow> unrun_approved T p"
  by (cases p) (auto simp: unrun_approved_def split: option.splits)

lemma sealed_none_left:
  assumes "p \<in> set (sealUnrunApprovals parts reason err)"
  shows "\<not> unrun_approved (set (settled_ids (sealUnrunApprovals parts reason err))) p"
proof
  let ?out = "sealUnrunApprovals parts reason err" and ?S = "set (settled_ids parts)"
  have ids: "set (settled_ids ?out) = ?S \<union> call_id ` {p \<in> set parts. unrun_approved ?S p}"
    by (auto simp: sealUnrunApprovals_def settled_ids_append settled_ids_results)
  assume un: "unrun_approved (set (settled_ids ?out)) p"
  then have "p \<in> set parts" using assms by (auto simp: sealUnrunApprovals_def unrun_approved_def)
  moreover have "unrun_approved ?S p" using un ids by (auto intro: unrun_approved_mono)
  ultimately have "call_id p \<in> set (settled_ids ?out)" using ids by auto
  with unrun_approved_call [OF un] show False by simp
qed

text \<open>
  \<open>sealUnrunApprovals\<close> gives every approved call that never ran exactly its NOT_RUN result:
  the stored parts stay in front, what is appended belongs to approved calls without a result, no such
  call is left, and sealing again, for whatever reason, adds nothing.
\<close>

theorem seal_is_complete_and_idempotent:
  assumes "out = sealUnrunApprovals parts reason err"
  shows "take (length parts) out = parts \<and>
    (\<forall>p \<in> set (drop (length parts) out). \<exists>c \<in> set parts. unrun_approved (set (settled_ids parts)) c \<and>
       p = ToolResult (call_id c) (call_name c) (not_run_output reason err)) \<and>
    (\<forall>p \<in> set out. \<not> unrun_approved (set (settled_ids out)) p) \<and>
    sealUnrunApprovals out reason' err' = out"
proof (intro conjI)
  show none: "\<forall>p \<in> set out. \<not> unrun_approved (set (settled_ids out)) p"
    using sealed_none_left assms by blast
  then show "sealUnrunApprovals out reason' err' = out"
    by (simp add: sealUnrunApprovals_def filter_empty_if)
qed (auto simp: assms sealUnrunApprovals_def)

definition demo_parts :: "stored_part list" where
  "demo_parts =
     [ToolCall ''k1'' ''write'' JNull (Some \<lparr>ap_id = ''a1'', ap_approved = Some True, ap_reason = None\<rparr>) None,
      ToolCall ''k2'' ''ask'' JNull None (Some \<lparr>an_form = JNull, an_value = None\<rparr>),
      ToolCall ''k3'' ''send'' JNull (Some \<lparr>ap_id = ''a3'', ap_approved = None, ap_reason = None\<rparr>) None]"

theorem seal_is_complete_and_idempotent_witness:
  "length (sealUnrunApprovals demo_parts ''stopped'' STOPPED_ERROR) = 4 \<and>
   sealUnrunApprovals (sealUnrunApprovals demo_parts ''stopped'' STOPPED_ERROR) ''rule_changed'' [] =
     sealUnrunApprovals demo_parts ''stopped'' STOPPED_ERROR"
  using seal_is_complete_and_idempotent [OF refl, of demo_parts "''stopped''" STOPPED_ERROR "''rule_changed''" "[]"]
  by (simp add: sealUnrunApprovals_def demo_parts_def unrun_approved_def settled_ids_def List.map_filter_simps)

text \<open>A call with an undecided approval and an unanswered question at once: the loop settles only its
  approval.\<close>

definition both_open :: "stored_part \<Rightarrow> bool" where
  "both_open p \<longleftrightarrow>
     (case p of
        ToolCall _ _ _ (Some a) (Some w) \<Rightarrow> ap_approved a = None \<and> an_value w = None
      | _ \<Rightarrow> False)"

lemma move_past_settles:
  assumes "\<not> both_open p"
  shows "\<not> part_waiting (fst (move_past p))"
  using assms
  by (cases p rule: move_past.cases) (auto simp: part_waiting_def both_open_def split: if_splits option.splits)

lemma move_past_answer: "snd (move_past p) = Some q \<Longrightarrow> \<not> part_waiting q"
  by (cases p rule: move_past.cases) (auto simp: part_waiting_def split: if_splits option.splits)

lemma move_past_keeps: "\<not> part_waiting p \<Longrightarrow> move_past p = (p, None)"
  by (cases p rule: move_past.cases) (auto simp: part_waiting_def split: if_splits option.splits)

lemma moved_parts_settled:
  assumes "\<not> list_ex both_open parts"
  shows "\<not> list_ex part_waiting (moved_parts parts)"
  using assms
  by (auto simp: moved_parts_def list_ex_iff List.map_filter_def dest: move_past_answer move_past_settles)

text \<open>
  When nothing interferes, \<open>settleMovedPast\<close> completes exactly the waiting reply it is given:
  its row alone changes, every part that did not wait is kept, and nothing in it waits any more (a call
  carries an approval or a question, not both undecided).
\<close>

theorem moved_past_reply_is_settled:
  assumes "distinct (map m_id ms)" and "m \<in> set ms" and "waits_on_user m = Some meta"
    and "list_ex part_waiting (parts_of meta)"
    and "\<not> list_ex both_open (parts_of meta)"
  shows "\<exists>meta'. settleMovedPast (\<lambda>_. id) (m_id m) ms =
      update_where (\<lambda>x. m_id x = m_id m) (\<lambda>x. x\<lparr>m_meta := Some meta'\<rparr>) ms \<and>
    mm_status meta' = Some MsgCompleted \<and> \<not> list_ex part_waiting (parts_of meta') \<and>
    (\<forall>p \<in> set (parts_of meta). \<not> part_waiting p \<longrightarrow> p \<in> set (parts_of meta'))"
proof -
  let ?meta = "meta\<lparr>mm_status := Some MsgCompleted, mm_parts := Some (moved_parts (parts_of meta))\<rparr>"
  have row: "m_meta m = Some meta" using assms(3) by (auto simp: waits_on_user_def split: option.splits if_splits)
  have read: "read_waiting (m_id m) ms = Some meta"
    using assms(1-3) by (simp add: read_waiting_def find_row_Some_iff [THEN iffD2])
  have same: "x \<in> set ms \<Longrightarrow> m_id x = m_id m \<Longrightarrow> m_meta x = Some meta" for x
    using same_key_same_row [OF assms(1) _ assms(2)] row by blast
  have run: "settleMovedPast (\<lambda>_. id) (m_id m) ms = fst (write_meta_if (m_id m) meta ?meta ms)"
    using read assms(2,4) row by (auto simp: settleMovedPast_def numeral_3_eq_3 write_meta_if_def Let_def)
  have "\<And>p. p \<in> set (parts_of meta) \<Longrightarrow> \<not> part_waiting p \<Longrightarrow> p \<in> set (moved_parts (parts_of meta))"
    by (force simp: moved_parts_def move_past_keeps)
  moreover have "fst (write_meta_if (m_id m) meta ?meta ms) =
      update_where (\<lambda>x. m_id x = m_id m) (\<lambda>x. x\<lparr>m_meta := Some ?meta\<rparr>) ms"
    using same by (auto simp: write_meta_if_def update_where_def)
  ultimately show ?thesis
    unfolding run using moved_parts_settled [OF assms(5)]
    by (intro exI [of _ ?meta]) (simp add: parts_of_def)
qed

definition demo_waiting :: message_row where
  "demo_waiting = demo_task_message MsgAwaitingApproval demo_parts"

theorem moved_past_reply_is_settled_witness:
  "\<exists>meta'. settleMovedPast (\<lambda>_. id) ''m1'' [demo_waiting] = [demo_waiting\<lparr>m_meta := Some meta'\<rparr>] \<and>
     mm_status meta' = Some MsgCompleted \<and> \<not> list_ex part_waiting (parts_of meta')"
proof -
  have meta: "waits_on_user demo_waiting = Some (the (m_meta demo_waiting))"
    by (simp add: demo_waiting_def demo_task_message_def waits_on_user_def)
  have parts: "parts_of (the (m_meta demo_waiting)) = demo_parts" and mid: "m_id demo_waiting = ''m1''"
    by (simp_all add: demo_waiting_def demo_task_message_def parts_of_def)
  have "list_ex part_waiting demo_parts" "\<not> list_ex both_open demo_parts"
    by (simp_all add: demo_parts_def part_waiting_def both_open_def)
  with moved_past_reply_is_settled [of "[demo_waiting]" demo_waiting, OF _ _ meta] parts mid
  show ?thesis by auto
qed

text \<open>Call \<open>i\<close> of the message carries the user's decision \<open>a\<close>.\<close>

definition decided_as :: "ident \<Rightarrow> ident \<Rightarrow> approval \<Rightarrow> message_row list \<Rightarrow> bool" where
  "decided_as mid i a ms \<longleftrightarrow>
     (\<exists>m \<in> set ms. m_id m = mid \<and>
        (\<exists>meta. m_meta m = Some meta \<and>
           (\<exists>n inp ans. ToolCall i n inp (Some a) ans \<in> set (parts_of meta) \<and> ap_approved a \<noteq> None)))"

lemma move_past_decided:
  assumes "ap_approved a \<noteq> None"
  shows "\<exists>ans'. fst (move_past (ToolCall i n inp (Some a) ans)) = ToolCall i n inp (Some a) ans'"
  using assms by (auto split: option.splits)

lemma moved_parts_decided:
  assumes "ToolCall i n inp (Some a) ans \<in> set parts" and "ap_approved a \<noteq> None"
  shows "\<exists>ans'. ToolCall i n inp (Some a) ans' \<in> set (moved_parts parts)"
proof -
  obtain ans' where "fst (move_past (ToolCall i n inp (Some a) ans)) = ToolCall i n inp (Some a) ans'"
    using move_past_decided [OF assms(2)] by blast
  with assms(1) have "ToolCall i n inp (Some a) ans' \<in> (fst \<circ> move_past) ` set parts" by force
  then show ?thesis by (auto simp: moved_parts_def)
qed

lemma moved_write_decided:
  assumes "decided_as mid i a ms"
  shows "decided_as mid i a (fst (write_meta_if mid' seen
    (seen\<lparr>mm_status := st, mm_parts := Some (moved_parts (parts_of seen))\<rparr>) ms))"
proof -
  obtain m meta n inp ans where m: "m \<in> set ms" "m_id m = mid" "m_meta m = Some meta"
    and call: "ToolCall i n inp (Some a) ans \<in> set (parts_of meta)" "ap_approved a \<noteq> None"
    using assms by (auto simp: decided_as_def)
  let ?P = "\<lambda>x. m_id x = mid' \<and> m_meta x = Some seen"
  let ?new = "seen\<lparr>mm_status := st, mm_parts := Some (moved_parts (parts_of seen))\<rparr>"
  let ?m = "if ?P m then m\<lparr>m_meta := Some ?new\<rparr> else m"
  have "?m \<in> set (update_where ?P (\<lambda>x. x\<lparr>m_meta := Some ?new\<rparr>) ms)" using m(1) by auto
  moreover have "m_id ?m = mid" using m(2) by simp
  moreover have "\<exists>meta'. m_meta ?m = Some meta' \<and>
      (\<exists>n inp ans. ToolCall i n inp (Some a) ans \<in> set (parts_of meta'))"
    using m(3) call moved_parts_decided [of i n inp a ans "parts_of seen"]
    by (auto simp: parts_of_def [of ?new])
  ultimately show ?thesis using call(2) unfolding decided_as_def write_meta_if_def fst_conv by blast
qed

lemma settle_moved_past_decided:
  assumes "\<And>k x. decided_as mid i a x \<Longrightarrow> decided_as mid i a (env k x)"
  shows "decided_as mid i a ms \<Longrightarrow> decided_as mid i a (settle_moved_past n env k mid' ms)"
proof (induction n arbitrary: k ms)
  case 0
  then show ?case by simp
next
  case (Suc n)
  let ?ms1 = "env k ms"
  have now: "decided_as mid i a ?ms1" using assms Suc.prems .
  show ?case
  proof (cases "read_waiting mid' ?ms1")
    case None
    with now show ?thesis by simp
  next
    case (Some seen)
    let ?new = "seen\<lparr>mm_status := Some MsgCompleted, mm_parts := Some (moved_parts (parts_of seen))\<rparr>"
    obtain ms2 won where wr: "write_meta_if mid' seen ?new (env (Suc k) ?ms1) = (ms2, won)" by fastforce
    have "decided_as mid i a ms2"
      using moved_write_decided [OF assms [OF now], of mid' seen] wr by (metis fst_conv)
    with Suc.IH now Some wr show ?thesis by (simp add: Let_def)
  qed
qed

text \<open>
  Property C4. A user's decision is never overwritten by \<open>settleMovedPast\<close>: whether it is on the row
  before, or lands between the read and the write of the first attempt, the row carries it afterwards,
  when no other process takes decisions back (unless nothing waited and nothing was written).
\<close>

theorem decisions_survive_moving_past:
  assumes "\<And>k x. decided_as mid i a x \<Longrightarrow> decided_as mid i a (env k x)"
    and "decided_as mid i a ms \<or> (\<forall>x. decided_as mid i a (env 1 x))"
  shows "decided_as mid i a (settleMovedPast env mid ms) \<or> settleMovedPast env mid ms = env 0 ms"
proof (cases "decided_as mid i a ms")
  case True
  then have "decided_as mid i a (settle_moved_past 3 env 0 mid ms)"
    by (rule settle_moved_past_decided [rotated]) (rule assms(1))
  then show ?thesis by (simp add: settleMovedPast_def)
next
  case False
  with assms(2) have late: "decided_as mid i a (env 1 x)" for x by blast
  show ?thesis
  proof (cases "read_waiting mid (env 0 ms)")
    case None
    then show ?thesis by (simp add: settleMovedPast_def numeral_3_eq_3)
  next
    case (Some seen)
    let ?new = "seen\<lparr>mm_status := Some MsgCompleted, mm_parts := Some (moved_parts (parts_of seen))\<rparr>"
    obtain ms2 won where wr: "write_meta_if mid seen ?new (env 1 (env 0 ms)) = (ms2, won)" by fastforce
    have "decided_as mid i a ms2"
      using moved_write_decided [OF late, of mid seen] wr by (metis fst_conv)
    then have rest: "decided_as mid i a (settle_moved_past 2 env 2 mid ms2)"
      by (rule settle_moved_past_decided [rotated]) (rule assms(1))
    have "settleMovedPast env mid ms \<in> {env 0 ms, ms2, settle_moved_past 2 env 2 mid ms2}"
      using Some wr settle_moved_past.simps(2) [of 2 env 0 mid ms]
      by (simp add: settleMovedPast_def Let_def numeral_2_eq_2 numeral_3_eq_3 del: settle_moved_past.simps)
    with rest \<open>decided_as mid i a ms2\<close> show ?thesis by auto
  qed
qed

definition demo_decision :: approval where
  "demo_decision = \<lparr>ap_id = ''a3'', ap_approved = Some True, ap_reason = None\<rparr>"

definition demo_decided :: message_row where
  "demo_decided = demo_task_message MsgAwaitingApproval [ToolCall ''k3'' ''send'' JNull (Some demo_decision) None]"

lemma demo_decided_as: "decided_as ''m1'' ''k3'' demo_decision [demo_decided]"
  by (simp add: decided_as_def demo_decided_def demo_task_message_def parts_of_def demo_decision_def)

theorem decisions_survive_moving_past_witness:
  "decided_as ''m1'' ''k3'' demo_decision
     (settleMovedPast (\<lambda>k x. if k = 1 then [demo_decided] else x) ''m1'' [demo_waiting])"
proof -
  let ?env = "\<lambda>k x. if k = (1::nat) then [demo_decided] else x"
  have "settleMovedPast ?env ''m1'' [demo_waiting] \<noteq> ?env 0 [demo_waiting]"
    by (simp add: settleMovedPast_def numeral_3_eq_3 read_waiting_def waits_on_user_def write_meta_if_def
        demo_waiting_def demo_decided_def demo_task_message_def demo_parts_def part_waiting_def parts_of_def
        demo_decision_def)
  moreover have "decided_as ''m1'' ''k3'' demo_decision (settleMovedPast ?env ''m1'' [demo_waiting]) \<or>
      settleMovedPast ?env ''m1'' [demo_waiting] = ?env 0 [demo_waiting]"
    by (rule decisions_survive_moving_past) (auto simp: demo_decided_as)
  ultimately show ?thesis by blast
qed

subsection \<open>Cancelling a queued turn\<close>

lemma cancel_cases:
  assumes "cancelQueuedTurn env hold_ok now task chat db = (db', res, evs)"
  obtains (plain) "res = Removed" "evs = [TaskFinish task chat Cancelled None]"
      "\<exists>r \<in> set (db_tasks (env 0 db)). t_id r = task \<and> is_queued r \<and> \<not> is_continuation r"
      "db_tasks db' = delete_where (\<lambda>r. t_id r = task \<and> is_queued r \<and> \<not> is_continuation r) (db_tasks (env 0 db))"
      "db_usage db' = releaseHold hold_ok task (db_usage (env 0 db))"
      "db_messages db' = db_messages (env 0 db)"
  | (continuation) r where "res = Removed" "evs = [TaskFinish task chat Cancelled None]"
      "r \<in> set (db_tasks (env 1 (env 0 db)))" "t_id r = task" "is_queued r"
      "db_tasks db' = delete_queued task (db_tasks (env 1 (env 0 db)))"
      "db_usage db' = releaseHold hold_ok task (db_usage (env 1 (env 0 db)))"
      "\<exists>env'. db_messages db' = (case pl_resume (t_payload r) of
         Some mid \<Rightarrow> settleCancelledContinuation env' mid (db_messages (env 1 (env 0 db)))
       | None \<Rightarrow> db_messages (env 1 (env 0 db))) \<and>
       ((\<forall>d. env 2 d = d) \<longrightarrow> (\<forall>x. env' x = x))"
  | (flagged) "res = Flagged" "evs = []"
      "\<forall>r \<in> set (db_tasks (env 1 (env 0 db))). \<not> (t_id r = task \<and> is_queued r)"
      "db' = (env 2 (env 1 (env 0 db)))\<lparr>db_tasks := requestCancel now task (db_tasks (env 2 (env 1 (env 0 db))))\<rparr>"
proof -
  let ?plain = "\<lambda>r. t_id r = task \<and> is_queued r \<and> \<not> is_continuation r"
  let ?db1 = "env 1 (env 0 db)"
  show thesis
  proof (cases "find ?plain (db_tasks (env 0 db))")
    case (Some r)
    then have "r \<in> set (db_tasks (env 0 db))" "?plain r" by (auto simp: find_Some_iff)
    with Some assms show thesis by (intro plain) (auto simp: cancelQueuedTurn_def Let_def)
  next
    case none: None
    show thesis
    proof (cases "find (\<lambda>r. t_id r = task \<and> is_queued r) (db_tasks ?db1)")
      case None
      have "\<forall>r \<in> set (db_tasks ?db1). \<not> (t_id r = task \<and> is_queued r)" using None by (auto simp: find_None_iff)
      with none None assms show thesis by (intro flagged) (simp_all add: cancelQueuedTurn_def Let_def)
    next
      case (Some r)
      let ?db2 = "?db1\<lparr>db_tasks := delete_queued task (db_tasks ?db1)\<rparr>"
      have "r \<in> set (db_tasks ?db1)" "t_id r = task" "is_queued r" using Some by (auto simp: find_Some_iff)
      with none Some assms show thesis
        by (intro continuation [of r])
          (auto simp: cancelQueuedTurn_def Let_def split: option.splits
            intro!: exI [of _ "\<lambda>ms. db_messages (env 2 (?db2\<lparr>db_messages := ms\<rparr>))"])
    qed
  qed
qed

lemma cancel_flag_set: "\<forall>r \<in> set (requestCancel now task t). t_id r = task \<longrightarrow> t_cancel r"
  unfolding requestCancel_def by (induction t) (simp_all del: set_update_where)

text \<open>
  \<open>cancelQueuedTurn\<close> always leaves a cancelled turn, whatever other processes commit between
  its statements: either no queued row of the task is left, its pending hold went with it and the
  finish event was published, or a worker has claimed it, nothing is published or released and the
  task's row, if there is one, carries the cancel flag.
\<close>

theorem cancelled_queued_turn_ends:
  assumes "cancelQueuedTurn env True now task chat db = (db', res, evs)"
    and "\<And>k d. distinct (map t_id (db_tasks d)) \<Longrightarrow> distinct (map t_id (db_tasks (env k d)))"
    and "distinct (map t_id (db_tasks db))"
  shows "case res of
      Removed \<Rightarrow> (\<forall>r \<in> set (db_tasks db'). t_id r \<noteq> task) \<and> evs = [TaskFinish task chat Cancelled None] \<and>
        (\<forall>u \<in> set (db_usage db'). \<not> (u_task u = Some task \<and> u_pending u))
    | Flagged \<Rightarrow> evs = [] \<and> (\<forall>r \<in> set (db_tasks db'). t_id r = task \<longrightarrow> t_cancel r) \<and>
        db_usage db' = db_usage (env 2 (env 1 (env 0 db)))"
  using assms(1)
proof (cases rule: cancel_cases)
  case plain
  from plain(3) obtain r where r: "r \<in> set (db_tasks (env 0 db))" "t_id r = task" "is_queued r" "\<not> is_continuation r" by blast
  have "\<forall>x \<in> set (db_tasks db'). t_id x \<noteq> task"
    unfolding plain(4) r(2) [symmetric]
    by (rule delete_where_unique [OF assms(2) [OF assms(3)] r(1)]) (simp add: r(3,4))
  with plain(1,2,5) show ?thesis by (simp add: releaseHold_def)
next
  case (continuation r)
  have "\<forall>x \<in> set (db_tasks db'). t_id x \<noteq> task"
    unfolding continuation(6) delete_queued_def continuation(4) [symmetric]
    by (rule delete_where_unique [OF assms(2) [OF assms(2) [OF assms(3)]] continuation(3)])
      (simp add: continuation(5))
  with continuation(1,2,7) show ?thesis by (simp add: releaseHold_def)
next
  case flagged
  show ?thesis unfolding flagged(1,2,4) by (simp add: cancel_flag_set del: set_update_where)
qed

lemma settled_continuation:
  assumes "distinct (map m_id ms)" and "m \<in> set ms" and "waits_on_user m = Some meta"
    and "\<And>x. env x = x"
  shows "settleCancelledContinuation env (m_id m) ms = update_where (\<lambda>x. m_id x = m_id m)
     (\<lambda>x. x\<lparr>m_meta := Some (meta\<lparr>mm_status := Some MsgCancelled,
        mm_parts := Some (sealUnrunApprovals (parts_of meta) ''stopped'' STOPPED_ERROR)\<rparr>)\<rparr>) ms"
proof -
  have row: "m_meta m = Some meta" using assms(3) by (auto simp: waits_on_user_def split: option.splits if_splits)
  have "read_waiting (m_id m) ms = Some meta"
    using assms(1-3) by (simp add: read_waiting_def find_row_Some_iff [THEN iffD2])
  moreover have "x \<in> set ms \<Longrightarrow> m_id x = m_id m \<Longrightarrow> m_meta x = Some meta" for x
    using same_key_same_row [OF assms(1) _ assms(2)] row by blast
  ultimately show ?thesis
    by (auto simp: settleCancelledContinuation_def write_meta_if_def update_where_def assms(4))
qed

text \<open>
  Cancelling a queued continuation settles the reply it was to finish, in the same
  transaction: the message no longer waits on the user, reads cancelled, and no approved call of it is
  left without a result.
\<close>

theorem cancelled_continuation_settles_reply:
  assumes "cancelQueuedTurn (\<lambda>_ d. d) True now task chat db = (db', res, evs)"
    and "distinct (map t_id (db_tasks db))" and "distinct (map m_id (db_messages db))"
    and "r \<in> set (db_tasks db)" and "t_id r = task" and "is_queued r"
    and "pl_resume (t_payload r) = Some (m_id m)" and "m \<in> set (db_messages db)" and "waits_on_user m = Some meta"
  shows "res = Removed \<and> (\<exists>m' \<in> set (db_messages db'). m_id m' = m_id m \<and>
     (\<exists>meta'. m_meta m' = Some meta' \<and> mm_status meta' = Some MsgCancelled \<and> waits_on_user m' = None \<and>
       (\<forall>p \<in> set (parts_of meta'). \<not> unrun_approved (set (settled_ids (parts_of meta'))) p)))"
  using assms(1)
proof (cases rule: cancel_cases)
  case plain
  then obtain x where "x \<in> set (db_tasks db)" "t_id x = task" "\<not> is_continuation x" by auto
  with same_key_same_row [OF assms(2) _ assms(4)] assms(5,7) show ?thesis by (auto simp: is_continuation_def)
next
  case (continuation x)
  then have "x = r" using same_key_same_row [OF assms(2) _ assms(4)] assms(5) by auto
  with continuation(8) assms(7) obtain env' where
    msgs: "db_messages db' = settleCancelledContinuation env' (m_id m) (db_messages db)" and idle: "\<And>x. env' x = x"
    by auto
  let ?meta = "meta\<lparr>mm_status := Some MsgCancelled,
      mm_parts := Some (sealUnrunApprovals (parts_of meta) ''stopped'' STOPPED_ERROR)\<rparr>"
  have "m\<lparr>m_meta := Some ?meta\<rparr> \<in> set (db_messages db')"
    unfolding msgs settled_continuation [OF assms(3,8,9) idle] by (rule update_where_hit [OF assms(8)]) simp
  then show ?thesis
    using continuation(1) sealed_none_left [of _ "parts_of meta" "''stopped''" STOPPED_ERROR]
    by (intro conjI bexI [of _ "m\<lparr>m_meta := Some ?meta\<rparr>"])
      (simp_all add: parts_of_def [of ?meta] waits_on_user_def)
next
  case flagged
  with assms(4-6) show ?thesis by auto
qed

definition demo_continuation :: task_row where
  "demo_continuation =
     (demo_queued ''t1'' ''c1'' 0)\<lparr>t_payload := \<lparr>pl_resume = Some ''m1'', pl_rest = JNull\<rparr>\<rparr>"

definition demo_queue_db :: "task_row \<Rightarrow> database" where
  "demo_queue_db r =
     \<lparr>db_tasks = [r], db_chats = demo_chats, db_messages = [demo_waiting],
      db_usage = [demo_hold ''h1'' ''t1'' 0], db_effects = []\<rparr>"

lemma demo_continuation_simps:
  "t_id demo_continuation = ''t1''" "is_queued demo_continuation" "is_continuation demo_continuation"
  "pl_resume (t_payload demo_continuation) = Some ''m1''"
  by (simp_all add: demo_continuation_def demo_queued_def demo_input_def is_queued_def is_continuation_def)

theorem cancelled_queued_turn_ends_witness:
  "\<exists>db' evs. cancelQueuedTurn (\<lambda>_ d. d) True 5 ''t1'' ''c1'' (demo_queue_db demo_continuation) = (db', Removed, evs) \<and>
     (\<forall>u \<in> set (db_usage db'). u_task u \<noteq> Some ''t1'' \<or> \<not> u_pending u)"
proof -
  let ?run = "cancelQueuedTurn (\<lambda>_ d. d) True 5 ''t1'' ''c1'' (demo_queue_db demo_continuation)"
  have res: "fst (snd ?run) = Removed"
    by (simp add: cancelQueuedTurn_def demo_queue_db_def demo_continuation_simps)
  have "case fst (snd ?run) of
      Removed \<Rightarrow> (\<forall>r \<in> set (db_tasks (fst ?run)). t_id r \<noteq> ''t1'') \<and>
        snd (snd ?run) = [TaskFinish ''t1'' ''c1'' Cancelled None] \<and>
        (\<forall>u \<in> set (db_usage (fst ?run)). \<not> (u_task u = Some ''t1'' \<and> u_pending u))
    | Flagged \<Rightarrow> snd (snd ?run) = [] \<and> (\<forall>r \<in> set (db_tasks (fst ?run)). t_id r = ''t1'' \<longrightarrow> t_cancel r) \<and>
        db_usage (fst ?run) = db_usage (demo_queue_db demo_continuation)"
    by (rule cancelled_queued_turn_ends [where env = "\<lambda>_ d. d" and now = 5 and db = "demo_queue_db demo_continuation"])
      (simp_all add: demo_queue_db_def)
  with res have "?run = (fst ?run, Removed, snd (snd ?run)) \<and>
      (\<forall>u \<in> set (db_usage (fst ?run)). u_task u \<noteq> Some ''t1'' \<or> \<not> u_pending u)"
    by (auto simp: prod_eq_iff)
  then show ?thesis by blast
qed

theorem cancelled_continuation_settles_reply_witness:
  "\<exists>db' evs. cancelQueuedTurn (\<lambda>_ d. d) True 5 ''t1'' ''c1'' (demo_queue_db demo_continuation) = (db', Removed, evs) \<and>
     (\<exists>m' \<in> set (db_messages db'). m_id m' = ''m1'' \<and> waits_on_user m' = None)"
proof -
  let ?run = "cancelQueuedTurn (\<lambda>_ d. d) True 5 ''t1'' ''c1'' (demo_queue_db demo_continuation)"
  have meta: "waits_on_user demo_waiting = Some (the (m_meta demo_waiting))" and mid: "m_id demo_waiting = ''m1''"
    by (simp_all add: demo_waiting_def demo_task_message_def waits_on_user_def)
  have split: "?run = (fst ?run, fst (snd ?run), snd (snd ?run))" by simp
  show ?thesis
    using cancelled_continuation_settles_reply [OF split, of demo_continuation demo_waiting, OF _ _ _ _ _ _ _ meta]
    by (auto simp: demo_queue_db_def demo_continuation_simps mid prod_eq_iff)
qed

end
