(* ===== verification/Spend_Budget.thy ===== *)
theory Spend_Budget
  imports Db_Schema "HOL-Library.Sublist"
begin

section \<open>Prices, the usage ledger and spend budgets\<close>

text \<open>
  \<open>src/lib/models/catalog.ts\<close> (the two price lookups and their caches), \<open>src/lib/pricing.ts\<close>,
  \<open>src/lib/usage.ts\<close> and \<open>src/lib/billing/limits.ts\<close>. Money is a rational; what reaches the
  \<open>numeric(18, 8)\<close> column is rounded to eight decimals by \<open>to_money\<close>. The start of the current month
  is an argument of the queries, as \<open>date_trunc('month', now())\<close> is of the statement.
\<close>

subsection \<open>Price lookup (catalog.ts)\<close>

record model_price =
  mp_input :: rat
  mp_output :: rat
  mp_cache_read :: rat
  mp_cache_write :: rat

text \<open>A read-through cache: an entry without expiry lives until the next sync clears the map.\<close>

type_synonym 'v price_cache = "(string \<times> 'v \<times> time option) list"

definition CACHE_MAX :: nat where "CACHE_MAX = 5000"
definition NULL_TTL_MS :: int where "NULL_TTL_MS = 60000"
definition LIVE_PRICE_TTL_MS :: int where "LIVE_PRICE_TTL_MS = 5 * 60000"

definition cacheGet :: "time \<Rightarrow> 'v price_cache \<Rightarrow> string \<Rightarrow> 'v option" where
  "cacheGet now m key =
     (case map_of m key of
        Some (v, None) \<Rightarrow> Some v
      | Some (v, Some e) \<Rightarrow> if now < e then Some v else None
      | None \<Rightarrow> None)"

definition cacheSet :: "time \<Rightarrow> 'v price_cache \<Rightarrow> string \<Rightarrow> 'v \<Rightarrow> bool \<Rightarrow> 'v price_cache" where
  "cacheSet now m key v is_null =
     (let m' = (if CACHE_MAX < length m then [] else m) in
      (key, v, if is_null then Some (now + NULL_TTL_MS) else None) # filter (\<lambda>e. fst e \<noteq> key) m')"

text \<open>\<open>modelId\<close> without its provider: what follows the first slash.\<close>

definition stripped_id :: "string \<Rightarrow> string" where
  "stripped_id s = (if CHR ''/'' \<in> set s then tl (dropWhile (\<lambda>c. c \<noteq> CHR ''/'') s) else s)"

text \<open>SQL's \<open>LIKE\<close> (with the default escape character): the pattern of the lookup is not escaped, so a
  wildcard in the id stays one.\<close>

fun sql_like :: "string \<Rightarrow> string \<Rightarrow> bool" where
  "sql_like [] s = (s = [])"
| "sql_like (p # ps) s =
     (if p = CHR ''%'' then list_ex (sql_like ps) (suffixes s)
      else if p = CHR ''_'' then (case s of [] \<Rightarrow> False | c # cs \<Rightarrow> sql_like ps cs)
      else if p = CHR 0x5C \<and> ps \<noteq> [] then
        (case s of [] \<Rightarrow> False | c # cs \<Rightarrow> c = hd ps \<and> sql_like (tl ps) cs)
      else (case s of [] \<Rightarrow> False | c # cs \<Rightarrow> c = p \<and> sql_like ps cs))"

record model_row =
  mo_id :: string
  mo_input :: "rat option"
  mo_output :: "rat option"
  mo_cache_read :: "rat option"
  mo_cache_write :: "rat option"

definition or_zero :: "rat option \<Rightarrow> rat" where
  "or_zero x = (case x of Some r \<Rightarrow> r | None \<Rightarrow> 0)"

definition price_of_row :: "model_row \<Rightarrow> model_price option" where
  "price_of_row r =
     map_option (\<lambda>i. \<lparr>mp_input = i, mp_output = or_zero (mo_output r), mp_cache_read = or_zero (mo_cache_read r),
       mp_cache_write = (case mo_cache_write r of Some w \<Rightarrow> w | None \<Rightarrow> i)\<rparr>) (mo_input r)"

definition model_match :: "string \<Rightarrow> model_row \<Rightarrow> bool" where
  "model_match model r \<longleftrightarrow>
     mo_id r = model \<or> mo_id r = stripped_id model \<or> sql_like (''%/'' @ stripped_id model) (mo_id r)"

text \<open>\<open>getModelPrice\<close>: at most five matching rows, the exact one first, else the first with a price.\<close>

definition getModelPrice ::
  "time \<Rightarrow> model_row list \<Rightarrow> model_price option price_cache \<Rightarrow> string \<Rightarrow>
   model_price option price_cache \<times> model_price option" where
  "getModelPrice now models cache model =
     (case cacheGet now cache model of
        Some v \<Rightarrow> (cache, v)
      | None \<Rightarrow>
          (let rows = take 5 (filter (model_match model) models);
               exact = (case find (\<lambda>r. mo_id r = model) rows of
                          Some r \<Rightarrow> Some r
                        | None \<Rightarrow> find (\<lambda>r. mo_input r \<noteq> None) rows);
               price = Option.bind exact price_of_row
           in (cacheSet now cache model price (price = None), price)))"

text \<open>The live price book: the parsed response of the fetch is an argument (\<open>None\<close> when it failed).\<close>

type_synonym price_book = "(string \<times> model_price) list"

record live_prices =
  lp_book :: "(time \<times> price_book) option"
  lp_cache :: "model_price option price_cache"

definition live_lookup :: "price_book \<Rightarrow> string \<Rightarrow> model_price option" where
  "live_lookup book model =
     (case map_of book model of
        Some p \<Rightarrow> Some p
      | None \<Rightarrow>
          (if stripped_id model \<noteq> model
           then map_option snd (find (\<lambda>(i, _). i = stripped_id model \<or> suffix (CHR ''/'' # stripped_id model) i) book)
           else None))"

definition getLiveModelPrice ::
  "time \<Rightarrow> price_book option \<Rightarrow> live_prices \<Rightarrow> string \<Rightarrow> live_prices \<times> model_price option" where
  "getLiveModelPrice now fetched st model =
     (case cacheGet now (lp_cache st) model of
        Some v \<Rightarrow> (st, v)
      | None \<Rightarrow>
          (let fresh = (case lp_book st of
                 Some (at0, book) \<Rightarrow>
                   if LIVE_PRICE_TTL_MS < now - at0 then map_option (\<lambda>b. (now, b)) fetched else Some (at0, book)
               | None \<Rightarrow> map_option (\<lambda>b. (now, b)) fetched)
           in case fresh of
                None \<Rightarrow> (st, None)
              | Some (at0, book) \<Rightarrow>
                  (let price = live_lookup book model in
                   (\<lparr>lp_book = Some (at0, book), lp_cache = cacheSet now (lp_cache st) model price (price = None)\<rparr>,
                    price))))"

subsection \<open>Cost of a call (pricing.ts)\<close>

record token_usage =
  tk_input :: "nat option"
  tk_output :: "nat option"
  tk_cached :: "nat option"
  tk_cache_write :: "nat option"

definition or0 :: "nat option \<Rightarrow> nat" where
  "or0 x = (case x of Some n \<Rightarrow> n | None \<Rightarrow> 0)"

definition computeCost :: "model_price \<Rightarrow> token_usage \<Rightarrow> rat" where
  "computeCost price u =
     of_nat (or0 (tk_input u)) * mp_input price + of_nat (or0 (tk_output u)) * mp_output price +
     of_nat (or0 (tk_cached u)) * mp_cache_read price + of_nat (or0 (tk_cache_write u)) * mp_cache_write price"

record sdk_usage =
  sdk_input :: "nat option"
  sdk_output :: "nat option"
  sdk_cached :: "nat option"
  sdk_no_cache :: "nat option" \<comment> \<open>\<open>inputTokenDetails.noCacheTokens\<close>\<close>
  sdk_cache_write :: "nat option" \<comment> \<open>\<open>inputTokenDetails.cacheWriteTokens\<close>\<close>

text \<open>\<open>Math.max(0, input - cached - cacheWrite)\<close> is truncated subtraction.\<close>

definition toTokenUsage :: "sdk_usage option \<Rightarrow> token_usage option" where
  "toTokenUsage usage =
     map_option (\<lambda>u.
       let cached = or0 (sdk_cached u); write_tokens = or0 (sdk_cache_write u) in
       \<lparr>tk_input = Some (case sdk_no_cache u of Some n \<Rightarrow> n | None \<Rightarrow> or0 (sdk_input u) - cached - write_tokens),
        tk_output = Some (or0 (sdk_output u)), tk_cached = Some cached,
        tk_cache_write = (if 0 < write_tokens then Some write_tokens else None)\<rparr>) usage"

text \<open>Rounding to \<open>numeric(18, 8)\<close>, half away from zero.\<close>

definition to_money :: "rat \<Rightarrow> rat" where
  "to_money x =
     (if 0 \<le> x then of_int \<lfloor>x * 100000000 + 1 / 2\<rfloor> / 100000000
      else - (of_int \<lfloor>- x * 100000000 + 1 / 2\<rfloor> / 100000000))"

subsection \<open>Recording usage (usage.ts)\<close>

record user_row =
  us_id :: ident
  us_tier :: "ident option"

text \<open>What a \<open>numeric\<close> cap column holds: a number, or the \<open>NaN\<close> it also admits.\<close>

datatype numeric_text = Finite rat | NonFinite

record tier_row =
  ti_id :: ident
  ti_name :: string
  ti_5h :: "numeric_text option"
  ti_week :: "numeric_text option"
  ti_month :: "numeric_text option"
  ti_default :: "bool option"

record budget_db =
  bd_users :: "user_row list"
  bd_tiers :: "tier_row list"
  bd_usage :: "usage_row list"

record usage_input =
  ui_task :: "ident option"
  ui_message :: "ident option"
  ui_user :: ident
  ui_provider :: string
  ui_config :: "ident option"
  ui_model :: string
  ui_usage :: token_usage
  ui_shared :: "bool option"
  ui_cost :: "rat option option" \<comment> \<open>None: not computed by the caller\<close>
  ui_purpose :: "string option"

text \<open>\<open>costUsd\<close> of \<open>pricing.ts\<close>: the price looked up, the cost computed.\<close>

definition costUsd ::
  "time \<Rightarrow> model_row list \<Rightarrow> model_price option price_cache \<Rightarrow> string \<Rightarrow> token_usage \<Rightarrow> rat option" where
  "costUsd now models cache model u =
     map_option (\<lambda>p. computeCost p u) (snd (getModelPrice now models cache model))"

definition resolved_cost :: "(string \<Rightarrow> token_usage \<Rightarrow> rat option) \<Rightarrow> usage_input \<Rightarrow> rat option" where
  "resolved_cost cost_of i = (case ui_cost i of Some c \<Rightarrow> c | None \<Rightarrow> cost_of (ui_model i) (ui_usage i))"

definition stored_input :: "token_usage \<Rightarrow> int" where
  "stored_input u = int (or0 (tk_input u) + or0 (tk_cache_write u))"

definition settled_row :: "ident \<Rightarrow> time \<Rightarrow> rat option \<Rightarrow> usage_input \<Rightarrow> usage_row" where
  "settled_row uid now cost i =
     \<lparr>u_id = uid, u_task = ui_task i, u_message = ui_message i, u_user = ui_user i, u_provider = ui_provider i,
      u_config = ui_config i, u_model = ui_model i, u_input = stored_input (ui_usage i),
      u_output = int (or0 (tk_output (ui_usage i))), u_cached = int (or0 (tk_cached (ui_usage i))),
      u_cost = map_option to_money cost, u_shared = (ui_shared i = Some True), u_purpose = ui_purpose i,
      u_pending = False, u_created = now\<rparr>"

text \<open>\<open>INSERT INTO usage\<close> of a settled row: the primary key and the user reference can make it fail, and
  a failure (or a lost connection, \<open>ok = False\<close>) is logged and swallowed.\<close>

definition recordUsage ::
  "(string \<Rightarrow> token_usage \<Rightarrow> rat option) \<Rightarrow> bool \<Rightarrow> ident \<Rightarrow> time \<Rightarrow> usage_input \<Rightarrow> budget_db \<Rightarrow> budget_db" where
  "recordUsage cost_of ok uid now i db =
     (if \<not> ok \<or> find_row u_id uid (bd_usage db) \<noteq> None \<or> find_row us_id (ui_user i) (bd_users db) = None then db
      else db\<lparr>bd_usage := bd_usage db @ [settled_row uid now (resolved_cost cost_of i) i]\<rparr>)"

definition hold_of :: "ident \<Rightarrow> usage_row \<Rightarrow> bool" where
  "hold_of task u \<longleftrightarrow> u_task u = Some task \<and> u_pending u"

definition settle_hold :: "rat option \<Rightarrow> usage_input \<Rightarrow> usage_row \<Rightarrow> usage_row" where
  "settle_hold cost i u =
     u\<lparr>u_provider := ui_provider i, u_config := ui_config i, u_model := ui_model i,
       u_input := stored_input (ui_usage i), u_output := int (or0 (tk_output (ui_usage i))),
       u_cached := int (or0 (tk_cached (ui_usage i))), u_cost := map_option to_money cost,
       u_shared := (ui_shared i = Some True), u_purpose := ui_purpose i, u_pending := False\<rparr>"

text \<open>\<open>reconcileUsage\<close>: settle the task's hold in place, or record the spend fresh when there is none.
  (\<open>settledRow.messageId\<close> is not part of the update.)\<close>

definition reconcileUsage ::
  "(string \<Rightarrow> token_usage \<Rightarrow> rat option) \<Rightarrow> bool \<Rightarrow> ident \<Rightarrow> time \<Rightarrow> usage_input \<Rightarrow> budget_db \<Rightarrow> budget_db" where
  "reconcileUsage cost_of ok uid now input db =
     (let i = input\<lparr>ui_purpose := Some (case ui_purpose input of Some p \<Rightarrow> p | None \<Rightarrow> ''turn'')\<rparr> in
      case ui_task i of
        None \<Rightarrow> recordUsage cost_of ok uid now i db
      | Some task \<Rightarrow>
          (if task = [] then recordUsage cost_of ok uid now i db
           else if \<not> ok then db
           else if list_ex (hold_of task) (bd_usage db)
           then db\<lparr>bd_usage := update_where (hold_of task) (settle_hold (resolved_cost cost_of i) i) (bd_usage db)\<rparr>
           else recordUsage cost_of ok uid now i db))"

subsection \<open>Windows, tiers and caps (limits.ts)\<close>

datatype window_key = H5 | D7 | M1

definition ORDER :: "window_key list" where "ORDER = [H5, D7, M1]"

definition HOUR_MS :: int where "HOUR_MS = 3600000"
definition DAY_MS :: int where "DAY_MS = 24 * HOUR_MS"

fun window_start :: "time \<Rightarrow> time \<Rightarrow> window_key \<Rightarrow> time" where
  "window_start now month H5 = now - 5 * HOUR_MS"
| "window_start now month D7 = now - 7 * DAY_MS"
| "window_start now month M1 = month"

definition getDefaultTier :: "budget_db \<Rightarrow> budget_db \<times> tier_row" where
  "getDefaultTier db =
     (case find (\<lambda>t. ti_default t = Some True) (bd_tiers db) of
        Some t \<Rightarrow> (db, t)
      | None \<Rightarrow>
          (let seeded = \<lparr>ti_id = ''default'', ti_name = ''Default'', ti_5h = None, ti_week = None, ti_month = None,
                 ti_default = Some True\<rparr>
           in (if find_row ti_id ''default'' (bd_tiers db) = None
               then db\<lparr>bd_tiers := bd_tiers db @ [seeded]\<rparr> else db, seeded)))"

definition getTierForUser :: "ident \<Rightarrow> budget_db \<Rightarrow> budget_db \<times> tier_row" where
  "getTierForUser user db =
     (case Option.bind (find_row us_id user (bd_users db)) us_tier of
        Some tid \<Rightarrow>
          (if tid = [] then getDefaultTier db
           else case find_row ti_id tid (bd_tiers db) of Some t \<Rightarrow> (db, t) | None \<Rightarrow> getDefaultTier db)
      | None \<Rightarrow> getDefaultTier db)"

fun raw_cap :: "tier_row \<Rightarrow> window_key \<Rightarrow> numeric_text option" where
  "raw_cap t H5 = ti_5h t"
| "raw_cap t D7 = ti_week t"
| "raw_cap t M1 = ti_month t"

definition capFor :: "tier_row \<Rightarrow> window_key \<Rightarrow> rat option" where
  "capFor t w =
     (case raw_cap t w of
        Some (Finite n) \<Rightarrow> if 0 \<le> n then Some n else None
      | _ \<Rightarrow> None)"

text \<open>The query: the rows of the scan (floored at the earlier of the month boundary and seven days ago),
  then one filtered sum per window and kind; \<open>sum\<close> skips a NULL cost.\<close>

definition scan_row :: "time \<Rightarrow> time \<Rightarrow> ident \<Rightarrow> usage_row \<Rightarrow> bool" where
  "scan_row now month user u \<longleftrightarrow>
     u_user u = user \<and> u_shared u \<and> min month (now - 7 * DAY_MS) \<le> u_created u"

definition cost_of_row :: "usage_row \<Rightarrow> rat" where
  "cost_of_row u = or_zero (u_cost u)"

record spend_split =
  committed :: "window_key \<Rightarrow> rat"
  reserved :: "window_key \<Rightarrow> rat"

definition window_sum :: "time \<Rightarrow> time \<Rightarrow> bool \<Rightarrow> usage_row list \<Rightarrow> window_key \<Rightarrow> rat" where
  "window_sum now month pending rows w =
     sum_list (map cost_of_row (filter (\<lambda>u. u_pending u = pending \<and> window_start now month w \<le> u_created u) rows))"

definition spendWindows :: "time \<Rightarrow> time \<Rightarrow> ident \<Rightarrow> usage_row list \<Rightarrow> spend_split" where
  "spendWindows now month user us =
     (let rows = filter (scan_row now month user) us in
      \<lparr>committed = window_sum now month False rows, reserved = window_sum now month True rows\<rparr>)"

record window_status =
  ws_window :: window_key
  ws_committed :: rat
  ws_reserved :: rat
  ws_used :: rat
  ws_limit :: "rat option"
  ws_pct :: int

record limit_status =
  ls_tier :: ident
  ls_name :: string
  ls_windows :: "window_status list"
  ls_blocked :: "window_key option"

definition window_pct :: "rat option \<Rightarrow> rat \<Rightarrow> int" where
  "window_pct limit used =
     (case limit of
        None \<Rightarrow> 0
      | Some l \<Rightarrow> if 0 < l then min 999 \<lfloor>used / l * 100 + 1 / 2\<rfloor> else if 0 < used then 999 else 100)"

definition window_status_of :: "tier_row \<Rightarrow> spend_split \<Rightarrow> window_key \<Rightarrow> window_status" where
  "window_status_of tier spend w =
     (let used = committed spend w + reserved spend w; limit = capFor tier w in
      \<lparr>ws_window = w, ws_committed = committed spend w, ws_reserved = reserved spend w, ws_used = used,
       ws_limit = limit, ws_pct = window_pct limit used\<rparr>)"

definition over_limit :: "window_status \<Rightarrow> bool" where
  "over_limit s \<longleftrightarrow> (case ws_limit s of Some l \<Rightarrow> l \<le> ws_used s | None \<Rightarrow> False)"

definition getLimitStatus :: "time \<Rightarrow> time \<Rightarrow> ident \<Rightarrow> budget_db \<Rightarrow> budget_db \<times> limit_status" where
  "getLimitStatus now month user db =
     (let (db', tier) = getTierForUser user db;
          windows = map (window_status_of tier (spendWindows now month user (bd_usage db))) ORDER
      in (db', \<lparr>ls_tier = ti_id tier, ls_name = ti_name tier, ls_windows = windows,
                ls_blocked = map_option ws_window (find over_limit windows)\<rparr>))"

subsection \<open>Reserving a turn's budget (limits.ts)\<close>

definition ESTIMATE_INPUT_TOKENS :: nat where "ESTIMATE_INPUT_TOKENS = 20000"
definition ESTIMATE_OUTPUT_TOKENS :: nat where "ESTIMATE_OUTPUT_TOKENS = 4000"

record price_state =
  ps_models :: "model_row list"
  ps_cache :: "model_price option price_cache"
  ps_live :: live_prices

definition estimateTurnCost :: "time \<Rightarrow> price_book option \<Rightarrow> string \<Rightarrow> price_state \<Rightarrow> price_state \<times> rat option" where
  "estimateTurnCost now fetched model ps =
     (let estimate = (\<lambda>p. computeCost p \<lparr>tk_input = Some ESTIMATE_INPUT_TOKENS,
              tk_output = Some ESTIMATE_OUTPUT_TOKENS, tk_cached = None, tk_cache_write = None\<rparr>);
          (cache, price) = getModelPrice now (ps_models ps) (ps_cache ps) model;
          ps1 = ps\<lparr>ps_cache := cache\<rparr>
      in case price of
           Some p \<Rightarrow> (ps1, Some (estimate p))
         | None \<Rightarrow>
             (let (live, price') = getLiveModelPrice now fetched (ps_live ps1) model in
              (ps1\<lparr>ps_live := live\<rparr>, map_option estimate price')))"

record reserve_input =
  rv_user :: ident
  rv_task :: ident
  rv_shared :: bool
  rv_model :: "string option"
  rv_provider :: "string option"
  rv_config :: "ident option"

record reserve_result =
  allowed :: bool
  window :: "window_key option"

definition hold_row :: "ident \<Rightarrow> time \<Rightarrow> rat \<Rightarrow> reserve_input \<Rightarrow> usage_row" where
  "hold_row uid now estimate i =
     \<lparr>u_id = uid, u_task = Some (rv_task i), u_message = None, u_user = rv_user i,
      u_provider = (case rv_provider i of Some p \<Rightarrow> p | None \<Rightarrow> ''shared''), u_config = rv_config i,
      u_model = (case rv_model i of Some m \<Rightarrow> m | None \<Rightarrow> []), u_input = 0, u_output = 0, u_cached = 0,
      u_cost = Some (to_money estimate), u_shared = True, u_purpose = None, u_pending = True, u_created = now\<rparr>"

definition over_cap :: "tier_row \<Rightarrow> spend_split \<Rightarrow> rat \<Rightarrow> window_key \<Rightarrow> bool" where
  "over_cap tier spend estimate w \<longleftrightarrow>
     (case capFor tier w of Some cap \<Rightarrow> cap \<le> committed spend w + reserved spend w + estimate | None \<Rightarrow> False)"

text \<open>The transaction under the user's advisory lock. \<open>ON CONFLICT DO NOTHING\<close> absorbs a second pending
  row of the task (and a reused id); a missing user is the foreign key's error.\<close>

definition reserve_locked ::
  "ident \<Rightarrow> time \<Rightarrow> time \<Rightarrow> tier_row \<Rightarrow> rat \<Rightarrow> reserve_input \<Rightarrow> budget_db \<Rightarrow> budget_db \<times> reserve_result option" where
  "reserve_locked uid now month tier estimate i db =
     (case find (over_cap tier (spendWindows now month (rv_user i) (bd_usage db)) estimate) ORDER of
        Some w \<Rightarrow> (db, Some \<lparr>allowed = False, window = Some w\<rparr>)
      | None \<Rightarrow>
          (if list_ex (hold_of (rv_task i)) (bd_usage db) \<or> find_row u_id uid (bd_usage db) \<noteq> None
           then (db, Some \<lparr>allowed = True, window = None\<rparr>)
           else if find_row us_id (rv_user i) (bd_users db) = None then (db, None)
           else (db\<lparr>bd_usage := bd_usage db @ [hold_row uid now estimate i]\<rparr>,
                 Some \<lparr>allowed = True, window = None\<rparr>)))"

text \<open>\<open>reserveBudget\<close>: \<open>None\<close> is the throw; \<open>env\<close> is what other processes commit between reading the
  tier and getting the lock.\<close>

definition reserveBudget ::
  "(budget_db \<Rightarrow> budget_db) \<Rightarrow> price_book option \<Rightarrow> ident \<Rightarrow> time \<Rightarrow> time \<Rightarrow> reserve_input \<Rightarrow>
   price_state \<Rightarrow> budget_db \<Rightarrow> price_state \<times> budget_db \<times> reserve_result option" where
  "reserveBudget env fetched uid now month i ps db =
     (if \<not> rv_shared i then (ps, db, Some \<lparr>allowed = True, window = None\<rparr>)
      else
        (let (ps', priced) = (case rv_model i of
               Some m \<Rightarrow> if m = [] then (ps, None) else estimateTurnCost now fetched m ps
             | None \<Rightarrow> (ps, None));
             estimate = or_zero priced;
             (db1, tier) = getTierForUser (rv_user i) db
         in (ps', reserve_locked uid now month tier estimate i (env db1))))"

end
