(* ===== verification/Budget_Theorems.thy ===== *)
theory Budget_Theorems
  imports Spend_Budget Turn_Outcome
begin

section \<open>What the spend budget guarantees\<close>

text \<open>
  The window query drops no row it should count, reservations never take a user past a cap whatever
  their order and timing, a blocked status and a refusal agree, and settling a hold records the real
  cost once.
\<close>

subsection \<open>The window query\<close>

lemma window_start_floor: "min month (now - 7 * DAY_MS) \<le> window_start now month w"
  by (cases w) (simp_all add: DAY_MS_def HOUR_MS_def min_def)

lemma window_sum_filter:
  assumes "\<And>u. u \<in> set us \<Longrightarrow> window_start now month w \<le> u_created u \<Longrightarrow> P u = Q u"
  shows "window_sum now month b (filter P us) w = window_sum now month b (filter Q us) w"
proof -
  have "filter (\<lambda>u. u_pending u = b \<and> window_start now month w \<le> u_created u) (filter P us) =
      filter (\<lambda>u. u_pending u = b \<and> window_start now month w \<le> u_created u) (filter Q us)"
    unfolding filter_filter using assms by (intro filter_cong) auto
  then show ?thesis by (simp add: window_sum_def)
qed

definition shared_of :: "ident \<Rightarrow> usage_row \<Rightarrow> bool" where
  "shared_of user u \<longleftrightarrow> u_user u = user \<and> u_shared u"

lemma scan_floor_sums:
  "committed (spendWindows now month user us) w = window_sum now month False (filter (shared_of user) us) w"
  "reserved (spendWindows now month user us) w = window_sum now month True (filter (shared_of user) us) w"
proof -
  have "window_sum now month b (filter (scan_row now month user) us) w =
      window_sum now month b (filter (shared_of user) us) w" for b
    using window_start_floor [of month now w]
    by (intro window_sum_filter) (auto simp: scan_row_def shared_of_def)
  then show "committed (spendWindows now month user us) w = window_sum now month False (filter (shared_of user) us) w"
    "reserved (spendWindows now month user us) w = window_sum now month True (filter (shared_of user) us) w"
    by (simp_all add: spendWindows_def Let_def)
qed

text \<open>
  The scan floor of the window query drops no row a window counts, on any day of any month:
  each committed and reserved sum is the sum over all the user's shared-key rows of the window.
\<close>

theorem scan_floor_drops_nothing:
  "committed (spendWindows now month user us) w = window_sum now month False (filter (shared_of user) us) w \<and>
   reserved (spendWindows now month user us) w = window_sum now month True (filter (shared_of user) us) w"
  by (simp add: scan_floor_sums)

subsection \<open>Reservations stay under the cap\<close>

text \<open>What a window holds of a user, settled and reserved together.\<close>

definition in_window :: "time \<Rightarrow> time \<Rightarrow> ident \<Rightarrow> window_key \<Rightarrow> usage_row \<Rightarrow> bool" where
  "in_window now month user w u \<longleftrightarrow> shared_of user u \<and> window_start now month w \<le> u_created u"

definition window_total :: "time \<Rightarrow> time \<Rightarrow> ident \<Rightarrow> usage_row list \<Rightarrow> window_key \<Rightarrow> rat" where
  "window_total now month user us w = sum_list (map cost_of_row (filter (in_window now month user w) us))"

lemma window_total_simps [simp]:
  "window_total now month user [] w = 0"
  "window_total now month user (u # us) w =
     (if in_window now month user w u then cost_of_row u else 0) + window_total now month user us w"
  "window_total now month user (us @ vs) w = window_total now month user us w + window_total now month user vs w"
  by (simp_all add: window_total_def)

lemma window_total_spend:
  "committed (spendWindows now month user us) w + reserved (spendWindows now month user us) w =
     window_total now month user us w"
  unfolding scan_floor_sums by (induction us) (auto simp: window_sum_def in_window_def)

definition costs_ok :: "usage_row list \<Rightarrow> bool" where
  "costs_ok us \<longleftrightarrow> (\<forall>u \<in> set us. 0 \<le> cost_of_row u)"

lemma window_total_nonneg: "costs_ok us \<Longrightarrow> 0 \<le> window_total now month user us w"
  unfolding costs_ok_def by (induction us) auto

text \<open>Time only empties windows.\<close>

lemma window_total_antimono:
  assumes "costs_ok us" and "now \<le> now'" and "month \<le> month'"
  shows "window_total now' month' user us w \<le> window_total now month user us w"
proof -
  have start: "window_start now month w \<le> window_start now' month' w" using assms(2,3) by (cases w) simp_all
  show ?thesis
    using assms(1) unfolding costs_ok_def
  proof (induction us)
    case Nil
    then show ?case by simp
  next
    case (Cons u us)
    then have "window_total now' month' user us w \<le> window_total now month user us w" "0 \<le> cost_of_row u" by auto
    moreover have "in_window now' month' user w u \<Longrightarrow> in_window now month user w u"
      using start by (auto simp: in_window_def)
    ultimately show ?case by auto
  qed
qed

lemma window_total_delete:
  assumes "costs_ok us"
  shows "window_total now month user (delete_where P us) w \<le> window_total now month user us w"
  using assms unfolding costs_ok_def by (induction us) auto

lemma to_money_nonneg: "0 \<le> x \<Longrightarrow> 0 \<le> to_money x"
  by (simp add: to_money_def)

lemma to_money_close: "0 \<le> x \<Longrightarrow> to_money x \<le> x + 1 / 200000000"
proof -
  assume "0 \<le> x"
  have "of_int \<lfloor>x * 100000000 + 1 / 2\<rfloor> \<le> x * 100000000 + 1 / 2" by (rule of_int_floor_le)
  then show ?thesis using \<open>0 \<le> x\<close> by (simp add: to_money_def field_simps)
qed

lemma hold_cost: "cost_of_row (hold_row uid now estimate i) = to_money estimate"
  by (simp add: cost_of_row_def or_zero_def hold_row_def)

lemma over_cap_total:
  "over_cap tier (spendWindows now month user us) estimate w \<longleftrightarrow>
     (\<exists>cap. capFor tier w = Some cap \<and> cap \<le> window_total now month user us w + estimate)"
  by (simp add: over_cap_def window_total_spend split: option.split)

lemma in_ORDER [simp]: "w \<in> set ORDER"
  by (cases w) (simp_all add: ORDER_def)

lemma reserve_cases:
  assumes "reserve_locked uid now month tier estimate i db = (db', Some r)"
  obtains (refused) w cap where "db' = db" "r = \<lparr>allowed = False, window = Some w\<rparr>" "capFor tier w = Some cap"
      "cap \<le> window_total now month (rv_user i) (bd_usage db) w + estimate"
  | (present) "db' = db" "r = \<lparr>allowed = True, window = None\<rparr>"
      "list_ex (hold_of (rv_task i)) (bd_usage db) \<or> find_row u_id uid (bd_usage db) \<noteq> None"
  | (held) "db' = db\<lparr>bd_usage := bd_usage db @ [hold_row uid now estimate i]\<rparr>"
      "r = \<lparr>allowed = True, window = None\<rparr>" "\<not> list_ex (hold_of (rv_task i)) (bd_usage db)"
      "\<And>w cap. capFor tier w = Some cap \<Longrightarrow>
         window_total now month (rv_user i) (bd_usage db) w + estimate < cap"
proof (cases "find (over_cap tier (spendWindows now month (rv_user i) (bd_usage db)) estimate) ORDER")
  case (Some w)
  then have "over_cap tier (spendWindows now month (rv_user i) (bd_usage db)) estimate w" by (auto simp: find_Some_iff)
  with Some assms show thesis by (auto simp: reserve_locked_def over_cap_total intro: refused)
next
  case None
  then have "\<not> over_cap tier (spendWindows now month (rv_user i) (bd_usage db)) estimate w" for w
    by (auto simp: find_None_iff)
  then have under: "\<And>w cap. capFor tier w = Some cap \<Longrightarrow>
      window_total now month (rv_user i) (bd_usage db) w + estimate < cap"
    by (force simp: over_cap_total)
  from None assms show thesis
    by (auto simp: reserve_locked_def split: if_splits intro: present held under)
qed

text \<open>Reservations of any user, at estimates out of \<open>costs\<close>, and releases of any hold, in any order; tiers and
  the calendar are given.\<close>

inductive budget_step :: "(time \<Rightarrow> time) \<Rightarrow> (ident \<Rightarrow> tier_row) \<Rightarrow> rat set \<Rightarrow> time \<Rightarrow> budget_db \<Rightarrow> budget_db \<Rightarrow> bool"
  for month :: "time \<Rightarrow> time" and tier :: "ident \<Rightarrow> tier_row" and costs :: "rat set" where
  reserve: "estimate \<in> costs \<Longrightarrow>
     reserve_locked uid now (month now) (tier (rv_user i)) estimate i db = (db', Some r) \<Longrightarrow>
     budget_step month tier costs now db db'"
| release: "budget_step month tier costs now db (db\<lparr>bd_usage := releaseHold ok task (bd_usage db)\<rparr>)"

text \<open>The ledger's invariant: no negative cost, and the partial unique index of the holds.\<close>

definition budget_ok :: "budget_db \<Rightarrow> bool" where
  "budget_ok db \<longleftrightarrow> costs_ok (bd_usage db) \<and> unique_where u_pending u_task (bd_usage db)"

lemma hold_row_simps [simp]:
  "u_task (hold_row uid now estimate i) = Some (rv_task i)" "u_pending (hold_row uid now estimate i)"
  "u_id (hold_row uid now estimate i) = uid" "u_created (hold_row uid now estimate i) = now"
  "shared_of user (hold_row uid now estimate i) \<longleftrightarrow> rv_user i = user"
  by (simp_all add: hold_row_def shared_of_def)

lemma no_hold_iff: "\<not> list_ex (hold_of task) us \<longleftrightarrow> (\<forall>u \<in> set us. u_pending u \<longrightarrow> u_task u \<noteq> Some task)"
  by (auto simp: list_ex_iff hold_of_def)

lemma budget_ok_step: "budget_step month tier costs now db db' \<Longrightarrow> costs \<subseteq> {0..} \<Longrightarrow> budget_ok db \<Longrightarrow> budget_ok db'"
proof (induction rule: budget_step.induct)
  case (reserve estimate uid now i db db' r)
  from reserve(2) show ?case
  proof (cases rule: reserve_cases)
    case refused
    then show ?thesis using reserve.prems by simp
  next
    case present
    then show ?thesis using reserve.prems by simp
  next
    case held
    have "0 \<le> estimate" using reserve.prems(1) reserve(1) by auto
    with held show ?thesis using reserve.prems(2)
      by (simp add: budget_ok_def costs_ok_def unique_where_append1 hold_cost to_money_nonneg no_hold_iff)
  qed
next
  case (release now db ok task)
  then show ?case by (auto simp: budget_ok_def releaseHold_def costs_ok_def intro: unique_where_delete)
qed

interpretation budget: guarded_steps "budget_step month tier {0..}" budget_ok for month tier
  by unfold_locales (rule budget_ok_step [OF _ subset_refl])

definition capped :: "(time \<Rightarrow> time) \<Rightarrow> (ident \<Rightarrow> tier_row) \<Rightarrow> time \<Rightarrow> budget_db \<Rightarrow> bool" where
  "capped month tier now db \<longleftrightarrow>
     (\<forall>user w cap. capFor (tier user) w = Some cap \<longrightarrow>
        window_total now (month now) user (bd_usage db) w \<le> cap + 1 / 200000000)"

lemma capped_wait:
  assumes "capped month tier now db" and "budget_ok db" and "now \<le> now'" and "mono month"
  shows "capped month tier now' db"
proof -
  have "month now \<le> month now'" using assms(3,4) by (rule monoD [rotated])
  then have less: "window_total now' (month now') user (bd_usage db) w \<le> window_total now (month now) user (bd_usage db) w"
    for user w
    using assms(2,3) by (intro window_total_antimono) (simp_all add: budget_ok_def)
  show ?thesis unfolding capped_def
    by (intro allI impI, rule order_trans [OF less]) (use assms(1) in \<open>simp add: capped_def\<close>)
qed

lemma capped_step:
  assumes "budget_step month tier costs now db db'" and "costs \<subseteq> {0..}" and "budget_ok db" and "capped month tier now db"
  shows "capped month tier now db'"
  using assms
proof (induction rule: budget_step.induct)
  case (reserve estimate uid now i db db' r)
  from reserve(2) show ?case
  proof (cases rule: reserve_cases)
    case refused
    then show ?thesis using reserve.prems by simp
  next
    case present
    then show ?thesis using reserve.prems by simp
  next
    case held
    have estimate: "0 \<le> estimate" using reserve.prems(1) reserve(1) by auto
    show ?thesis unfolding capped_def
    proof (intro allI impI)
      fix user w cap
      assume cap: "capFor (tier user) w = Some cap"
      show "window_total now (month now) user (bd_usage db') w \<le> cap + 1 / 200000000"
      proof (cases "user = rv_user i")
        case True
        with held(4) cap have "window_total now (month now) user (bd_usage db) w + estimate < cap" by simp
        with to_money_close [OF estimate] to_money_nonneg [OF estimate] estimate show ?thesis
          by (auto simp: held(1) hold_cost)
      next
        case False
        then have "window_total now (month now) user (bd_usage db') w = window_total now (month now) user (bd_usage db) w"
          by (simp add: held(1) in_window_def)
        with reserve.prems(3) cap show ?thesis by (simp add: capped_def)
      qed
    qed
  qed
next
  case (release now db ok task)
  then have ok: "costs_ok (bd_usage db)" by (simp add: budget_ok_def)
  have less: "window_total now (month now) user (releaseHold ok task (bd_usage db)) w \<le>
      window_total now (month now) user (bd_usage db) w" for user w
    by (cases ok) (simp_all add: releaseHold_def window_total_delete [OF ok])
  show ?case unfolding capped_def
    by (intro allI impI, simp, rule order_trans [OF less]) (use release.prems(3) in \<open>simp add: capped_def\<close>)
qed

text \<open>
  Property C3. In exact arithmetic and with estimates that are not negative, reservations take no window of a
  user more than half a unit of the eighth decimal past the cap of the user's tier (that much the stored
  estimate may be rounded up): along every interleaving of reservations by any users, releases and the
  passage of time - settling a turn at its real cost is no such step and may go past the cap.
\<close>

theorem reservations_never_overshoot:
  assumes "timed_run (budget_step month tier costs) (t0, s0) (t1, s1)" and "costs \<subseteq> {0..}" and "mono month" and "budget_ok s0"
    and "\<And>user w cap. capFor (tier user) w = Some cap \<Longrightarrow> window_total t0 (month t0) user (bd_usage s0) w \<le> cap"
    and "capFor (tier user) w = Some cap"
  shows "window_total t1 (month t1) user (bd_usage s1) w \<le> cap + 1 / 200000000"
proof -
  have "capped month tier t0 s0"
    unfolding capped_def by (intro allI impI, drule assms(5)) (simp add: add_increasing2)
  with assms(1) have "budget_ok s1 \<and> capped month tier t1 s1"
    using assms(4)
  proof (induction "(t0, s0)" "(t1, s1)" arbitrary: t1 s1 rule: timed_run.induct)
    case start
    then show ?case by simp
  next
    case (wait now s now')
    then show ?case using assms(3) by (auto intro: capped_wait)
  next
    case (act now s s')
    then show ?case using assms(2) by (auto intro: capped_step budget_ok_step)
  qed
  with assms(6) show ?thesis by (simp add: capped_def)
qed

definition demo_tier :: tier_row where
  "demo_tier = \<lparr>ti_id = ''t'', ti_name = ''T'', ti_5h = None, ti_week = Some NonFinite, ti_month = Some (Finite 1),
     ti_default = Some True\<rparr>"

definition demo_reserve :: reserve_input where
  "demo_reserve = \<lparr>rv_user = ''u'', rv_task = ''k'', rv_shared = True, rv_model = None, rv_provider = None,
     rv_config = None\<rparr>"

definition demo_ledger :: "usage_row list \<Rightarrow> budget_db" where
  "demo_ledger us = \<lparr>bd_users = [\<lparr>us_id = ''u'', us_tier = Some ''t''\<rparr>], bd_tiers = [demo_tier], bd_usage = us\<rparr>"

lemma demo_caps: "capFor demo_tier H5 = None" "capFor demo_tier D7 = None" "capFor demo_tier M1 = Some 1"
  by (simp_all add: capFor_def demo_tier_def)

lemma demo_half: "to_money (1 / 2) = 1 / 2"
proof -
  have "\<lfloor>(1 / 2 :: rat) * 100000000 + 1 / 2\<rfloor> = 50000000" by (rule floor_unique) simp_all
  then show ?thesis by (simp add: to_money_def)
qed

lemma demo_reserved:
  "reserve_locked ''h'' 5 0 demo_tier (1 / 2) demo_reserve (demo_ledger []) =
     (demo_ledger [hold_row ''h'' 5 (1 / 2) demo_reserve], Some \<lparr>allowed = True, window = None\<rparr>)"
  by (simp add: reserve_locked_def ORDER_def over_cap_total demo_caps demo_ledger_def demo_reserve_def)

theorem reservations_never_overshoot_witness:
  "window_total 5 0 ''u'' (bd_usage (demo_ledger [hold_row ''h'' 5 (1 / 2) demo_reserve])) M1 = 1 / 2 \<and>
   window_total 5 0 ''u'' (bd_usage (demo_ledger [hold_row ''h'' 5 (1 / 2) demo_reserve])) M1 \<le> 1 + 1 / 200000000"
proof
  show "window_total 5 0 ''u'' (bd_usage (demo_ledger [hold_row ''h'' 5 (1 / 2) demo_reserve])) M1 = 1 / 2"
    by (simp add: demo_ledger_def in_window_def demo_reserve_def hold_cost demo_half)
  have "budget_step (\<lambda>_. 0) (\<lambda>_. demo_tier) {0..} 5 (demo_ledger []) (demo_ledger [hold_row ''h'' 5 (1 / 2) demo_reserve])"
    by (rule budget_step.reserve [where month = "\<lambda>_. 0" and tier = "\<lambda>_. demo_tier", OF _ demo_reserved]) simp
  then have run: "timed_run (budget_step (\<lambda>_. 0) (\<lambda>_. demo_tier) {0..}) (5, demo_ledger [])
      (5, demo_ledger [hold_row ''h'' 5 (1 / 2) demo_reserve])" by (rule timed_run_one) simp
  show "window_total 5 0 ''u'' (bd_usage (demo_ledger [hold_row ''h'' 5 (1 / 2) demo_reserve])) M1 \<le> 1 + 1 / 200000000"
  proof (rule reservations_never_overshoot [OF run subset_refl])
    show "mono (\<lambda>_::time. 0::time)" by (simp add: mono_def)
    show "budget_ok (demo_ledger [])" by (simp add: budget_ok_def costs_ok_def demo_ledger_def)
    show "capFor demo_tier M1 = Some 1" by (rule demo_caps)
    show "window_total 5 0 user (bd_usage (demo_ledger [])) w \<le> cap"
      if "capFor demo_tier w = Some cap" for user w cap
      using that by (auto simp: demo_ledger_def capFor_def split: option.splits numeric_text.splits if_splits)
  qed
qed

subsection \<open>Status and refusal\<close>

lemma tier_keeps_usage: "bd_usage (fst (getTierForUser user db)) = bd_usage db"
  by (auto simp: getTierForUser_def getDefaultTier_def Let_def split: option.splits)

lemma blocked_window:
  "ls_blocked (snd (getLimitStatus now month user db)) \<noteq> None \<longleftrightarrow>
     (\<exists>w cap. capFor (snd (getTierForUser user db)) w = Some cap \<and> cap \<le> window_total now month user (bd_usage db) w)"
proof -
  have "over_limit (window_status_of tier (spendWindows now month user us) w) \<longleftrightarrow>
      (\<exists>cap. capFor tier w = Some cap \<and> cap \<le> window_total now month user us w)" for tier us w
    by (simp add: over_limit_def window_status_of_def Let_def window_total_spend split: option.split)
  moreover have "find P (map f ORDER) \<noteq> None \<longleftrightarrow> (\<exists>w. P (f w))" for P :: "window_status \<Rightarrow> bool" and f
    by (auto simp: find_None_iff)
  ultimately show ?thesis
    by (simp add: getLimitStatus_def Let_def case_prod_beta del: not_None_eq)
qed

text \<open>
  The status the user sees and the gate agree: when the status is blocked, every reservation
  is refused for budget, names a window that is full, and writes nothing; when it is not blocked, a
  reservation of nothing (an unpriced model) is never refused.
\<close>

theorem blocked_means_refused:
  assumes "getTierForUser (rv_user i) db = (db1, tier)" and "0 \<le> estimate"
    and "st = snd (getLimitStatus now month (rv_user i) db)"
  shows "(ls_blocked st \<noteq> None \<longrightarrow> (\<exists>w cap. reserve_locked uid now month tier estimate i db1 =
        (db1, Some \<lparr>allowed = False, window = Some w\<rparr>) \<and>
        capFor tier w = Some cap \<and> cap \<le> window_total now month (rv_user i) (bd_usage db) w + estimate)) \<and>
    (ls_blocked st = None \<longrightarrow> (\<forall>db' r. reserve_locked uid now month tier 0 i db1 = (db', Some r) \<longrightarrow> allowed r))"
proof -
  have us: "bd_usage db1 = bd_usage db" and tier: "snd (getTierForUser (rv_user i) db) = tier"
    using tier_keeps_usage [of "rv_user i" db] assms(1) by simp_all
  let ?over = "over_cap tier (spendWindows now month (rv_user i) (bd_usage db))"
  show ?thesis
  proof (intro conjI impI allI)
    assume "ls_blocked st \<noteq> None"
    then obtain w cap where "capFor tier w = Some cap" "cap \<le> window_total now month (rv_user i) (bd_usage db) w"
      unfolding assms(3) blocked_window tier by blast
    then have "?over estimate w" using assms(2) by (force simp: over_cap_total)
    then obtain v where v: "find (?over estimate) ORDER = Some v"
      by (cases "find (?over estimate) ORDER") (auto simp: find_None_iff)
    then have "?over estimate v" by (auto simp: find_Some_iff)
    with v show "\<exists>w cap. reserve_locked uid now month tier estimate i db1 =
        (db1, Some \<lparr>allowed = False, window = Some w\<rparr>) \<and>
        capFor tier w = Some cap \<and> cap \<le> window_total now month (rv_user i) (bd_usage db) w + estimate"
      by (auto simp: reserve_locked_def us over_cap_total)
  next
    fix db' r
    assume open_st: "ls_blocked st = None" and run: "reserve_locked uid now month tier 0 i db1 = (db', Some r)"
    have "\<not> (cap \<le> window_total now month (rv_user i) (bd_usage db) w)" if "capFor tier w = Some cap" for w cap
      using open_st that blocked_window [of now month "rv_user i" db] unfolding assms(3) tier by blast
    with run show "allowed r" by (cases rule: reserve_cases) (auto simp: us)
  qed
qed

theorem blocked_means_refused_witness:
  "\<exists>w. reserve_locked ''h2'' 5 0 demo_tier 0 demo_reserve
     (demo_ledger [(hold_row ''h'' 5 (1 / 2) demo_reserve)\<lparr>u_cost := Some 1\<rparr>]) =
     (demo_ledger [(hold_row ''h'' 5 (1 / 2) demo_reserve)\<lparr>u_cost := Some 1\<rparr>],
      Some \<lparr>allowed = False, window = Some w\<rparr>)"
proof -
  let ?db = "demo_ledger [(hold_row ''h'' 5 (1 / 2) demo_reserve)\<lparr>u_cost := Some 1\<rparr>]"
  have tier: "getTierForUser (rv_user demo_reserve) ?db = (?db, demo_tier)"
    by (simp add: getTierForUser_def demo_ledger_def demo_reserve_def demo_tier_def)
  have "window_total 5 0 (rv_user demo_reserve) (bd_usage ?db) M1 = 1"
    by (simp add: demo_ledger_def in_window_def shared_of_def hold_row_def cost_of_row_def or_zero_def)
  then have "ls_blocked (snd (getLimitStatus 5 0 (rv_user demo_reserve) ?db)) \<noteq> None"
    unfolding blocked_window tier by (intro exI [of _ M1] exI [of _ 1]) (simp add: demo_caps)
  with blocked_means_refused [OF tier, of 0 _ 5 0 "''h2''"] show ?thesis by auto
qed

subsection \<open>Settling a hold\<close>

text \<open>The settled ledger: what has been charged, whoever pays.\<close>

definition settled_total :: "usage_row list \<Rightarrow> rat" where
  "settled_total us = sum_list (map cost_of_row (filter (\<lambda>u. \<not> u_pending u) us))"

lemma settled_total_simps [simp]:
  "settled_total [] = 0"
  "settled_total (u # us) = (if u_pending u then 0 else cost_of_row u) + settled_total us"
  "settled_total (us @ vs) = settled_total us + settled_total vs"
  by (simp_all add: settled_total_def)

lemma settle_hold_simps [simp]:
  "\<not> u_pending (settle_hold cost i u)" "cost_of_row (settle_hold cost i u) = or_zero (map_option to_money cost)"
  "u_task (settle_hold cost i u) = u_task u"
  by (simp_all add: settle_hold_def cost_of_row_def)

lemma settled_row_simps [simp]:
  "\<not> u_pending (settled_row uid now cost i)" "cost_of_row (settled_row uid now cost i) = or_zero (map_option to_money cost)"
  by (simp_all add: settled_row_def cost_of_row_def)

text \<open>With at most one hold of the task, settling it adds its cost once.\<close>

lemma settle_update_total:
  assumes "unique_where u_pending u_task us" and "list_ex (hold_of task) us"
  shows "settled_total (update_where (hold_of task) (settle_hold cost i) us) =
     settled_total us + or_zero (map_option to_money cost)"
  using assms
proof (induction us)
  case Nil
  then show ?case by simp
next
  case (Cons u us)
  have unique: "unique_where u_pending u_task us" using Cons.prems(1) by (auto simp: unique_where_def split: if_splits)
  show ?case
  proof (cases "hold_of task u")
    case True
    then have "\<forall>v \<in> set us. \<not> hold_of task v"
      using Cons.prems(1) by (auto simp: unique_where_def hold_of_def image_iff)
    then have "update_where (hold_of task) (settle_hold cost i) us = us" by (rule update_where_none)
    moreover have "u_pending u" using True by (simp add: hold_of_def)
    ultimately show ?thesis using True by simp
  next
    case False
    with Cons.IH [OF unique] Cons.prems(2) show ?thesis by simp
  qed
qed

text \<open>
  \<open>reconcileUsage\<close> conserves the ledger: for a turn on a task it adds the real cost, rounded as
  the column rounds it, to what is settled exactly once, whether it finds the turn's hold or not, leaves
  no pending hold of the task, and touches no hold of another task.
\<close>

theorem reconcile_charges_once:
  assumes "unique_where u_pending u_task (bd_usage db)" and "ui_task i = Some task" and "task \<noteq> []"
    and "find_row u_id uid (bd_usage db) = None" and "find_row us_id (ui_user i) (bd_users db) \<noteq> None"
    and "db' = reconcileUsage cost_of True uid now i db"
  shows "settled_total (bd_usage db') =
      settled_total (bd_usage db) + or_zero (map_option to_money (resolved_cost cost_of i)) \<and>
    \<not> list_ex (hold_of task) (bd_usage db') \<and>
    filter u_pending (bd_usage db') = filter (\<lambda>u. u_pending u \<and> u_task u \<noteq> Some task) (bd_usage db)"
proof -
  let ?i = "i\<lparr>ui_purpose := Some (case ui_purpose i of Some p \<Rightarrow> p | None \<Rightarrow> ''turn'')\<rparr>"
  have cost: "resolved_cost cost_of ?i = resolved_cost cost_of i"
    by (simp add: resolved_cost_def split: option.split)
  show ?thesis
  proof (cases "list_ex (hold_of task) (bd_usage db)")
    case True
    then have us: "bd_usage db' = update_where (hold_of task) (settle_hold (resolved_cost cost_of i) ?i) (bd_usage db)"
      using assms(2,3,6) by (simp add: reconcileUsage_def cost Let_def)
    have "\<not> list_ex (hold_of task) (bd_usage db')"
      by (auto simp: us list_ex_iff hold_of_def)
    moreover have "filter u_pending (update_where (hold_of task) (settle_hold c j) vs) =
        filter (\<lambda>u. u_pending u \<and> u_task u \<noteq> Some task) vs" for c j vs
      by (induction vs) (auto simp: hold_of_def)
    ultimately show ?thesis by (simp add: us settle_update_total [OF assms(1) True])
  next
    case False
    then have us: "bd_usage db' = bd_usage db @ [settled_row uid now (resolved_cost cost_of i) ?i]"
      using assms(2-6) by (auto simp: reconcileUsage_def recordUsage_def cost Let_def)
    have "filter u_pending (bd_usage db) = filter (\<lambda>u. u_pending u \<and> u_task u \<noteq> Some task) (bd_usage db)"
      using False by (intro filter_cong) (auto simp: no_hold_iff)
    with False show ?thesis by (simp add: us hold_of_def)
  qed
qed

definition demo_spend :: usage_input where
  "demo_spend = \<lparr>ui_task = Some ''k'', ui_message = None, ui_user = ''u'', ui_provider = ''p'', ui_config = None,
     ui_model = ''m'', ui_usage = \<lparr>tk_input = Some 10, tk_output = None, tk_cached = None, tk_cache_write = None\<rparr>,
     ui_shared = Some True, ui_cost = Some (Some (1 / 2)), ui_purpose = None\<rparr>"

theorem reconcile_charges_once_witness:
  "settled_total (bd_usage (reconcileUsage (\<lambda>_ _. None) True ''n'' 9 demo_spend
     (demo_ledger [hold_row ''h'' 5 (1 / 2) demo_reserve]))) = 1 / 2"
  using reconcile_charges_once [of "demo_ledger [hold_row ''h'' 5 (1 / 2) demo_reserve]" demo_spend "''k''" "''n''",
      OF _ _ _ _ _ refl, of "\<lambda>_ _. None" 9]
  by (simp add: demo_spend_def demo_ledger_def unique_where_def resolved_cost_def or_zero_def demo_half)

end
