(* ===== verification/Message_Tree.thy ===== *)
theory Message_Tree
  imports Turn_Outcome "HOL-Library.Product_Lexorder"
begin

section \<open>The conversation tree (src/lib/chat/tree.ts)\<close>

text \<open>
  The graph functions of \<open>tree.ts\<close> on the columns they read, and the adapters that switch, fork, clone
  and import chats on the \<open>chats\<close> and \<open>messages\<close> tables. Fresh ids are an argument (a function on the
  positions of the new rows), as is the translated copy suffix.
\<close>

subsection \<open>Siblings and children\<close>

record tree_node =
  n_id :: ident
  n_parent :: "ident option"
  n_created :: "time option"
  n_role :: role

text \<open>\<open>bySiblingOrder\<close> compares creation time (none counts as zero), then id; \<open>sort\<close> is stable, so it
  sorts by this key.\<close>

definition sibling_key :: "tree_node \<Rightarrow> time \<times> ident" where
  "sibling_key n = (case n_created n of Some t \<Rightarrow> t | None \<Rightarrow> 0, n_id n)"

definition bySiblingOrder :: "tree_node \<Rightarrow> tree_node \<Rightarrow> bool" where
  "bySiblingOrder a b \<longleftrightarrow> sibling_key a \<le> sibling_key b"

definition childrenByParent :: "tree_node list \<Rightarrow> ident option \<Rightarrow> tree_node list" where
  "childrenByParent rows p = filter (\<lambda>r. n_parent r = p) (sort_key sibling_key rows)"

text \<open>A \<open>Map\<close> built from the rows keeps the last row of an id.\<close>

definition by_id :: "tree_node list \<Rightarrow> ident \<Rightarrow> tree_node option" where
  "by_id rows i = find_row n_id i (rev rows)"

lemma set_childrenByParent: "set (childrenByParent rows p) = {r \<in> set rows. n_parent r = p}"
  by (auto simp: childrenByParent_def)

subsection \<open>Descending to a leaf\<close>

text \<open>The loop with its guard set; it ends because every round guards one more parent of the table.\<close>

definition unguarded :: "tree_node list \<Rightarrow> ident set \<Rightarrow> ident set" where
  "unguarded rows guard = {p. \<exists>r \<in> set rows. n_parent r = Some p} - guard"

lemma finite_unguarded [simp]: "finite (unguarded rows guard)"
proof -
  have "{p. \<exists>r \<in> set rows. n_parent r = Some p} \<subseteq> (the \<circ> n_parent) ` set rows" by force
  then show ?thesis unfolding unguarded_def using finite_subset by blast
qed

function descend :: "tree_node list \<Rightarrow> ident set \<Rightarrow> ident \<Rightarrow> ident" where
  "descend rows guard cur =
     (if cur \<in> guard then cur
      else (let cs = childrenByParent rows (Some cur) in
            if cs = [] then cur else descend rows (insert cur guard) (n_id (last cs))))"
  by pat_completeness auto
termination
proof (relation "measure (\<lambda>(rows, guard, cur). card (unguarded rows guard))")
  fix rows guard cur cs
  assume "cur \<notin> guard" and "cs = childrenByParent rows (Some cur)" and "cs \<noteq> []"
  then have "last cs \<in> {r \<in> set rows. n_parent r = Some cur}"
    using last_in_set [of cs] by (simp add: set_childrenByParent [symmetric])
  then have "cur \<in> unguarded rows guard" using \<open>cur \<notin> guard\<close> by (auto simp: unguarded_def)
  moreover have "unguarded rows (insert cur guard) = unguarded rows guard - {cur}" by (auto simp: unguarded_def)
  ultimately have "card (unguarded rows (insert cur guard)) < card (unguarded rows guard)"
    by (metis card_Diff1_less finite_unguarded)
  then show "((rows, insert cur guard, n_id (last cs)), (rows, guard, cur))
      \<in> measure (\<lambda>(rows, guard, cur). card (unguarded rows guard))" by simp
qed simp

declare descend.simps [simp del]

definition descendToLeaf :: "tree_node list \<Rightarrow> ident \<Rightarrow> ident" where
  "descendToLeaf rows from_id = descend rows {} from_id"

subsection \<open>The active path\<close>

record path_entry =
  pe_node :: tree_node
  pe_index :: nat
  pe_count :: nat

text \<open>The walk from the leaf to the root, guarded by the ids seen; the node nearest the root first. (The
  walk only visits rows of the table; the second test of the guard is never true on the way.)\<close>

definition unseen :: "tree_node list \<Rightarrow> ident set \<Rightarrow> ident set" where
  "unseen rows seen = n_id ` set rows - seen"

lemma by_id_SomeD: "by_id rows i = Some r \<Longrightarrow> r \<in> set rows \<and> n_id r = i"
  unfolding by_id_def by (drule find_row_SomeD) simp

function climb :: "tree_node list \<Rightarrow> ident set \<Rightarrow> tree_node option \<Rightarrow> tree_node list \<Rightarrow> tree_node list" where
  "climb rows seen None chain = chain"
| "climb rows seen (Some cur) chain =
     (if n_id cur \<in> seen \<or> cur \<notin> set rows then chain
      else climb rows (insert (n_id cur) seen)
             (case n_parent cur of Some p \<Rightarrow> if p = [] then None else by_id rows p | None \<Rightarrow> None) (cur # chain))"
  by pat_completeness auto
termination
proof (relation "measure (\<lambda>(rows, seen, cur, chain). card (unseen rows seen))")
  fix rows chain :: "tree_node list" and seen cur
  assume "\<not> (n_id cur \<in> seen \<or> cur \<notin> set rows)"
  then have "n_id cur \<in> unseen rows seen" by (auto simp: unseen_def)
  moreover have "unseen rows (insert (n_id cur) seen) = unseen rows seen - {n_id cur}" by (auto simp: unseen_def)
  moreover have "finite (unseen rows seen)" by (simp add: unseen_def)
  ultimately have "card (unseen rows (insert (n_id cur) seen)) < card (unseen rows seen)"
    by (metis card_Diff1_less)
  then show "((rows, insert (n_id cur) seen,
        case n_parent cur of Some p \<Rightarrow> if p = [] then None else by_id rows p | None \<Rightarrow> None, cur # chain),
      (rows, seen, Some cur, chain)) \<in> measure (\<lambda>(rows, seen, cur, chain). card (unseen rows seen))"
    by simp
qed simp

declare climb.simps [simp del]

definition path_entry_of :: "tree_node list \<Rightarrow> tree_node \<Rightarrow> path_entry" where
  "path_entry_of rows node =
     (let sibs = childrenByParent rows (n_parent node) in
      \<lparr>pe_node = node, pe_index = length (takeWhile (\<lambda>s. n_id s \<noteq> n_id node) sibs), pe_count = length sibs\<rparr>)"

definition start_leaf :: "tree_node list \<Rightarrow> ident option \<Rightarrow> tree_node option" where
  "start_leaf rows active =
     (case (case active of Some a \<Rightarrow> if a = [] then None else by_id rows a | None \<Rightarrow> None) of
        Some leaf \<Rightarrow> Some leaf
      | None \<Rightarrow>
          (let roots = childrenByParent rows None in
           if roots = [] then None else by_id rows (descendToLeaf rows (n_id (last roots)))))"

definition activePath :: "tree_node list \<Rightarrow> ident option \<Rightarrow> path_entry list" where
  "activePath rows active = map (path_entry_of rows) (climb rows {} (start_leaf rows active) [])"

definition turnSuffix :: "path_entry list \<Rightarrow> ident \<Rightarrow> path_entry list" where
  "turnSuffix path message =
     (let before = takeWhile (\<lambda>p. n_id (pe_node p) \<noteq> message) path in
      if length before = length path then []
      else drop (length before - length (takeWhile (\<lambda>p. n_role (pe_node p) = User) (rev before))) path)"

subsection \<open>Switching between siblings\<close>

datatype direction = Prev | Next

definition siblingId :: "tree_node list \<Rightarrow> ident \<Rightarrow> direction \<Rightarrow> ident option" where
  "siblingId rows message dir =
     (case find_row n_id message rows of
        None \<Rightarrow> None
      | Some node \<Rightarrow>
          (let sibs = childrenByParent rows (n_parent node);
               idx = length (takeWhile (\<lambda>s. n_id s \<noteq> message) sibs)
           in if idx = length sibs then None
              else case dir of
                Next \<Rightarrow> if Suc idx < length sibs then Some (n_id (sibs ! Suc idx)) else None
              | Prev \<Rightarrow> if 0 < idx then Some (n_id (sibs ! (idx - 1))) else None))"

subsection \<open>Reading and switching the path of a chat\<close>

definition node_of :: "message_row \<Rightarrow> tree_node" where
  "node_of m = \<lparr>n_id = m_id m, n_parent = m_parent m, n_created = m_created m, n_role = m_role m\<rparr>"

definition loadSkeleton :: "ident \<Rightarrow> message_row list \<Rightarrow> tree_node list" where
  "loadSkeleton chat ms = map node_of (filter (\<lambda>m. m_chat m = chat) ms)"

definition pathRowsWhere :: "ident \<Rightarrow> ident list \<Rightarrow> message_row \<Rightarrow> bool" where
  "pathRowsWhere chat ids m \<longleftrightarrow> m_chat m = chat \<and> m_id m \<in> set ids"

text \<open>\<open>full.get(id)\<close> of the rows the second statement read, a later table \<open>ms'\<close>.\<close>

definition full_row :: "ident \<Rightarrow> ident list \<Rightarrow> message_row list \<Rightarrow> ident \<Rightarrow> message_row option" where
  "full_row chat ids ms' i = find_row m_id i (filter (pathRowsWhere chat ids) ms')"

definition loadActivePath ::
  "message_row list \<Rightarrow> message_row list \<Rightarrow> ident \<Rightarrow> ident option \<Rightarrow> ident option \<Rightarrow> (path_entry \<times> message_row) list" where
  "loadActivePath ms ms' chat active turn_of =
     (let path0 = activePath (loadSkeleton chat ms) active;
          path = (case turn_of of Some m \<Rightarrow> turnSuffix path0 m | None \<Rightarrow> path0);
          ids = map (\<lambda>p. n_id (pe_node p)) path
      in List.map_filter (\<lambda>p. map_option (Pair p) (full_row chat ids ms' (n_id (pe_node p)))) path)"

definition switchSibling ::
  "time \<Rightarrow> ident \<Rightarrow> ident \<Rightarrow> direction \<Rightarrow> database \<Rightarrow> database \<times> ident option" where
  "switchSibling now chat message dir db =
     (let rows = loadSkeleton chat (db_messages db) in
      case siblingId rows message dir of
        None \<Rightarrow> (db, None)
      | Some target \<Rightarrow>
          (if target = [] then (db, None)
           else (let leaf = descendToLeaf rows target in
             (db\<lparr>db_chats := update_where (\<lambda>c. c_id c = chat)
                (\<lambda>c. c\<lparr>c_active_leaf := Some leaf, c_updated := now\<rparr>) (db_chats db)\<rparr>, Some leaf))))"

subsection \<open>Copying messages\<close>

definition sanitizeForkedMeta :: "message_meta option \<Rightarrow> message_meta option" where
  "sanitizeForkedMeta metadata =
     map_option (\<lambda>meta. meta\<lparr>mm_task := None,
       mm_status := (if mm_status meta = Some MsgRunning then Some MsgCompleted else mm_status meta)\<rparr>) metadata"

text \<open>The copy names no creation time, so the column's default gives it the transaction's.\<close>

definition forkedMessageRow :: "time \<Rightarrow> message_row \<Rightarrow> ident \<Rightarrow> ident \<Rightarrow> ident option \<Rightarrow> message_row" where
  "forkedMessageRow now node new_id chat parent =
     \<lparr>m_id = new_id, m_chat = chat, m_parent = parent, m_role = m_role node, m_content = messageText node,
      m_platform = m_platform node, m_meta = sanitizeForkedMeta (m_meta node),
      m_untrusted = m_untrusted node, m_created = Some now\<rparr>"

text \<open>The \<open>map\<close> of both copy paths, with the id map it fills as it goes.\<close>

fun copy_chain ::
  "(nat \<Rightarrow> ident) \<Rightarrow> time \<Rightarrow> ident \<Rightarrow> nat \<Rightarrow> (ident \<times> ident) list \<Rightarrow> message_row list \<Rightarrow> message_row list" where
  "copy_chain fresh now chat k id_map [] = []"
| "copy_chain fresh now chat k id_map (m # ms) =
     (let id_map' = (m_id m, fresh k) # id_map in
      forkedMessageRow now m (fresh k) chat
        (case m_parent m of Some p \<Rightarrow> if p = [] then None else map_of id_map' p | None \<Rightarrow> None)
      # copy_chain fresh now chat (Suc k) id_map' ms)"

text \<open>One statement inserts a chunk of rows; its constraints are checked at its end.\<close>

definition insert_rows :: "chat_row list \<Rightarrow> message_row list \<Rightarrow> message_row list \<Rightarrow> db_fault + message_row list" where
  "insert_rows chats rows ms =
     (let ms' = ms @ rows in
      if \<not> distinct (map m_id ms') then Inl UniqueViolation
      else if list_all (\<lambda>r. find_row c_id (m_chat r) chats \<noteq> None \<and>
                (case m_parent r of Some p \<Rightarrow> find_row m_id p ms' \<noteq> None | None \<Rightarrow> True)) rows
      then Inr ms' else Inl ForeignKeyViolation)"

text \<open>Ten columns in \<open>messages\<close>, and at most 65535 bind parameters in a statement.\<close>

definition chunk_size :: nat where "chunk_size = 65535 div 10"

function insertMessageChunks ::
  "chat_row list \<Rightarrow> message_row list \<Rightarrow> message_row list \<Rightarrow> db_fault + message_row list" where
  "insertMessageChunks chats rows ms =
     (if rows = [] then Inr ms
      else case insert_rows chats (take chunk_size rows) ms of
        Inl f \<Rightarrow> Inl f
      | Inr ms' \<Rightarrow> insertMessageChunks chats (drop chunk_size rows) ms')"
  by pat_completeness auto
termination
  by (relation "measure (\<lambda>(chats, rows, ms). length rows)") (auto simp: chunk_size_def)

declare insertMessageChunks.simps [simp del]

subsection \<open>Forking, cloning and importing a chat\<close>

definition new_chat :: "time \<Rightarrow> ident \<Rightarrow> ident \<Rightarrow> ident option \<Rightarrow> string option \<Rightarrow> string option \<Rightarrow> chat_row" where
  "new_chat now cid user project title model =
     \<lparr>c_id = cid, c_user = user, c_project = project, c_title = title, c_model = model, c_active_leaf = None,
      c_visibility = ''private'', c_share_token = None, c_updated = now\<rparr>"

text \<open>The transaction the three share: the chat row, its messages in chunks, the leaf pointed at the
  last one.\<close>

definition insert_chat ::
  "(chat_row list \<Rightarrow> message_row list \<Rightarrow> message_row list \<Rightarrow> db_fault + message_row list) \<Rightarrow>
   chat_row \<Rightarrow> message_row list \<Rightarrow> database \<Rightarrow> database \<times> (db_fault + ident option)" where
  "insert_chat insert_all chat rows db =
     (if find_row c_id (c_id chat) (db_chats db) \<noteq> None then (db, Inl UniqueViolation)
      else (let chats = db_chats db @ [chat] in
        if rows = [] then (db\<lparr>db_chats := chats\<rparr>, Inr (Some (c_id chat)))
        else case insert_all chats rows (db_messages db) of
          Inl f \<Rightarrow> (db, Inl f)
        | Inr ms \<Rightarrow> (db\<lparr>db_chats := point_leaf (c_id chat) (m_id (last rows)) chats, db_messages := ms\<rparr>,
                     Inr (Some (c_id chat)))))"

definition copy_title :: "string \<Rightarrow> string option \<Rightarrow> string" where
  "copy_title suffix title = (case title of Some t \<Rightarrow> t | None \<Rightarrow> ''Chat'') @ '' '' @ suffix"

definition forkChat ::
  "(nat \<Rightarrow> ident) \<Rightarrow> string \<Rightarrow> time \<Rightarrow> ident \<Rightarrow> ident \<Rightarrow> ident \<Rightarrow> database \<Rightarrow> database \<times> (db_fault + ident option)" where
  "forkChat fresh suffix now source from_message user db =
     (case find (\<lambda>c. c_id c = source \<and> c_user c = user) (db_chats db) of
        None \<Rightarrow> (db, Inr None)
      | Some src \<Rightarrow>
          (let skeleton = loadSkeleton source (db_messages db) in
           if \<not> list_ex (\<lambda>r. n_id r = from_message) skeleton then (db, Inr None)
           else
             (let ids = map (\<lambda>p. n_id (pe_node p)) (activePath skeleton (Some from_message));
                  chain = List.map_filter (full_row source ids (db_messages db)) ids;
                  copies = copy_chain fresh now (fresh 0) 1 [] chain
              in insert_chat insertMessageChunks
                   (new_chat now (fresh 0) user (c_project src) (Some (copy_title suffix (c_title src))) (c_model src))
                   copies db)))"

definition isShared :: "string \<Rightarrow> bool" where
  "isShared visibility \<longleftrightarrow> visibility \<in> {''link'', ''users''}"

definition cloneSharedChat ::
  "(nat \<Rightarrow> ident) \<Rightarrow> string \<Rightarrow> time \<Rightarrow> ident \<Rightarrow> ident \<Rightarrow> database \<Rightarrow> database \<times> (db_fault + ident option)" where
  "cloneSharedChat fresh suffix now token user db =
     (case find (\<lambda>c. c_share_token c = Some token) (db_chats db) of
        None \<Rightarrow> (db, Inr None)
      | Some src \<Rightarrow>
          (if \<not> isShared (c_visibility src) then (db, Inr None)
           else
             (let path = loadActivePath (db_messages db) (db_messages db) (c_id src) (c_active_leaf src) None;
                  copies = copy_chain fresh now (fresh 0) 1 [] (map snd path)
              in insert_chat insertMessageChunks
                   (new_chat now (fresh 0) user None (Some (copy_title suffix (c_title src))) (c_model src))
                   copies db)))"

text \<open>An imported conversation: each message the sole child of the previous, one millisecond apart.\<close>

fun imported_rows ::
  "(nat \<Rightarrow> ident) \<Rightarrow> time \<Rightarrow> ident \<Rightarrow> string \<Rightarrow> nat \<Rightarrow> ident option \<Rightarrow> (role \<times> string) list \<Rightarrow> message_row list" where
  "imported_rows fresh base chat source i prev [] = []"
| "imported_rows fresh base chat source i prev ((r, content) # rest) =
     \<lparr>m_id = fresh i, m_chat = chat, m_parent = prev, m_role = r, m_content = content,
      m_platform = Some (''import:'' @ source), m_meta = None, m_untrusted = True, m_created = Some (base + int i)\<rparr>
     # imported_rows fresh base chat source (Suc i) (Some (fresh i)) rest"

definition importedMessageRows ::
  "(nat \<Rightarrow> ident) \<Rightarrow> time \<Rightarrow> ident \<Rightarrow> string \<Rightarrow> (role \<times> string) list \<Rightarrow> message_row list" where
  "importedMessageRows fresh base chat source imported = imported_rows fresh base chat source 0 None imported"

definition createImportedChat ::
  "(nat \<Rightarrow> ident) \<Rightarrow> time \<Rightarrow> ident \<Rightarrow> string option \<Rightarrow> string option \<Rightarrow> (role \<times> string) list \<Rightarrow> string \<Rightarrow>
   database \<Rightarrow> database \<times> (db_fault + ident option)" where
  "createImportedChat fresh now user model title imported source db =
     insert_chat insert_rows
       (new_chat now (fresh 0) user None (case title of Some t \<Rightarrow> if t = [] then None else Some t | None \<Rightarrow> None) model)
       (importedMessageRows (\<lambda>i. fresh (Suc i)) now (fresh 0) source imported) db"

end
