(* ===== verification/Tree_Theorems.thy ===== *)
theory Tree_Theorems
  imports Message_Tree Queue_Theorems
begin

section \<open>What the conversation tree guarantees\<close>

text \<open>
  The rows of a chat form a forest; on a forest the visible path runs from a root to the leaf the chat
  is pinned to, a chat with messages is never blank, switching siblings is reversible and shows the
  sibling, and a fork is a faithful copy that touches nothing else.
\<close>

subsection \<open>Forests\<close>

definition forest_by :: "(ident \<Rightarrow> nat) \<Rightarrow> tree_node list \<Rightarrow> bool" where
  "forest_by depth rows \<longleftrightarrow>
     distinct (map n_id rows) \<and>
     (\<forall>r \<in> set rows. n_id r \<noteq> [] \<and>
        (\<forall>p. n_parent r = Some p \<longrightarrow> p \<in> n_id ` set rows \<and> depth p < depth (n_id r)))"

text \<open>Ids are unique and not empty, parents exist, and no parent chain is cyclic.\<close>

definition tree_ok :: "tree_node list \<Rightarrow> bool" where
  "tree_ok rows \<longleftrightarrow> (\<exists>depth. forest_by depth rows)"

abbreviation parent_child :: "tree_node \<Rightarrow> tree_node \<Rightarrow> bool" where
  "parent_child a b \<equiv> n_parent b = Some (n_id a)"

text \<open>A list of rows from a root down.\<close>

definition rooted_chain :: "tree_node list \<Rightarrow> tree_node list \<Rightarrow> bool" where
  "rooted_chain rows xs \<longleftrightarrow>
     xs \<noteq> [] \<and> set xs \<subseteq> set rows \<and> n_parent (hd xs) = None \<and> successively parent_child xs"

lemma by_id_Some_iff: "distinct (map n_id rows) \<Longrightarrow> by_id rows i = Some r \<longleftrightarrow> r \<in> set rows \<and> n_id r = i"
  unfolding by_id_def by (subst find_row_Some_iff) (simp_all add: rev_map [symmetric])

lemma forest_same: "forest_by depth rows \<Longrightarrow> a \<in> set rows \<Longrightarrow> b \<in> set rows \<Longrightarrow> n_id a = n_id b \<Longrightarrow> a = b"
  unfolding forest_by_def by (blast intro: same_key_same_row)

lemma forest_parent:
  assumes "forest_by depth rows" and "r \<in> set rows" and "n_parent r = Some p"
  obtains q where "q \<in> set rows" "n_id q = p" "by_id rows p = Some q" "p \<noteq> []" "depth p < depth (n_id r)"
proof -
  from assms have "p \<in> n_id ` set rows" "depth p < depth (n_id r)" and dist: "distinct (map n_id rows)"
    by (auto simp: forest_by_def)
  then obtain q where q: "q \<in> set rows" "n_id q = p" by auto
  with dist have "by_id rows p = Some q" by (simp add: by_id_Some_iff)
  moreover have "p \<noteq> []" using q assms(1) by (auto simp: forest_by_def)
  ultimately show thesis using that q \<open>depth p < depth (n_id r)\<close> by blast
qed

lemma climb_chain:
  assumes "forest_by depth rows"
  shows "c \<in> set rows \<Longrightarrow> \<forall>s \<in> seen. depth (n_id c) < depth s \<Longrightarrow> successively parent_child (c # chain) \<Longrightarrow>
    set chain \<subseteq> set rows \<Longrightarrow>
    \<exists>pre. climb rows seen (Some c) chain = pre @ c # chain \<and> rooted_chain rows (pre @ c # chain)"
proof (induction "depth (n_id c)" arbitrary: c seen chain rule: less_induct)
  case less
  have "n_id c \<notin> seen" using less.prems(2) by auto
  show ?case
  proof (cases "n_parent c")
    case None
    with less.prems \<open>n_id c \<notin> seen\<close> have "climb rows seen (Some c) chain = c # chain"
      by (simp add: climb.simps)
    moreover have "rooted_chain rows ([] @ c # chain)" using None less.prems by (simp add: rooted_chain_def)
    ultimately show ?thesis by (metis append_Nil)
  next
    case (Some p)
    from forest_parent [OF assms less.prems(1) Some] obtain q where
      q: "q \<in> set rows" "n_id q = p" "by_id rows p = Some q" "p \<noteq> []" "depth p < depth (n_id c)" .
    have step: "climb rows seen (Some c) chain = climb rows (insert (n_id c) seen) (Some q) (c # chain)"
      using less.prems(1) \<open>n_id c \<notin> seen\<close> Some q by (subst climb.simps) simp
    have "\<exists>pre. climb rows (insert (n_id c) seen) (Some q) (c # chain) = pre @ q # (c # chain) \<and>
        rooted_chain rows (pre @ q # (c # chain))"
    proof (rule less.hyps)
      show "depth (n_id q) < depth (n_id c)" using q by simp
      show "\<forall>s \<in> insert (n_id c) seen. depth (n_id q) < depth s" using q less.prems(2) by auto
      show "successively parent_child (q # c # chain)" using less.prems(3) Some q(2) by simp
    qed (use q less.prems in auto)
    then obtain pre where "climb rows seen (Some c) chain = (pre @ [q]) @ c # chain"
      "rooted_chain rows ((pre @ [q]) @ c # chain)" unfolding step by auto
    then show ?thesis by blast
  qed
qed

lemma climb_from_leaf:
  assumes "forest_by depth rows" and "c \<in> set rows"
  shows "rooted_chain rows (climb rows {} (Some c) [])" and "last (climb rows {} (Some c) []) = c"
  using climb_chain [OF assms(1,2), of "{}" "[]"] by auto

lemma chain_parent_step:
  assumes "rooted_chain rows xs" and "x \<in> set xs" and "n_parent x = Some p"
  shows "p \<in> n_id ` set xs"
proof -
  obtain i where i: "i < length xs" "x = xs ! i" using assms(2) by (auto simp: in_set_conv_nth)
  have "i \<noteq> 0" using assms i by (intro notI) (auto simp: rooted_chain_def hd_conv_nth)
  then obtain j where j: "i = Suc j" by (cases i) auto
  then have "n_parent x = Some (n_id (xs ! j))"
    using assms(1) i by (auto simp: rooted_chain_def successively_conv_nth)
  with assms(3) i j show ?thesis by (metis Suc_lessD image_eqI nth_mem option.inject)
qed

lemma chain_depths:
  assumes "forest_by depth rows" and "successively parent_child (xs :: tree_node list)" and "set xs \<subseteq> set rows"
  shows "sorted_wrt (\<lambda>a b. depth (n_id a) < depth (n_id b)) xs"
proof -
  have "successively (\<lambda>a b. depth (n_id a) < depth (n_id b)) xs"
    using assms(2,3)
  proof (induction xs rule: induct_list012)
    case (3 x y zs)
    have "depth (n_id x) < depth (n_id y)"
      using assms(1) 3(3,4) by (auto simp: forest_by_def)
    with 3 show ?case by simp
  qed simp_all
  then show ?thesis
    by (subst (asm) successively_iff_sorted_wrt_strong) (auto intro: less_trans)
qed

lemma chain_distinct:
  assumes "forest_by depth rows" and "rooted_chain rows xs"
  shows "distinct (map n_id xs)"
proof -
  have "sorted_wrt (\<lambda>a b. depth (n_id a) < depth (n_id b)) xs"
    using assms by (intro chain_depths) (auto simp: rooted_chain_def)
  then show ?thesis by (induction xs) auto
qed

lemma path_nodes: "map pe_node (activePath rows active) = climb rows {} (start_leaf rows active) []"
  by (simp add: activePath_def path_entry_of_def Let_def comp_def)

lemma root_exists:
  assumes "forest_by depth rows" and "rows \<noteq> []"
  shows "childrenByParent rows None \<noteq> []"
proof -
  obtain r where r: "r \<in> set rows" "\<And>x. x \<in> set rows \<Longrightarrow> depth (n_id r) \<le> depth (n_id x)"
    using assms(2) ex_has_least_nat [of "\<lambda>x. x \<in> set rows" "hd rows" "\<lambda>x. depth (n_id x)"] by auto
  have "n_parent r = None"
  proof (cases "n_parent r")
    case (Some p)
    from forest_parent [OF assms(1) r(1) this] r(2) show ?thesis by (metis not_le)
  qed simp
  with r(1) have "r \<in> set (childrenByParent rows None)" by (simp add: set_childrenByParent)
  then show ?thesis by auto
qed

text \<open>\<open>(a, b)\<close> when the row with id \<open>a\<close> is a child of \<open>b\<close>.\<close>

definition child_of :: "tree_node list \<Rightarrow> (ident \<times> ident) set" where
  "child_of rows = {(a, b). \<exists>r \<in> set rows. n_id r = a \<and> n_parent r = Some b}"

lemma descend_leaf:
  assumes "forest_by depth rows" and "cur \<in> n_id ` set rows" and "\<forall>g \<in> guard. depth g < depth cur"
  shows "descend rows guard cur \<in> n_id ` set rows \<and> childrenByParent rows (Some (descend rows guard cur)) = [] \<and>
    (descend rows guard cur, cur) \<in> (child_of rows)\<^sup>*"
  using assms
proof (induction rows guard cur rule: descend.induct)
  case (1 rows guard cur)
  then have fresh: "cur \<notin> guard" by auto
  let ?cs = "childrenByParent rows (Some cur)"
  show ?case
  proof (cases "?cs = []")
    case True
    with fresh have "descend rows guard cur = cur" by (subst descend.simps) simp
    with True 1(3) show ?thesis by simp
  next
    case False
    let ?c = "last ?cs"
    have c: "?c \<in> set rows" "n_parent ?c = Some cur"
      using last_in_set [OF False] by (simp_all add: set_childrenByParent)
    have step: "descend rows guard cur = descend rows (insert cur guard) (n_id ?c)"
      using False fresh by (subst descend.simps) (simp add: Let_def)
    have "depth cur < depth (n_id ?c)" using 1(2) c by (auto simp: forest_by_def)
    then have "\<forall>g \<in> insert cur guard. depth g < depth (n_id ?c)" using 1(4) by auto
    from 1(1) [OF fresh refl False 1(2) _ this] c(1)
    have IH: "descend rows guard cur \<in> n_id ` set rows"
      "childrenByParent rows (Some (descend rows guard cur)) = []"
      "(descend rows guard cur, n_id ?c) \<in> (child_of rows)\<^sup>*" by (simp_all add: step)
    have "(n_id ?c, cur) \<in> child_of rows" using c by (auto simp: child_of_def)
    with IH show ?thesis by (meson rtrancl.rtrancl_into_rtrancl)
  qed
qed

lemma chain_ancestors:
  assumes "(a, b) \<in> (child_of rows)\<^sup>*" and "forest_by depth rows" and "rooted_chain rows xs" and "a \<in> n_id ` set xs"
  shows "b \<in> n_id ` set xs"
  using assms(1)
proof induction
  case base
  show ?case by (rule assms(4))
next
  case (step y z)
  then obtain r x where "r \<in> set rows" "n_id r = y" "n_parent r = Some z" "x \<in> set xs" "n_id x = y"
    by (auto simp: child_of_def)
  moreover then have "x = r" using forest_same [OF assms(2)] assms(3) by (auto simp: rooted_chain_def)
  ultimately show ?case using chain_parent_step [OF assms(3)] by blast
qed

lemma start_leaf_ok:
  assumes "forest_by depth rows" and "rows \<noteq> []"
  obtains leaf where "start_leaf rows active = Some leaf" "leaf \<in> set rows"
    "active \<in> Some ` n_id ` set rows \<longrightarrow> active = Some (n_id leaf)"
    "active \<notin> Some ` n_id ` set rows \<longrightarrow> childrenByParent rows (Some (n_id leaf)) = []"
proof -
  have dist: "distinct (map n_id rows)" using assms(1) by (simp add: forest_by_def)
  let ?direct = "case active of Some a \<Rightarrow> if a = [] then None else by_id rows a | None \<Rightarrow> None"
  show thesis
  proof (cases ?direct)
    case (Some leaf)
    then obtain a where a: "active = Some a" "by_id rows a = Some leaf" by (auto split: option.splits if_splits)
    with dist have "leaf \<in> set rows" "n_id leaf = a" by (auto simp: by_id_Some_iff)
    with Some a show thesis by (intro that [of leaf]) (auto simp: start_leaf_def)
  next
    case None
    have absent: "active \<notin> Some ` n_id ` set rows"
    proof
      assume "active \<in> Some ` n_id ` set rows"
      then obtain r where "r \<in> set rows" "active = Some (n_id r)" by auto
      moreover then have "n_id r \<noteq> []" "by_id rows (n_id r) = Some r"
        using assms(1) dist by (auto simp: forest_by_def by_id_Some_iff)
      ultimately show False using None by simp
    qed
    let ?roots = "childrenByParent rows None"
    have roots: "?roots \<noteq> []" using root_exists [OF assms] .
    then have "last ?roots \<in> set rows" using last_in_set [OF roots] by (simp add: set_childrenByParent)
    then have d: "descendToLeaf rows (n_id (last ?roots)) \<in> n_id ` set rows"
      "childrenByParent rows (Some (descendToLeaf rows (n_id (last ?roots)))) = []"
      using descend_leaf [OF assms(1), of "n_id (last ?roots)" "{}"] by (auto simp: descendToLeaf_def)
    then obtain leaf where "leaf \<in> set rows" "n_id leaf = descendToLeaf rows (n_id (last ?roots))" by auto
    with None roots d dist absent show thesis
      by (intro that [of leaf]) (auto simp: start_leaf_def by_id_Some_iff Let_def)
  qed
qed

text \<open>
  Property C16. On a forest of messages the visible conversation is never blank and never broken: whatever
  the chat's pointer is, the path runs from a root down to one row, each row the child of the one
  before, no row twice; it ends at the pointed message when that exists, and otherwise at a message
  nothing answers. Every entry's sibling position points at it among the siblings it counts.
\<close>

theorem visible_path_is_rooted:
  assumes "tree_ok rows" and "rows \<noteq> []" and "path = map pe_node (activePath rows active)"
  shows "rooted_chain rows path \<and> distinct (map n_id path) \<and>
    (active \<in> Some ` n_id ` set rows \<longrightarrow> Some (n_id (last path)) = active) \<and>
    (active \<notin> Some ` n_id ` set rows \<longrightarrow> childrenByParent rows (Some (n_id (last path))) = []) \<and>
    (\<forall>e \<in> set (activePath rows active). pe_index e < pe_count e \<and>
       childrenByParent rows (n_parent (pe_node e)) ! pe_index e = pe_node e \<and>
       pe_count e = length (childrenByParent rows (n_parent (pe_node e))))"
proof -
  obtain depth where forest: "forest_by depth rows" using assms(1) by (auto simp: tree_ok_def)
  from start_leaf_ok [OF forest assms(2), of active] obtain leaf where
    leaf: "start_leaf rows active = Some leaf" "leaf \<in> set rows"
    "active \<in> Some ` n_id ` set rows \<longrightarrow> active = Some (n_id leaf)"
    "active \<notin> Some ` n_id ` set rows \<longrightarrow> childrenByParent rows (Some (n_id leaf)) = []" .
  have chain: "rooted_chain rows path" and "last path = leaf"
    using climb_from_leaf [OF forest leaf(2)] by (simp_all add: assms(3) path_nodes leaf(1))
  have entry: "pe_index e < pe_count e \<and> childrenByParent rows (n_parent (pe_node e)) ! pe_index e = pe_node e \<and>
      pe_count e = length (childrenByParent rows (n_parent (pe_node e)))"
    if "e \<in> set (activePath rows active)" for e
  proof -
    let ?sibs = "childrenByParent rows (n_parent (pe_node e))"
    have "e \<in> path_entry_of rows ` set path"
      using that unfolding assms(3) path_nodes by (simp add: activePath_def)
    then obtain n where n: "n \<in> set path" "e = path_entry_of rows n" by blast
    then have "n \<in> set rows" using chain by (auto simp: rooted_chain_def)
    then have mem: "n \<in> set (childrenByParent rows (n_parent n))" by (simp add: set_childrenByParent)
    let ?i = "length (takeWhile (\<lambda>s. n_id s \<noteq> n_id n) (childrenByParent rows (n_parent n)))"
    from mem have "n_id n \<in> n_id ` set (childrenByParent rows (n_parent n))" by simp
    note find_index [OF this]
    then have less: "?i < length (childrenByParent rows (n_parent n))"
      and "n_id (childrenByParent rows (n_parent n) ! ?i) = n_id n" by simp_all
    moreover have "childrenByParent rows (n_parent n) ! ?i \<in> set rows"
      using nth_mem [OF less] by (simp add: set_childrenByParent)
    ultimately have "childrenByParent rows (n_parent n) ! ?i = n"
      using forest_same [OF forest] \<open>n \<in> set rows\<close> by blast
    with less n(2) show ?thesis by (simp add: path_entry_of_def Let_def)
  qed
  show ?thesis
  proof (intro conjI)
    show "\<forall>e \<in> set (activePath rows active). pe_index e < pe_count e \<and>
       childrenByParent rows (n_parent (pe_node e)) ! pe_index e = pe_node e \<and>
       pe_count e = length (childrenByParent rows (n_parent (pe_node e)))" using entry by blast
  qed (use chain chain_distinct [OF forest chain] leaf(3,4) \<open>last path = leaf\<close> in auto)
qed

subsection \<open>Switching between versions\<close>

text \<open>Where \<open>siblingId\<close> stands and where it steps to.\<close>

lemma siblingId_cases:
  assumes "forest_by depth rows" and "siblingId rows message dir = Some s"
  obtains node i j where "node \<in> set rows" "n_id node = message"
    "i < length (childrenByParent rows (n_parent node))" "childrenByParent rows (n_parent node) ! i = node"
    "j < length (childrenByParent rows (n_parent node))" "n_id (childrenByParent rows (n_parent node) ! j) = s"
    "if dir = Next then j = Suc i else i = Suc j"
proof -
  from assms(2) obtain node where node: "find_row n_id message rows = Some node"
    by (auto simp: siblingId_def split: option.splits)
  then have n: "node \<in> set rows" "n_id node = message" by (auto dest: find_row_SomeD)
  let ?sibs = "childrenByParent rows (n_parent node)"
  let ?i = "length (takeWhile (\<lambda>s. n_id s \<noteq> message) ?sibs)"
  have "node \<in> set ?sibs" using n(1) by (simp add: set_childrenByParent)
  then have "message \<in> n_id ` set ?sibs" using n(2) by auto
  note at_i = find_index [OF this]
  have "?sibs ! ?i \<in> set rows" using nth_mem [OF at_i(1)] by (simp add: set_childrenByParent)
  with at_i(2) n have i: "?sibs ! ?i = node" using forest_same [OF assms(1)] by metis
  show thesis
  proof (cases dir)
    case Prev
    with assms(2) node at_i(1) have "0 < ?i" "s = n_id (?sibs ! (?i - 1))"
      by (auto simp: siblingId_def Let_def split: if_splits)
    with n i at_i(1) Prev show thesis by (intro that [of node ?i "?i - 1"]) auto
  next
    case Next
    with assms(2) node at_i(1) have "Suc ?i < length ?sibs" "s = n_id (?sibs ! Suc ?i)"
      by (auto simp: siblingId_def Let_def split: if_splits)
    with n i at_i(1) Next show thesis by (intro that [of node ?i "Suc ?i"]) auto
  qed
qed

lemma siblingId_at:
  assumes "forest_by depth rows" and "i < length (childrenByParent rows p)"
    and "message = n_id (childrenByParent rows p ! i)"
  shows "siblingId rows message dir =
     (case dir of
        Next \<Rightarrow> if Suc i < length (childrenByParent rows p) then Some (n_id (childrenByParent rows p ! Suc i)) else None
      | Prev \<Rightarrow> if 0 < i then Some (n_id (childrenByParent rows p ! (i - 1))) else None)"
proof -
  let ?sibs = "childrenByParent rows p"
  have mem: "?sibs ! i \<in> set rows" "n_parent (?sibs ! i) = p"
    using nth_mem [OF assms(2)] by (simp_all add: set_childrenByParent)
  have "distinct (map n_id ?sibs)"
    using assms(1) by (auto simp: forest_by_def childrenByParent_def distinct_map intro: inj_on_subset)
  then have idx: "length (takeWhile (\<lambda>s. n_id s \<noteq> message) ?sibs) = i"
    unfolding assms(3) using assms(2) by (rule find_index_at)
  have "find_row n_id message rows = Some (?sibs ! i)"
    using assms(1,3) mem(1) by (simp add: find_row_Some_iff forest_by_def)
  then show ?thesis using mem(2) idx assms(2) by (cases dir) (auto simp: siblingId_def Let_def)
qed

text \<open>
  Property C18. Switching versions is reversible and shows the version: the neighbour of a message in one
  direction has that message as its neighbour in the other, both share one parent, and the path that
  \<open>switchSibling\<close> pins the chat to runs through the neighbour down to a message nothing answers.
\<close>

theorem switch_is_reversible_and_shows:
  assumes "rows = loadSkeleton chat (db_messages db)" and "tree_ok rows"
    and "siblingId rows message dir = Some s"
  shows "siblingId rows s (if dir = Next then Prev else Next) = Some message \<and> s \<noteq> message \<and>
    (\<exists>leaf. switchSibling now chat message dir db =
        (db\<lparr>db_chats := update_where (\<lambda>c. c_id c = chat) (\<lambda>c. c\<lparr>c_active_leaf := Some leaf, c_updated := now\<rparr>)
           (db_chats db)\<rparr>, Some leaf) \<and>
      childrenByParent rows (Some leaf) = [] \<and>
      s \<in> (n_id \<circ> pe_node) ` set (activePath rows (Some leaf)))"
proof -
  obtain depth where forest: "forest_by depth rows" using assms(2) by (auto simp: tree_ok_def)
  from siblingId_cases [OF forest assms(3)] obtain node i j where
    node: "node \<in> set rows" "n_id node = message" and
    i: "i < length (childrenByParent rows (n_parent node))" "childrenByParent rows (n_parent node) ! i = node" and
    j: "j < length (childrenByParent rows (n_parent node))" "n_id (childrenByParent rows (n_parent node) ! j) = s" and
    step: "if dir = Next then j = Suc i else i = Suc j" .
  have rev_step: "siblingId rows s (if dir = Next then Prev else Next) = Some message"
    using siblingId_at [OF forest j(1) j(2) [symmetric]] step i j node(2) by (cases dir) auto
  let ?c = "childrenByParent rows (n_parent node) ! j"
  have c: "?c \<in> set rows" using nth_mem [OF j(1)] by (simp add: set_childrenByParent)
  then have "s \<in> n_id ` set rows" "s \<noteq> []" using j(2) forest by (auto simp: forest_by_def)
  let ?leaf = "descendToLeaf rows s"
  have leaf: "?leaf \<in> n_id ` set rows" "childrenByParent rows (Some ?leaf) = []" "(?leaf, s) \<in> (child_of rows)\<^sup>*"
    using descend_leaf [OF forest \<open>s \<in> n_id ` set rows\<close>, of "{}"] by (simp_all add: descendToLeaf_def)
  then have "rows \<noteq> []" by auto
  from start_leaf_ok [OF forest this, of "Some ?leaf"] obtain row where
    row: "start_leaf rows (Some ?leaf) = Some row" "row \<in> set rows"
    and at_leaf: "Some ?leaf \<in> Some ` n_id ` set rows \<longrightarrow> Some ?leaf = Some (n_id row)" by metis
  from at_leaf leaf(1) have row_id: "n_id row = ?leaf" by (metis imageI option.inject)
  let ?path = "map pe_node (activePath rows (Some ?leaf))"
  have path: "rooted_chain rows ?path" "last ?path = row"
    using climb_from_leaf [OF forest row(2)] by (simp_all add: path_nodes row(1))
  then have "?leaf \<in> n_id ` set ?path" using row_id by (metis image_eqI last_in_set rooted_chain_def)
  from chain_ancestors [OF leaf(3) forest path(1) this] have "s \<in> (n_id \<circ> pe_node) ` set (activePath rows (Some ?leaf))"
    by (simp add: image_comp)
  moreover have "s \<noteq> message"
  proof
    assume "s = message"
    with j(2) node c have "?c = node" using forest_same [OF forest] by metis
    with i j step have "childrenByParent rows (n_parent node) ! i = childrenByParent rows (n_parent node) ! j" "i \<noteq> j"
      by (auto split: if_splits)
    moreover have "distinct (childrenByParent rows (n_parent node))"
      using forest by (simp add: forest_by_def childrenByParent_def distinct_map)
    ultimately show False using i(1) j(1) by (simp add: nth_eq_iff_index_eq)
  qed
  moreover have "switchSibling now chat message dir db =
      (db\<lparr>db_chats := update_where (\<lambda>c. c_id c = chat) (\<lambda>c. c\<lparr>c_active_leaf := Some ?leaf, c_updated := now\<rparr>)
         (db_chats db)\<rparr>, Some ?leaf)"
    using assms(3) \<open>s \<noteq> []\<close> by (simp add: switchSibling_def Let_def flip: assms(1))
  ultimately show ?thesis using rev_step leaf(2) by blast
qed

subsection \<open>Copies of a chain\<close>

abbreviation answers :: "message_row \<Rightarrow> message_row \<Rightarrow> bool" where
  "answers a b \<equiv> m_parent b = Some (m_id a)"

lemma node_of_simps [simp]: "n_id (node_of m) = m_id m" "n_parent (node_of m) = m_parent m"
  "n_created (node_of m) = m_created m" "n_role (node_of m) = m_role m"
  by (simp_all add: node_of_def)

lemma forked_simps [simp]:
  "m_id (forkedMessageRow now m i chat p) = i" "m_chat (forkedMessageRow now m i chat p) = chat"
  "m_parent (forkedMessageRow now m i chat p) = p" "m_content (forkedMessageRow now m i chat p) = messageText m"
  "m_role (forkedMessageRow now m i chat p) = m_role m"
  "m_untrusted (forkedMessageRow now m i chat p) = m_untrusted m"
  "m_meta (forkedMessageRow now m i chat p) = sanitizeForkedMeta (m_meta m)"
  by (simp_all add: forkedMessageRow_def)

lemma copy_chain_maps:
  "map m_id (copy_chain fresh now chat k id_map ms) = map fresh [k..<k + length ms]"
  "map m_content (copy_chain fresh now chat k id_map ms) = map messageText ms"
  "map m_role (copy_chain fresh now chat k id_map ms) = map m_role ms"
  "map m_untrusted (copy_chain fresh now chat k id_map ms) = map m_untrusted ms"
  "map m_meta (copy_chain fresh now chat k id_map ms) = map (sanitizeForkedMeta \<circ> m_meta) ms"
  "set (map m_chat (copy_chain fresh now chat k id_map ms)) \<subseteq> {chat}"
  by (induction ms arbitrary: k id_map) (auto simp: Let_def upt_rec)

lemma copy_chain_linked:
  assumes "successively answers ms" and "distinct (map m_id ms)" and "\<forall>m \<in> set ms. m_id m \<noteq> []"
  shows "successively answers (copy_chain fresh now chat k id_map ms)"
  using assms
proof (induction ms arbitrary: k id_map rule: induct_list012)
  case (3 x y zs)
  let ?map = "(m_id x, fresh k) # id_map"
  have "successively answers (copy_chain fresh now chat (Suc k) ?map (y # zs))"
    using "3.prems" by (intro "3.IH"(2)) auto
  with "3.prems" show ?case by (simp add: Let_def)
qed simp_all

text \<open>A chain of messages is a forest, and the only rooted chain to its last message.\<close>

lemma rooted_unique:
  assumes "forest_by depth rows"
  shows "rooted_chain rows xs \<Longrightarrow> rooted_chain rows ys \<Longrightarrow> last xs = last ys \<Longrightarrow> xs = ys"
proof (induction xs arbitrary: ys rule: rev_induct)
  case Nil
  then show ?case by (simp add: rooted_chain_def)
next
  case (snoc c xs)
  obtain zs where ys: "ys = zs @ [c]"
    using snoc.prems(2,3) by (cases ys rule: rev_cases) (auto simp: rooted_chain_def)
  show ?case
  proof (cases "xs = [] \<or> zs = []")
    case True
    have "xs = [] \<and> zs = []"
      using True snoc.prems(1,2) unfolding ys rooted_chain_def successively_append_iff by auto
    with ys show ?thesis by simp
  next
    case False
    have "rooted_chain rows xs" "rooted_chain rows zs"
      using False snoc.prems(1,2) unfolding ys rooted_chain_def successively_append_iff by auto
    moreover have "n_id (last xs) = n_id (last zs)"
      using False snoc.prems(1,2) unfolding ys rooted_chain_def successively_append_iff by auto
    moreover have "last xs \<in> set rows" "last zs \<in> set rows"
      using False snoc.prems(1,2) unfolding ys rooted_chain_def by auto
    ultimately have "xs = zs" using snoc.IH forest_same [OF assms] by metis
    with ys show ?thesis by simp
  qed
qed

lemma chain_is_forest:
  assumes "successively parent_child (L :: tree_node list)" and "distinct (map n_id L)" and "\<forall>n \<in> set L. n_id n \<noteq> []"
    and "L \<noteq> []" and "n_parent (hd L) = None"
  shows "forest_by (\<lambda>i. length (takeWhile (\<lambda>n. n_id n \<noteq> i) L)) L" and "rooted_chain L L"
proof -
  show "rooted_chain L L" using assms by (simp add: rooted_chain_def)
  have "p \<in> n_id ` set L \<and> length (takeWhile (\<lambda>n. n_id n \<noteq> p) L) < length (takeWhile (\<lambda>n. n_id n \<noteq> n_id r) L)"
    if r: "r \<in> set L" and p: "n_parent r = Some p" for r p
  proof -
    obtain i where i: "i < length L" "r = L ! i" using r by (auto simp: in_set_conv_nth)
    have "i \<noteq> 0" using i p assms(4,5) by (intro notI) (simp add: hd_conv_nth)
    then obtain j where j: "i = Suc j" by (cases i) auto
    then have "p = n_id (L ! j)" using assms(1) i p by (auto simp: successively_conv_nth)
    moreover have "length (takeWhile (\<lambda>n. n_id n \<noteq> n_id (L ! j)) L) = j"
      using assms(2) i j by (intro find_index_at) simp_all
    moreover have "length (takeWhile (\<lambda>n. n_id n \<noteq> n_id (L ! i)) L) = i"
      using assms(2) i by (intro find_index_at) simp_all
    ultimately show ?thesis using i j by simp
  qed
  with assms(2,3) show "forest_by (\<lambda>i. length (takeWhile (\<lambda>n. n_id n \<noteq> i) L)) L" by (simp add: forest_by_def)
qed

lemma chain_path:
  assumes "successively parent_child (L :: tree_node list)" and "distinct (map n_id L)" and "\<forall>n \<in> set L. n_id n \<noteq> []"
    and "L \<noteq> []" and "n_parent (hd L) = None"
  shows "map pe_node (activePath L (Some (n_id (last L)))) = L"
proof -
  note forest = chain_is_forest [OF assms]
  have "last L \<in> set L" using assms(4) by simp
  moreover have "by_id L (n_id (last L)) = Some (last L)" using assms(2,4) by (simp add: by_id_Some_iff)
  then have "start_leaf L (Some (n_id (last L))) = Some (last L)"
    using assms(3,4) by (simp add: start_leaf_def)
  ultimately show ?thesis
    using climb_from_leaf [OF forest(1)] rooted_unique [OF forest(1) _ forest(2)] by (simp add: path_nodes)
qed

lemma insert_chunks_ok:
  assumes "distinct (map m_id (ms @ rows))" and "\<forall>r \<in> set rows. find_row c_id (m_chat r) chats \<noteq> None"
    and "\<And>pre r post p. rows = pre @ r # post \<Longrightarrow> m_parent r = Some p \<Longrightarrow> p \<in> m_id ` (set ms \<union> set pre)"
  shows "insertMessageChunks chats rows ms = Inr (ms @ rows)"
  using assms
proof (induction chats rows ms rule: insertMessageChunks.induct)
  case (1 chats rows ms)
  show ?case
  proof (cases "rows = []")
    case True
    then show ?thesis by (simp add: insertMessageChunks.simps)
  next
    case False
    let ?now = "take chunk_size rows" and ?later = "drop chunk_size rows"
    have parents: "find_row m_id p (ms @ ?now) \<noteq> None" if "r \<in> set ?now" "m_parent r = Some p" for r p
    proof -
      from that(1) obtain pre post where split: "?now = pre @ r # post" by (meson split_list)
      then have "rows = pre @ r # (post @ ?later)" by (metis append_Cons append_assoc append_take_drop_id)
      with that(2) have "p \<in> m_id ` (set ms \<union> set pre)" by (rule "1.prems"(3) [rotated])
      with split show ?thesis by (auto simp: find_row_None_iff)
    qed
    have "distinct (map m_id ((ms @ ?now) @ ?later))" using "1.prems"(1) by simp
    then have dist: "distinct (map m_id (ms @ ?now))" unfolding map_append distinct_append by blast
    have "insert_rows chats ?now ms = Inr (ms @ ?now)"
      using dist parents "1.prems"(2) in_set_takeD [of _ chunk_size rows]
      by (auto simp: insert_rows_def list_all_iff split: option.split)
    moreover have "insertMessageChunks chats ?later (ms @ ?now) = Inr ((ms @ ?now) @ ?later)"
    proof (rule "1.IH" [OF False \<open>insert_rows chats ?now ms = Inr (ms @ ?now)\<close>])
      show "distinct (map m_id ((ms @ ?now) @ ?later))" using "1.prems"(1) by simp
      show "\<forall>r \<in> set ?later. find_row c_id (m_chat r) chats \<noteq> None" using "1.prems"(2) in_set_dropD by fast
      show "p \<in> m_id ` (set (ms @ ?now) \<union> set pre)" if "?later = pre @ r # post" "m_parent r = Some p" for pre r post p
      proof -
        have "rows = (?now @ pre) @ r # post" using that(1) by (metis append_assoc append_take_drop_id)
        from "1.prems"(3) [OF this that(2)] show ?thesis by auto
      qed
    qed
    ultimately show ?thesis using False by (subst insertMessageChunks.simps) simp
  qed
qed

subsection \<open>Forking\<close>

lemma full_rows:
  assumes "distinct (map m_id ms)" and "set ns \<subseteq> set (loadSkeleton chat ms)" and "n_id ` set ns \<subseteq> set ids"
  shows "map node_of (List.map_filter (full_row chat ids ms) (map n_id ns)) = ns \<and>
    set (List.map_filter (full_row chat ids ms) (map n_id ns)) \<subseteq> set ms"
  using assms(2,3)
proof (induction ns)
  case Nil
  then show ?case by (simp add: List.map_filter_simps)
next
  case (Cons n ns)
  from Cons.prems(1) obtain m where m: "m \<in> set ms" "m_chat m = chat" "node_of m = n"
    by (auto simp: loadSkeleton_def)
  have "distinct (map m_id (filter (pathRowsWhere chat ids) ms))" using assms(1) by (rule distinct_map_filter)
  then have "full_row chat ids ms (n_id n) = Some m"
    using m Cons.prems(2) unfolding full_row_def by (subst find_row_Some_iff) (auto simp: pathRowsWhere_def)
  with Cons m show ?case by (simp add: List.map_filter_simps)
qed

lemma map_filter_pairs:
  "map snd (List.map_filter (\<lambda>p. map_option (Pair p) (f (g p))) ps) = List.map_filter f (map g ps)"
  by (induction ps) (auto simp: List.map_filter_simps split: option.split)

lemma loaded_path:
  assumes "distinct (map m_id ms)" and "set (map pe_node (activePath (loadSkeleton chat ms) active)) \<subseteq> set (loadSkeleton chat ms)"
  shows "map node_of (map snd (loadActivePath ms ms chat active None)) = map pe_node (activePath (loadSkeleton chat ms) active)"
    and "set (map snd (loadActivePath ms ms chat active None)) \<subseteq> set ms"
    and "map snd (loadActivePath ms ms chat active None) =
      List.map_filter (full_row chat (map (\<lambda>p. n_id (pe_node p)) (activePath (loadSkeleton chat ms) active)) ms)
        (map (\<lambda>p. n_id (pe_node p)) (activePath (loadSkeleton chat ms) active))"
proof -
  let ?path = "activePath (loadSkeleton chat ms) active"
  let ?ids = "map (\<lambda>p. n_id (pe_node p)) ?path"
  show eq: "map snd (loadActivePath ms ms chat active None) = List.map_filter (full_row chat ?ids ms) ?ids"
    unfolding loadActivePath_def Let_def option.case
    by (rule map_filter_pairs [where g = "\<lambda>p. n_id (pe_node p)"])
  have ids: "?ids = map n_id (map pe_node ?path)" by simp
  have sub: "n_id ` set (map pe_node ?path) \<subseteq> set (map n_id (map pe_node ?path))"
    by (simp only: set_map order_refl)
  show "map node_of (map snd (loadActivePath ms ms chat active None)) = map pe_node ?path"
    "set (map snd (loadActivePath ms ms chat active None)) \<subseteq> set ms"
    unfolding eq ids using full_rows [OF assms sub] by blast+
qed

lemma successively_nodes: "successively parent_child (map node_of ms) = successively answers ms"
  by (simp add: successively_map)

lemma pointed_chats:
  "find_row c_id (c_id chat) chats = None \<Longrightarrow>
     point_leaf (c_id chat) leaf (chats @ [chat]) = chats @ [chat\<lparr>c_active_leaf := Some leaf\<rparr>]"
  unfolding point_leaf_def find_row_None_iff update_where_def map_append
  by (intro arg_cong2 [where f = append] map_idI) (auto simp: image_iff)

text \<open>A copied chain, once inserted under a fresh chat, is the visible path of that chat.\<close>

lemma inserted_chain_is_path:
  assumes "copies \<noteq> []" and "successively answers copies" and "m_parent (hd copies) = None"
    and "\<forall>m \<in> set copies. m_chat m = chat \<and> m_id m \<noteq> []" and "\<forall>m \<in> set ms. m_chat m \<noteq> chat"
    and "distinct (map m_id (ms @ copies))"
  shows "map snd (loadActivePath (ms @ copies) (ms @ copies) chat (Some (m_id (last copies))) None) = copies"
proof -
  have "filter (\<lambda>m. m_chat m = chat) ms = []" "filter (\<lambda>m. m_chat m = chat) copies = copies"
    using assms(4,5) by (auto simp: filter_empty_conv intro: filter_True)
  then have sk: "loadSkeleton chat (ms @ copies) = map node_of copies"
    by (simp add: loadSkeleton_def)
  have "map pe_node (activePath (map node_of copies) (Some (n_id (last (map node_of copies))))) = map node_of copies"
    using assms by (intro chain_path) (auto simp: successively_nodes comp_def hd_map)
  then have path: "map pe_node (activePath (loadSkeleton chat (ms @ copies)) (Some (m_id (last copies)))) = map node_of copies"
    using assms(1) by (simp add: sk last_map)
  let ?rows = "map snd (loadActivePath (ms @ copies) (ms @ copies) chat (Some (m_id (last copies))) None)"
  have sub: "set (map pe_node (activePath (loadSkeleton chat (ms @ copies)) (Some (m_id (last copies)))))
      \<subseteq> set (loadSkeleton chat (ms @ copies))" by (simp only: path) (simp add: sk)
  have "map node_of ?rows = map node_of copies" "set ?rows \<subseteq> set (ms @ copies)"
    using loaded_path(1,2) [OF assms(6) sub] unfolding path by blast+
  moreover have "x = y" if "x \<in> set (ms @ copies)" "y \<in> set (ms @ copies)" "node_of x = node_of y" for x y
    using same_key_same_row [OF assms(6) that(1,2)] that(3) by (metis node_of_simps(1))
  ultimately show ?thesis
    by (intro list.inj_map_strong [of ?rows copies node_of]) auto
qed

lemma fork_parents_known:
  assumes "successively answers copies" and "m_parent (hd copies) = None"
    and "copies = pre @ r # post" and "m_parent r = Some p"
  shows "p \<in> m_id ` set pre"
proof (cases pre rule: rev_cases)
  case Nil
  with assms show ?thesis by simp
next
  case (snoc xs x)
  with assms show ?thesis by (auto simp: successively_append_iff)
qed

text \<open>Ids the store has not seen yet: what \<open>nanoid\<close> promises.\<close>

definition fresh_ids :: "(nat \<Rightarrow> ident) \<Rightarrow> database \<Rightarrow> bool" where
  "fresh_ids fresh db \<longleftrightarrow>
     inj fresh \<and> (\<forall>k. fresh k \<noteq> [] \<and> fresh k \<notin> m_id ` set (db_messages db) \<and> fresh k \<notin> c_id ` set (db_chats db))"

text \<open>The message rows of the store: unique ids, and every row in a chat.\<close>

definition messages_ok :: "database \<Rightarrow> bool" where
  "messages_ok db \<longleftrightarrow>
     distinct (map m_id (db_messages db)) \<and> (\<forall>m \<in> set (db_messages db). m_chat m \<in> c_id ` set (db_chats db))"

text \<open>The shared transaction, given a linked chain of fresh rows.\<close>

lemma insert_linked_chat:
  assumes "fresh_ids fresh db" and "messages_ok db" and "chat = new_chat now (fresh 0) user project title model"
    and "copies \<noteq> []" and "successively answers copies" and "m_parent (hd copies) = None"
    and "map m_id copies = map fresh [1..<Suc (length copies)]" and "\<forall>m \<in> set copies. m_chat m = fresh 0"
    and "insert_all \<in> {insertMessageChunks, insert_rows}"
  shows "\<exists>db' chat'. insert_chat insert_all chat copies db = (db', Inr (Some (fresh 0))) \<and>
    db_messages db' = db_messages db @ copies \<and> db_chats db' = db_chats db @ [chat'] \<and>
    chat' = chat\<lparr>c_active_leaf := Some (m_id (last copies))\<rparr> \<and>
    map snd (loadActivePath (db_messages db') (db_messages db') (fresh 0) (c_active_leaf chat') None) = copies"
proof -
  let ?chats = "db_chats db @ [chat]"
  have cid: "c_id chat = fresh 0" by (simp add: assms(3) new_chat_def)
  then have absent: "find_row c_id (c_id chat) (db_chats db) = None"
    using assms(1) by (simp add: fresh_ids_def find_row_None_iff)
  have in_fresh: "m_id m \<in> range fresh" if "m \<in> set copies" for m
  proof -
    have "m_id m \<in> set (map m_id copies)" using that by simp
    then show ?thesis unfolding assms(7) by auto
  qed
  have "inj_on fresh A" for A using assms(1) by (auto simp: fresh_ids_def intro: inj_on_subset)
  then have "distinct (map m_id copies)" unfolding assms(7) by (simp add: distinct_map)
  moreover have foreign: "m_id ` set (db_messages db) \<inter> m_id ` set copies = {}"
  proof -
    have "m_id ` set copies \<subseteq> range fresh" using in_fresh by (intro image_subsetI)
    moreover have "range fresh \<inter> m_id ` set (db_messages db) = {}"
      using assms(1) unfolding fresh_ids_def by (intro equals0I) (metis IntE rangeE)
    ultimately show ?thesis by (simp add: disjoint_iff) blast
  qed
  ultimately have dist: "distinct (map m_id (db_messages db @ copies))"
    using assms(2) foreign by (auto simp: messages_ok_def)
  have chats: "\<forall>r \<in> set copies. find_row c_id (m_chat r) ?chats \<noteq> None"
    using assms(8) cid by (auto simp: find_row_None_iff)
  have "insertMessageChunks ?chats copies (db_messages db) = Inr (db_messages db @ copies)"
    using dist chats fork_parents_known [OF assms(5,6)] by (intro insert_chunks_ok) blast+
  moreover have "find_row m_id p (db_messages db @ copies) \<noteq> None" if "r \<in> set copies" "m_parent r = Some p" for r p
  proof -
    from that(1) obtain pre post where "copies = pre @ r # post" by (meson split_list)
    from fork_parents_known [OF assms(5,6) this that(2)] this show ?thesis by (auto simp: find_row_None_iff)
  qed
  then have "insert_rows ?chats copies (db_messages db) = Inr (db_messages db @ copies)"
    using dist chats by (auto simp: insert_rows_def list_all_iff split: option.split)
  ultimately have ins: "insert_all ?chats copies (db_messages db) = Inr (db_messages db @ copies)"
    using assms(9) by auto
  have other: "\<forall>m \<in> set (db_messages db). m_chat m \<noteq> fresh 0"
    using assms(1,2) unfolding fresh_ids_def messages_ok_def by metis
  have "\<forall>m \<in> set copies. m_chat m = fresh 0 \<and> m_id m \<noteq> []"
    using assms(1,8) in_fresh unfolding fresh_ids_def by (metis rangeE)
  from inserted_chain_is_path [OF assms(4-6) this other dist]
  show ?thesis
    using ins assms(4) absent cid pointed_chats [OF absent] by (simp add: insert_chat_def Let_def)
qed

text \<open>Creating a chat with its messages writes those two tables and no other.\<close>

lemma insert_chat_frame:
  "insert_chat insert_all chat rows db = (db', res) \<Longrightarrow> db' = db\<lparr>db_chats := db_chats db', db_messages := db_messages db'\<rparr>"
  by (auto simp: insert_chat_def Let_def split: if_splits sum.splits)

text \<open>
  Property C17. A fork is a faithful copy and touches nothing else: given unused ids, \<open>forkChat\<close> of a message
  of the owner's chat appends one private chat of the same project and its messages, leaves every
  existing row as it was, and the new chat shows exactly the source's path to that message, with the
  same roles, texts and untrusted marks, and with no live task or running status.
\<close>

theorem fork_is_faithful_copy:
  assumes "messages_ok db" and "tree_ok (loadSkeleton source (db_messages db))"
    and "from_message \<in> n_id ` set (loadSkeleton source (db_messages db))"
    and "find (\<lambda>c. c_id c = source \<and> c_user c = user) (db_chats db) = Some src" and "fresh_ids fresh db"
    and "original = map snd (loadActivePath (db_messages db) (db_messages db) source (Some from_message) None)"
  shows "\<exists>db' copies chat'. forkChat fresh suffix now source from_message user db = (db', Inr (Some (fresh 0))) \<and>
    db' = db\<lparr>db_chats := db_chats db @ [chat'], db_messages := db_messages db @ copies\<rparr> \<and>
    c_user chat' = user \<and> c_project chat' = c_project src \<and> c_visibility chat' = ''private'' \<and>
    map snd (loadActivePath (db_messages db') (db_messages db') (fresh 0) (c_active_leaf chat') None) = copies \<and>
    map m_content copies = map messageText original \<and> map m_role copies = map m_role original \<and>
    map m_untrusted copies = map m_untrusted original \<and>
    map m_meta copies = map (sanitizeForkedMeta \<circ> m_meta) original \<and> m_id (last original) = from_message"
proof -
  let ?sk = "loadSkeleton source (db_messages db)"
  let ?path = "activePath ?sk (Some from_message)"
  obtain depth where forest: "forest_by depth ?sk" using assms(2) by (auto simp: tree_ok_def)
  have dist: "distinct (map m_id (db_messages db))" using assms(1) by (simp add: messages_ok_def)
  have "?sk \<noteq> []" using assms(3) by auto
  from start_leaf_ok [OF forest this, of "Some from_message"] obtain leaf where
    leaf: "start_leaf ?sk (Some from_message) = Some leaf" "leaf \<in> set ?sk"
    and at_leaf: "Some from_message \<in> Some ` n_id ` set ?sk \<longrightarrow> Some from_message = Some (n_id leaf)" by metis
  have leaf_id: "n_id leaf = from_message" using at_leaf assms(3) by (metis imageI option.inject)
  have chain: "rooted_chain ?sk (map pe_node ?path)" and last: "last (map pe_node ?path) = leaf"
    using climb_from_leaf [OF forest leaf(2)] by (simp_all add: path_nodes leaf(1))
  note sub = chain [unfolded rooted_chain_def, THEN conjunct2, THEN conjunct1]
  have nodes: "map node_of original = map pe_node ?path" and rows: "set original \<subseteq> set (db_messages db)"
    and orig: "original = List.map_filter (full_row source (map (\<lambda>p. n_id (pe_node p)) ?path) (db_messages db))
      (map (\<lambda>p. n_id (pe_node p)) ?path)"
    unfolding assms(6) using loaded_path [OF dist sub] by blast+
  have ne: "original \<noteq> []" using nodes chain by (auto simp: rooted_chain_def)
  have "last (map node_of original) = leaf" using last by (simp only: nodes)
  then have "node_of (last original) = leaf" using ne by (simp add: last_map)
  then have last_id: "m_id (last original) = from_message" using leaf_id by (metis node_of_simps(1))
  have linked: "successively answers original"
    using chain unfolding rooted_chain_def nodes [symmetric] successively_nodes by blast
  have "n_parent (hd (map node_of original)) = None" using chain unfolding rooted_chain_def nodes by blast
  then have root: "m_parent (hd original) = None" using ne by (simp add: hd_map)
  have "distinct (map n_id (map node_of original))" using chain_distinct [OF forest chain] by (simp only: nodes)
  then have orig_ids: "distinct (map m_id original)" by (simp add: comp_def)
  have "\<forall>n \<in> set (map node_of original). n_id n \<noteq> []"
    unfolding nodes using sub forest by (auto simp: forest_by_def)
  then have named: "\<forall>m \<in> set original. m_id m \<noteq> []" by simp
  let ?copies = "copy_chain fresh now (fresh 0) 1 [] original"
  let ?chat = "new_chat now (fresh 0) user (c_project src) (Some (copy_title suffix (c_title src))) (c_model src)"
  have len: "length ?copies = length original"
    using copy_chain_maps(2) [of fresh now "fresh 0" 1 "[]" original] by (metis length_map)
  then have cne: "?copies \<noteq> []" using ne by auto
  have ids: "map m_id ?copies = map fresh [1..<Suc (length ?copies)]"
    unfolding len using copy_chain_maps(1) [of fresh now "fresh 0" 1 "[]" original] by simp
  have croot: "m_parent (hd ?copies) = None" using root ne by (cases original) (auto simp: Let_def)
  have cchat: "\<forall>m \<in> set ?copies. m_chat m = fresh 0"
    using copy_chain_maps(6) [of fresh now "fresh 0" 1 "[]" original] by auto
  have "list_ex (\<lambda>r. n_id r = from_message) ?sk" using assms(3) by (auto simp: list_ex_iff)
  then have fork: "forkChat fresh suffix now source from_message user db = insert_chat insertMessageChunks ?chat ?copies db"
    using assms(4) by (simp add: forkChat_def Let_def flip: orig)
  from insert_linked_chat [OF assms(5,1) refl cne copy_chain_linked [OF linked orig_ids named] croot ids cchat, of insertMessageChunks]
  obtain db' chat' where made: "forkChat fresh suffix now source from_message user db = (db', Inr (Some (fresh 0)))"
    "db_messages db' = db_messages db @ ?copies" "db_chats db' = db_chats db @ [chat']"
    and chat': "c_user chat' = user" "c_project chat' = c_project src" "c_visibility chat' = ''private''"
    "map snd (loadActivePath (db_messages db') (db_messages db') (fresh 0) (c_active_leaf chat') None) = ?copies"
    unfolding fork by (fastforce simp: new_chat_def)
  have "db' = db\<lparr>db_chats := db_chats db @ [chat'], db_messages := db_messages db @ ?copies\<rparr>"
    using insert_chat_frame [OF made(1) [unfolded fork]] unfolding made(2,3) .
  then show ?thesis
    using made(1) chat' copy_chain_maps(2-5) [of fresh now "fresh 0" 1 "[]" original] last_id
    by (intro exI [of _ db'] exI [of _ ?copies] exI [of _ chat']) simp
qed

subsection \<open>Importing\<close>

lemma map_pair_zip: "map (\<lambda>x. (f x, g x)) xs = zip (map f xs) (map g xs)"
  by (induction xs) simp_all

lemma imported_rows_maps:
  "map m_id (imported_rows fresh base chat source i prev imported) = map fresh [i..<i + length imported]"
  "map m_content (imported_rows fresh base chat source i prev imported) = map snd imported"
  "map m_role (imported_rows fresh base chat source i prev imported) = map fst imported"
  "map m_created (imported_rows fresh base chat source i prev imported) = map (\<lambda>k. Some (base + int k)) [i..<i + length imported]"
  "\<forall>m \<in> set (imported_rows fresh base chat source i prev imported). m_untrusted m \<and> m_chat m = chat"
  by (induction fresh base chat source i prev imported rule: imported_rows.induct) (auto simp: upt_rec)

lemma imported_rows_linked:
  "successively answers (imported_rows fresh base chat source i prev imported) \<and>
   (imported \<noteq> [] \<longrightarrow> m_parent (hd (imported_rows fresh base chat source i prev imported)) = prev)"
proof (induction fresh base chat source i prev imported rule: imported_rows.induct)
  case (2 fresh base chat source i prev r content rest)
  then show ?case by (cases rest) (auto simp: successively_Cons)
qed simp

text \<open>
  An imported conversation is one untrusted chain: given unused ids, \<open>createImportedChat\<close>
  appends a private chat whose visible path is exactly the imported messages in order, every row of it
  marked untrusted, creation times strictly increasing, and leaves every existing row as it was.
\<close>

theorem import_is_untrusted_chain:
  assumes "messages_ok db" and "fresh_ids fresh db" and "imported \<noteq> []"
  shows "\<exists>db' rows chat'. createImportedChat fresh now user model title imported source db = (db', Inr (Some (fresh 0))) \<and>
    db_messages db' = db_messages db @ rows \<and> db_chats db' = db_chats db @ [chat'] \<and> c_user chat' = user \<and>
    c_visibility chat' = ''private'' \<and>
    map snd (loadActivePath (db_messages db') (db_messages db') (fresh 0) (c_active_leaf chat') None) = rows \<and>
    map (\<lambda>m. (m_role m, m_content m)) rows = imported \<and> (\<forall>m \<in> set rows. m_untrusted m) \<and>
    sorted_wrt (<) (map (\<lambda>m. the (m_created m)) rows)"
proof -
  let ?rows = "importedMessageRows (\<lambda>i. fresh (Suc i)) now (fresh 0) source imported"
  let ?chat = "new_chat now (fresh 0) user None (case title of Some t \<Rightarrow> if t = [] then None else Some t | None \<Rightarrow> None) model"
  note maps = imported_rows_maps [of "\<lambda>i. fresh (Suc i)" now "fresh 0" source 0 None imported, folded importedMessageRows_def]
  note linked = imported_rows_linked [of "\<lambda>i. fresh (Suc i)" now "fresh 0" source 0 None imported, folded importedMessageRows_def]
  have len: "length ?rows = length imported" using maps(2) by (metis length_map)
  then have ne: "?rows \<noteq> []" using assms(3) by auto
  have "map (\<lambda>i. fresh (Suc i)) [0..<length imported] = map fresh [1..<Suc (length imported)]"
    by (simp add: map_Suc_upt [symmetric] del: upt_Suc)
  then have ids: "map m_id ?rows = map fresh [1..<Suc (length ?rows)]" using maps(1) len by simp
  have chats: "\<forall>m \<in> set ?rows. m_chat m = fresh 0" using maps(5) by blast
  have contents: "map (\<lambda>m. (m_role m, m_content m)) ?rows = imported"
    unfolding map_pair_zip maps(2,3) by (rule zip_map_fst_snd)
  have "map (\<lambda>m. the (m_created m)) ?rows = map the (map m_created ?rows)" by simp
  also have "\<dots> = map (\<lambda>k. now + int k) [0..<length imported]" unfolding maps(4) by simp
  finally have sorted: "sorted_wrt (<) (map (\<lambda>m. the (m_created m)) ?rows)"
    by (simp add: sorted_wrt_map)
  from insert_linked_chat [OF assms(2,1) refl ne linked [THEN conjunct1] _ ids chats, of insert_rows] linked assms(3)
  show ?thesis
    using contents sorted maps(5) unfolding createImportedChat_def by (fastforce simp: new_chat_def)
qed

subsection \<open>Concrete chats\<close>

definition demo_message :: "ident \<Rightarrow> ident option \<Rightarrow> role \<Rightarrow> time \<Rightarrow> message_row" where
  "demo_message i parent r created =
     \<lparr>m_id = i, m_chat = ''c3'', m_parent = parent, m_role = r, m_content = i, m_platform = None, m_meta = None,
      m_untrusted = True, m_created = Some created\<rparr>"

text \<open>A question with two versions of its answer.\<close>

definition demo_tree :: database where
  "demo_tree =
     \<lparr>db_tasks = [], db_chats = demo_chats,
      db_messages = [demo_message ''a'' None User 0, demo_message ''b2'' (Some ''a'') Assistant 2,
        demo_message ''b1'' (Some ''a'') Assistant 1], db_usage = [], db_effects = []\<rparr>"

lemma demo_skeleton:
  "loadSkeleton ''c3'' (db_messages demo_tree) =
     [\<lparr>n_id = ''a'', n_parent = None, n_created = Some 0, n_role = User\<rparr>,
      \<lparr>n_id = ''b2'', n_parent = Some ''a'', n_created = Some 2, n_role = Assistant\<rparr>,
      \<lparr>n_id = ''b1'', n_parent = Some ''a'', n_created = Some 1, n_role = Assistant\<rparr>]"
  by (simp add: loadSkeleton_def demo_tree_def demo_message_def node_of_def)

lemma demo_tree_ok: "tree_ok (loadSkeleton ''c3'' (db_messages demo_tree))"
  unfolding tree_ok_def demo_skeleton
  by (rule exI [of _ "\<lambda>i. if i = ''a'' then 0 else 1"]) (simp add: forest_by_def)

theorem visible_path_is_rooted_witness:
  "n_id (last (map pe_node (activePath (loadSkeleton ''c3'' (db_messages demo_tree)) (Some ''b1'')))) = ''b1'' \<and>
   n_parent (hd (map pe_node (activePath (loadSkeleton ''c3'' (db_messages demo_tree)) (Some ''b1'')))) = None"
proof -
  have "loadSkeleton ''c3'' (db_messages demo_tree) \<noteq> []" "Some ''b1'' \<in> Some ` n_id ` set (loadSkeleton ''c3'' (db_messages demo_tree))"
    unfolding demo_skeleton by simp_all
  with visible_path_is_rooted [OF demo_tree_ok this(1) refl, of "Some ''b1''"] show ?thesis
    by (simp add: rooted_chain_def)
qed

lemma demo_sibling: "siblingId (loadSkeleton ''c3'' (db_messages demo_tree)) ''b1'' Next = Some ''b2''"
  unfolding demo_skeleton
  by (simp add: siblingId_def childrenByParent_def sibling_key_def Let_def)

theorem switch_is_reversible_and_shows_witness:
  "siblingId (loadSkeleton ''c3'' (db_messages demo_tree)) ''b2'' Prev = Some ''b1'' \<and>
   (\<exists>leaf. snd (switchSibling 9 ''c3'' ''b1'' Next demo_tree) = Some leaf \<and>
      ''b2'' \<in> (n_id \<circ> pe_node) ` set (activePath (loadSkeleton ''c3'' (db_messages demo_tree)) (Some leaf)))"
  using switch_is_reversible_and_shows [OF refl demo_tree_ok demo_sibling, of 9] by auto

definition demo_fresh :: "nat \<Rightarrow> ident" where
  "demo_fresh k = replicate (Suc k) CHR ''z''"

lemma demo_fresh_ids: "fresh_ids demo_fresh demo_tree"
  by (auto simp: fresh_ids_def demo_fresh_def demo_tree_def demo_message_def demo_chats_def demo_chat_def inj_def)

lemma demo_messages_ok: "messages_ok demo_tree"
  by (simp add: messages_ok_def demo_tree_def demo_message_def demo_chats_def demo_chat_def)

theorem fork_is_faithful_copy_witness:
  "\<exists>db' copies. forkChat demo_fresh ''(copy)'' 9 ''c3'' ''b1'' ''u'' demo_tree = (db', Inr (Some (demo_fresh 0))) \<and>
     db_messages db' = db_messages demo_tree @ copies \<and> db_tasks db' = db_tasks demo_tree"
proof -
  have "''b1'' \<in> n_id ` set (loadSkeleton ''c3'' (db_messages demo_tree))" unfolding demo_skeleton by simp
  moreover have "find (\<lambda>c. c_id c = ''c3'' \<and> c_user c = ''u'') (db_chats demo_tree) = Some (demo_chat ''c3'' None)"
    by (simp add: demo_tree_def demo_chats_def demo_chat_def)
  ultimately obtain db' copies chat' where
    "forkChat demo_fresh ''(copy)'' 9 ''c3'' ''b1'' ''u'' demo_tree = (db', Inr (Some (demo_fresh 0)))"
    "db' = demo_tree\<lparr>db_chats := db_chats demo_tree @ [chat'], db_messages := db_messages demo_tree @ copies\<rparr>"
    using fork_is_faithful_copy [OF demo_messages_ok demo_tree_ok _ _ demo_fresh_ids refl] by blast
  then show ?thesis by (intro exI [of _ db'] exI [of _ copies]) simp
qed

theorem import_is_untrusted_chain_witness:
  "\<exists>db' rows. createImportedChat demo_fresh 9 ''u'' None None [(User, ''hi''), (Assistant, ''yo'')] ''claude'' demo_tree =
       (db', Inr (Some (demo_fresh 0))) \<and> map m_content rows = [''hi'', ''yo''] \<and>
     db_messages db' = db_messages demo_tree @ rows"
proof -
  let ?imported = "[(User, ''hi''), (Assistant, ''yo'')]"
  have "?imported \<noteq> []" by simp
  from import_is_untrusted_chain [OF demo_messages_ok demo_fresh_ids this, of 9 "''u''" None None "''claude''"]
  obtain db' rows where db': "createImportedChat demo_fresh 9 ''u'' None None ?imported ''claude'' demo_tree =
      (db', Inr (Some (demo_fresh 0)))" "db_messages db' = db_messages demo_tree @ rows"
    and rows: "map (\<lambda>m. (m_role m, m_content m)) rows = ?imported" by (elim exE conjE) (rule that)
  have "map m_content rows = map snd (map (\<lambda>m. (m_role m, m_content m)) rows)" by simp
  then have "map m_content rows = [''hi'', ''yo'']" unfolding rows by simp
  with db' show ?thesis by (intro exI conjI)
qed

end
