(* ===== verification/Plugin_Apply.thy ===== *)
theory Plugin_Apply
  imports Db_Schema
begin

section \<open>Serializing plugin applies (src/lib/marketplace/operation.ts)\<close>

text \<open>
  The claim an operation holds on a plugin install lives in the install row's manifest. Each function
  of the file is one compare-and-set statement on the \<open>plugin_installs\<close> table; the keys of the manifest
  that no statement reads are kept in \<open>mf_rest\<close>.
\<close>

definition APPLY_LEASE_SECONDS :: int where "APPLY_LEASE_SECONDS = 60"
definition REAP_MARGIN_SECONDS :: int where "REAP_MARGIN_SECONDS = 15"

datatype apply_kind = Install | Upgrade | Retry

datatype apply_status = Applying | ApplyFailed

record apply_state =
  as_operation :: ident
  as_target :: string
  as_status :: apply_status
  as_kind :: "apply_kind option"
  as_review :: "string option"
  as_started :: time
  as_lease :: time

record manifest =
  mf_revision :: "int option" \<comment> \<open>\<open>committedRevision\<close>\<close>
  mf_apply :: "apply_state option" \<comment> \<open>\<open>applyState\<close>\<close>
  mf_rest :: json

datatype scope = SystemScope | UserScope

record install_row =
  pi_id :: ident
  pi_marketplace :: ident
  pi_plugin :: string
  pi_scope :: scope
  pi_user :: "ident option"
  pi_manifest :: "manifest option"

definition apply_lease :: "time \<Rightarrow> time" where
  "apply_lease now = now + APPLY_LEASE_SECONDS * 1000"

text \<open>\<open>manifest #>> '{applyState,\<dots>}'\<close>: NULL when the manifest or the state is absent.\<close>

definition apply_of :: "install_row \<Rightarrow> apply_state option" where
  "apply_of r = Option.bind (pi_manifest r) mf_apply"

definition revision_of :: "install_row \<Rightarrow> int" where
  "revision_of r = (case Option.bind (pi_manifest r) mf_revision of Some v \<Rightarrow> v | None \<Rightarrow> 0)"

definition set_apply :: "apply_state option \<Rightarrow> install_row \<Rightarrow> install_row" where
  "set_apply a r =
     r\<lparr>pi_manifest := Some (case pi_manifest r of
         Some m \<Rightarrow> m\<lparr>mf_apply := a\<rparr>
       | None \<Rightarrow> \<lparr>mf_revision = None, mf_apply = a, mf_rest = JObj []\<rparr>)\<rparr>"

subsection \<open>Claiming\<close>

record claim_input =
  ci_install :: ident
  ci_operation :: ident
  ci_expected :: "int option" \<comment> \<open>None: the counter was not a finite number\<close>
  ci_target :: string
  ci_kind :: apply_kind
  ci_review :: "string option"

definition claimable_install :: "ident \<Rightarrow> int \<Rightarrow> install_row \<Rightarrow> bool" where
  "claimable_install install expected r \<longleftrightarrow>
     pi_id r = install \<and> revision_of r = expected \<and>
     (case apply_of r of None \<Rightarrow> True | Some a \<Rightarrow> as_status a = ApplyFailed)"

definition new_apply :: "time \<Rightarrow> claim_input \<Rightarrow> apply_state" where
  "new_apply now i =
     \<lparr>as_operation = ci_operation i, as_target = ci_target i, as_status = Applying, as_kind = Some (ci_kind i),
      as_review = ci_review i, as_started = now, as_lease = apply_lease now\<rparr>"

text \<open>\<open>claimApply\<close>: true for \<open>ok\<close>, false for the conflict.\<close>

definition claimApply :: "time \<Rightarrow> claim_input \<Rightarrow> install_row list \<Rightarrow> install_row list \<times> bool" where
  "claimApply now i t =
     (case ci_expected i of
        None \<Rightarrow> (t, False)
      | Some e \<Rightarrow>
          (update_where (claimable_install (ci_install i) e) (set_apply (Some (new_apply now i))) t,
           0 < length (filter (claimable_install (ci_install i) e) t)))"

subsection \<open>The statements of the owner\<close>

definition owned_by :: "ident \<Rightarrow> ident \<Rightarrow> install_row \<Rightarrow> bool" where
  "owned_by install operation r \<longleftrightarrow>
     pi_id r = install \<and>
     (case apply_of r of
        Some a \<Rightarrow> as_operation a = operation \<and> as_status a = Applying
      | None \<Rightarrow> False)"

definition map_apply :: "(apply_state \<Rightarrow> apply_state) \<Rightarrow> install_row \<Rightarrow> install_row" where
  "map_apply f r = set_apply (map_option f (apply_of r)) r"

definition renewApplyLease :: "time \<Rightarrow> ident \<Rightarrow> ident \<Rightarrow> install_row list \<Rightarrow> install_row list \<times> bool" where
  "renewApplyLease now install operation t =
     (update_where (owned_by install operation) (map_apply (\<lambda>a. a\<lparr>as_lease := apply_lease now\<rparr>)) t,
      0 < length (filter (owned_by install operation) t))"

definition finalizable_apply :: "time \<Rightarrow> ident \<Rightarrow> ident \<Rightarrow> install_row \<Rightarrow> bool" where
  "finalizable_apply now install operation r \<longleftrightarrow>
     owned_by install operation r \<and> (case apply_of r of Some a \<Rightarrow> now < as_lease a | None \<Rightarrow> False)"

definition finalizeApply :: "time \<Rightarrow> ident \<Rightarrow> ident \<Rightarrow> manifest \<Rightarrow> install_row list \<Rightarrow> install_row list \<times> bool" where
  "finalizeApply now install operation new t =
     (update_where (finalizable_apply now install operation) (\<lambda>r. r\<lparr>pi_manifest := Some new\<rparr>) t,
      0 < length (filter (finalizable_apply now install operation) t))"

definition fail_apply :: "install_row \<Rightarrow> install_row" where
  "fail_apply = map_apply (\<lambda>a. a\<lparr>as_status := ApplyFailed\<rparr>)"

definition markApplyFailed :: "ident \<Rightarrow> ident \<Rightarrow> install_row list \<Rightarrow> install_row list \<times> bool" where
  "markApplyFailed install operation t =
     (update_where (owned_by install operation) fail_apply t, 0 < length (filter (owned_by install operation) t))"

definition releaseApplyClaim :: "ident \<Rightarrow> ident \<Rightarrow> apply_kind \<Rightarrow> install_row list \<Rightarrow> install_row list \<times> bool" where
  "releaseApplyClaim install operation kind t =
     (case kind of
        Install \<Rightarrow> delete_where (owned_by install operation) t
      | Retry \<Rightarrow> update_where (owned_by install operation) fail_apply t
      | Upgrade \<Rightarrow> update_where (owned_by install operation) (set_apply None) t,
      0 < length (filter (owned_by install operation) t))"

subsection \<open>The reaper and the status\<close>

record stale_apply =
  sa_install :: ident
  sa_operation :: ident
  sa_kind :: apply_kind
  sa_plugin :: string
  sa_review :: "string option"

definition stale_claim :: "time \<Rightarrow> install_row \<Rightarrow> bool" where
  "stale_claim now r \<longleftrightarrow>
     (case apply_of r of
        Some a \<Rightarrow> as_status a = Applying \<and> as_lease a < now - REAP_MARGIN_SECONDS * 1000
      | None \<Rightarrow> False)"

definition stale_report :: "install_row \<Rightarrow> stale_apply option" where
  "stale_report r =
     map_option (\<lambda>a. \<lparr>sa_install = pi_id r, sa_operation = as_operation a,
         sa_kind = (case as_kind a of Some k \<Rightarrow> k | None \<Rightarrow> Upgrade), sa_plugin = pi_plugin r, sa_review = as_review a\<rparr>)
       (apply_of r)"

definition reconcileStaleApplies :: "time \<Rightarrow> install_row list \<Rightarrow> install_row list \<times> stale_apply list" where
  "reconcileStaleApplies now t =
     (update_where (stale_claim now) fail_apply t, List.map_filter stale_report (filter (stale_claim now) t))"

definition readApplyState :: "ident \<Rightarrow> install_row list \<Rightarrow> apply_state option" where
  "readApplyState install t = Option.bind (find_row pi_id install t) apply_of"

end
