(* ===== verification/Apply_Theorems.thy ===== *)
theory Apply_Theorems
  imports Plugin_Apply
begin

section \<open>What the plugin apply protocol guarantees\<close>

text \<open>
  The step relation of the installs table (every statement of \<open>operation.ts\<close>, the staging insert and the
  uninstall), and what holds along every interleaving: one operation at most may publish an install, an
  operation that lost its claim never acts again, and what is published replaces exactly the revision
  that was reviewed.
\<close>

subsection \<open>Steps\<close>

text \<open>Operations in \<open>used\<close> have been started before: their ids are not handed out again.\<close>

inductive apply_step :: "ident set \<Rightarrow> time \<Rightarrow> install_row list \<Rightarrow> install_row list \<Rightarrow> bool"
  for used :: "ident set" where
  stage: "pi_id r \<notin> pi_id ` set t \<Longrightarrow> (\<forall>a. apply_of r = Some a \<longrightarrow> as_operation a \<notin> used \<and> as_lease a = apply_lease now) \<Longrightarrow>
     apply_step used now t (t @ [r])"
| claim: "ci_operation i \<notin> used \<Longrightarrow> apply_step used now t (fst (claimApply now i t))"
| renew: "apply_step used now t (fst (renewApplyLease now install operation t))"
| finalize: "mf_apply new = None \<Longrightarrow> apply_step used now t (fst (finalizeApply now install operation new t))"
| fail: "apply_step used now t (fst (markApplyFailed install operation t))"
| release: "apply_step used now t (fst (releaseApplyClaim install operation kind t))"
| reap: "apply_step used now t (fst (reconcileStaleApplies now t))"
| uninstall: "apply_step used now t (delete_where (\<lambda>r. pi_id r = install) t)"

definition installs_ok :: "install_row list \<Rightarrow> bool" where
  "installs_ok t \<longleftrightarrow> distinct (map pi_id t)"

lemma set_apply_simps [simp]:
  "pi_id (set_apply a r) = pi_id r" "apply_of (set_apply a r) = a" "revision_of (set_apply a r) = revision_of r"
  by (auto simp: set_apply_def apply_of_def revision_of_def split: option.split)

lemma map_apply_simps [simp]:
  "pi_id (map_apply f r) = pi_id r" "apply_of (map_apply f r) = map_option f (apply_of r)"
  "revision_of (map_apply f r) = revision_of r"
  by (simp_all add: map_apply_def)

lemma fail_apply_simps [simp]:
  "pi_id (fail_apply r) = pi_id r" "revision_of (fail_apply r) = revision_of r" "\<not> owned_by install operation (fail_apply r)"
  by (simp_all add: fail_apply_def owned_by_def split: option.split)

text \<open>The effect of a step on a row: removed, or kept under its id by one of these changes.\<close>

inductive row_change :: "ident set \<Rightarrow> time \<Rightarrow> install_row \<Rightarrow> install_row \<Rightarrow> bool"
  for used :: "ident set" and now :: time and r :: install_row where
  same: "row_change used now r r"
| claimed: "ci_operation i \<notin> used \<Longrightarrow> (case apply_of r of None \<Rightarrow> True | Some a \<Rightarrow> as_status a = ApplyFailed) \<Longrightarrow>
     row_change used now r (set_apply (Some (new_apply now i)) r)"
| renewed: "owned_by (pi_id r) operation r \<Longrightarrow> row_change used now r (map_apply (\<lambda>a. a\<lparr>as_lease := apply_lease now\<rparr>) r)"
| published: "mf_apply new = None \<Longrightarrow> finalizable_apply now (pi_id r) operation r \<Longrightarrow>
     row_change used now r (r\<lparr>pi_manifest := Some new\<rparr>)"
| failed: "row_change used now r (fail_apply r)"
| cleared: "row_change used now r (set_apply None r)"

lemma row_change_id: "row_change used now r r' \<Longrightarrow> pi_id r' = pi_id r"
  by (induction rule: row_change.induct) auto

lemma update_rows:
  assumes "r' \<in> set (update_where P f t)" and "\<And>r. P r \<Longrightarrow> row_change used now r (f r)"
  shows "\<exists>r \<in> set t. row_change used now r r'"
proof -
  obtain r where "r \<in> set t" "r' = (if P r then f r else r)" using assms(1) by auto
  then show ?thesis using assms(2) [of r] row_change.same by (cases "P r") auto
qed

text \<open>Every row after a step is a staged row or comes from a row before by such a change.\<close>

lemma step_rows:
  assumes "apply_step used now t t'" and "r' \<in> set t'"
  shows "(\<exists>r \<in> set t. row_change used now r r') \<or>
    (pi_id r' \<notin> pi_id ` set t \<and> (\<forall>a. apply_of r' = Some a \<longrightarrow> as_operation a \<notin> used \<and> as_lease a = apply_lease now))"
  using assms
proof (induction rule: apply_step.induct)
  case (stage r t now)
  then show ?case by (auto intro: row_change.same)
next
  case (claim i now t)
  show ?case
  proof (cases "ci_expected i")
    case None
    with claim show ?thesis by (auto simp: claimApply_def intro: row_change.same)
  next
    case (Some e)
    with claim(2) have "r' \<in> set (update_where (claimable_install (ci_install i) e) (set_apply (Some (new_apply now i))) t)"
      by (simp add: claimApply_def)
    then show ?thesis
      by (intro disjI1, rule update_rows) (use claim(1) in \<open>auto simp: claimable_install_def intro: row_change.claimed\<close>)
  qed
next
  case (renew now t install operation)
  show ?case
    by (intro disjI1, rule update_rows [OF renew [unfolded renewApplyLease_def fst_conv]]) (auto simp: owned_by_def intro: row_change.renewed [where operation = operation])
next
  case (finalize new now t install operation)
  show ?case
    by (intro disjI1, rule update_rows [OF finalize(2) [unfolded finalizeApply_def fst_conv]])
      (use finalize(1) in \<open>auto simp: finalizable_apply_def owned_by_def
        intro: row_change.published [where operation = operation]\<close>)
next
  case (fail now t install operation)
  show ?case
    by (intro disjI1, rule update_rows [OF fail [unfolded markApplyFailed_def fst_conv]]) (auto intro: row_change.failed)
next
  case (release now t install operation kind)
  show ?case
  proof (cases kind)
    case Install
    with release show ?thesis by (auto simp: releaseApplyClaim_def intro: row_change.same)
  next
    case Retry
    with release have "r' \<in> set (update_where (owned_by install operation) fail_apply t)" by (simp add: releaseApplyClaim_def)
    then show ?thesis by (intro disjI1, rule update_rows) (auto intro: row_change.failed)
  next
    case Upgrade
    with release have "r' \<in> set (update_where (owned_by install operation) (set_apply None) t)" by (simp add: releaseApplyClaim_def)
    then show ?thesis by (intro disjI1, rule update_rows) (auto intro: row_change.cleared)
  qed
next
  case (reap now t)
  show ?case
    by (intro disjI1, rule update_rows [OF reap [unfolded reconcileStaleApplies_def fst_conv]]) (auto intro: row_change.failed)
next
  case (uninstall now t install)
  then show ?case by (auto intro: row_change.same)
qed

lemma installs_ok_step: "apply_step used now t t' \<Longrightarrow> installs_ok t \<Longrightarrow> installs_ok t'"
  by (induction rule: apply_step.induct)
    (auto simp: installs_ok_def claimApply_def renewApplyLease_def finalizeApply_def markApplyFailed_def
      releaseApplyClaim_def reconcileStaleApplies_def keys_update_where split: option.split apply_kind.split)

subsection \<open>Interpretations\<close>

text \<open>Operation \<open>h\<close> may publish install \<open>r\<close>: it holds the claim under an unexpired lease.\<close>

definition may_publish :: "install_row list \<Rightarrow> time \<Rightarrow> ident \<Rightarrow> ident \<Rightarrow> bool" where
  "may_publish t now h r \<longleftrightarrow> (\<exists>x \<in> set t. finalizable_apply now r h x)"

text \<open>What a change of a row can do to a claim: a claim that appears is a new one under a fresh lease, or
  the renewal of the same claim.\<close>

lemma row_change_claim:
  assumes "row_change used now r r'" and "owned_by install operation r'"
  shows "owned_by install operation r \<and> revision_of r' = revision_of r \<or>
    operation \<notin> used \<and> (\<forall>h. \<not> owned_by install h r)"
  using assms
proof (induction rule: row_change.induct)
  case (claimed i)
  then show ?case by (auto simp: owned_by_def new_apply_def split: option.splits)
next
  case (renewed op)
  then show ?case by (auto simp: owned_by_def split: option.splits)
next
  case (published new op)
  then show ?case by (auto simp: owned_by_def apply_of_def)
next
  case failed
  then show ?case by simp
next
  case cleared
  then show ?case by (simp add: owned_by_def)
qed simp

lemma step_claim:
  assumes "apply_step used now t t'" and "installs_ok t" and "r' \<in> set t'" and "owned_by install operation r'"
  shows "(\<exists>r \<in> set t. owned_by install operation r \<and> revision_of r' = revision_of r) \<or>
    operation \<notin> used \<and> (\<forall>r \<in> set t. \<forall>h. \<not> owned_by install h r)"
  using step_rows [OF assms(1,3)]
proof (elim disjE)
  assume "\<exists>r \<in> set t. row_change used now r r'"
  then obtain r where r: "r \<in> set t" "row_change used now r r'" by blast
  have pid: "pi_id r = install" using row_change_id [OF r(2)] assms(4) by (simp add: owned_by_def)
  show ?thesis
    using row_change_claim [OF r(2) assms(4)]
  proof (elim disjE)
    assume none: "operation \<notin> used \<and> (\<forall>h. \<not> owned_by install h r)"
    have "\<not> owned_by install h x" if "x \<in> set t" for x h
    proof
      assume "owned_by install h x"
      then have "x = r" using same_key_same_row [of pi_id t x r] that r(1) pid assms(2)
        by (simp add: installs_ok_def owned_by_def)
      with none \<open>owned_by install h x\<close> show False by blast
    qed
    with none show ?thesis by blast
  qed (use r(1) in blast)
next
  assume "pi_id r' \<notin> pi_id ` set t \<and> (\<forall>a. apply_of r' = Some a \<longrightarrow> as_operation a \<notin> used \<and> as_lease a = apply_lease now)"
  moreover from assms(4) obtain a where "apply_of r' = Some a" "as_operation a = operation" "pi_id r' = install"
    by (auto simp: owned_by_def split: option.splits)
  ultimately have "operation \<notin> used" "install \<notin> pi_id ` set t" by blast+
  then show ?thesis by (auto simp: owned_by_def)
qed

lemma may_publish_owned: "may_publish t now h r \<Longrightarrow> \<exists>x \<in> set t. owned_by r h x"
  by (auto simp: may_publish_def finalizable_apply_def)

lemma owned_unique:
  assumes "installs_ok t" and "x \<in> set t" "y \<in> set t" and own: "owned_by r h x" "owned_by r h' y"
  shows "h = h'"
proof -
  have "pi_id x = pi_id y" using own by (simp add: owned_by_def)
  with assms(1-3) have "x = y" unfolding installs_ok_def by (blast intro: same_key_same_row)
  with own show ?thesis by (auto simp: owned_by_def split: option.splits)
qed

lemma may_publish_unique:
  "installs_ok t \<Longrightarrow> may_publish t now h r \<Longrightarrow> may_publish t now h' r \<Longrightarrow> h = h'"
  by (meson may_publish_owned owned_unique)

interpretation publish: lease_exclusion "apply_step used" installs_ok may_publish for used
proof
  fix now t t'
  show "apply_step used now t t' \<Longrightarrow> installs_ok t \<Longrightarrow> installs_ok t'" by (rule installs_ok_step)
next
  fix now now' :: time and t h r
  assume "now \<le> now'" and "may_publish t now' h r"
  then show "may_publish t now h r"
    by (force simp: may_publish_def finalizable_apply_def split: option.splits)
next
  fix now t t' h r
  assume step: "apply_step used now t t'" and ok: "installs_ok t" and new: "may_publish t' now h r" "\<not> may_publish t now h r"
  obtain x where x: "x \<in> set t'" "owned_by r h x" using may_publish_owned [OF new(1)] by blast
  have "\<not> may_publish t now h' r" for h'
  proof
    assume "may_publish t now h' r"
    then obtain y where y: "y \<in> set t" "owned_by r h' y" using may_publish_owned by blast
    with step_claim [OF step ok x] have "\<exists>z \<in> set t. owned_by r h z" by blast
    with y owned_unique [OF ok] have "h' = h" by blast
    with \<open>may_publish t now h' r\<close> new(2) show False by simp
  qed
  moreover have "may_publish t' now h' r \<Longrightarrow> h' = h" for h'
    using may_publish_unique [OF installs_ok_step [OF step ok]] new(1) by blast
  ultimately show "(\<forall>h'. \<not> may_publish t now h' r) \<and> (\<forall>h'. may_publish t' now h' r \<longrightarrow> h' = h)" by blast
qed

text \<open>An operation started earlier that no longer owns the install.\<close>

definition dispossessed :: "ident set \<Rightarrow> install_row list \<Rightarrow> time \<Rightarrow> ident \<times> ident \<Rightarrow> unit option" where
  "dispossessed used t now k =
     (if snd k \<in> used \<and> (\<forall>r \<in> set t. \<not> owned_by (fst k) (snd k) r) then Some () else None)"

interpretation lost: settle_once "apply_step used" installs_ok "dispossessed used" for used
proof
  fix now now' :: time and t k and v :: unit
  show "dispossessed used t now k = Some v \<Longrightarrow> dispossessed used t now' k = Some v" by (simp add: dispossessed_def)
next
  fix now t t' k and v :: unit
  assume step: "apply_step used now t t'" and ok: "installs_ok t" and lost: "dispossessed used t now k = Some v"
  then have k: "snd k \<in> used" "\<forall>r \<in> set t. \<not> owned_by (fst k) (snd k) r"
    by (simp_all add: dispossessed_def split: if_splits)
  then have "\<not> owned_by (fst k) (snd k) x" if "x \<in> set t'" for x
    using step_claim [OF step ok that] by blast
  with k show "dispossessed used t' now k = Some v" by (simp add: dispossessed_def)
qed

subsection \<open>Properties\<close>

lemma not_owned_noop:
  assumes "\<forall>r \<in> set t. \<not> owned_by install operation r"
  shows "renewApplyLease now install operation t = (t, False)"
    "finalizeApply now install operation new t = (t, False)"
    "markApplyFailed install operation t = (t, False)"
    "releaseApplyClaim install operation kind t = (t, False)"
  using assms
  by (simp_all add: renewApplyLease_def finalizeApply_def markApplyFailed_def releaseApplyClaim_def
      finalizable_apply_def update_where_none delete_where_none filter_empty_if split: apply_kind.split)

text \<open>
  Property C19. An operation that lost its claim never acts again: once a started operation does not own an
  install (it was reaped, failed, released or finalized), then after any run of claims by other
  operations, renewals, publications, failures, releases, reaps, staging inserts and uninstalls, each of
  its own renew, finalize, fail and release answers false and changes nothing.
\<close>

theorem lost_operation_never_acts:
  assumes "timed_run (apply_step used) (t0, s0) (t1, s1)" and "installs_ok s0"
    and "operation \<in> used" and "\<forall>r \<in> set s0. \<not> owned_by install operation r"
  shows "renewApplyLease t1 install operation s1 = (s1, False) \<and>
    finalizeApply t1 install operation new s1 = (s1, False) \<and>
    markApplyFailed install operation s1 = (s1, False) \<and>
    releaseApplyClaim install operation kind s1 = (s1, False)"
proof -
  have "dispossessed used s0 t0 (install, operation) = Some ()" using assms(3,4) by (simp add: dispossessed_def)
  from lost.verdict_run [OF assms(1,2) this] have "\<forall>r \<in> set s1. \<not> owned_by install operation r"
    by (simp add: dispossessed_def split: if_splits)
  then show ?thesis by (simp add: not_owned_noop)
qed

lemma claimed_rows:
  assumes "claimApply now i t = (t', True)" and "installs_ok t"
  obtains e r where "ci_expected i = Some e" "r \<in> set t" "claimable_install (ci_install i) e r"
    "t' = update_where (claimable_install (ci_install i) e) (set_apply (Some (new_apply now i))) t"
  using assms by (auto simp: claimApply_def length_filter_pos_iff [simplified] split: option.splits)

text \<open>
  Property C20. What is published replaces what was reviewed: when a claim against an expected revision
  succeeded and the same operation later finalizes, whatever ran in between, the revision it replaces is
  still the expected one (no other operation published in the meantime).
\<close>

theorem publishes_over_reviewed_revision:
  assumes "installs_ok s0" and "claimApply t0 i s0 = (s1, True)"
    and "timed_run (apply_step {ci_operation i}) (t0, s1) (t1, s2)"
    and "finalizeApply t1 (ci_install i) (ci_operation i) new s2 = (s3, True)"
  shows "\<exists>r \<in> set s2. pi_id r = ci_install i \<and> ci_expected i = Some (revision_of r) \<and> r\<lparr>pi_manifest := Some new\<rparr> \<in> set s3"
proof -
  from claimed_rows [OF assms(2,1)] obtain e r0 where e: "ci_expected i = Some e"
    and s1: "s1 = update_where (claimable_install (ci_install i) e) (set_apply (Some (new_apply t0 i))) s0" .
  let ?I = "\<lambda>s. installs_ok s \<and> (\<forall>r \<in> set s. owned_by (ci_install i) (ci_operation i) r \<longrightarrow> revision_of r = e)"
  have free: "claimable_install (ci_install i) e r0" if "r0 \<in> set s0" "pi_id r0 = ci_install i" for r0
  proof -
    from claimed_rows [OF assms(2,1)] obtain e' r where r: "r \<in> set s0" "claimable_install (ci_install i) e' r"
      "ci_expected i = Some e'" .
    then have "pi_id r0 = pi_id r" using that by (simp add: claimable_install_def)
    then have "r0 = r" using assms(1) that(1) r(1) unfolding installs_ok_def by (blast intro: same_key_same_row)
    with r e show ?thesis by simp
  qed
  have "revision_of r = e" if own: "r \<in> set s1" "owned_by (ci_install i) (ci_operation i) r" for r
  proof -
    from own(1) obtain x where x: "x \<in> set s0"
      "r = (if claimable_install (ci_install i) e x then set_apply (Some (new_apply t0 i)) x else x)"
      by (auto simp: s1)
    then have "pi_id x = ci_install i" using own(2) by (cases "claimable_install (ci_install i) e x") (simp_all add: owned_by_def)
    with free x have "claimable_install (ci_install i) e x" by blast
    with x show ?thesis by (simp add: claimable_install_def)
  qed
  moreover have "installs_ok s1"
    using installs_ok_step [OF apply_step.claim [of i "{}"] assms(1)] assms(2) by (metis empty_iff fst_conv)
  ultimately have start: "?I s1" by blast
  have "?I s2"
  proof (rule timed_run_invariant [OF assms(3), of ?I, OF start])
    fix now s s'
    assume step: "apply_step {ci_operation i} now s s'" and I: "?I s"
    have "revision_of r = e" if "r \<in> set s'" "owned_by (ci_install i) (ci_operation i) r" for r
      using step_claim [OF step _ that] I by auto
    with installs_ok_step [OF step] I show "?I s'" by blast
  qed
  moreover from assms(4) obtain r where "r \<in> set s2" "finalizable_apply t1 (ci_install i) (ci_operation i) r"
    "s3 = update_where (finalizable_apply t1 (ci_install i) (ci_operation i)) (\<lambda>r. r\<lparr>pi_manifest := Some new\<rparr>) s2"
    by (auto simp: finalizeApply_def length_filter_pos_iff [simplified])
  moreover then have "r\<lparr>pi_manifest := Some new\<rparr> \<in> set s3" by (simp only: update_where_hit)
  ultimately show ?thesis
    by (intro bexI [of _ r]) (auto simp: e finalizable_apply_def owned_by_def)
qed

text \<open>
  The reaper is exact: after \<open>reconcileStaleApplies\<close> no apply is left whose lease expired more
  than fifteen seconds ago, every other row is what it was, the report names exactly the operations that
  were flipped, and a flipped install can be claimed again at its revision.
\<close>

theorem stale_applies_are_reaped:
  assumes "reconcileStaleApplies now t = (t', report)" and "installs_ok t"
  shows "(\<forall>r \<in> set t'. \<not> stale_claim now r) \<and> (\<forall>r \<in> set t. \<not> stale_claim now r \<longrightarrow> r \<in> set t') \<and>
    set (map sa_operation report) = {as_operation a | r a. r \<in> set t \<and> stale_claim now r \<and> apply_of r = Some a} \<and>
    (\<forall>r \<in> set t. stale_claim now r \<longrightarrow> ci_install i = pi_id r \<longrightarrow> ci_expected i = Some (revision_of r) \<longrightarrow>
       snd (claimApply later i t'))"
proof (intro conjI)
  have t': "t' = update_where (stale_claim now) fail_apply t" using assms(1) by (simp add: reconcileStaleApplies_def)
  have "\<not> stale_claim now (fail_apply r)" for r
    by (simp add: stale_claim_def fail_apply_def split: option.split)
  then show "\<forall>r \<in> set t'. \<not> stale_claim now r" by (auto simp: t')
  show "\<forall>r \<in> set t. \<not> stale_claim now r \<longrightarrow> r \<in> set t'" by (force simp: t')
  have "set report = {x. \<exists>r. r \<in> set t \<and> stale_claim now r \<and> stale_report r = Some x}"
    using assms(1) by (auto simp: reconcileStaleApplies_def set_map_filter)
  then show "set (map sa_operation report) = {as_operation a | r a. r \<in> set t \<and> stale_claim now r \<and> apply_of r = Some a}"
    by (force simp: stale_report_def image_iff)
  show "\<forall>r \<in> set t. stale_claim now r \<longrightarrow> ci_install i = pi_id r \<longrightarrow> ci_expected i = Some (revision_of r) \<longrightarrow>
       snd (claimApply later i t')"
  proof (intro ballI impI)
    fix r assume r: "r \<in> set t" "stale_claim now r" "ci_install i = pi_id r" "ci_expected i = Some (revision_of r)"
    have "fail_apply r \<in> set t'" unfolding t' by (rule update_where_hit) (rule r(1,2))+
    moreover have "claimable_install (ci_install i) (revision_of r) (fail_apply r)"
      using r(2,3) by (simp add: claimable_install_def stale_claim_def fail_apply_def split: option.splits)
    ultimately show "snd (claimApply later i t')"
      using r(4) by (auto simp: claimApply_def length_filter_pos_iff [simplified])
  qed
qed

text \<open>
  Releasing a claim undoes it: after a successful claim of an install, an \<open>upgrade\<close> release
  restores the table exactly when no apply was recorded before, a \<open>retry\<close> release leaves the install
  failed and claimable at the same revision, and an \<open>install\<close> release deletes exactly that row.
\<close>

theorem release_undoes_claim:
  assumes "installs_ok t" and "r \<in> set t" and "pi_id r = ci_install i" and "claimApply now i t = (t', True)"
  shows "(pi_manifest r \<noteq> None \<longrightarrow> apply_of r = None \<longrightarrow>
      releaseApplyClaim (ci_install i) (ci_operation i) Upgrade t' = (t, True)) \<and>
    releaseApplyClaim (ci_install i) (ci_operation i) Install t' = (delete_where (\<lambda>x. pi_id x = ci_install i) t, True) \<and>
    (let (t'', ok) = releaseApplyClaim (ci_install i) (ci_operation i) Retry t' in
     ok \<and> (\<exists>x \<in> set t''. ci_expected i = Some (revision_of x) \<and> claimable_install (ci_install i) (revision_of x) x))"
proof -
  from claimed_rows [OF assms(4,1)] obtain e r0 where e: "ci_expected i = Some e" and r0: "r0 \<in> set t"
    "claimable_install (ci_install i) e r0"
    and t': "t' = update_where (claimable_install (ci_install i) e) (set_apply (Some (new_apply now i))) t" .
  have one: "x = r" if "x \<in> set t" "pi_id x = ci_install i" for x
    by (rule same_key_same_row [OF assms(1) [unfolded installs_ok_def] that(1) assms(2)]) (simp add: that(2) assms(3))
  have "r0 = r" using one [OF r0(1)] r0(2) by (simp add: claimable_install_def)
  with r0 have cl: "claimable_install (ci_install i) e r" by simp
  have only: "claimable_install (ci_install i) e x \<longleftrightarrow> pi_id x = ci_install i" if "x \<in> set t" for x
  proof
    assume "pi_id x = ci_install i"
    with that one have "x = r" by blast
    with cl show "claimable_install (ci_install i) e x" by simp
  qed (simp add: claimable_install_def)
  let ?c = "set_apply (Some (new_apply now i))"
  have t2: "t' = map (\<lambda>x. if pi_id x = ci_install i then ?c x else x) t"
    unfolding t' update_where_def using only by (auto intro: map_cong)
  have own: "owned_by (ci_install i) (ci_operation i) (?c x) \<longleftrightarrow> pi_id x = ci_install i" for x
    by (simp add: owned_by_def new_apply_def)
  have other: "owned_by (ci_install i) (ci_operation i) x \<Longrightarrow> pi_id x = ci_install i" for x
    by (simp add: owned_by_def)
  have won: "0 < length (filter (owned_by (ci_install i) (ci_operation i)) t')"
    unfolding length_filter_pos_iff t2 using assms(2,3) own by force
  have up: "releaseApplyClaim (ci_install i) (ci_operation i) Upgrade t' = (t, True)"
    if m: "pi_manifest r \<noteq> None" "apply_of r = None"
  proof -
    obtain mf where "pi_manifest r = Some mf" using m(1) by blast
    moreover then have "mf_apply mf = None" using m(2) by (simp add: apply_of_def)
    ultimately have "set_apply None (?c r) = r" by (simp add: set_apply_def)
    then have "(if owned_by (ci_install i) (ci_operation i) y then set_apply None y else y) = x"
      if "x \<in> set t" "y = (if pi_id x = ci_install i then ?c x else x)" for x y
      using that one other own by (cases "pi_id x = ci_install i") auto
    then have "map ((\<lambda>y. if owned_by (ci_install i) (ci_operation i) y then set_apply None y else y) \<circ>
        (\<lambda>x. if pi_id x = ci_install i then ?c x else x)) t = t"
      by (intro map_idI) (simp only: comp_def)
    with won show ?thesis by (simp add: releaseApplyClaim_def update_where_def t2)
  qed
  have del_one: "delete_where (owned_by (ci_install i) (ci_operation i)) t' = delete_where (\<lambda>x. pi_id x = ci_install i) t"
    unfolding t2 by (induction t) (auto simp: own dest: other)
  have "fail_apply (?c r) \<in> set (update_where (owned_by (ci_install i) (ci_operation i)) fail_apply t')"
  proof (rule update_where_hit)
    show "?c r \<in> set t'" unfolding t' by (rule update_where_hit) (rule assms(2) cl)+
    show "owned_by (ci_install i) (ci_operation i) (?c r)" using own assms(3) by simp
  qed
  moreover have "claimable_install (ci_install i) e (fail_apply (?c r))" "revision_of (fail_apply (?c r)) = e"
    using cl by (simp_all add: claimable_install_def fail_apply_def)
  ultimately have "\<exists>x \<in> set (update_where (owned_by (ci_install i) (ci_operation i)) fail_apply t').
      ci_expected i = Some (revision_of x) \<and> claimable_install (ci_install i) (revision_of x) x"
    using e by (intro bexI [of _ "fail_apply (?c r)"]) simp_all
  with up del_one won show ?thesis unfolding releaseApplyClaim_def by simp
qed

subsection \<open>Concrete installs\<close>

definition demo_install :: install_row where
  "demo_install = \<lparr>pi_id = ''i'', pi_marketplace = ''m'', pi_plugin = ''p'', pi_scope = SystemScope, pi_user = None,
     pi_manifest = Some \<lparr>mf_revision = Some 3, mf_apply = None, mf_rest = JNull\<rparr>\<rparr>"

definition demo_claim :: "ident \<Rightarrow> claim_input" where
  "demo_claim op = \<lparr>ci_install = ''i'', ci_operation = op, ci_expected = Some 3, ci_target = ''sha'',
     ci_kind = Upgrade, ci_review = None\<rparr>"

definition demo_claimed :: "install_row list" where
  "demo_claimed = [set_apply (Some (new_apply 0 (demo_claim ''o1''))) demo_install]"

definition demo_published :: manifest where
  "demo_published = \<lparr>mf_revision = Some 4, mf_apply = None, mf_rest = JNull\<rparr>"

lemmas demo_apply_defs = demo_install_def demo_claim_def demo_claimed_def demo_published_def

lemma demo_apply_claimed: "claimApply 0 (demo_claim ''o1'') [demo_install] = (demo_claimed, True)"
  by (simp add: demo_apply_defs claimApply_def claimable_install_def revision_of_def apply_of_def)

lemma demo_claimed_ok: "installs_ok [demo_install]" "installs_ok demo_claimed"
  by (simp_all add: installs_ok_def demo_claimed_def)

lemma demo_reaped: "reconcileStaleApplies 90000 demo_claimed =
    ([fail_apply (hd demo_claimed)], [\<lparr>sa_install = ''i'', sa_operation = ''o1'', sa_kind = Upgrade, sa_plugin = ''p'', sa_review = None\<rparr>])"
  by (simp add: reconcileStaleApplies_def demo_apply_defs stale_claim_def new_apply_def apply_lease_def
      APPLY_LEASE_SECONDS_def REAP_MARGIN_SECONDS_def List.map_filter_simps stale_report_def set_apply_def apply_of_def)

theorem lost_operation_never_acts_witness:
  "finalizeApply 90001 ''i'' ''o1'' demo_published [fail_apply (hd demo_claimed)] = ([fail_apply (hd demo_claimed)], False)"
proof -
  have "installs_ok [fail_apply (hd demo_claimed)]" by (simp add: installs_ok_def)
  moreover have "timed_run (apply_step {''o1''}) (90000, [fail_apply (hd demo_claimed)]) (90001, [fail_apply (hd demo_claimed)])"
    by (rule timed_run_wait) simp
  ultimately show ?thesis
    using lost_operation_never_acts [of "{''o1''}" 90000 "[fail_apply (hd demo_claimed)]" 90001 "[fail_apply (hd demo_claimed)]" "''o1''"]
    by simp
qed

theorem publishes_over_reviewed_revision_witness:
  "\<exists>r \<in> set demo_claimed. ci_expected (demo_claim ''o1'') = Some (revision_of r)"
proof -
  have fin: "finalizeApply 5 ''i'' ''o1'' demo_published demo_claimed = ([demo_install\<lparr>pi_manifest := Some demo_published\<rparr>], True)"
    by (simp add: finalizeApply_def finalizable_apply_def owned_by_def demo_claimed_def new_apply_def apply_lease_def
        APPLY_LEASE_SECONDS_def demo_claim_def) (simp add: demo_apply_defs set_apply_def)
  have run: "timed_run (apply_step {ci_operation (demo_claim ''o1'')}) (0, demo_claimed) (5, demo_claimed)"
    by (rule timed_run_wait) simp
  have "ci_install (demo_claim ''o1'') = ''i''" "ci_operation (demo_claim ''o1'') = ''o1''" by (simp_all add: demo_claim_def)
  with publishes_over_reviewed_revision [OF demo_claimed_ok(1) demo_apply_claimed run] fin show ?thesis by auto
qed

theorem stale_applies_are_reaped_witness:
  "snd (claimApply 90002 (demo_claim ''o2'') [fail_apply (hd demo_claimed)])"
proof -
  have "stale_claim 90000 (hd demo_claimed)" "ci_install (demo_claim ''o2'') = pi_id (hd demo_claimed)"
    "ci_expected (demo_claim ''o2'') = Some (revision_of (hd demo_claimed))"
    by (simp_all add: stale_claim_def demo_apply_defs new_apply_def apply_lease_def APPLY_LEASE_SECONDS_def
        REAP_MARGIN_SECONDS_def) (simp add: revision_of_def)
  moreover have "hd demo_claimed \<in> set demo_claimed" by (simp add: demo_claimed_def)
  ultimately show ?thesis
    using stale_applies_are_reaped [OF demo_reaped demo_claimed_ok(2), of "demo_claim ''o2''" 90002] by blast
qed

theorem release_undoes_claim_witness:
  "releaseApplyClaim ''i'' ''o1'' Upgrade demo_claimed = ([demo_install], True)"
proof -
  have "demo_install \<in> set [demo_install]" "pi_id demo_install = ci_install (demo_claim ''o1'')"
    "pi_manifest demo_install \<noteq> None" "apply_of demo_install = None"
    "ci_install (demo_claim ''o1'') = ''i''" "ci_operation (demo_claim ''o1'') = ''o1''"
    by (simp_all add: demo_apply_defs apply_of_def)
  with release_undoes_claim [OF demo_claimed_ok(1) this(1,2) demo_apply_claimed] show ?thesis by simp
qed

end
