(* ===== verification/Js_Text.thy ===== *)
theory Js_Text
  imports Capka_Prelude "HOL-Library.AList"
begin

section \<open>Strings as the program uses them\<close>

text \<open>
  What JavaScript's string methods do, for strings of code units below 256: \<open>split\<close> on one
  character, \<open>join\<close>, \<open>startsWith\<close>/\<open>endsWith\<close>, decimal numbers, \<open>padStart\<close>, and \<open>new Set(xs)\<close>,
  which keeps the first occurrence of each element in order.
\<close>

fun split_on :: "char \<Rightarrow> string \<Rightarrow> string list" where
  "split_on c [] = [[]]"
| "split_on c (x # xs) =
     (if x = c then [] # split_on c xs
      else case split_on c xs of [] \<Rightarrow> [[x]] | w # ws \<Rightarrow> (x # w) # ws)"

fun join_with :: "string \<Rightarrow> string list \<Rightarrow> string" where
  "join_with sep [] = []"
| "join_with sep [w] = w"
| "join_with sep (w # v # ws) = w @ sep @ join_with sep (v # ws)"

definition starts_with :: "string \<Rightarrow> string \<Rightarrow> bool" where
  "starts_with p s \<longleftrightarrow> take (length p) s = p"

definition ends_with :: "string \<Rightarrow> string \<Rightarrow> bool" where
  "ends_with p s \<longleftrightarrow> starts_with (rev p) (rev s)"

definition js_set :: "'a list \<Rightarrow> 'a list" where
  "js_set xs = rev (remdups (rev xs))"

fun decimal :: "nat \<Rightarrow> string" where
  "decimal n = (if n < 10 then [char_of (48 + n)] else decimal (n div 10) @ [char_of (48 + n mod 10)])"

declare decimal.simps [simp del]

definition pad_start :: "nat \<Rightarrow> char \<Rightarrow> string \<Rightarrow> string" where
  "pad_start n c s = replicate (n - length s) c @ s"

definition lower :: "string \<Rightarrow> string" where
  "lower s = map (\<lambda>c. let n = of_char c :: nat in
     if (65 \<le> n \<and> n \<le> 90) \<or> (192 \<le> n \<and> n \<le> 222 \<and> n \<noteq> 215) then char_of (n + 32) else c) s"

definition upper :: "string \<Rightarrow> string" where
  "upper s = map (\<lambda>c. let n = of_char c :: nat in
     if (97 \<le> n \<and> n \<le> 122) \<or> (224 \<le> n \<and> n \<le> 254 \<and> n \<noteq> 247) then char_of (n - 32) else c) s"

lemma split_on_not_Nil [simp]: "split_on c xs \<noteq> []"
  by (induction xs) (auto split: list.split)

lemma split_on_append: "split_on c (xs @ c # ys) = split_on c xs @ split_on c ys"
  by (induction xs) (auto split: list.split)

lemma join_with_Cons: "ws \<noteq> [] \<Longrightarrow> join_with sep (w # ws) = w @ sep @ join_with sep ws"
  by (cases ws) auto

lemma join_with_append:
  "us \<noteq> [] \<Longrightarrow> ws \<noteq> [] \<Longrightarrow> join_with sep (us @ ws) = join_with sep us @ sep @ join_with sep ws"
proof (induction us)
  case (Cons u us)
  then show ?case by (cases "us = []") (auto simp: join_with_Cons)
qed simp

lemma join_split [simp]: "join_with [c] (split_on c xs) = xs"
proof (induction xs)
  case (Cons x xs)
  obtain w ws where s: "split_on c xs = w # ws" by (cases "split_on c xs") auto
  then show ?case using Cons by (cases ws) auto
qed simp

lemma starts_with_append [simp]: "starts_with p (p @ s)"
  by (simp add: starts_with_def)

lemma starts_with_iff: "starts_with p s \<longleftrightarrow> (\<exists>t. s = p @ t)"
proof
  assume "starts_with p s"
  then have "s = p @ drop (length p) s" unfolding starts_with_def by (metis append_take_drop_id)
  then show "\<exists>t. s = p @ t" ..
qed auto

lemma set_js_set [simp]: "set (js_set xs) = set xs"
  by (simp add: js_set_def)

lemma distinct_js_set [simp]: "distinct (js_set xs)"
  by (simp add: js_set_def)

lemma length_decimal_mono: "m \<le> n \<Longrightarrow> length (decimal m) \<le> length (decimal n)"
proof (induction n arbitrary: m rule: decimal.induct)
  case (1 n)
  show ?case
  proof (cases "m < 10")
    case True
    then show ?thesis by (simp add: decimal.simps [of m] decimal.simps [of n])
  next
    case False
    with 1 have "length (decimal (m div 10)) \<le> length (decimal (n div 10))"
      by (intro "1.IH") (auto intro: div_le_mono)
    with False "1.prems" show ?thesis by (simp add: decimal.simps [of m] decimal.simps [of n])
  qed
qed

lemma decimal_range: "c \<in> set (decimal n) \<Longrightarrow> 48 \<le> (of_char c :: nat) \<and> (of_char c :: nat) \<le> 57"
proof (induction n rule: decimal.induct)
  case (1 n)
  have digit: "48 \<le> (of_char (char_of (48 + m) :: char) :: nat) \<and> (of_char (char_of (48 + m) :: char) :: nat) \<le> 57" if "m < 10" for m :: nat
    using that by (simp add: of_char_of)
  show ?case
  proof (cases "n < 10")
    case True
    then show ?thesis using "1.prems" digit [of n] by (simp add: decimal.simps [of n])
  next
    case False
    with "1.prems" have "c = char_of (48 + n mod 10) \<or> c \<in> set (decimal (n div 10))" by (simp add: decimal.simps [of n])
    then show ?thesis using False "1.IH" digit [of "n mod 10"] by auto
  qed
qed

lemma decimal_not_Nil [simp]: "decimal n \<noteq> []"
  by (simp add: decimal.simps [of n])

lemma decimal_no_char: "(of_char c :: nat) < 48 \<or> 57 < (of_char c :: nat) \<Longrightarrow> c \<notin> set (decimal n)"
  by (auto dest: decimal_range)

lemma digit_char_inj: "(char_of (48 + m) :: char) = char_of (48 + n) \<Longrightarrow> m < 10 \<Longrightarrow> n < 10 \<Longrightarrow> m = (n :: nat)"
proof -
  assume eq: "(char_of (48 + m) :: char) = char_of (48 + n)" and "m < 10" "n < 10"
  from eq have "(of_char (char_of (48 + m) :: char) :: nat) = of_char (char_of (48 + n) :: char)" by simp
  with \<open>m < 10\<close> \<open>n < 10\<close> show ?thesis by (simp add: of_char_of)
qed

lemma decimal_inj: "decimal m = decimal n \<Longrightarrow> m = n"
proof (induction n arbitrary: m rule: decimal.induct)
  case (1 n)
  have short: "length (decimal k) = 1 \<longleftrightarrow> k < 10" for k by (simp add: decimal.simps [of k])
  from "1.prems" short [of m] short [of n] have "m < 10 \<longleftrightarrow> n < 10" by simp
  then show ?case
  proof (cases "n < 10")
    case True
    with \<open>m < 10 \<longleftrightarrow> n < 10\<close> "1.prems" show ?thesis
      using digit_char_inj [of m n] by (simp add: decimal.simps [of m] decimal.simps [of n])
  next
    case False
    with \<open>m < 10 \<longleftrightarrow> n < 10\<close> "1.prems" have "decimal (m div 10) = decimal (n div 10)"
      and "(char_of (48 + m mod 10) :: char) = char_of (48 + n mod 10)"
      by (simp_all add: decimal.simps [of m] decimal.simps [of n])
    with "1.IH" [OF False] digit_char_inj [of "m mod 10" "n mod 10"]
    have "m div 10 = n div 10" "m mod 10 = n mod 10" by simp_all
    then show ?thesis by (metis div_mult_mod_eq)
  qed
qed

subsection \<open>\<open>new Map(xs.map((x) => [key(x), x]))\<close>\<close>

text \<open>A later element replaces the value of its key and keeps the key's place.\<close>

definition js_map :: "('a \<Rightarrow> 'k) \<Rightarrow> 'a list \<Rightarrow> ('k \<times> 'a) list" where
  "js_map key xs = fold (\<lambda>x. AList.update (key x) x) xs []"

lemma map_of_js_map_from:
  "map_of (fold (\<lambda>x. AList.update (key x) x) xs m) k =
     (case find (\<lambda>x. key x = k) (rev xs) of Some x \<Rightarrow> Some x | None \<Rightarrow> map_of m k)"
proof (induction xs arbitrary: m)
  case (Cons x xs)
  have later: "find P (ys @ zs) = (case find P ys of Some y \<Rightarrow> Some y | None \<Rightarrow> find P zs)" for P and ys zs :: "'a list"
    by (induction ys) auto
  show ?case by (simp add: Cons later update_conv split: option.split)
qed simp

text \<open>A lookup answers the last element with the key.\<close>

lemma map_of_js_map: "map_of (js_map key xs) k = find (\<lambda>x. key x = k) (rev xs)"
  by (simp add: js_map_def map_of_js_map_from split: option.split)

lemma distinct_js_map [simp]: "distinct (map fst (js_map key xs))"
proof -
  have "distinct (map fst m) \<Longrightarrow> distinct (map fst (fold (\<lambda>x. AList.update (key x) x) xs m))" for m
    by (induction xs arbitrary: m) (simp_all add: distinct_update)
  then show ?thesis by (simp add: js_map_def)
qed

lemma js_map_entry: "(k, x) \<in> set (js_map key xs) \<longleftrightarrow> find (\<lambda>x. key x = k) (rev xs) = Some x"
  using map_of_eq_Some_iff [OF distinct_js_map [of key xs]] map_of_js_map [of key xs k] by metis

lemma find_hit: "find P xs = Some x \<Longrightarrow> x \<in> set xs \<and> P x"
  by (induction xs) (auto split: if_splits)

lemma js_map_key: "(k, x) \<in> set (js_map key xs) \<Longrightarrow> key x = k \<and> x \<in> set xs"
  unfolding js_map_entry using find_hit [of "\<lambda>x. key x = k" "rev xs" x] by simp

end
