(* ===== verification/Folder_Sync.thy ===== *)
theory Folder_Sync
  imports Js_Text "HOL-Library.AList"
begin

section \<open>Keeping a folder of the computer and the workspace alike (src/lib/folder-bridge)\<close>

text \<open>
  \<open>plan.ts\<close> (the three-way planner for files and directories), \<open>filter.ts\<close> (what is never synced),
  the pure half of \<open>local-fs.ts\<close> (the hash prefilter and the two walks) and \<open>runSync\<close> of
  \<open>bridge.ts\<close>. A JavaScript record is an association list with distinct keys; a folder tree is the
  list of its files by full path and the list of its directories, and the walk of a tree visits an
  entry iff none of the paths on the way to it is ignored. The SHA-256 of a file is the parameter
  \<open>sha\<close>, the locale's collation the parameter \<open>collate\<close>. The files of the computer and of the
  workspace are plain bytes with a modification time; a mutation of either side is one operation
  of \<open>sync_op\<close>.
\<close>

type_synonym path = string
type_synonym bytes = string

subsection \<open>Manifests and the planner (plan.ts)\<close>

record entry =
  en_mtime :: int
  en_size :: nat
  en_hash :: "string option"

type_synonym file_manifest = "(path \<times> entry) list"

datatype side = OnLocal | OnRemote

record conflict_copy =
  cc_path :: path
  cc_keep :: path
  cc_source :: side

record sync_plan =
  sp_upload :: "path list"
  sp_download :: "path list"
  sp_delete_remote :: "path list"
  sp_delete_local :: "path list"
  sp_conflicts :: "(path \<times> side) list"
  sp_copies :: "conflict_copy list"

text \<open>The fields of a \<open>Date\<close> in the browser's time zone; \<open>da_month\<close> counts from 0.\<close>

record date =
  da_year :: nat
  da_month :: nat
  da_day :: nat
  da_hours :: nat
  da_minutes :: nat
  da_seconds :: nat

definition two_digits :: "nat \<Rightarrow> string" where
  "two_digits n = pad_start 2 CHR ''0'' (decimal n)"

definition stamp_of :: "date \<Rightarrow> string" where
  "stamp_of d = decimal (da_year d) @ ''-'' @ two_digits (da_month d + 1) @ ''-'' @ two_digits (da_day d) @ ''-'' @
     two_digits (da_hours d) @ two_digits (da_minutes d) @ two_digits (da_seconds d)"

definition conflictName :: "path \<Rightarrow> date \<Rightarrow> nat \<Rightarrow> path" where
  "conflictName path at_date nth_try =
     (let dir = rev (dropWhile (\<lambda>c. c \<noteq> CHR ''/'') (rev path));
          base = rev (takeWhile (\<lambda>c. c \<noteq> CHR ''/'') (rev path));
          upto_dot = rev (dropWhile (\<lambda>c. c \<noteq> CHR ''.'') (rev base));
          has_ext = 1 < length upto_dot;
          stem = (if has_ext then butlast upto_dot else base);
          ext = (if has_ext then CHR ''.'' # rev (takeWhile (\<lambda>c. c \<noteq> CHR ''.'') (rev base)) else [])
      in dir @ stem @ ''.conflict-'' @ stamp_of at_date @ (if 1 < nth_try then ''-'' @ decimal nth_try else []) @ ext)"

definition sameContent :: "entry \<Rightarrow> entry \<Rightarrow> bool" where
  "sameContent a b =
     (case (en_hash a, en_hash b) of (Some x, Some y) \<Rightarrow> x = y | _ \<Rightarrow> en_size a = en_size b)"

definition changed :: "entry \<Rightarrow> entry option \<Rightarrow> bool" where
  "changed e base = (case base of None \<Rightarrow> True | Some b \<Rightarrow> \<not> sameContent e b)"

definition plan_path ::
  "file_manifest \<Rightarrow> file_manifest \<Rightarrow> file_manifest \<Rightarrow> path list \<Rightarrow> date \<Rightarrow> path \<Rightarrow> sync_plan \<Rightarrow> sync_plan" where
  "plan_path local remote base excluded stamped path plan =
     (if path \<in> set excluded then plan
      else case (map_of local path, map_of remote path) of
        (Some l, Some r) \<Rightarrow>
          if sameContent l r then plan
          else if changed l (map_of base path) \<and> changed r (map_of base path) then
            let winner = (if en_mtime r \<le> en_mtime l then OnLocal else OnRemote) in
            plan\<lparr>sp_conflicts := sp_conflicts plan @ [(path, winner)],
                 sp_copies := sp_copies plan @ [\<lparr>cc_path = path, cc_keep = conflictName path stamped 1,
                   cc_source = (if winner = OnLocal then OnRemote else OnLocal)\<rparr>]\<rparr>
          else if changed l (map_of base path) then plan\<lparr>sp_upload := sp_upload plan @ [path]\<rparr>
          else plan\<lparr>sp_download := sp_download plan @ [path]\<rparr>
      | (Some l, None) \<Rightarrow>
          if map_of base path \<noteq> None then plan\<lparr>sp_delete_local := sp_delete_local plan @ [path]\<rparr>
          else plan\<lparr>sp_upload := sp_upload plan @ [path]\<rparr>
      | (None, Some r) \<Rightarrow>
          if map_of base path \<noteq> None then plan\<lparr>sp_delete_remote := sp_delete_remote plan @ [path]\<rparr>
          else plan\<lparr>sp_download := sp_download plan @ [path]\<rparr>
      | (None, None) \<Rightarrow> plan)"

definition empty_plan :: sync_plan where
  "empty_plan = \<lparr>sp_upload = [], sp_download = [], sp_delete_remote = [], sp_delete_local = [], sp_conflicts = [], sp_copies = []\<rparr>"

definition planSync ::
  "(path \<Rightarrow> nat list) \<Rightarrow> file_manifest \<Rightarrow> file_manifest \<Rightarrow> file_manifest option \<Rightarrow> path list \<Rightarrow> date \<Rightarrow> sync_plan" where
  "planSync collate local remote base excluded now =
     (let b = (case base of None \<Rightarrow> [] | Some m \<Rightarrow> m);
          paths = js_set (map fst local @ map fst remote @ map fst b);
          plan = fold (plan_path local remote b excluded now) paths empty_plan
      in plan\<lparr>sp_upload := sort (sp_upload plan), sp_download := sort (sp_download plan),
              sp_delete_remote := sort (sp_delete_remote plan), sp_delete_local := sort (sp_delete_local plan),
              sp_conflicts := sort_key (\<lambda>c. collate (fst c)) (sp_conflicts plan),
              sp_copies := sort_key (\<lambda>c. collate (cc_path c)) (sp_copies plan)\<rparr>)"

record dir_plan =
  dp_create_local :: "path list"
  dp_delete_remote :: "path list"
  dp_delete_local :: "path list"

text \<open>Every directory on the way to a file: \<open>a\<close> and \<open>a/b\<close> for \<open>a/b/c\<close>.\<close>

definition ancestor_dirs :: "path \<Rightarrow> path list" where
  "ancestor_dirs p = (let parts = split_on CHR ''/'' p in map (\<lambda>i. join_with ''/'' (take i parts)) [1..<length parts])"

definition plan_dir :: "path list \<Rightarrow> path list \<Rightarrow> path list \<Rightarrow> path list \<Rightarrow> path \<Rightarrow> dir_plan \<Rightarrow> dir_plan" where
  "plan_dir L R B keep d plan =
     (let l = d \<in> set L; r = d \<in> set R; b = d \<in> set B in
      if d \<in> set keep then
        (if r \<and> \<not> l \<and> \<not> b then plan\<lparr>dp_create_local := dp_create_local plan @ [d]\<rparr> else plan)
      else if r \<and> \<not> l then
        (if b then plan\<lparr>dp_delete_remote := dp_delete_remote plan @ [d]\<rparr>
         else plan\<lparr>dp_create_local := dp_create_local plan @ [d]\<rparr>)
      else if l \<and> \<not> r \<and> b then plan\<lparr>dp_delete_local := dp_delete_local plan @ [d]\<rparr>
      else plan)"

definition planDirs :: "path list \<Rightarrow> path list \<Rightarrow> path list option \<Rightarrow> path list \<Rightarrow> dir_plan" where
  "planDirs local remote base keep_paths =
     (let b = (case base of None \<Rightarrow> [] | Some ds \<Rightarrow> ds);
          keep = concat (map ancestor_dirs keep_paths);
          plan = fold (plan_dir local remote b keep) (js_set (local @ remote @ b))
            \<lparr>dp_create_local = [], dp_delete_remote = [], dp_delete_local = []\<rparr>
      in plan\<lparr>dp_create_local := sort (dp_create_local plan), dp_delete_remote := sort (dp_delete_remote plan),
              dp_delete_local := sort (dp_delete_local plan)\<rparr>)"

subsection \<open>What is never synced (filter.ts)\<close>

definition IGNORE_SEGMENTS :: "string list" where
  "IGNORE_SEGMENTS =
    [''node_modules'', ''bower_components'', ''jspm_packages'', ''.git'', ''.hg'', ''.svn'', ''.bzr'', ''_darcs'',
     ''.venv'', ''venv'', ''__pycache__'', ''.mypy_cache'', ''.pytest_cache'', ''.tox'', ''.eggs'',
     ''.ipynb_checkpoints'', ''.dart_tool'', ''.pub-cache'',
     ''.next'', ''.nuxt'', ''.svelte-kit'', ''.angular'', ''.expo'', ''.output'', ''.vercel'',
     ''.netlify'', ''.turbo'', ''.parcel-cache'', ''.nyc_output'', ''.cache'', ''dist'', ''build'',
     ''target'', ''.gradle'', ''.settings'', ''.idea'', ''.vscode'', ''.terraform'', ''.serverless'',
     ''.DS_Store'', ''.AppleDouble'', ''.Spotlight-V100'', ''.Trashes'', ''.fseventsd'',
     ''.TemporaryItems'', ''.Trash'', ''__MACOSX'', ''$RECYCLE.BIN'', ''System Volume Information'']"

definition IGNORE_EXT :: "string list" where
  "IGNORE_EXT =
    [''.safetensors'', ''.gguf'', ''.ggml'', ''.pt'', ''.pth'', ''.onnx'', ''.ckpt'', ''.tflite'', ''.mlmodel'',
     ''.caffemodel'', ''.iso'', ''.dmg'', ''.img'', ''.vmdk'', ''.qcow2'', ''.vdi'', ''.vhd'', ''.vhdx'', ''.ova'']"

definition FOLDER_MAX_FILE_MB :: nat where "FOLDER_MAX_FILE_MB = 100"
definition FOLDER_MAX_FILES :: nat where "FOLDER_MAX_FILES = 5000"
definition FOLDER_MAX_TOTAL_MB :: nat where "FOLDER_MAX_TOTAL_MB = 100"

definition exceedsCeiling :: "nat \<Rightarrow> nat \<Rightarrow> bool" where
  "exceedsCeiling count bytes \<longleftrightarrow> FOLDER_MAX_FILES < count \<or> FOLDER_MAX_TOTAL_MB * 1024 * 1024 < bytes"

definition ignoredPath :: "path \<Rightarrow> bool" where
  "ignoredPath path =
     (let segs = filter (\<lambda>s. s \<noteq> []) (split_on CHR ''/'' path);
          base = (if segs = [] then [] else last segs);
          low = lower base
      in if starts_with ''._'' base \<or> starts_with ''~$'' base \<or> starts_with ''.~lock.'' base \<or> ends_with ''~'' base \<or>
            low = ''thumbs.db'' \<or> low = ''ehthumbs.db'' \<or> low = ''desktop.ini'' \<or> low = ''.localized'' \<or>
            ends_with ''.swp'' low \<or> ends_with ''.swo'' low \<or> ends_with ''.tmp'' low \<or> ends_with ''.temp'' low
         then True
         else if list_ex (\<lambda>s. s \<in> set IGNORE_SEGMENTS) segs then True
         else list_ex (\<lambda>ext. ends_with ext low) IGNORE_EXT)"

definition oversized :: "nat \<Rightarrow> bool" where
  "oversized size_bytes \<longleftrightarrow> FOLDER_MAX_FILE_MB * 1024 * 1024 < size_bytes"

subsection \<open>The two trees (local-fs.ts, and the workspace's listing)\<close>

record stored_file =
  f_bytes :: bytes
  f_mtime :: int

record tree =
  tr_files :: "(path \<times> stored_file) list"
  tr_dirs :: "path list"

record local_stat =
  ls_mtime :: int
  ls_size :: nat

definition stat_of :: "stored_file \<Rightarrow> local_stat" where
  "stat_of f = \<lparr>ls_mtime = f_mtime f, ls_size = length (f_bytes f)\<rparr>"

text \<open>The walk descends into a directory only when its path is not ignored.\<close>

definition walked :: "path \<Rightarrow> bool" where
  "walked p \<longleftrightarrow> list_all (\<lambda>q. \<not> ignoredPath q) (ancestor_dirs p @ [p])"

definition walkLocal :: "tree \<Rightarrow> (path \<times> local_stat) list \<times> nat \<times> path list" where
  "walkLocal t =
     (let seen = filter (\<lambda>(p, f). walked p) (tr_files t);
          excluded = map fst (filter (\<lambda>(p, f). oversized (length (f_bytes f))) seen)
      in (map (\<lambda>(p, f). (p, stat_of f)) (filter (\<lambda>(p, f). \<not> oversized (length (f_bytes f))) seen), length excluded, excluded))"

definition walkLocalDirs :: "tree \<Rightarrow> path list" where
  "walkLocalDirs t = filter walked (tr_dirs t)"

definition hashCandidates :: "(path \<times> local_stat) list \<Rightarrow> file_manifest \<Rightarrow> path list" where
  "hashCandidates current prev =
     sort (map fst (filter (\<lambda>(p, s).
       case map_of prev p of None \<Rightarrow> True | Some e \<Rightarrow> en_mtime e \<noteq> ls_mtime s \<or> en_size e \<noteq> ls_size s) current))"

definition mergeHashed :: "(path \<times> local_stat) list \<Rightarrow> file_manifest \<Rightarrow> (path \<times> string) list \<Rightarrow> file_manifest" where
  "mergeHashed current prev fresh =
     List.map_filter (\<lambda>(p, s).
       case (case map_of fresh p of Some h \<Rightarrow> Some h | None \<Rightarrow> Option.bind (map_of prev p) en_hash) of
         None \<Rightarrow> None
       | Some h \<Rightarrow> Some (p, \<lparr>en_mtime = ls_mtime s, en_size = ls_size s, en_hash = Some h\<rparr>)) current"

definition localHashed :: "(bytes \<Rightarrow> string) \<Rightarrow> file_manifest \<Rightarrow> tree \<Rightarrow> file_manifest \<times> nat \<times> path list" where
  "localHashed sha prev t =
     (case walkLocal t of (stats, skipped, excluded) \<Rightarrow>
        let fresh = map (\<lambda>p. (p, case map_of (tr_files t) p of Some f \<Rightarrow> sha (f_bytes f) | None \<Rightarrow> []))
              (hashCandidates stats prev)
        in (mergeHashed stats prev fresh, skipped, excluded))"

definition localFileExists :: "tree \<Rightarrow> path \<Rightarrow> bool" where
  "localFileExists t p \<longleftrightarrow> map_of (tr_files t) p \<noteq> None"

definition under :: "path \<Rightarrow> path \<Rightarrow> bool" where
  "under d p \<longleftrightarrow> starts_with (d @ ''/'') p"

text \<open>Writing a file creates the directories on the way to it.\<close>

definition put_file :: "path \<Rightarrow> bytes \<Rightarrow> int \<Rightarrow> tree \<Rightarrow> tree" where
  "put_file p b now t =
     t\<lparr>tr_files := AList.update p \<lparr>f_bytes = b, f_mtime = now\<rparr> (tr_files t),
       tr_dirs := tr_dirs t @ filter (\<lambda>d. d \<notin> set (tr_dirs t)) (ancestor_dirs p)\<rparr>"

definition deleteLocalFile :: "path \<Rightarrow> tree \<Rightarrow> tree" where
  "deleteLocalFile p t = t\<lparr>tr_files := AList.delete p (tr_files t)\<rparr>"

text \<open>The recursive removals: a directory with everything below it.\<close>

definition remove_path :: "path \<Rightarrow> tree \<Rightarrow> tree" where
  "remove_path p t =
     t\<lparr>tr_files := filter (\<lambda>(q, f). q \<noteq> p \<and> \<not> under p q) (tr_files t),
       tr_dirs := filter (\<lambda>q. q \<noteq> p \<and> \<not> under p q) (tr_dirs t)\<rparr>"

definition ensureLocalDir :: "path \<Rightarrow> tree \<Rightarrow> tree" where
  "ensureLocalDir d t = t\<lparr>tr_dirs := tr_dirs t @ filter (\<lambda>q. q \<notin> set (tr_dirs t)) (ancestor_dirs d @ [d])\<rparr>"

subsection \<open>The workspace's listing (serverTree of bridge.ts)\<close>

record listed =
  li_path :: path
  li_directory :: bool
  li_size :: nat
  li_modified :: "int option"
  li_hash :: "string option"

record listing =
  re_ok :: bool
  re_entries :: "listed list"
  re_truncated :: bool
  re_missing :: bool

record server_view =
  sv_files :: file_manifest
  sv_dirs :: "path list"
  sv_excluded :: "path list"
  sv_missing :: bool

datatype sync_error = CouldNotRead | ListedInPart | LeaseGone | NoFreeName | Unreadable | StateNotRecorded

definition relative_path :: "string \<Rightarrow> listed \<Rightarrow> path" where
  "relative_path name e =
     (if starts_with (name @ ''/'') (li_path e) then drop (length name + 1) (li_path e) else li_path e)"

definition serverTree :: "string \<Rightarrow> listing \<Rightarrow> sync_error + server_view" where
  "serverTree name reply =
     (if \<not> re_ok reply then Inl CouldNotRead
      else if re_truncated reply then Inl ListedInPart
      else let seen = filter (\<lambda>(rel, e). \<not> ignoredPath rel) (map (\<lambda>e. (relative_path name e, e)) (re_entries reply));
               files = filter (\<lambda>(rel, e). \<not> li_directory e) seen
           in Inr \<lparr>sv_files = map (\<lambda>(rel, e). (rel, \<lparr>en_mtime = (case li_modified e of Some t \<Rightarrow> t | None \<Rightarrow> 0),
                       en_size = li_size e, en_hash = li_hash e\<rparr>)) (filter (\<lambda>(rel, e). \<not> oversized (li_size e)) files),
                   sv_dirs = map fst (filter (\<lambda>(rel, e). li_directory e) seen),
                   sv_excluded = map fst (filter (\<lambda>(rel, e). oversized (li_size e)) files),
                   sv_missing = re_missing reply\<rparr>)"

text \<open>The listing a workspace answers with when it is read in full: every file with its size,
  modification time and content hash, every directory, with paths below the folder's name.\<close>

definition full_listing :: "(bytes \<Rightarrow> string) \<Rightarrow> string \<Rightarrow> tree \<Rightarrow> listing" where
  "full_listing sha name t =
     \<lparr>re_ok = True,
      re_entries = map (\<lambda>(p, f). \<lparr>li_path = name @ ''/'' @ p, li_directory = False, li_size = length (f_bytes f),
          li_modified = Some (f_mtime f), li_hash = Some (sha (f_bytes f))\<rparr>) (tr_files t) @
        map (\<lambda>d. \<lparr>li_path = name @ ''/'' @ d, li_directory = True, li_size = 0, li_modified = None, li_hash = None\<rparr>) (tr_dirs t),
      re_truncated = False, re_missing = (tr_files t = [] \<and> tr_dirs t = [])\<rparr>"

subsection \<open>One sync (runSync of bridge.ts)\<close>

record ancestor =
  an_rev :: nat
  an_files :: file_manifest
  an_dirs :: "path list"

record world =
  w_local :: tree
  w_remote :: tree
  w_state :: ancestor \<comment> \<open>the stored merge ancestor; revision 0 and no files when there is none\<close>

text \<open>The stored row is swapped only at the revision the writer read, and only for the holder of
  the folder's lease who gets an answer (\<open>granted\<close>).\<close>

definition putState :: "bool \<Rightarrow> nat \<Rightarrow> ancestor \<Rightarrow> world \<Rightarrow> world \<times> bool" where
  "putState granted expected new w =
     (if granted \<and> an_rev (w_state w) = expected then (w\<lparr>w_state := new\<rparr>, True) else (w, False))"

text \<open>\<open>readable\<close> is whether the row could be read at all.\<close>

definition loadState :: "bool \<Rightarrow> world \<Rightarrow> ancestor option" where
  "loadState readable w = (if readable then Some (w_state w) else None)"

definition loadAncestor :: "bool \<Rightarrow> bool \<Rightarrow> bool \<Rightarrow> world \<Rightarrow> world \<times> (sync_error + ancestor)" where
  "loadAncestor readable missing granted w =
     (let stored = loadState readable w;
          base = (case stored of Some s \<Rightarrow> s | None \<Rightarrow> \<lparr>an_rev = 0, an_files = [], an_dirs = []\<rparr>) in
      if \<not> missing \<or> (case stored of Some s \<Rightarrow> an_files s = [] \<and> an_dirs s = [] | None \<Rightarrow> False) then (w, Inr base)
      else let empty = \<lparr>an_rev = an_rev base + 1, an_files = [], an_dirs = []\<rparr> in
        case putState granted (an_rev base) empty w of
          (w', True) \<Rightarrow> (w', Inr empty)
        | (w', False) \<Rightarrow> (w', Inl StateNotRecorded))"

definition NAME_TRIES :: nat where "NAME_TRIES = 100"

definition resolveConflictName :: "path \<Rightarrow> date \<Rightarrow> (path \<Rightarrow> bool) \<Rightarrow> path option" where
  "resolveConflictName path at_date taken =
     find (\<lambda>name. \<not> taken name) (map (conflictName path at_date) [1..<Suc NAME_TRIES])"

text \<open>The names the losing versions are kept under, in order, and whether every one was found.\<close>

fun keep_names :: "tree \<Rightarrow> date \<Rightarrow> path list \<Rightarrow> conflict_copy list \<Rightarrow> (conflict_copy \<times> path) list \<times> bool" where
  "keep_names disk at_date claimed [] = ([], True)"
| "keep_names disk at_date claimed (c # cs) =
     (case resolveConflictName (cc_path c) at_date (\<lambda>n. n \<in> set claimed \<or> localFileExists disk n) of
        None \<Rightarrow> ([], False)
      | Some keep \<Rightarrow> (case keep_names disk at_date (keep # claimed) cs of (ks, found) \<Rightarrow> ((c, keep) # ks, found)))"

datatype sync_op =
    KeepCopy path path side
  | UploadFile path
  | DownloadFile path
  | DeleteRemoteFile path
  | DeleteLocalFile path
  | DeleteRemoteDir path
  | DeleteLocalDir path
  | CreateLocalDir path

text \<open>\<open>None\<close>: the file to read is gone, so the operation throws.\<close>

fun apply_op :: "time \<Rightarrow> sync_op \<Rightarrow> world \<Rightarrow> world option" where
  "apply_op now (KeepCopy p keep source) w =
     map_option (\<lambda>f. w\<lparr>w_local := put_file keep (f_bytes f) now (w_local w)\<rparr>)
       (map_of (tr_files (if source = OnLocal then w_local w else w_remote w)) p)"
| "apply_op now (UploadFile p) w =
     map_option (\<lambda>f. w\<lparr>w_remote := put_file p (f_bytes f) now (w_remote w)\<rparr>) (map_of (tr_files (w_local w)) p)"
| "apply_op now (DownloadFile p) w =
     map_option (\<lambda>f. w\<lparr>w_local := put_file p (f_bytes f) now (w_local w)\<rparr>) (map_of (tr_files (w_remote w)) p)"
| "apply_op now (DeleteRemoteFile p) w = Some (w\<lparr>w_remote := remove_path p (w_remote w)\<rparr>)"
| "apply_op now (DeleteLocalFile p) w = Some (w\<lparr>w_local := deleteLocalFile p (w_local w)\<rparr>)"
| "apply_op now (DeleteRemoteDir d) w = Some (w\<lparr>w_remote := remove_path d (w_remote w)\<rparr>)"
| "apply_op now (DeleteLocalDir d) w = Some (w\<lparr>w_local := remove_path d (w_local w)\<rparr>)"
| "apply_op now (CreateLocalDir d) w = Some (w\<lparr>w_local := ensureLocalDir d (w_local w)\<rparr>)"

text \<open>Every mutation but the creation of an empty local directory asks for the lease first. It
  outlasts \<open>held\<close> more of them; the result is how many it would still outlast.\<close>

fun guarded_op :: "sync_op \<Rightarrow> bool" where
  "guarded_op (CreateLocalDir d) = False"
| "guarded_op _ = True"

fun run_ops :: "time \<Rightarrow> nat \<Rightarrow> sync_op list \<Rightarrow> world \<Rightarrow> world \<times> (sync_error + nat)" where
  "run_ops now held [] w = (w, Inr held)"
| "run_ops now held (x # xs) w =
     (if guarded_op x \<and> held = 0 then (w, Inl LeaseGone)
      else case apply_op now x w of
        None \<Rightarrow> (w, Inl Unreadable)
      | Some w' \<Rightarrow> run_ops now (if guarded_op x then held - 1 else held) xs w')"

definition wins :: "side \<Rightarrow> sync_plan \<Rightarrow> path list" where
  "wins s plan = map fst (filter (\<lambda>(p, winner). winner = s) (sp_conflicts plan))"

definition dir_keep_paths :: "sync_plan \<Rightarrow> path list" where
  "dir_keep_paths plan =
     sp_upload plan @ sp_download plan @ wins OnLocal plan @ wins OnRemote plan @ map cc_keep (sp_copies plan)"

definition keep_ops :: "(conflict_copy \<times> path) list \<Rightarrow> sync_op list" where
  "keep_ops kept = map (\<lambda>(c, keep). KeepCopy (cc_path c) keep (cc_source c)) kept"

definition file_ops :: "sync_plan \<Rightarrow> path list \<Rightarrow> sync_op list" where
  "file_ops plan kept =
     map UploadFile (sp_upload plan @ wins OnLocal plan @ kept) @
     map DownloadFile (sp_download plan @ wins OnRemote plan) @
     map DeleteRemoteFile (sp_delete_remote plan) @ map DeleteLocalFile (sp_delete_local plan)"

definition dir_ops :: "dir_plan \<Rightarrow> sync_op list" where
  "dir_ops dirs =
     map DeleteRemoteDir (dp_delete_remote dirs) @ map DeleteLocalDir (dp_delete_local dirs) @
     map CreateLocalDir (dp_create_local dirs)"

record outcome =
  so_synced :: nat
  so_conflicts :: nat
  so_skipped :: nat

text \<open>What the environment decides during one run: whether the state row can be read, whether the
  two writes of it are granted, how many mutations the lease outlasts, the clock, and what the person
  does to the folder while the files move (\<open>env_edit\<close>), which the second walk then finds.\<close>

record environment =
  env_readable :: bool
  env_reset :: bool
  env_record :: bool
  env_held :: nat
  env_now :: time
  env_date :: date
  env_edit :: "tree \<Rightarrow> tree"

text \<open>The operations of one run, from the two views of the folder and the ancestor; \<open>False\<close> when a
  losing version found no free name, and then the run ends after the copies made so far.\<close>

definition sync_ops ::
  "(path \<Rightarrow> nat list) \<Rightarrow> date \<Rightarrow> tree \<Rightarrow> file_manifest \<Rightarrow> path list \<Rightarrow> server_view \<Rightarrow> path list \<Rightarrow> ancestor \<Rightarrow>
   sync_plan \<times> sync_op list \<times> bool" where
  "sync_ops collate at_date disk local local_dirs sv local_excluded anc =
     (let plan = planSync collate local (sv_files sv) (Some (an_files anc)) (local_excluded @ sv_excluded sv) at_date;
          dirs = planDirs local_dirs (sv_dirs sv) (Some (an_dirs anc)) (dir_keep_paths plan);
          claimed = map fst local @ map fst (sv_files sv) @ map fst (an_files anc) @ local_dirs @ sv_dirs sv
      in case keep_names disk at_date claimed (sp_copies plan) of
           (kept, found) \<Rightarrow>
             (plan, keep_ops kept @ (if found then file_ops plan (map snd kept) @ dir_ops dirs else []), found))"

definition next_ancestor :: "(bytes \<Rightarrow> string) \<Rightarrow> file_manifest \<Rightarrow> nat \<Rightarrow> world \<Rightarrow> ancestor" where
  "next_ancestor sha cache revision w =
     \<lparr>an_rev = revision + 1, an_files = fst (localHashed sha cache (w_local w)), an_dirs = walkLocalDirs (w_local w)\<rparr>"

definition runSync ::
  "(bytes \<Rightarrow> string) \<Rightarrow> (path \<Rightarrow> nat list) \<Rightarrow> environment \<Rightarrow> string \<Rightarrow> file_manifest \<Rightarrow> listing \<Rightarrow> world \<Rightarrow>
   world \<times> (sync_error + outcome)" where
  "runSync sha collate env name cache reply w =
     (case localHashed sha cache (w_local w) of (local, skipped, excluded) \<Rightarrow>
      case serverTree name reply of
        Inl e \<Rightarrow> (w, Inl e)
      | Inr sv \<Rightarrow>
          case loadAncestor (env_readable env) (sv_missing sv) (env_reset env) w of
            (w0, Inl e) \<Rightarrow> (w0, Inl e)
          | (w0, Inr anc) \<Rightarrow>
              case sync_ops collate (env_date env) (w_local w) local (walkLocalDirs (w_local w)) sv excluded anc of
                (plan, ops, found) \<Rightarrow>
                  case run_ops (env_now env) (env_held env) ops w0 of
                    (w1, Inl e) \<Rightarrow> (w1, Inl e)
                  | (w1, Inr left) \<Rightarrow>
                      if \<not> found then (w1, Inl NoFreeName)
                      else if left = 0 then (w1, Inl LeaseGone)
                      else let edited = w1\<lparr>w_local := env_edit env (w_local w1)\<rparr> in
                        case putState (env_record env) (an_rev anc) (next_ancestor sha local (an_rev anc) edited) edited of
                        (w2, False) \<Rightarrow> (w2, Inl StateNotRecorded)
                      | (w2, True) \<Rightarrow> (w2, Inr \<lparr>so_synced = length (sp_upload plan) + length (sp_download plan) +
                            length (sp_delete_remote plan) + length (sp_delete_local plan),
                          so_conflicts = length (sp_conflicts plan), so_skipped = skipped\<rparr>))"

end
