(* ===== verification/Folder_Theorems.thy ===== *)
theory Folder_Theorems
  imports Folder_Sync
begin

section \<open>What a folder sync keeps\<close>

text \<open>
  The planner implements a per-path three-way merge; a sync, cut short anywhere, destroys no
  version that somebody changed, except where the other side deleted the file; a sync that
  finishes leaves both sides alike. Three runs show where the program loses data.
\<close>

subsection \<open>The merge the planner implements\<close>

datatype verdict = Leave | Up | Down | DropRemote | DropLocal | Clash side

definition decide :: "entry option \<Rightarrow> entry option \<Rightarrow> entry option \<Rightarrow> verdict" where
  "decide l r b =
     (case (l, r) of
        (Some x, Some y) \<Rightarrow>
          if sameContent x y then Leave
          else if changed x b then (if changed y b then Clash (if en_mtime y \<le> en_mtime x then OnLocal else OnRemote) else Up)
          else Down
      | (Some x, None) \<Rightarrow> if b = None then Up else DropLocal
      | (None, Some y) \<Rightarrow> if b = None then Down else DropRemote
      | (None, None) \<Rightarrow> Leave)"

definition verdict_at :: "file_manifest \<Rightarrow> file_manifest \<Rightarrow> file_manifest \<Rightarrow> path list \<Rightarrow> path \<Rightarrow> verdict" where
  "verdict_at local remote base excluded p =
     (if p \<in> set excluded then Leave else decide (map_of local p) (map_of remote p) (map_of base p))"

definition other_side :: "side \<Rightarrow> side" where
  "other_side s = (if s = OnLocal then OnRemote else OnLocal)"

lemma other_side_simps [simp]: "other_side OnLocal = OnRemote" "other_side OnRemote = OnLocal"
  by (simp_all add: other_side_def)

definition copy_for :: "date \<Rightarrow> path \<times> side \<Rightarrow> conflict_copy" where
  "copy_for d c = \<lparr>cc_path = fst c, cc_keep = conflictName (fst c) d 1, cc_source = other_side (snd c)\<rparr>"

definition clash_of :: "verdict \<Rightarrow> side option" where
  "clash_of v = (case v of Clash s \<Rightarrow> Some s | _ \<Rightarrow> None)"

definition clashes :: "(path \<Rightarrow> verdict) \<Rightarrow> path list \<Rightarrow> (path \<times> side) list" where
  "clashes v ps = List.map_filter (\<lambda>p. map_option (Pair p) (clash_of (v p))) ps"

lemma plan_path_fields:
  fixes local remote base excluded d p plan
  defines "v \<equiv> verdict_at local remote base excluded"
  shows
    "sp_upload (plan_path local remote base excluded d p plan) = sp_upload plan @ (if v p = Up then [p] else [])"
    "sp_download (plan_path local remote base excluded d p plan) = sp_download plan @ (if v p = Down then [p] else [])"
    "sp_delete_remote (plan_path local remote base excluded d p plan) = sp_delete_remote plan @ (if v p = DropRemote then [p] else [])"
    "sp_delete_local (plan_path local remote base excluded d p plan) = sp_delete_local plan @ (if v p = DropLocal then [p] else [])"
    "sp_conflicts (plan_path local remote base excluded d p plan) = sp_conflicts plan @ clashes v [p]"
    "sp_copies (plan_path local remote base excluded d p plan) = sp_copies plan @ map (copy_for d) (clashes v [p])"
  unfolding v_def plan_path_def verdict_at_def decide_def Let_def
  by (auto simp: clashes_def clash_of_def copy_for_def List.map_filter_simps other_side_def split: option.splits)

lemma plan_fold_fields:
  fixes local remote base excluded d plan
  defines "v \<equiv> verdict_at local remote base excluded"
  shows
    "sp_upload (fold (plan_path local remote base excluded d) ps plan) = sp_upload plan @ filter (\<lambda>p. v p = Up) ps"
    "sp_download (fold (plan_path local remote base excluded d) ps plan) = sp_download plan @ filter (\<lambda>p. v p = Down) ps"
    "sp_delete_remote (fold (plan_path local remote base excluded d) ps plan) = sp_delete_remote plan @ filter (\<lambda>p. v p = DropRemote) ps"
    "sp_delete_local (fold (plan_path local remote base excluded d) ps plan) = sp_delete_local plan @ filter (\<lambda>p. v p = DropLocal) ps"
    "sp_conflicts (fold (plan_path local remote base excluded d) ps plan) = sp_conflicts plan @ clashes v ps"
    "sp_copies (fold (plan_path local remote base excluded d) ps plan) = sp_copies plan @ map (copy_for d) (clashes v ps)"
  unfolding v_def
  by (induction ps arbitrary: plan)
    (simp_all add: plan_path_fields clashes_def List.map_filter_simps split: option.split)

lemma set_clashes: "(p, s) \<in> set (clashes v ps) \<longleftrightarrow> p \<in> set ps \<and> v p = Clash s"
  by (auto simp: clashes_def clash_of_def split: verdict.splits option.splits)

lemma decide_Leave_None: "decide None None b = Leave"
  by (simp add: decide_def)

lemma map_of_SomeI_key: "map_of m p = Some e \<Longrightarrow> p \<in> fst ` set m"
  by (metis image_eqI fst_conv map_of_SomeD)

lemma verdict_known:
  "verdict_at local remote base excluded p \<noteq> Leave \<Longrightarrow>
   p \<in> fst ` set local \<union> fst ` set remote"
  unfolding verdict_at_def decide_def
  by (auto split: if_splits option.splits intro: map_of_SomeI_key)

lemma set_planSync:
  fixes collate local remote base excluded d
  defines "v \<equiv> verdict_at local remote (case base of None \<Rightarrow> [] | Some m \<Rightarrow> m) excluded"
    and "plan \<equiv> planSync collate local remote base excluded d"
  shows "set (sp_upload plan) = {p. v p = Up}" "set (sp_download plan) = {p. v p = Down}"
    "set (sp_delete_remote plan) = {p. v p = DropRemote}" "set (sp_delete_local plan) = {p. v p = DropLocal}"
    "set (sp_conflicts plan) = {(p, s). v p = Clash s}"
    "set (sp_copies plan) = copy_for d ` {(p, s). v p = Clash s}"
proof -
  let ?ps = "js_set (map fst local @ map fst remote @ map fst (case base of None \<Rightarrow> [] | Some m \<Rightarrow> m))"
  have known: "v p \<noteq> Leave \<Longrightarrow> p \<in> set ?ps" for p
    unfolding v_def using verdict_known [of local remote _ excluded p] by auto
  note fields = plan_fold_fields [of local remote "case base of None \<Rightarrow> [] | Some m \<Rightarrow> m" excluded d, folded v_def]
  have cl: "set (clashes v ?ps) = {(p, s). v p = Clash s}"
    using known by (auto simp: set_clashes)
  have filt: "w \<noteq> Leave \<Longrightarrow> {p \<in> set ?ps. v p = w} = {p. v p = w}" for w using known by blast
  show "set (sp_upload plan) = {p. v p = Up}" "set (sp_download plan) = {p. v p = Down}"
    "set (sp_delete_remote plan) = {p. v p = DropRemote}" "set (sp_delete_local plan) = {p. v p = DropLocal}"
    unfolding plan_def planSync_def Let_def by (simp_all add: fields empty_plan_def filt del: set_js_set)
  show "set (sp_conflicts plan) = {(p, s). v p = Clash s}"
    unfolding plan_def planSync_def Let_def by (simp add: fields empty_plan_def cl)
  show "set (sp_copies plan) = copy_for d ` {(p, s). v p = Clash s}"
    unfolding plan_def planSync_def Let_def by (simp add: fields empty_plan_def cl)
qed

subsection \<open>What the two sides see\<close>

definition seen_local :: "tree \<Rightarrow> path \<Rightarrow> bool" where
  "seen_local t p \<longleftrightarrow> walked p \<and> (\<exists>f. map_of (tr_files t) p = Some f \<and> \<not> oversized (length (f_bytes f)))"

definition seen_remote :: "tree \<Rightarrow> path \<Rightarrow> bool" where
  "seen_remote t p \<longleftrightarrow> \<not> ignoredPath p \<and> (\<exists>f. map_of (tr_files t) p = Some f \<and> \<not> oversized (length (f_bytes f)))"

definition entry_of :: "(bytes \<Rightarrow> string) \<Rightarrow> stored_file \<Rightarrow> entry" where
  "entry_of sha f = \<lparr>en_mtime = f_mtime f, en_size = length (f_bytes f), en_hash = Some (sha (f_bytes f))\<rparr>"

text \<open>The cached hash of a file whose modification time and size did not move is the hash of its bytes.\<close>

definition cache_truthful :: "(bytes \<Rightarrow> string) \<Rightarrow> file_manifest \<Rightarrow> tree \<Rightarrow> bool" where
  "cache_truthful sha cache t \<longleftrightarrow>
     (\<forall>p e f. map_of cache p = Some e \<longrightarrow> map_of (tr_files t) p = Some f \<longrightarrow>
        en_mtime e = f_mtime f \<longrightarrow> en_size e = length (f_bytes f) \<longrightarrow> en_hash e = Some (sha (f_bytes f)))"

lemma map_of_filter_key:
  "distinct (map fst xs) \<Longrightarrow> map_of (filter P xs) k = (case map_of xs k of Some v \<Rightarrow> if P (k, v) then Some v else None | None \<Rightarrow> None)"
  by (induction xs) (auto simp: image_iff dest: map_of_SomeD split: option.splits)

lemma map_of_map_value: "map_of (map (\<lambda>(k, v). (k, g v)) xs) k = map_option g (map_of xs k)"
  by (induction xs) auto

lemma map_of_map_filter_value:
  "distinct (map fst xs) \<Longrightarrow>
   map_of (List.map_filter (\<lambda>(k, v). case g k v of None \<Rightarrow> None | Some w \<Rightarrow> Some (k, h k v w)) xs) k =
     (case map_of xs k of None \<Rightarrow> None | Some v \<Rightarrow> map_option (h k v) (g k v))"
proof (induction xs)
  case (Cons x xs)
  obtain a b where x: "x = (a, b)" by (cases x)
  have "map_of xs a = None" using Cons.prems by (simp add: x map_of_eq_None_iff)
  with Cons show ?case by (auto simp: x List.map_filter_simps split: option.splits)
qed (simp add: List.map_filter_simps)

lemma map_of_fresh:
  "map_of (map (\<lambda>p. (p, g p)) ps) p = (if p \<in> set ps then Some (g p) else None)"
  by (induction ps) auto

lemma local_entry:
  assumes "distinct (map fst (tr_files t))" and "cache_truthful sha cache t"
  shows "map_of (fst (localHashed sha cache t)) p =
    (if seen_local t p then map_option (entry_of sha) (map_of (tr_files t) p) else None)"
proof -
  let ?stats = "fst (walkLocal t)"
  have stats: "map_of ?stats q = (if seen_local t q then map_option stat_of (map_of (tr_files t) q) else None)" for q
  proof -
    have "?stats = map (\<lambda>(p, f). (p, stat_of f)) (filter (\<lambda>(p, f). walked p \<and> \<not> oversized (length (f_bytes f))) (tr_files t))"
      unfolding walkLocal_def Let_def by (simp add: split_def)
    then show ?thesis
      by (cases "map_of (tr_files t) q") (simp_all add: map_of_map_value map_of_filter_key assms(1) seen_local_def)
  qed
  have dist: "distinct (map fst ?stats)"
    unfolding walkLocal_def Let_def by (simp add: comp_def case_prod_beta distinct_map_filter assms(1))
  have cand: "q \<in> set (hashCandidates ?stats cache) \<longleftrightarrow>
      (\<exists>s. map_of ?stats q = Some s \<and> (case map_of cache q of None \<Rightarrow> True | Some e \<Rightarrow> en_mtime e \<noteq> ls_mtime s \<or> en_size e \<noteq> ls_size s))" for q
  proof -
    have "q \<in> set (hashCandidates ?stats cache) \<longleftrightarrow>
      (\<exists>s. (q, s) \<in> set ?stats \<and> (case map_of cache q of None \<Rightarrow> True | Some e \<Rightarrow> en_mtime e \<noteq> ls_mtime s \<or> en_size e \<noteq> ls_size s))"
      unfolding hashCandidates_def by force
    then show ?thesis using map_of_eq_Some_iff [OF dist] by simp
  qed
  obtain skipped excluded where walk: "walkLocal t = (?stats, skipped, excluded)" by (metis prod.collapse)
  have merged: "fst (localHashed sha cache t) = mergeHashed ?stats cache
      (map (\<lambda>p. (p, case map_of (tr_files t) p of Some f \<Rightarrow> sha (f_bytes f) | None \<Rightarrow> [])) (hashCandidates ?stats cache))"
    unfolding localHashed_def by (subst walk) (simp add: Let_def)
  show ?thesis
    unfolding merged mergeHashed_def map_of_map_filter_value [OF dist] map_of_fresh cand
    using assms(2) unfolding cache_truthful_def stats
    by (auto simp: stat_of_def entry_of_def split: option.splits)
qed

lemma local_excluded:
  "p \<in> set (snd (snd (localHashed sha cache t))) \<Longrightarrow> walked p \<and> p \<in> fst ` set (tr_files t)"
  unfolding localHashed_def walkLocal_def Let_def by auto

lemma local_excluded_not_seen:
  "distinct (map fst (tr_files t)) \<Longrightarrow> p \<in> set (snd (snd (localHashed sha cache t))) \<Longrightarrow> \<not> seen_local t p"
  unfolding localHashed_def walkLocal_def Let_def seen_local_def using eq_key_imp_eq_value by fastforce

definition view_of :: "(bytes \<Rightarrow> string) \<Rightarrow> string \<Rightarrow> tree \<Rightarrow> server_view" where
  "view_of sha name t = projr (serverTree name (full_listing sha name t))"

lemma relative_path_below: "li_path e = name @ CHR ''/'' # p \<Longrightarrow> relative_path name e = p"
  by (simp add: relative_path_def starts_with_def)

lemma view_files:
  assumes "distinct (map fst (tr_files t))"
  shows "serverTree name (full_listing sha name t) = Inr (view_of sha name t)"
    and "map_of (sv_files (view_of sha name t)) p =
      (if seen_remote t p then map_option (entry_of sha) (map_of (tr_files t) p) else None)"
    and "set (sv_dirs (view_of sha name t)) = {d \<in> set (tr_dirs t). \<not> ignoredPath d}"
    and "p \<in> set (sv_excluded (view_of sha name t)) \<longleftrightarrow>
      (\<exists>f. map_of (tr_files t) p = Some f \<and> \<not> ignoredPath p \<and> oversized (length (f_bytes f)))"
    and "sv_missing (view_of sha name t) \<longleftrightarrow> tr_files t = [] \<and> tr_dirs t = []"
proof -
  show inr: "serverTree name (full_listing sha name t) = Inr (view_of sha name t)"
    by (simp add: view_of_def serverTree_def full_listing_def Let_def)
  have files: "sv_files (view_of sha name t) =
      map (\<lambda>(p, f). (p, entry_of sha f)) (filter (\<lambda>(p, f). \<not> ignoredPath p \<and> \<not> oversized (length (f_bytes f))) (tr_files t))"
    unfolding view_of_def serverTree_def full_listing_def Let_def
    by (simp add: filter_map comp_def relative_path_def starts_with_def split_def entry_of_def)
  show "map_of (sv_files (view_of sha name t)) p =
      (if seen_remote t p then map_option (entry_of sha) (map_of (tr_files t) p) else None)"
    unfolding files map_of_map_value map_of_filter_key [OF assms] by (auto simp: seen_remote_def split: option.splits)
  show "set (sv_dirs (view_of sha name t)) = {d \<in> set (tr_dirs t). \<not> ignoredPath d}"
    unfolding view_of_def serverTree_def full_listing_def Let_def
    by (force simp: relative_path_def starts_with_def case_prod_beta image_iff)
  show "p \<in> set (sv_excluded (view_of sha name t)) \<longleftrightarrow>
      (\<exists>f. map_of (tr_files t) p = Some f \<and> \<not> ignoredPath p \<and> oversized (length (f_bytes f)))"
    unfolding view_of_def serverTree_def full_listing_def Let_def
    using map_of_eq_Some_iff [OF assms] by (force simp: relative_path_def starts_with_def case_prod_beta)
  show "sv_missing (view_of sha name t) \<longleftrightarrow> tr_files t = [] \<and> tr_dirs t = []"
    by (simp add: view_of_def serverTree_def full_listing_def Let_def)
qed

subsection \<open>What an operation touches\<close>

definition tree_of :: "side \<Rightarrow> world \<Rightarrow> tree" where
  "tree_of s w = (if s = OnLocal then w_local w else w_remote w)"

definition bytes_at :: "side \<Rightarrow> world \<Rightarrow> path \<Rightarrow> bytes option" where
  "bytes_at s w p = map_option f_bytes (map_of (tr_files (tree_of s w)) p)"

fun hits :: "sync_op \<Rightarrow> side \<Rightarrow> path \<Rightarrow> bool" where
  "hits (KeepCopy p keep source) s q = (s = OnLocal \<and> q = keep)"
| "hits (UploadFile p) s q = (s = OnRemote \<and> q = p)"
| "hits (DownloadFile p) s q = (s = OnLocal \<and> q = p)"
| "hits (DeleteRemoteFile p) s q = (s = OnRemote \<and> (q = p \<or> under p q))"
| "hits (DeleteLocalFile p) s q = (s = OnLocal \<and> q = p)"
| "hits (DeleteRemoteDir d) s q = (s = OnRemote \<and> (q = d \<or> under d q))"
| "hits (DeleteLocalDir d) s q = (s = OnLocal \<and> (q = d \<or> under d q))"
| "hits (CreateLocalDir d) s q = False"

lemma tree_of_simps [simp]:
  "tree_of OnLocal w = w_local w" "tree_of OnRemote w = w_remote w"
  by (simp_all add: tree_of_def)

lemma map_of_AList_update [simp]: "map_of (AList.update k v xs) q = (if q = k then Some v else map_of xs q)"
  by (simp add: update_conv)

lemma map_of_AList_delete [simp]: "map_of (AList.delete k xs) q = (if q = k then None else map_of xs q)"
  by (simp add: delete_conv)

lemma map_of_remaining: "map_of (filter (\<lambda>(q, f). P q) xs) q = (if P q then map_of xs q else None)"
  by (induction xs) auto

lemma apply_op_frame:
  assumes "apply_op now x w = Some w'" and "\<not> hits x s q"
  shows "bytes_at s w' q = bytes_at s w q"
  using assms
  by (cases x; cases s)
    (auto simp: bytes_at_def put_file_def remove_path_def deleteLocalFile_def ensureLocalDir_def map_of_remaining)

lemma run_frame:
  "\<forall>x \<in> set xs. \<not> hits x s q \<Longrightarrow> bytes_at s (fst (run_ops now n xs w)) q = bytes_at s w q"
proof (induction xs arbitrary: n w)
  case (Cons x xs)
  then show ?case using apply_op_frame [of now x w _ s q] by (auto split: option.splits)
qed simp

lemma run_ops_append:
  "run_ops now n (xs @ ys) w =
     (case run_ops now n xs w of (w', Inl e) \<Rightarrow> (w', Inl e) | (w', Inr m) \<Rightarrow> run_ops now m ys w')"
  by (induction xs arbitrary: n w) (auto split: option.splits)

subsection \<open>The names of the kept copies\<close>

lemma keep_names_spec:
  assumes "keep_names disk d claimed cs = (kept, found)"
  shows "distinct (map snd kept) \<and> (\<forall>(c, k) \<in> set kept. c \<in> set cs \<and> k \<notin> set claimed \<and> \<not> localFileExists disk k \<and>
      (\<exists>n. k = conflictName (cc_path c) d n)) \<and> (found \<longrightarrow> map fst kept = cs)"
  using assms
proof (induction cs arbitrary: claimed kept found)
  case (Cons c cs)
  show ?case
  proof (cases "resolveConflictName (cc_path c) d (\<lambda>n. n \<in> set claimed \<or> localFileExists disk n)")
    case (Some k)
    obtain ks f where rest: "keep_names disk d (k # claimed) cs = (ks, f)" by (metis prod.exhaust)
    have free: "k \<notin> set claimed \<and> \<not> localFileExists disk k \<and> (\<exists>n. k = conflictName (cc_path c) d n)"
      using Some by (auto simp: resolveConflictName_def find_Some_iff)
    have kept: "kept = (c, k) # ks" "found = f" using Cons.prems Some rest by auto
    from Cons.IH [OF rest] free show ?thesis unfolding kept by fastforce
  qed (use Cons.prems in auto)
qed auto

lemma no_slash_decimal: "CHR ''/'' \<notin> set (decimal n)"
  by (rule decimal_no_char) simp

lemma no_slash_stamp: "CHR ''/'' \<notin> set (stamp_of d)"
  by (auto simp: stamp_of_def two_digits_def pad_start_def dest: no_slash_decimal [THEN notE])

lemma conflictName_shape:
  "\<exists>rest. CHR ''/'' \<notin> set rest \<and>
     conflictName p d n = rev (dropWhile (\<lambda>c. c \<noteq> CHR ''/'') (rev p)) @ rest"
proof -
  let ?base = "rev (takeWhile (\<lambda>c. c \<noteq> CHR ''/'') (rev p))"
  have base: "CHR ''/'' \<notin> set ?base" by (auto dest: set_takeWhileD)
  have dot: "CHR ''/'' \<notin> set (rev (dropWhile Q (rev ?base)))" "CHR ''/'' \<notin> set (butlast (rev (dropWhile Q (rev ?base))))"
    "CHR ''/'' \<notin> set (rev (takeWhile Q (rev ?base)))" for Q
    using base by (auto dest!: set_dropWhileD set_takeWhileD) (metis list.sel(2) list.set_sel(2) set_dropWhileD)
  show ?thesis
    unfolding conflictName_def Let_def
    by (rule exI, rule conjI [rotated], rule refl) (insert base dot no_slash_stamp no_slash_decimal, auto)
qed

lemma under_iff: "under d p \<longleftrightarrow> (\<exists>t. p = d @ CHR ''/'' # t)"
  by (simp add: under_def starts_with_iff)

lemma under_conflictName: "under d (conflictName p e n) \<Longrightarrow> under d p"
proof -
  let ?dir = "rev (dropWhile (\<lambda>c. c \<noteq> CHR ''/'') (rev p))"
  assume "under d (conflictName p e n)"
  then obtain t rest where rest: "CHR ''/'' \<notin> set rest" and eq: "?dir @ rest = d @ CHR ''/'' # t"
    using conflictName_shape [of p e n] by (auto simp: under_iff)
  have p: "p = ?dir @ rev (takeWhile (\<lambda>c. c \<noteq> CHR ''/'') (rev p))"
    by (metis rev_append rev_rev_ident takeWhile_dropWhile_id)
  from eq have "(\<exists>us. ?dir = d @ CHR ''/'' # us)"
    using rest by (auto simp: append_eq_append_conv2 append_eq_Cons_conv Cons_eq_append_conv)
  then show ?thesis using p by (metis append.assoc append_Cons under_iff)
qed

lemma under_ancestor:
  assumes "under d p" shows "d \<in> set (ancestor_dirs p)"
proof -
  obtain t where t: "p = d @ CHR ''/'' # t" using assms by (auto simp: under_iff)
  let ?i = "length (split_on CHR ''/'' d)"
  have parts: "split_on CHR ''/'' p = split_on CHR ''/'' d @ split_on CHR ''/'' t" by (simp add: t split_on_append)
  have "?i \<in> set [1..<length (split_on CHR ''/'' p)]" by (simp add: parts Suc_le_eq)
  moreover have "join_with ''/'' (take ?i (split_on CHR ''/'' p)) = d" by (simp add: parts)
  ultimately show ?thesis unfolding ancestor_dirs_def Let_def by (force simp: image_iff)
qed

lemma ancestor_under:
  assumes "d \<in> set (ancestor_dirs p)" shows "under d p"
proof -
  obtain i where i: "1 \<le> i" "i < length (split_on CHR ''/'' p)" and d: "d = join_with ''/'' (take i (split_on CHR ''/'' p))"
    using assms unfolding ancestor_dirs_def Let_def by auto
  have "p = join_with ''/'' (take i (split_on CHR ''/'' p) @ drop i (split_on CHR ''/'' p))" by simp
  also have "\<dots> = d @ ''/'' @ join_with ''/'' (drop i (split_on CHR ''/'' p))"
    unfolding d using i by (subst join_with_append) auto
  finally show ?thesis by (auto simp: under_iff)
qed

lemma under_trans: "under a b \<Longrightarrow> under b c \<Longrightarrow> under a c"
  by (auto simp: under_iff)

lemma walked_dir: "walked p \<Longrightarrow> under d p \<Longrightarrow> walked d \<and> \<not> ignoredPath d"
  unfolding walked_def list_all_iff
  by (auto dest: ancestor_under intro: under_ancestor under_trans)

subsection \<open>Keeping the losing versions, and everything after\<close>

lemma keep_ops_simps [simp]:
  "keep_ops [] = []" "keep_ops ((c, k) # ks) = KeepCopy (cc_path c) k (cc_source c) # keep_ops ks"
  by (simp_all add: keep_ops_def)

lemma keep_phase:
  assumes "run_ops now n (keep_ops kept) w = (w', r)"
    and "distinct (map snd kept)" and "\<forall>(c, k) \<in> set kept. \<forall>(c', k') \<in> set kept. cc_path c \<noteq> k'"
  shows "(\<forall>s q. s = OnRemote \<or> q \<notin> snd ` set kept \<longrightarrow> bytes_at s w' q = bytes_at s w q) \<and>
    (\<forall>m. r = Inr m \<longrightarrow> (\<forall>(c, k) \<in> set kept. bytes_at OnLocal w' k = bytes_at (cc_source c) w (cc_path c)))"
  using assms
proof (induction kept arbitrary: n w)
  case (Cons ck kept)
  obtain c k where ck: "ck = (c, k)" by (cases ck)
  show ?case
  proof (cases "n = 0 \<or> apply_op now (KeepCopy (cc_path c) k (cc_source c)) w = None")
    case True
    with Cons.prems show ?thesis by (auto simp: ck split: if_splits option.splits)
  next
    case False
    then obtain w1 where w1: "apply_op now (KeepCopy (cc_path c) k (cc_source c)) w = Some w1" and n: "n \<noteq> 0" by blast
    have run: "run_ops now (n - 1) (keep_ops kept) w1 = (w', r)" using Cons.prems(1) n w1 by (auto simp: ck)
    have frame: "bytes_at s w1 q = bytes_at s w q" if "s = OnRemote \<or> q \<noteq> k" for s q
      using apply_op_frame [OF w1, of s q] that by (cases s) auto
    have written: "bytes_at OnLocal w1 k = bytes_at (cc_source c) w (cc_path c)"
      using w1 by (cases "cc_source c") (auto simp: bytes_at_def put_file_def)
    have IH: "(\<forall>s q. s = OnRemote \<or> q \<notin> snd ` set kept \<longrightarrow> bytes_at s w' q = bytes_at s w1 q) \<and>
        (\<forall>m. r = Inr m \<longrightarrow> (\<forall>(c, k) \<in> set kept. bytes_at OnLocal w' k = bytes_at (cc_source c) w1 (cc_path c)))"
      by (rule Cons.IH [OF run]) (use Cons.prems(2,3) in \<open>auto simp: ck\<close>)
    have k_new: "k \<notin> snd ` set kept" using Cons.prems(2) by (simp add: ck)
    have src: "bytes_at (cc_source c') w1 (cc_path c') = bytes_at (cc_source c') w (cc_path c')" if "(c', k') \<in> set kept" for c' k'
      using that Cons.prems(3) by (intro frame) (auto simp: ck)
    show ?thesis
    proof (intro conjI allI impI)
      fix s q
      assume "s = OnRemote \<or> q \<notin> snd ` set (ck # kept)"
      then have "bytes_at s w' q = bytes_at s w1 q" and "bytes_at s w1 q = bytes_at s w q"
        using IH by (auto simp: ck intro!: frame)
      then show "bytes_at s w' q = bytes_at s w q" by simp
    next
      fix m
      assume r: "r = Inr m"
      have "bytes_at OnLocal w' k = bytes_at (cc_source c) w (cc_path c)"
        using IH k_new written by auto
      moreover have "\<forall>(c', k') \<in> set kept. bytes_at OnLocal w' k' = bytes_at (cc_source c') w (cc_path c')"
        using IH r src by fastforce
      ultimately show "\<forall>(c', k') \<in> set (ck # kept). bytes_at OnLocal w' k' = bytes_at (cc_source c') w (cc_path c')"
        by (auto simp: ck)
    qed
  qed
qed auto

text \<open>A version survives a run that nothing in its later operations touches, or whose copy was kept
  before and is touched by none of them.\<close>

lemma version_survives:
  assumes run: "run_ops now n (keep_ops kept @ later) w = (w', r)"
    and names: "distinct (map snd kept)" "\<forall>(c, k) \<in> set kept. \<forall>(c', k') \<in> set kept. cc_path c \<noteq> k'"
    and here: "bytes_at s w p = Some b" and not_name: "p \<notin> snd ` set kept"
    and safe: "(\<forall>x \<in> set later. \<not> hits x s p) \<or>
      (\<exists>(c, k) \<in> set kept. cc_path c = p \<and> cc_source c = s \<and> (\<forall>x \<in> set later. \<not> hits x OnLocal k))"
  shows "bytes_at s w' p = Some b \<or> (\<exists>(c, k) \<in> set kept. cc_path c = p \<and> bytes_at OnLocal w' k = Some b)"
proof -
  obtain w1 r1 where first: "run_ops now n (keep_ops kept) w = (w1, r1)" by (metis prod.exhaust)
  note phase = keep_phase [OF first names]
  have still: "bytes_at s w1 p = Some b" using phase here not_name by auto
  show ?thesis
  proof (cases r1)
    case (Inl e)
    with run first still show ?thesis by (simp add: run_ops_append)
  next
    case (Inr m)
    then have second: "w' = fst (run_ops now m later w1)" using run first by (simp add: run_ops_append)
    from safe show ?thesis
    proof
      assume "\<forall>x \<in> set later. \<not> hits x s p"
      from run_frame [OF this, of now m w1] still show ?thesis by (simp add: second)
    next
      assume "\<exists>(c, k) \<in> set kept. cc_path c = p \<and> cc_source c = s \<and> (\<forall>x \<in> set later. \<not> hits x OnLocal k)"
      then obtain c k where ck: "(c, k) \<in> set kept" "cc_path c = p" "cc_source c = s"
        and untouched: "\<forall>x \<in> set later. \<not> hits x OnLocal k" by auto
      have "bytes_at OnLocal w1 k = Some b" using phase Inr ck here by auto
      with run_frame [OF untouched, of now m w1] have "bytes_at OnLocal w' k = Some b" by (simp add: second)
      with ck show ?thesis by auto
    qed
  qed
qed

lemma planDirs_delete:
  "set (dp_delete_remote (planDirs L R (Some B) keep)) =
     {d. d \<in> set R \<and> d \<notin> set L \<and> d \<in> set B \<and> (\<forall>p \<in> set keep. d \<notin> set (ancestor_dirs p))}"
  "set (dp_delete_local (planDirs L R (Some B) keep)) =
     {d. d \<in> set L \<and> d \<notin> set R \<and> d \<in> set B \<and> (\<forall>p \<in> set keep. d \<notin> set (ancestor_dirs p))}"
proof -
  let ?K = "concat (map ancestor_dirs keep)"
  have fields: "dp_delete_remote (fold (plan_dir L R B ?K) ds plan) =
      dp_delete_remote plan @ filter (\<lambda>d. d \<in> set R \<and> d \<notin> set L \<and> d \<in> set B \<and> d \<notin> set ?K) ds \<and>
    dp_delete_local (fold (plan_dir L R B ?K) ds plan) =
      dp_delete_local plan @ filter (\<lambda>d. d \<in> set L \<and> d \<notin> set R \<and> d \<in> set B \<and> d \<notin> set ?K) ds"
    for ds and plan :: dir_plan
    by (induction ds arbitrary: plan) (simp_all add: plan_dir_def Let_def)
  show "set (dp_delete_remote (planDirs L R (Some B) keep)) =
     {d. d \<in> set R \<and> d \<notin> set L \<and> d \<in> set B \<and> (\<forall>p \<in> set keep. d \<notin> set (ancestor_dirs p))}"
    "set (dp_delete_local (planDirs L R (Some B) keep)) =
     {d. d \<in> set L \<and> d \<notin> set R \<and> d \<in> set B \<and> (\<forall>p \<in> set keep. d \<notin> set (ancestor_dirs p))}"
    unfolding planDirs_def Let_def by (auto simp: fields)
qed

subsection \<open>No change is lost\<close>

definition tree_wf :: "tree \<Rightarrow> bool" where
  "tree_wf t \<longleftrightarrow> distinct (map fst (tr_files t)) \<and> (\<forall>p \<in> fst ` set (tr_files t). set (ancestor_dirs p) \<subseteq> set (tr_dirs t))"

text \<open>Both trees are trees, a file of one is not a directory of the other, and the hash cache holds
  hashes of the files it describes.\<close>

definition folder_ok :: "(bytes \<Rightarrow> string) \<Rightarrow> file_manifest \<Rightarrow> world \<Rightarrow> bool" where
  "folder_ok sha cache w \<longleftrightarrow> tree_wf (w_local w) \<and> tree_wf (w_remote w) \<and> cache_truthful sha cache (w_local w) \<and>
     (fst ` set (tr_files (w_local w)) \<union> fst ` set (tr_files (w_remote w))) \<inter> (set (tr_dirs (w_local w)) \<union> set (tr_dirs (w_remote w))) = {} \<and>
     (\<forall>p \<in> fst ` set (tr_files (w_local w)) \<union> fst ` set (tr_files (w_remote w)).
        \<forall>q \<in> fst ` set (tr_files (w_local w)) \<union> fst ` set (tr_files (w_remote w)). \<not> under p q)"

definition seen :: "side \<Rightarrow> world \<Rightarrow> path \<Rightarrow> bool" where
  "seen s w p = (if s = OnLocal then seen_local (w_local w) p else seen_remote (w_remote w) p)"

lemma in_wins: "p \<in> set (wins s plan) \<longleftrightarrow> (p, s) \<in> set (sp_conflicts plan)"
  by (force simp: wins_def)

lemma seenD:
  "seen s w p \<Longrightarrow> \<exists>f. map_of (tr_files (tree_of s w)) p = Some f \<and> \<not> ignoredPath p \<and> (s = OnLocal \<longrightarrow> walked p)"
  by (cases s) (auto simp: seen_def seen_local_def seen_remote_def walked_def)

text \<open>The four facts about one run that the theorems use: what the two manifests hold, which
  directories each side listed, and what is excluded.\<close>

lemma views:
  assumes "folder_ok sha cache w" and "localHashed sha cache (w_local w) = (local, skipped, excluded)"
    and "sv = view_of sha name (w_remote w)"
  shows "map_of local p = (if seen OnLocal w p then map_option (entry_of sha) (map_of (tr_files (w_local w)) p) else None)"
    "map_of (sv_files sv) p = (if seen OnRemote w p then map_option (entry_of sha) (map_of (tr_files (w_remote w)) p) else None)"
    "seen OnLocal w p \<Longrightarrow> p \<notin> set excluded" "seen OnRemote w p \<Longrightarrow> p \<notin> set (sv_excluded sv)"
    "p \<in> set excluded \<Longrightarrow> walked p \<and> p \<in> fst ` set (tr_files (w_local w))"
    "p \<in> set (sv_excluded sv) \<Longrightarrow> p \<in> fst ` set (tr_files (w_remote w))"
    "set (sv_dirs sv) = {d \<in> set (tr_dirs (w_remote w)). \<not> ignoredPath d}"
proof -
  have dl: "distinct (map fst (tr_files (w_local w)))" and dr: "distinct (map fst (tr_files (w_remote w)))"
    and truth: "cache_truthful sha cache (w_local w)" using assms(1) by (auto simp: folder_ok_def tree_wf_def)
  note remote = view_files [where sha = sha and name = name, OF dr]
  show "map_of local p = (if seen OnLocal w p then map_option (entry_of sha) (map_of (tr_files (w_local w)) p) else None)"
    using local_entry [OF dl truth, of p] by (simp add: assms(2) seen_def)
  show "map_of (sv_files sv) p = (if seen OnRemote w p then map_option (entry_of sha) (map_of (tr_files (w_remote w)) p) else None)"
    by (simp add: assms(3) remote(2) seen_def)
  show "seen OnLocal w p \<Longrightarrow> p \<notin> set excluded"
    using local_excluded_not_seen [OF dl, of p sha cache] by (auto simp: assms(2) seen_def)
  show "seen OnRemote w p \<Longrightarrow> p \<notin> set (sv_excluded sv)"
    unfolding assms(3) remote(4) seen_def seen_remote_def by auto
  show "p \<in> set excluded \<Longrightarrow> walked p \<and> p \<in> fst ` set (tr_files (w_local w))"
    using local_excluded [of p sha cache "w_local w"] by (simp add: assms(2))
  show "p \<in> set (sv_excluded sv) \<Longrightarrow> p \<in> fst ` set (tr_files (w_remote w))"
    unfolding assms(3) remote(4) by (auto intro: map_of_SomeI_key)
  show "set (sv_dirs sv) = {d \<in> set (tr_dirs (w_remote w)). \<not> ignoredPath d}"
    unfolding assms(3) remote(3) ..
qed

lemma file_ops_hits:
  "(\<exists>x \<in> set (file_ops plan ks). hits x s q) \<longleftrightarrow>
     (s = OnLocal \<and> (q \<in> set (sp_download plan) \<or> q \<in> set (wins OnRemote plan) \<or> q \<in> set (sp_delete_local plan))) \<or>
     (s = OnRemote \<and> (q \<in> set (sp_upload plan) \<or> q \<in> set (wins OnLocal plan) \<or> q \<in> set ks \<or>
        (\<exists>p \<in> set (sp_delete_remote plan). q = p \<or> under p q)))"
  by (cases s) (auto simp: file_ops_def bex_Un)

lemma dir_ops_hits:
  "(\<exists>x \<in> set (dir_ops dirs). hits x s q) \<longleftrightarrow>
     (s = OnLocal \<and> (\<exists>d \<in> set (dp_delete_local dirs). q = d \<or> under d q)) \<or>
     (s = OnRemote \<and> (\<exists>d \<in> set (dp_delete_remote dirs). q = d \<or> under d q))"
  by (cases s) (auto simp: dir_ops_def bex_Un)

text \<open>No directory is deleted over a file both sides know, or that this run moves.\<close>

lemma dirs_spare:
  assumes ok: "folder_ok sha cache w" and hashed: "localHashed sha cache (w_local w) = (local, skipped, excluded)"
    and sv: "sv = view_of sha name (w_remote w)"
    and dirs: "dirs = planDirs (walkLocalDirs (w_local w)) (sv_dirs sv) (Some B) keep"
    and here: "seen s w p"
    and kept: "p \<in> set keep \<or> (\<exists>f. map_of (tr_files (tree_of (other_side s) w)) p = Some f \<and> walked p)"
  shows "\<not> (\<exists>x \<in> set (dir_ops dirs). hits x s p)"
proof
  assume "\<exists>x \<in> set (dir_ops dirs). hits x s p"
  then obtain d where d: "p = d \<or> under d p" and del: "if s = OnLocal then d \<in> set (dp_delete_local dirs) else d \<in> set (dp_delete_remote dirs)"
    unfolding dir_ops_hits by (cases s) auto
  obtain f where f: "map_of (tr_files (tree_of s w)) p = Some f" using seenD [OF here] by blast
  have wf: "tree_wf (tree_of t w)" for t using ok by (cases t) (auto simp: folder_ok_def)
  have listed: "if s = OnLocal then d \<in> set (walkLocalDirs (w_local w)) \<and> d \<notin> set (sv_dirs sv)
      else d \<in> set (sv_dirs sv) \<and> d \<notin> set (walkLocalDirs (w_local w))" and spare: "\<forall>q \<in> set keep. d \<notin> set (ancestor_dirs q)"
    using del planDirs_delete [of "walkLocalDirs (w_local w)" "sv_dirs sv" B keep] unfolding dirs by (auto split: if_splits)
  have d_dir: "d \<in> set (tr_dirs (tree_of s w))"
    using listed views(7) [OF ok hashed sv] by (cases s) (auto simp: walkLocalDirs_def)
  then have "p \<noteq> d" using ok map_of_SomeI_key [OF f] by (cases s) (auto simp: folder_ok_def)
  with d have below: "under d p" by simp
  from kept show False
  proof
    assume "p \<in> set keep"
    with spare under_ancestor [OF below] show False by blast
  next
    assume "\<exists>f. map_of (tr_files (tree_of (other_side s) w)) p = Some f \<and> walked p"
    then obtain g where g: "map_of (tr_files (tree_of (other_side s) w)) p = Some g" and w: "walked p" by blast
    then have "d \<in> set (tr_dirs (tree_of (other_side s) w))"
      using wf [of "other_side s"] map_of_SomeI_key [OF g] under_ancestor [OF below] by (auto simp: tree_wf_def)
    with listed walked_dir [OF w below] views(7) [OF ok hashed sv] show False
      by (cases s) (auto simp: walkLocalDirs_def)
  qed
qed

definition base_entry :: "ancestor \<Rightarrow> path \<Rightarrow> entry option" where
  "base_entry anc p = map_of (an_files anc) p"

text \<open>The version of \<open>p\<close> on side \<open>s\<close> is a change: it differs from the ancestor, and the other side
  still has the file if the ancestor knows it.\<close>

definition changed_on :: "(bytes \<Rightarrow> string) \<Rightarrow> ancestor \<Rightarrow> side \<Rightarrow> world \<Rightarrow> path \<Rightarrow> bool" where
  "changed_on sha anc s w p \<longleftrightarrow>
     (case map_of (tr_files (tree_of s w)) p of None \<Rightarrow> False | Some f \<Rightarrow> changed (entry_of sha f) (base_entry anc p)) \<and>
     (base_entry anc p = None \<or> seen (other_side s) w p)"

lemma survivor:
  assumes ok: "folder_ok sha cache w" and hashed: "localHashed sha cache (w_local w) = (local, skipped, excluded)"
    and sv: "sv = view_of sha name (w_remote w)"
    and ops: "sync_ops collate d (w_local w) local (walkLocalDirs (w_local w)) sv excluded anc = (plan, ops, found)"
    and here: "seen s w p" and change: "changed_on sha anc s w p"
  shows "\<exists>kept later. ops = keep_ops kept @ later \<and> distinct (map snd kept) \<and>
    (\<forall>(c, k) \<in> set kept. \<forall>(c', k') \<in> set kept. cc_path c \<noteq> k') \<and> p \<notin> snd ` set kept \<and>
    (\<forall>(c, k) \<in> set kept. \<exists>n. k = conflictName (cc_path c) d n) \<and>
    ((\<forall>x \<in> set later. \<not> hits x s p) \<or>
     (\<exists>(c, k) \<in> set kept. cc_path c = p \<and> cc_source c = s \<and> (\<forall>x \<in> set later. \<not> hits x OnLocal k)))"
proof -
  note views = views [OF ok hashed sv]
  let ?out = "excluded @ sv_excluded sv"
  let ?v = "verdict_at local (sv_files sv) (an_files anc) ?out"
  let ?claimed = "map fst local @ map fst (sv_files sv) @ map fst (an_files anc) @ walkLocalDirs (w_local w) @ sv_dirs sv"
  define dirs where "dirs = planDirs (walkLocalDirs (w_local w)) (sv_dirs sv) (Some (an_dirs anc)) (dir_keep_paths plan)"
  obtain kept where plan: "plan = planSync collate local (sv_files sv) (Some (an_files anc)) ?out d"
    and kept: "keep_names (w_local w) d ?claimed (sp_copies plan) = (kept, found)"
    and ops': "ops = keep_ops kept @ (if found then file_ops plan (map snd kept) @ dir_ops dirs else [])"
    using ops unfolding sync_ops_def Let_def dirs_def by (auto split: prod.splits)
  define later where "later = (if found then file_ops plan (map snd kept) @ dir_ops dirs else [])"
  note sets = set_planSync [of collate local "sv_files sv" "Some (an_files anc)" ?out d, folded plan, simplified]
  note names = keep_names_spec [OF kept]
  have known: "q \<in> set ?claimed" if "?v q \<noteq> Leave" for q using verdict_known [OF that] by auto
  have fresh: "k \<notin> set ?claimed" "\<not> localFileExists (w_local w) k" "c \<in> set (sp_copies plan)" if "(c, k) \<in> set kept" for c k
    using names that by auto
  have unmoved: "?v k = Leave" if "(c, k) \<in> set kept" for c k using known fresh(1) that by metis
  obtain f where f: "map_of (tr_files (tree_of s w)) p = Some f" using seenD [OF here] by blast
  have entry: "if s = OnLocal then map_of local p = Some (entry_of sha f) else map_of (sv_files sv) p = Some (entry_of sha f)"
    using here f by (cases s) (simp_all add: views(1) views(2))
  then have p_key: "p \<in> set ?claimed" by (cases s) (auto dest: map_of_SomeI_key simp del: map_of_eq_Some_iff)
  have diff: "changed (entry_of sha f) (map_of (an_files anc) p)"
    and other: "map_of (an_files anc) p = None \<or> seen (other_side s) w p"
    using change f by (simp_all add: changed_on_def base_entry_def)
  have verdict: "if s = OnLocal then ?v p \<in> {Leave, Up, Clash OnLocal, Clash OnRemote} else ?v p \<in> {Leave, Down, Clash OnLocal, Clash OnRemote}"
  proof (cases s)
    case OnLocal
    have "map_of (sv_files sv) p \<noteq> None" if "map_of (an_files anc) p \<noteq> None"
      using other that OnLocal seenD [of OnRemote w p] by (auto simp: views(2))
    then show ?thesis using OnLocal entry diff
      by (auto simp: verdict_at_def decide_def split: option.splits if_splits)
  next
    case OnRemote
    have "map_of local p \<noteq> None" if "map_of (an_files anc) p \<noteq> None"
      using other that OnRemote seenD [of OnLocal w p] by (auto simp: views(1))
    then show ?thesis using OnRemote entry diff
      by (auto simp: verdict_at_def decide_def split: option.splits if_splits)
  qed
  have dropped: "q \<in> fst ` set (tr_files (w_remote w))" if "?v q = DropRemote" for q
  proof -
    from that have "map_of (sv_files sv) q \<noteq> None" by (auto simp: verdict_at_def decide_def split: option.splits if_splits)
    then have "seen OnRemote w q" using views(2) by (auto split: if_splits)
    then show ?thesis using seenD [of OnRemote w q] by (auto dest!: map_of_SomeI_key)
  qed
  have apart: "\<not> under q p" if "?v q = DropRemote" for q
  proof -
    have "p \<in> fst ` set (tr_files (w_local w)) \<union> fst ` set (tr_files (w_remote w))" using map_of_SomeI_key [OF f] by (cases s) auto
    with ok dropped [OF that] show ?thesis unfolding folder_ok_def by blast
  qed
  have p_name: "p \<notin> snd ` set kept" using fresh(1) p_key by force
  have spared: "\<not> (\<exists>x \<in> set (dir_ops dirs). hits x s p)"
  proof (rule dirs_spare [OF ok hashed sv dirs_def here])
    show "p \<in> set (dir_keep_paths plan) \<or> (\<exists>f. map_of (tr_files (tree_of (other_side s) w)) p = Some f \<and> walked p)"
    proof (cases "?v p = Leave")
      case False
      then show ?thesis using verdict sets by (cases s) (auto simp: dir_keep_paths_def in_wins)
    next
      case True
      have "walked p \<and> p \<in> fst ` set (tr_files (tree_of (other_side s) w))"
      proof (cases "p \<in> set ?out")
        case True
        then show ?thesis using here views(3-6) seenD [OF here] by (cases s) auto
      next
        case False
        with \<open>?v p = Leave\<close> entry have "map_of local p \<noteq> None \<and> map_of (sv_files sv) p \<noteq> None"
          by (cases s) (auto simp: verdict_at_def decide_def split: option.splits if_splits)
        then have both: "seen OnLocal w p" "seen OnRemote w p" by (auto simp: views(1) views(2) split: if_splits)
        then show ?thesis using seenD [OF both(1)] seenD [OF both(2)] by (cases s) (auto dest!: map_of_SomeI_key)
      qed
      then show ?thesis by (force simp: weak_map_of_SomeI)
    qed
  qed
  have safe: "(\<forall>x \<in> set later. \<not> hits x s p) \<or>
     (\<exists>(c, k) \<in> set kept. cc_path c = p \<and> cc_source c = s \<and> (\<forall>x \<in> set later. \<not> hits x OnLocal k))"
  proof (cases "found \<and> ?v p = Clash (other_side s)")
    case False
    have "\<not> (\<exists>x \<in> set (file_ops plan (map snd kept)). hits x s p)" if "?v p \<noteq> Clash (other_side s)"
      using that verdict apart p_name unfolding file_ops_hits by (cases s) (auto simp: sets in_wins)
    with False spared show ?thesis unfolding later_def by auto
  next
    case True
    then have "copy_for d (p, other_side s) \<in> fst ` set kept" using names sets(6) by (metis (mono_tags) image_eqI mem_Collect_eq prod.case set_map)
    then obtain k where k: "(copy_for d (p, other_side s), k) \<in> set kept" by auto
    from names k obtain n where name_k: "k = conflictName p d n" by (auto simp: copy_for_def)
    have "\<not> hits x OnLocal k" if "x \<in> set (file_ops plan (map snd kept))" for x
      using file_ops_hits [of plan "map snd kept" OnLocal k] that unmoved [OF k] by (auto simp: sets in_wins)
    moreover have "\<not> hits x OnLocal k" if x: "x \<in> set (dir_ops dirs)" for x
    proof
      assume "hits x OnLocal k"
      then obtain e where e: "e \<in> set (dp_delete_local dirs)" "k = e \<or> under e k"
        using x dir_ops_hits [of dirs OnLocal k] by auto
      then have listed: "e \<in> set (walkLocalDirs (w_local w))" and spare: "\<forall>q \<in> set (dir_keep_paths plan). e \<notin> set (ancestor_dirs q)"
        using planDirs_delete(2) [of "walkLocalDirs (w_local w)" "sv_dirs sv" "an_dirs anc" "dir_keep_paths plan"]
        unfolding dirs_def by auto
      have "under e p" using e(2) listed fresh(1) [OF k] under_conflictName [of e p d n] by (auto simp: name_k)
      moreover have "p \<in> set (dir_keep_paths plan)" using True sets by (cases s) (auto simp: dir_keep_paths_def in_wins)
      ultimately show False using spare under_ancestor by blast
    qed
    ultimately have "\<forall>x \<in> set later. \<not> hits x OnLocal k" unfolding later_def by auto
    with k have "\<exists>(c, k) \<in> set kept. cc_path c = p \<and> cc_source c = s \<and> (\<forall>x \<in> set later. \<not> hits x OnLocal k)"
      by (intro bexI [OF _ k]) (cases s, auto simp: copy_for_def)
    then show ?thesis ..
  qed
  have "\<forall>(c, k) \<in> set kept. \<forall>(c', k') \<in> set kept. cc_path c \<noteq> k'"
  proof -
    have "?v (cc_path c) \<noteq> Leave" if "(c, k) \<in> set kept" for c k
      using fresh(3) [OF that] unfolding sets by (auto simp: copy_for_def)
    then show ?thesis using unmoved by fastforce
  qed
  with ops' names p_name safe show ?thesis unfolding later_def [symmetric] by (intro exI [of _ kept] exI [of _ later]) auto
qed

lemma loadAncestor_facts:
  assumes "loadAncestor readable missing granted w = (w0, r)"
  shows "w_local w0 = w_local w" "w_remote w0 = w_remote w"
    "r = Inr anc \<Longrightarrow> an_files anc = (if readable \<and> \<not> missing then an_files (w_state w) else []) \<or>
       an_files anc = an_files (w_state w) \<and> an_files anc = []"
    "r = Inr anc \<Longrightarrow> readable \<and> \<not> missing \<Longrightarrow> an_dirs anc = an_dirs (w_state w)"
  using assms by (auto simp: loadAncestor_def loadState_def putState_def Let_def split: if_splits option.splits)

lemma putState_trees: "putState granted n new w = (w', won) \<Longrightarrow> w_local w' = w_local w \<and> w_remote w' = w_remote w"
  by (auto simp: putState_def split: if_splits)

text \<open>What a run comes down to: the ancestor it merged against, its operations, and the trees after
  as many of them as the lease allowed.\<close>

lemma runSync_cases:
  assumes run: "runSync sha collate env name cache (full_listing sha name (w_remote w)) w = (w1, r)"
    and ok: "folder_ok sha cache w"
  obtains (stopped) e where "r = Inl e" "w_local w1 = w_local w" "w_remote w1 = w_remote w"
  | (ran) local skipped excluded anc plan ops found w0 w2 r2 where
      "localHashed sha cache (w_local w) = (local, skipped, excluded)"
      "an_files anc = (if env_readable env \<and> \<not> (tr_files (w_remote w) = [] \<and> tr_dirs (w_remote w) = []) then an_files (w_state w) else []) \<or>
       an_files anc = an_files (w_state w) \<and> an_files anc = []"
      "env_readable env \<and> \<not> (tr_files (w_remote w) = [] \<and> tr_dirs (w_remote w) = []) \<Longrightarrow> an_dirs anc = an_dirs (w_state w)"
      "sync_ops collate (env_date env) (w_local w) local (walkLocalDirs (w_local w)) (view_of sha name (w_remote w)) excluded anc = (plan, ops, found)"
      "w_local w0 = w_local w" "w_remote w0 = w_remote w"
      "run_ops (env_now env) (env_held env) ops w0 = (w2, r2)"
      "w_local w1 = w_local w2 \<or> w_local w1 = env_edit env (w_local w2)" "w_remote w1 = w_remote w2"
      "\<not> isl r \<Longrightarrow> \<not> isl r2 \<and> found"
proof -
  obtain local skipped excluded where hashed: "localHashed sha cache (w_local w) = (local, skipped, excluded)" by (metis prod.exhaust)
  have dr: "distinct (map fst (tr_files (w_remote w)))" using ok by (simp add: folder_ok_def tree_wf_def)
  note view = view_files [where sha = sha and name = name, OF dr]
  obtain w0 a where load: "loadAncestor (env_readable env) (sv_missing (view_of sha name (w_remote w))) (env_reset env) w = (w0, a)"
    by (metis prod.exhaust)
  note trees = loadAncestor_facts [OF load]
  show thesis
  proof (cases a)
    case (Inl e)
    with run trees(1,2) show thesis
      by (intro stopped [of e]) (auto simp: runSync_def hashed view(1) load)
  next
    case (Inr anc)
    obtain plan ops found where ops: "sync_ops collate (env_date env) (w_local w) local (walkLocalDirs (w_local w))
        (view_of sha name (w_remote w)) excluded anc = (plan, ops, found)" by (metis prod.exhaust)
    obtain w2 r2 where ran': "run_ops (env_now env) (env_held env) ops w0 = (w2, r2)" by (metis prod.exhaust)
    have "(w_local w1 = w_local w2 \<or> w_local w1 = env_edit env (w_local w2)) \<and> w_remote w1 = w_remote w2 \<and> (\<not> isl r \<longrightarrow> \<not> isl r2 \<and> found)"
      using run by (auto simp: runSync_def hashed view(1) load Inr ops ran' Let_def dest: putState_trees
          split: sum.splits if_splits prod.splits bool.splits)
    then show thesis
      using trees(1,2) trees(3,4) [OF Inr] view(5) by (intro ran [OF hashed _ _ ops _ _ ran']) auto
  qed
qed


subsection \<open>A finished sync leaves both sides alike\<close>

lemma last_hit:
  assumes "run_ops now n xs w = (w', Inr m)" and "\<exists>x \<in> set xs. hits x s q"
  shows "\<exists>x w1 w2. x \<in> set xs \<and> hits x s q \<and> apply_op now x w1 = Some w2 \<and> bytes_at s w' q = bytes_at s w2 q \<and>
    (\<forall>t p. (\<forall>y \<in> set xs. \<not> hits y t p) \<longrightarrow> bytes_at t w1 p = bytes_at t w p)"
proof -
  from split_list_last_prop [OF assms(2)]
  obtain us x vs where xs: "xs = us @ x # vs" and x: "hits x s q" and later: "\<forall>y \<in> set vs. \<not> hits y s q" by auto
  obtain w1 r1 where first: "run_ops now n us w = (w1, r1)" by (metis prod.exhaust)
  from assms(1) first obtain k where r1: "r1 = Inr k" by (cases r1) (auto simp: xs run_ops_append)
  from assms(1) first r1 obtain w2 k' where w2: "apply_op now x w1 = Some w2" and rest: "run_ops now k' vs w2 = (w', Inr m)"
    by (auto simp: xs run_ops_append split: if_splits option.splits)
  have "bytes_at s w' q = bytes_at s w2 q" using run_frame [OF later, of now k' w2] by (simp add: rest)
  moreover have "bytes_at t w1 p = bytes_at t w p" if "\<forall>y \<in> set xs. \<not> hits y t p" for t p
    using run_frame [of us t p now n w] that by (simp add: first xs)
  ultimately show ?thesis using xs x w2 by auto
qed

lemma upload_writes:
  "apply_op now (UploadFile p) w = Some w' \<Longrightarrow> bytes_at OnRemote w' p = bytes_at OnLocal w p"
  by (auto simp: bytes_at_def put_file_def)

lemma download_writes:
  "apply_op now (DownloadFile p) w = Some w' \<Longrightarrow> bytes_at OnLocal w' p = bytes_at OnRemote w p"
  by (auto simp: bytes_at_def put_file_def)

fun deletes :: "sync_op \<Rightarrow> bool" where
  "deletes (DeleteRemoteFile p) = True"
| "deletes (DeleteLocalFile p) = True"
| "deletes (DeleteRemoteDir p) = True"
| "deletes (DeleteLocalDir p) = True"
| "deletes _ = False"

lemma deletes_clear:
  assumes "apply_op now x w = Some w'" and "hits x s p" and "deletes x"
  shows "bytes_at s w' p = None"
proof -
  have gone: "map_of (tr_files (remove_path d t)) q = None" if "q = d \<or> under d q" for d t q
    using that by (auto simp: remove_path_def map_of_remaining)
  have gone_file: "map_of (tr_files (deleteLocalFile q t)) q = None" for q t by (simp add: deleteLocalFile_def)
  show ?thesis
    using assms by (cases x) (auto simp: bytes_at_def gone gone_file simp del: map_of_eq_None_iff)
qed

text \<open>The value of a path after a finished run, by what its operations do to the path.\<close>

lemma finished_value:
  assumes "run_ops now n xs w = (w', Inr m)"
  shows "\<forall>y \<in> set xs. \<not> hits y s p \<Longrightarrow> bytes_at s w' p = bytes_at s w p"
    "\<lbrakk>UploadFile p \<in> set xs; \<forall>y \<in> set xs. hits y OnRemote p \<longrightarrow> y = UploadFile p; \<forall>y \<in> set xs. \<not> hits y OnLocal p\<rbrakk>
       \<Longrightarrow> bytes_at OnRemote w' p = bytes_at OnLocal w p"
    "\<lbrakk>DownloadFile p \<in> set xs; \<forall>y \<in> set xs. hits y OnLocal p \<longrightarrow> y = DownloadFile p; \<forall>y \<in> set xs. \<not> hits y OnRemote p\<rbrakk>
       \<Longrightarrow> bytes_at OnLocal w' p = bytes_at OnRemote w p"
    "\<lbrakk>\<exists>y \<in> set xs. hits y s p; \<forall>y \<in> set xs. hits y s p \<longrightarrow>
         deletes y\<rbrakk>
       \<Longrightarrow> bytes_at s w' p = None"
proof -
  show "\<forall>y \<in> set xs. \<not> hits y s p \<Longrightarrow> bytes_at s w' p = bytes_at s w p"
    using run_frame [of xs s p now n w] assms by simp
next
  assume up: "UploadFile p \<in> set xs" "\<forall>y \<in> set xs. hits y OnRemote p \<longrightarrow> y = UploadFile p" "\<forall>y \<in> set xs. \<not> hits y OnLocal p"
  have "\<exists>x \<in> set xs. hits x OnRemote p" using up(1) by (rule rev_bexI) simp
  from last_hit [OF assms this] obtain x w1 w2 where x: "x \<in> set xs" "hits x OnRemote p" and step: "apply_op now x w1 = Some w2"
    and w': "bytes_at OnRemote w' p = bytes_at OnRemote w2 p"
    and before: "\<forall>t q. (\<forall>y \<in> set xs. \<not> hits y t q) \<longrightarrow> bytes_at t w1 q = bytes_at t w q" by blast
  have "x = UploadFile p" using up(2) x by blast
  from upload_writes [OF step [unfolded this]] w' before up(3) show "bytes_at OnRemote w' p = bytes_at OnLocal w p" by simp
next
  assume down: "DownloadFile p \<in> set xs" "\<forall>y \<in> set xs. hits y OnLocal p \<longrightarrow> y = DownloadFile p" "\<forall>y \<in> set xs. \<not> hits y OnRemote p"
  have "\<exists>x \<in> set xs. hits x OnLocal p" using down(1) by (rule rev_bexI) simp
  from last_hit [OF assms this] obtain x w1 w2 where x: "x \<in> set xs" "hits x OnLocal p" and step: "apply_op now x w1 = Some w2"
    and w': "bytes_at OnLocal w' p = bytes_at OnLocal w2 p"
    and before: "\<forall>t q. (\<forall>y \<in> set xs. \<not> hits y t q) \<longrightarrow> bytes_at t w1 q = bytes_at t w q" by blast
  have "x = DownloadFile p" using down(2) x by blast
  from download_writes [OF step [unfolded this]] w' before down(3) show "bytes_at OnLocal w' p = bytes_at OnRemote w p" by simp
next
  assume del: "\<exists>y \<in> set xs. hits y s p" "\<forall>y \<in> set xs. hits y s p \<longrightarrow>
         deletes y"
  from last_hit [OF assms del(1)] obtain x w1 w2 where x: "x \<in> set xs" "hits x s p" and step: "apply_op now x w1 = Some w2"
    and w': "bytes_at s w' p = bytes_at s w2 p" by blast
  from deletes_clear [OF step x(2)] del(2) x w' show "bytes_at s w' p = None" by auto
qed

lemma dirs_spare_kept:
  assumes ok: "folder_ok sha cache w" and sv: "set (sv_dirs sv) \<subseteq> set (tr_dirs (w_remote w))"
    and dirs: "dirs = planDirs (walkLocalDirs (w_local w)) (sv_dirs sv) (Some B) keep"
    and "p \<in> set keep" and a_file: "p \<in> fst ` set (tr_files (w_local w)) \<union> fst ` set (tr_files (w_remote w))"
  shows "\<not> (\<exists>x \<in> set (dir_ops dirs). hits x s p)"
proof
  assume "\<exists>x \<in> set (dir_ops dirs). hits x s p"
  then obtain d where d: "p = d \<or> under d p" and "d \<in> set (dp_delete_local dirs) \<union> set (dp_delete_remote dirs)"
    unfolding dir_ops_hits by auto
  then have "d \<in> set (walkLocalDirs (w_local w)) \<union> set (sv_dirs sv)" and spare: "\<forall>q \<in> set keep. d \<notin> set (ancestor_dirs q)"
    using planDirs_delete [of "walkLocalDirs (w_local w)" "sv_dirs sv" B keep] unfolding dirs by auto
  then have "d \<in> set (tr_dirs (w_local w)) \<union> set (tr_dirs (w_remote w))" using sv by (auto simp: walkLocalDirs_def)
  then have "p \<noteq> d" using ok a_file by (auto simp: folder_ok_def)
  with d under_ancestor spare assms(4) show False by blast
qed

lemma dir_ops_delete: "x \<in> set (dir_ops dirs) \<Longrightarrow> hits x s p \<Longrightarrow> deletes x"
  by (auto simp: dir_ops_def)

lemma agreement:
  assumes "decide (map_option (entry_of sha) (map_of (tr_files (w_local w)) p))
      (map_option (entry_of sha) (map_of (tr_files (w_remote w)) p)) b = Leave"
    and "\<exists>s. map_of (tr_files (tree_of s w)) p \<noteq> None"
  obtains f g where "map_of (tr_files (w_local w)) p = Some f" "map_of (tr_files (w_remote w)) p = Some g"
    "sameContent (entry_of sha f) (entry_of sha g)"
proof -
  from assms(2) have "map_of (tr_files (w_local w)) p \<noteq> None \<or> map_of (tr_files (w_remote w)) p \<noteq> None"
    by (metis side.exhaust tree_of_simps)
  with assms(1) that show thesis
    by (cases "map_of (tr_files (w_local w)) p"; cases "map_of (tr_files (w_remote w)) p")
      (auto simp: decide_def split: if_splits)
qed

lemma finished_sync_outcome:
  assumes ok: "folder_ok sha cache w" and hash: "inj sha"
    and finished: "runSync sha collate env name cache (full_listing sha name (w_remote w)) w = (w1, Inr result)" and idle: "env_edit env = id"
    and somewhere: "\<exists>s. map_of (tr_files (tree_of s w)) p \<noteq> None" and reach: "walked p"
    and small: "\<And>s f. map_of (tr_files (tree_of s w)) p = Some f \<Longrightarrow> \<not> oversized (length (f_bytes f))"
  shows "bytes_at OnLocal w1 p = bytes_at OnRemote w1 p \<and>
    (env_readable env \<and> \<not> (tr_files (w_remote w) = [] \<and> tr_dirs (w_remote w) = []) \<and>
     map_of (an_files (w_state w)) p \<noteq> None \<and> (\<exists>t. map_of (tr_files (tree_of t w)) p = None) \<longrightarrow> bytes_at OnLocal w1 p = None)"
  using finished ok
proof (cases rule: runSync_cases)
  case (ran local skipped excluded anc plan ops found w0 w2 r2)
  let ?sv = "view_of sha name (w_remote w)"
  note views = views [where name = name, OF ok ran(1) refl]
  let ?v = "verdict_at local (sv_files ?sv) (an_files anc) (excluded @ sv_excluded ?sv)"
  let ?claimed = "map fst local @ map fst (sv_files ?sv) @ map fst (an_files anc) @ walkLocalDirs (w_local w) @ sv_dirs ?sv"
  define dirs where "dirs = planDirs (walkLocalDirs (w_local w)) (sv_dirs ?sv) (Some (an_dirs anc)) (dir_keep_paths plan)"
  from ran(10) obtain m where r2: "r2 = Inr m" and found by (cases r2) auto
  obtain kept where plan: "plan = planSync collate local (sv_files ?sv) (Some (an_files anc)) (excluded @ sv_excluded ?sv) (env_date env)"
    and kept: "keep_names (w_local w) (env_date env) ?claimed (sp_copies plan) = (kept, True)"
    and ops: "ops = keep_ops kept @ file_ops plan (map snd kept) @ dir_ops dirs"
    using ran(4) \<open>found\<close> unfolding sync_ops_def Let_def dirs_def by (auto split: prod.splits)
  note sets = set_planSync [of collate local "sv_files ?sv" "Some (an_files anc)" "excluded @ sv_excluded ?sv" "env_date env", folded plan, simplified]
  have seen_iff: "seen s w p \<longleftrightarrow> map_of (tr_files (tree_of s w)) p \<noteq> None" for s
    using reach small [of OnLocal] small [of OnRemote] by (cases s) (auto simp: seen_def seen_local_def seen_remote_def walked_def simp del: map_of_eq_None_iff)
  have entries: "map_of local p = map_option (entry_of sha) (map_of (tr_files (w_local w)) p)"
    "map_of (sv_files ?sv) p = map_option (entry_of sha) (map_of (tr_files (w_remote w)) p)"
    using seen_iff [of OnLocal] seen_iff [of OnRemote] by (auto simp: views(1,2) simp del: map_of_eq_None_iff)
  have in_tree: "q \<in> fst ` set (tr_files t) \<longleftrightarrow> map_of (tr_files t) q \<noteq> None" for q and t :: tree
    by (auto simp: map_of_eq_None_iff)
  have a_file: "p \<in> fst ` set (tr_files (w_local w)) \<union> fst ` set (tr_files (w_remote w))"
    using somewhere unfolding Un_iff in_tree by (metis side.exhaust tree_of_simps)
  have "p \<notin> set excluded" using views(3,5) seen_iff [of OnLocal] unfolding in_tree by auto
  moreover have "p \<notin> set (sv_excluded ?sv)" using views(4,6) seen_iff [of OnRemote] unfolding in_tree by auto
  ultimately have v: "?v p = decide (map_of local p) (map_of (sv_files ?sv) p) (map_of (an_files anc) p)"
    by (simp add: verdict_at_def)
  have apart: "\<not> under q p" if "?v q = DropRemote" for q
  proof -
    from that have "seen OnRemote w q"
      by (auto simp: verdict_at_def decide_def views(2) split: option.splits if_splits)
    then have "q \<in> fst ` set (tr_files (w_remote w))" using seenD [of OnRemote w q] by (auto intro: map_of_SomeI_key)
    with ok a_file show ?thesis unfolding folder_ok_def by blast
  qed
  have "map_of local p \<noteq> None \<or> map_of (sv_files ?sv) p \<noteq> None" using a_file unfolding Un_iff in_tree entries by simp
  then have p_key: "p \<in> set ?claimed" unfolding map_of_eq_None_iff by auto
  have no_name: "(c, p) \<notin> set kept" for c using keep_names_spec [OF kept] p_key by force
  have spared: "\<not> hits x s p" if "x \<in> set (dir_ops dirs)" "p \<in> set (dir_keep_paths plan) \<or> (\<forall>t. seen t w p)" for x s
    using that
  proof (elim disjE)
    assume "p \<in> set (dir_keep_paths plan)"
    with dirs_spare_kept [OF ok _ dirs_def _ a_file, of s] views(7) that(1) show ?thesis by auto
  next
    assume all: "\<forall>t. seen t w p"
    with dirs_spare [OF ok ran(1) refl dirs_def, of s p] seenD [of "other_side s" w p] reach that(1) show ?thesis by blast
  qed
  have on_local: "x = DownloadFile p \<and> ?v p \<in> {Down, Clash OnRemote} \<or> x = DeleteLocalFile p \<and> ?v p = DropLocal \<or>
      x \<in> set (dir_ops dirs)" if "x \<in> set ops" "hits x OnLocal p" for x
    using that no_name unfolding ops keep_ops_def file_ops_def by (auto simp: sets in_wins image_iff)
  have on_remote: "x = UploadFile p \<and> ?v p \<in> {Up, Clash OnLocal} \<or> x = DeleteRemoteFile p \<and> ?v p = DropRemote \<or>
      x \<in> set (dir_ops dirs)" if "x \<in> set ops" "hits x OnRemote p" for x
    using that no_name apart unfolding ops keep_ops_def file_ops_def by (auto simp: sets in_wins)
  note vals = finished_value [OF ran(7) [unfolded r2]]
  have start: "bytes_at t w0 p = map_option f_bytes (map_of (tr_files (tree_of t w)) p)" for t
    using ran(5,6) by (cases t) (simp_all add: bytes_at_def)
  have final: "bytes_at t w1 p = bytes_at t w2 p" for t using ran(8,9) idle by (cases t) (auto simp: bytes_at_def)
  have in_ops: "UploadFile p \<in> set ops" if "?v p \<in> {Up, Clash OnLocal}"
    using that unfolding ops file_ops_def by (auto simp: sets in_wins)
  have in_ops': "DownloadFile p \<in> set ops" if "?v p \<in> {Down, Clash OnRemote}"
    using that unfolding ops file_ops_def by (auto simp: sets in_wins)
  have keep_v: "p \<in> set (dir_keep_paths plan)" if "?v p \<in> {Up, Down, Clash OnLocal, Clash OnRemote}"
    using that unfolding dir_keep_paths_def by (auto simp: sets in_wins)
  have cleared: "bytes_at t w2 p = None" if gone: "?v p \<in> {DropLocal, DropRemote}" for t
  proof (cases "\<exists>y \<in> set ops. hits y t p")
    case True
    have "\<forall>y \<in> set ops. hits y t p \<longrightarrow> deletes y"
      using on_local on_remote gone dir_ops_delete by (cases t) (metis deletes.simps insertE singletonD verdict.distinct)+
    from vals(4) [OF True this] show ?thesis .
  next
    case False
    have "?v p = DropLocal \<Longrightarrow> DeleteLocalFile p \<in> set ops \<and> map_of (sv_files ?sv) p = None"
      "?v p = DropRemote \<Longrightarrow> DeleteRemoteFile p \<in> set ops \<and> map_of local p = None"
      unfolding ops file_ops_def by (auto simp: sets v decide_def split: option.splits if_splits)
    moreover have "\<not> (t = OnLocal \<and> DeleteLocalFile p \<in> set ops)" "\<not> (t = OnRemote \<and> DeleteRemoteFile p \<in> set ops)"
      using False by force+
    ultimately have "map_of (tr_files (tree_of t w)) p = None" using gone
      by (cases t) (auto simp: entries)
    with vals(1) [of t p] False start show ?thesis by auto
  qed
  have no_dir: "x \<notin> set (dir_ops dirs)" if "hits x s p" "?v p \<in> {Up, Down, Clash OnLocal, Clash OnRemote}" for x s
    using spared that keep_v by blast
  define known where "known \<longleftrightarrow> env_readable env \<and> \<not> (tr_files (w_remote w) = [] \<and> tr_dirs (w_remote w) = []) \<and>
     map_of (an_files (w_state w)) p \<noteq> None \<and> (\<exists>t. map_of (tr_files (tree_of t w)) p = None)"
  have drop: "?v p \<in> {DropLocal, DropRemote}" if known
  proof -
    obtain s t where s: "map_of (tr_files (tree_of s w)) p = None" and t: "map_of (tr_files (tree_of t w)) p \<noteq> None"
      using somewhere \<open>known\<close> unfolding known_def by blast
    then have "t = other_side s" by (cases s; cases t) auto
    moreover have "map_of (an_files anc) p \<noteq> None" using ran(2) \<open>known\<close> unfolding known_def by (auto split: if_splits)
    ultimately show ?thesis unfolding v entries using s t by (cases s) (auto simp: decide_def)
  qed
  consider "?v p = Leave" | "?v p \<in> {Up, Clash OnLocal}" | "?v p \<in> {Down, Clash OnRemote}" | "?v p \<in> {DropLocal, DropRemote}"
    by (cases "?v p") (metis insertCI side.exhaust)+
  then show ?thesis
  proof cases
    case 1
    then obtain f g where f: "map_of (tr_files (w_local w)) p = Some f" and g: "map_of (tr_files (w_remote w)) p = Some g"
      and "sameContent (entry_of sha f) (entry_of sha g)"
      using somewhere unfolding v entries
      by (rule agreement)
    then have "f_bytes f = f_bytes g" using hash by (simp add: sameContent_def entry_of_def inj_eq)
    moreover have all: "\<forall>t. seen t w p" using f g seen_iff by (metis option.distinct(1) side.exhaust tree_of_simps)
    have "\<forall>y \<in> set ops. \<not> hits y t p" for t
      using on_local on_remote spared all 1 by (cases t) (metis insertE singletonD verdict.distinct)+
    ultimately have "bytes_at OnLocal w2 p = bytes_at OnRemote w2 p" using vals(1) start f g by simp
    then show ?thesis unfolding final known_def [symmetric] using drop 1 by auto
  next
    case 2
    then have v2: "?v p \<in> {Up, Down, Clash OnLocal, Clash OnRemote}" by blast
    have up: "y = UploadFile p" if "y \<in> set ops" "hits y OnRemote p" for y
      using on_remote [OF that] no_dir [OF that(2) v2] 2 by auto
    have "\<not> hits y OnLocal p" if "y \<in> set ops" for y
      using on_local [OF that] no_dir [OF _ v2, of y OnLocal] 2 by auto
    with up have "\<forall>y \<in> set ops. hits y OnRemote p \<longrightarrow> y = UploadFile p" "\<forall>y \<in> set ops. \<not> hits y OnLocal p"
      by simp_all
    from vals(2) [OF in_ops [OF 2] this] vals(1) [OF this(2)] show ?thesis unfolding final known_def [symmetric] using drop 2 by auto
  next
    case 3
    then have v3: "?v p \<in> {Up, Down, Clash OnLocal, Clash OnRemote}" by blast
    have down: "y = DownloadFile p" if "y \<in> set ops" "hits y OnLocal p" for y
      using on_local [OF that] no_dir [OF that(2) v3] 3 by auto
    have "\<not> hits y OnRemote p" if "y \<in> set ops" for y
      using on_remote [OF that] no_dir [OF _ v3, of y OnRemote] 3 by auto
    with down have "\<forall>y \<in> set ops. hits y OnLocal p \<longrightarrow> y = DownloadFile p" "\<forall>y \<in> set ops. \<not> hits y OnRemote p"
      by simp_all
    from vals(3) [OF in_ops' [OF 3] this] vals(1) [OF this(2)] show ?thesis unfolding final known_def [symmetric] using drop 3 by auto
  next
    case 4
    from cleared [OF 4] show ?thesis unfolding final known_def [symmetric] by simp
  qed
qed simp

text \<open>
  A sync that finishes leaves the computer and the workspace with the same bytes at every
  path either of them had, apart from oversized files and what the walk of the computer cannot reach,
  provided SHA-256 tells different contents apart.
\<close>

theorem finished_sync_agrees:
  assumes "folder_ok sha cache w" and "inj sha"
    and "runSync sha collate env name cache (full_listing sha name (w_remote w)) w = (w1, Inr result)" and "env_edit env = id"
    and "\<exists>s. map_of (tr_files (tree_of s w)) p \<noteq> None" and "walked p"
    and "\<And>s f. map_of (tr_files (tree_of s w)) p = Some f \<Longrightarrow> \<not> oversized (length (f_bytes f))"
  shows "bytes_at OnLocal w1 p = bytes_at OnRemote w1 p"
  using finished_sync_outcome [OF assms(1-6)] assms(7) by blast

text \<open>
  What somebody changed is lost when the other side deleted the file: a sync that finishes
  deletes a file the ancestor knows and the workspace no longer has, whatever its bytes are now, and keeps
  no copy. The planner never compares the surviving side with the ancestor in this case.
\<close>

theorem edit_lost_to_delete:
  assumes "folder_ok sha cache w" and "inj sha"
    and "runSync sha collate env name cache (full_listing sha name (w_remote w)) w = (w1, Inr result)" and "env_edit env = id"
    and "env_readable env" and "tr_files (w_remote w) \<noteq> []"
    and "map_of (tr_files (w_local w)) p = Some edited" and "map_of (tr_files (w_remote w)) p = None"
    and "map_of (an_files (w_state w)) p = Some synced"
    and "walked p" and "\<not> oversized (length (f_bytes edited))"
  shows "bytes_at OnLocal w1 p = None \<and> bytes_at OnRemote w1 p = None"
proof -
  have small: "\<not> oversized (length (f_bytes f))" if "map_of (tr_files (tree_of s w)) p = Some f" for s f
    using that assms(7,8,11) by (cases s) auto
  have somewhere: "\<exists>s. map_of (tr_files (tree_of s w)) p \<noteq> None" using assms(7) by (metis option.discI tree_of_simps(1))
  have "\<exists>t. map_of (tr_files (tree_of t w)) p = None" using assms(8) by (metis tree_of_simps(2))
  with finished_sync_outcome [OF assms(1-4) somewhere assms(10)] small assms(5,6,9) show ?thesis by auto
qed

text \<open>
  Files that are never synced are erased with their directory: when the workspace no longer
  has a directory the ancestor knows, and everything synced below it is gone there too, a sync that finishes
  removes the directory on the computer with all it holds, the ignored and the oversized files included.
\<close>

theorem directory_delete_erases_unsynced:
  assumes ok: "folder_ok sha cache w"
    and finished: "runSync sha collate env name cache (full_listing sha name (w_remote w)) w = (w1, Inr result)" and idle: "env_edit env = id"
    and "env_readable env" and "tr_files (w_remote w) \<noteq> []"
    and d: "d \<in> set (walkLocalDirs (w_local w))" "d \<notin> set (tr_dirs (w_remote w))" "d \<in> set (an_dirs (w_state w))"
    and gone: "\<And>p. under d p \<Longrightarrow> map_of (tr_files (w_remote w)) p = None"
    and synced: "\<And>p. under d p \<Longrightarrow> seen OnLocal w p \<Longrightarrow> map_of (an_files (w_state w)) p \<noteq> None"
    and q: "under d q"
  shows "bytes_at OnLocal w1 q = None"
  using finished ok
proof (cases rule: runSync_cases)
  case (ran local skipped excluded anc plan ops found w0 w2 r2)
  let ?sv = "view_of sha name (w_remote w)"
  note views = views [where name = name, OF ok ran(1) refl]
  let ?v = "verdict_at local (sv_files ?sv) (an_files anc) (excluded @ sv_excluded ?sv)"
  define dirs where "dirs = planDirs (walkLocalDirs (w_local w)) (sv_dirs ?sv) (Some (an_dirs anc)) (dir_keep_paths plan)"
  let ?claimed = "map fst local @ map fst (sv_files ?sv) @ map fst (an_files anc) @ walkLocalDirs (w_local w) @ sv_dirs ?sv"
  from ran(10) obtain m where r2: "r2 = Inr m" and found by (cases r2) auto
  obtain kept where plan: "plan = planSync collate local (sv_files ?sv) (Some (an_files anc)) (excluded @ sv_excluded ?sv) (env_date env)"
    and kept: "keep_names (w_local w) (env_date env) ?claimed (sp_copies plan) = (kept, True)"
    and ops: "ops = keep_ops kept @ file_ops plan (map snd kept) @ dir_ops dirs"
    using ran(4) \<open>found\<close> unfolding sync_ops_def Let_def dirs_def by (auto split: prod.splits)
  note sets = set_planSync [of collate local "sv_files ?sv" "Some (an_files anc)" "excluded @ sv_excluded ?sv" "env_date env", folded plan, simplified]
  have anc: "an_files anc = an_files (w_state w)" "an_dirs anc = an_dirs (w_state w)"
    using ran(2,3) assms(4,5) by auto
  have still: "?v p \<in> {Leave, DropLocal}" if p: "under d p" for p
  proof -
    have "map_of (sv_files ?sv) p = None" using gone [OF p] seenD [of OnRemote w p] by (auto simp: views(2))
    moreover have "map_of local p \<noteq> None \<Longrightarrow> map_of (an_files anc) p \<noteq> None"
      using synced [OF p] by (auto simp: views(1) anc split: if_splits)
    ultimately show ?thesis by (auto simp: verdict_at_def decide_def split: option.splits)
  qed
  then have unmoved: "\<not> under d p" if "?v p \<notin> {Leave, DropLocal}" for p using that by blast
  have apart: "\<not> under d p" if "p \<in> set (dir_keep_paths plan)" for p
    using that unmoved under_conflictName
    unfolding dir_keep_paths_def by (force simp: sets in_wins copy_for_def)
  have copies: "\<not> under d k" if "(c, k) \<in> set kept" for c k
  proof -
    from keep_names_spec [OF kept] that obtain n where k: "k = conflictName (cc_path c) (env_date env) n" and "c \<in> set (sp_copies plan)" by auto
    then have "?v (cc_path c) \<notin> {Leave, DropLocal}" by (auto simp: sets copy_for_def)
    from unmoved [OF this] show ?thesis unfolding k using under_conflictName by blast
  qed
  have "d \<in> set (dp_delete_local dirs)"
    using d views(7) apart ancestor_under unfolding dirs_def planDirs_delete anc by auto
  then have "\<exists>y \<in> set ops. hits y OnLocal q" using q unfolding ops dir_ops_def by (auto simp: bex_Un)
  moreover have "deletes y" if y: "y \<in> set ops" "hits y OnLocal q" for y
    using y q copies unmoved dir_ops_delete unfolding ops keep_ops_def file_ops_def by (auto simp: sets in_wins)
  ultimately have "bytes_at OnLocal w2 q = None" using finished_value(4) [OF ran(7) [unfolded r2], of OnLocal q] by blast
  then show ?thesis using ran(8) idle by (simp add: bytes_at_def)
qed simp

subsection \<open>The planner refines the per-path merge\<close>

lemma clashes_paths: "map fst (clashes v ps) = filter (\<lambda>p. \<exists>s. v p = Clash s) ps"
  by (induction ps) (auto simp: clashes_def clash_of_def List.map_filter_simps split: verdict.split)

text \<open>
  The merge a synchroniser promises, on the versions themselves and not on sizes and hashes: a side whose content is
  the ancestor's follows the other; when both moved away from it, two versions clash and the newer wins the name, and
  a deletion beats an edit.
\<close>

definition three_way :: "stored_file option \<Rightarrow> stored_file option \<Rightarrow> stored_file option \<Rightarrow> verdict" where
  "three_way l r b =
     (let content = map_option f_bytes in
      if content l = content r then Leave
      else if content l = content b then (if r = None then DropLocal else Down)
      else if content r = content b then (if l = None then DropRemote else Up)
      else case l of
          None \<Rightarrow> DropRemote
        | Some x \<Rightarrow> (case r of
              None \<Rightarrow> DropLocal
            | Some y \<Rightarrow> Clash (if f_mtime y \<le> f_mtime x then OnLocal else OnRemote)))"

lemma same_entries: "inj sha \<Longrightarrow> sameContent (entry_of sha x) (entry_of sha y) \<longleftrightarrow> f_bytes x = f_bytes y"
  by (simp add: sameContent_def entry_of_def inj_eq)

lemma decide_three_way:
  assumes "inj sha"
  shows "decide (map_option (entry_of sha) l) (map_option (entry_of sha) r) (map_option (entry_of sha) b) = three_way l r b"
proof -
  note same = same_entries [OF assms]
  have time: "en_mtime (entry_of sha x) = f_mtime x" for x by (simp add: entry_of_def)
  show ?thesis
    by (cases l; cases r; cases b) (simp_all add: decide_def three_way_def changed_def same time Let_def)
qed

text \<open>
  Property C22. \<open>planSync\<close> implements the three-way merge. Let the manifests describe the files of the computer, of the
  workspace and of the last sync, and let the hash tell their contents apart. Then a path that is not
  excluded is in exactly the list its merge verdict names, in one list only and once, with the merge's
  winner and one kept copy of the other side for every clash.
\<close>

theorem plan_refines_merge:
  fixes local_files remote_files base_files :: "path \<Rightarrow> stored_file option" and local remote base collate excluded d
  defines "v \<equiv> \<lambda>p. if p \<in> set excluded then Leave else three_way (local_files p) (remote_files p) (base_files p)"
    and "plan \<equiv> planSync collate local remote (Some base) excluded d"
  assumes "inj sha" and "\<And>p. map_of local p = map_option (entry_of sha) (local_files p)"
    and "\<And>p. map_of remote p = map_option (entry_of sha) (remote_files p)"
    and "\<And>p. map_of base p = map_option (entry_of sha) (base_files p)"
  shows "distinct (sp_upload plan @ sp_download plan @ sp_delete_remote plan @ sp_delete_local plan @ map fst (sp_conflicts plan)) \<and>
    set (sp_upload plan) = {p. v p = Up} \<and> set (sp_download plan) = {p. v p = Down} \<and>
    set (sp_delete_remote plan) = {p. v p = DropRemote} \<and> set (sp_delete_local plan) = {p. v p = DropLocal} \<and>
    set (sp_conflicts plan) = {(p, s). v p = Clash s} \<and> set (sp_copies plan) = copy_for d ` set (sp_conflicts plan)"
proof -
  have v: "verdict_at local remote base excluded = v"
    unfolding v_def by (simp add: fun_eq_iff verdict_at_def decide_three_way assms(3-6))
  note sets = set_planSync [of collate local remote "Some base" excluded d, simplified, unfolded v, folded plan_def]
  let ?ps = "js_set (map fst local @ map fst remote @ map fst base)"
  note fields = plan_fold_fields [of local remote base excluded d, unfolded v]
  have once: "distinct (sp_upload plan)" "distinct (sp_download plan)" "distinct (sp_delete_remote plan)" "distinct (sp_delete_local plan)"
    unfolding plan_def planSync_def Let_def by (simp_all add: fields empty_plan_def)
  have "distinct (map fst (clashes v ?ps))" unfolding clashes_paths by simp
  then have "distinct (map fst (sort_key f (clashes v ?ps)))" for f :: "path \<times> side \<Rightarrow> nat list"
    by (simp add: distinct_map)
  then have "distinct (map fst (sp_conflicts plan))"
    unfolding plan_def planSync_def Let_def by (simp add: fields empty_plan_def)
  with once show ?thesis unfolding sets distinct_append by (auto simp: sets)
qed

subsection \<open>Two more ways to lose an edit\<close>

text \<open>The new ancestor is read from the computer after the files moved, not from what was merged: an edit
  made meanwhile enters the ancestor without ever reaching the workspace, and the next sync takes the
  workspace's older version for the news and downloads it over the edit.\<close>

lemma late_edit_is_reverted:
  assumes "distinct (map fst (tr_files (w_local w)))" and "cache_truthful sha cache (w_local w)" and "cache_truthful sha cache' (w_local w)"
    and "seen_local (w_local w) p" and "map_of (tr_files (w_local w)) p = Some edited"
    and "map_of remote p = Some (entry_of sha old)" and "sha (f_bytes old) \<noteq> sha (f_bytes edited)" and "p \<notin> set excluded"
  shows "p \<in> set (sp_download (planSync collate (fst (localHashed sha cache' (w_local w))) remote
           (Some (an_files (next_ancestor sha cache n w))) excluded d))"
  using assms
  by (simp add: set_planSync next_ancestor_def verdict_at_def decide_def local_entry changed_def sameContent_def entry_of_def)

text \<open>The filter is not symmetric: the walk of the computer does not enter a directory with an ignored
  name, the listing of the workspace drops a file only for its own name.\<close>

lemma ignored_directory_asymmetry: "\<not> walked ''d.tmp/a'' \<and> \<not> ignoredPath ''d.tmp/a''"
  by code_simp

subsection \<open>Concrete folders\<close>

definition demo_date :: date where
  "demo_date = \<lparr>da_year = 2026, da_month = 8, da_day = 7, da_hours = 14, da_minutes = 32, da_seconds = 0\<rparr>"

definition demo_env :: environment where
  "demo_env = \<lparr>env_readable = True, env_reset = True, env_record = True, env_held = 5, env_now = 9, env_date = demo_date, env_edit = id\<rparr>"

definition demo_file :: "bytes \<Rightarrow> int \<Rightarrow> stored_file" where
  "demo_file b t = \<lparr>f_bytes = b, f_mtime = t\<rparr>"

definition demo_base :: "string \<Rightarrow> entry" where
  "demo_base b = \<lparr>en_mtime = 0, en_size = length b, en_hash = Some b\<rparr>"

text \<open>A file edited on the computer (\<open>e\<close>) that the workspace deleted, one both sides keep, and one
  changed on both sides; SHA-256 is played by the identity.\<close>

definition demo_edit :: world where
  "demo_edit = \<lparr>w_local = \<lparr>tr_files = [(''e'', demo_file ''new'' 5), (''k'', demo_file ''k'' 1)], tr_dirs = []\<rparr>,
     w_remote = \<lparr>tr_files = [(''k'', demo_file ''k'' 1)], tr_dirs = []\<rparr>,
     w_state = \<lparr>an_rev = 3, an_files = [(''e'', demo_base ''old''), (''k'', demo_base ''k'')], an_dirs = []\<rparr>\<rparr>"

definition demo_clash :: world where
  "demo_clash = \<lparr>w_local = \<lparr>tr_files = [(''e'', demo_file ''mine'' 5)], tr_dirs = []\<rparr>,
     w_remote = \<lparr>tr_files = [(''e'', demo_file ''yours'' 7)], tr_dirs = []\<rparr>,
     w_state = \<lparr>an_rev = 3, an_files = [(''e'', demo_base ''old'')], an_dirs = []\<rparr>\<rparr>"

text \<open>A directory the workspace deleted that holds an editor backup on the computer.\<close>

definition demo_dir :: world where
  "demo_dir = \<lparr>w_local = \<lparr>tr_files = [(''d/x~'', demo_file ''draft'' 5), (''k'', demo_file ''k'' 1)], tr_dirs = [''d'']\<rparr>,
     w_remote = \<lparr>tr_files = [(''k'', demo_file ''k'' 1)], tr_dirs = []\<rparr>,
     w_state = \<lparr>an_rev = 3, an_files = [(''k'', demo_base ''k'')], an_dirs = [''d'']\<rparr>\<rparr>"

lemma demo_paths [simp]:
  "walked ''e''" "walked ''k''" "walked ''d''" "\<not> walked ''d/x~''" "\<not> ignoredPath ''e''" "\<not> ignoredPath ''k''"
  "ancestor_dirs ''e'' = []" "ancestor_dirs ''k'' = []" "ancestor_dirs ''d/x~'' = [''d'']"
  by code_simp+

lemma small_file [simp]: "n < 100 \<Longrightarrow> \<not> oversized n"
  by (simp add: oversized_def FOLDER_MAX_FILE_MB_def)

lemma demo_idle: "env_edit demo_env = id"
  by (simp add: demo_env_def)

lemmas demo_defs = demo_edit_def demo_clash_def demo_dir_def demo_file_def demo_base_def demo_env_def

lemma demo_ok: "folder_ok id [] demo_edit" "folder_ok id [] demo_clash" "folder_ok id [] demo_dir"
  by (simp_all add: folder_ok_def tree_wf_def cache_truthful_def demo_defs under_def starts_with_def)

lemmas run_defs = runSync_def localHashed_def walkLocal_def stat_of_def hashCandidates_def mergeHashed_def List.map_filter_simps
  serverTree_def full_listing_def relative_path_def starts_with_def loadAncestor_def loadState_def sync_ops_def planSync_def
  js_set_def plan_path_def empty_plan_def sameContent_def changed_def planDirs_def plan_dir_def walkLocalDirs_def dir_keep_paths_def
  wins_def keep_ops_def file_ops_def dir_ops_def putState_def

lemma demo_finishes:
  "snd (runSync id (\<lambda>_. []) demo_env ''f'' [] (full_listing id ''f'' (w_remote demo_edit)) demo_edit) =
     Inr \<lparr>so_synced = 1, so_conflicts = 0, so_skipped = 0\<rparr>"
  "snd (runSync id (\<lambda>_. []) demo_env ''f'' [] (full_listing id ''f'' (w_remote demo_dir)) demo_dir) =
     Inr \<lparr>so_synced = 0, so_conflicts = 0, so_skipped = 0\<rparr>"
  by (simp_all add: demo_defs run_defs)

text \<open>Two texts of one length: the workspace's is the news.\<close>

theorem plan_refines_merge_witness:
  "set (sp_download (planSync (\<lambda>_. []) [(''e'', entry_of id (demo_file ''old'' 5))] [(''e'', entry_of id (demo_file ''new'' 7))]
     (Some [(''e'', entry_of id (demo_file ''old'' 1))]) [] demo_date)) = {''e''}"
proof -
  have e: "map_of [(''e'', entry_of id f)] p = map_option (entry_of id) (if p = ''e'' then Some f else None)" for f p
    by simp
  show ?thesis
    using plan_refines_merge [OF inj_on_id e [of "demo_file ''old'' 5"] e [of "demo_file ''new'' 7"] e [of "demo_file ''old'' 1"],
        of "\<lambda>_. []" "[]" demo_date]
    by (auto simp: three_way_def demo_file_def)
qed


theorem finished_sync_agrees_witness:
  "let w1 = fst (runSync id (\<lambda>_. []) demo_env ''f'' [] (full_listing id ''f'' (w_remote demo_edit)) demo_edit) in
   bytes_at OnLocal w1 ''k'' = bytes_at OnRemote w1 ''k''"
proof -
  have "\<exists>s. map_of (tr_files (tree_of s demo_edit)) ''k'' \<noteq> None" by (rule exI [of _ OnLocal]) (simp add: demo_defs)
  moreover have "\<not> oversized (length (f_bytes f))" if "map_of (tr_files (tree_of s demo_edit)) ''k'' = Some f" for s f
    using that by (cases s) (auto simp: demo_defs)
  moreover have "runSync id (\<lambda>_. []) demo_env ''f'' [] (full_listing id ''f'' (w_remote demo_edit)) demo_edit =
      (fst (runSync id (\<lambda>_. []) demo_env ''f'' [] (full_listing id ''f'' (w_remote demo_edit)) demo_edit),
       Inr \<lparr>so_synced = 1, so_conflicts = 0, so_skipped = 0\<rparr>)"
    using demo_finishes(1) by (metis prod.collapse)
  ultimately show ?thesis using finished_sync_agrees [OF demo_ok(1) inj_on_id _ demo_idle, of "\<lambda>_. []" "''f''"] by (simp add: Let_def)
qed

theorem edit_lost_to_delete_witness:
  "let w1 = fst (runSync id (\<lambda>_. []) demo_env ''f'' [] (full_listing id ''f'' (w_remote demo_edit)) demo_edit) in
   bytes_at OnLocal demo_edit ''e'' = Some ''new'' \<and> bytes_at OnLocal w1 ''e'' = None \<and> bytes_at OnRemote w1 ''e'' = None"
proof -
  have run: "runSync id (\<lambda>_. []) demo_env ''f'' [] (full_listing id ''f'' (w_remote demo_edit)) demo_edit =
      (fst (runSync id (\<lambda>_. []) demo_env ''f'' [] (full_listing id ''f'' (w_remote demo_edit)) demo_edit),
       Inr \<lparr>so_synced = 1, so_conflicts = 0, so_skipped = 0\<rparr>)"
    using demo_finishes(1) by (metis prod.collapse)
  show ?thesis
    using edit_lost_to_delete [OF demo_ok(1) inj_on_id run demo_idle, of "''e''" "demo_file ''new'' 5" "demo_base ''old''"]
    by (simp add: Let_def demo_defs bytes_at_def)
qed

theorem directory_delete_erases_unsynced_witness:
  "let w1 = fst (runSync id (\<lambda>_. []) demo_env ''f'' [] (full_listing id ''f'' (w_remote demo_dir)) demo_dir) in
   bytes_at OnLocal demo_dir ''d/x~'' = Some ''draft'' \<and> bytes_at OnLocal w1 ''d/x~'' = None"
proof -
  have run: "runSync id (\<lambda>_. []) demo_env ''f'' [] (full_listing id ''f'' (w_remote demo_dir)) demo_dir =
      (fst (runSync id (\<lambda>_. []) demo_env ''f'' [] (full_listing id ''f'' (w_remote demo_dir)) demo_dir),
       Inr \<lparr>so_synced = 0, so_conflicts = 0, so_skipped = 0\<rparr>)"
    using demo_finishes(2) by (metis prod.collapse)
  have gone: "map_of (tr_files (w_remote demo_dir)) p = None" if "under ''d'' p" for p
    using that by (auto simp: demo_defs under_iff)
  have unsynced: "\<not> seen OnLocal demo_dir p" if "under ''d'' p" for p
    using that by (auto simp: demo_defs under_iff seen_def seen_local_def)
  show ?thesis
    using directory_delete_erases_unsynced [OF demo_ok(3) run demo_idle, of "''d''" "''d/x~''"] gone unsynced
    by (simp add: Let_def demo_defs bytes_at_def walkLocalDirs_def under_def starts_with_def)
qed

end
