(* ===== verification/Guarded_Fetch.thy ===== *)
theory Guarded_Fetch
  imports Js_Text "HOL-Library.Word"
begin

unbundle bit_operations_syntax

section \<open>Requests to addresses somebody else chose (src/lib/net/ssrf.ts, sandbox-controller/ip-guard.js)\<close>

text \<open>
  The address guard decides on the bytes of an address; the guarded fetch resolves every hop, pins
  the connection to the vetted addresses and follows redirects itself. Parameters: \<open>parse\<close> and
  \<open>parse_ref\<close> are the URL parser of the platform (\<open>None\<close> when it throws), \<open>is_v6\<close> is Node's
  \<open>isIPv6\<close>, \<open>lookup n\<close> what DNS answers to the n-th request of a chain and \<open>serve n\<close> what the
  server connected to answers, so neither has to be consistent from one hop to the next. Timeouts
  and abort signals only end a chain early and are left out, as are the pooling of sockets and the
  bodies of responses.
\<close>

subsection \<open>Addresses (ip-guard.js)\<close>

type_synonym byte = "8 word"

definition is_digit :: "char \<Rightarrow> bool" where
  "is_digit c \<longleftrightarrow> 48 \<le> (of_char c :: nat) \<and> (of_char c :: nat) \<le> 57"

definition dec_value :: "string \<Rightarrow> nat" where
  "dec_value s = foldl (\<lambda>n c. 10 * n + (of_char c - 48)) 0 s"

text \<open>Node's \<open>isIPv4\<close>: four decimal octets without leading zeros.\<close>

definition octet_text :: "string \<Rightarrow> bool" where
  "octet_text s \<longleftrightarrow> s \<noteq> [] \<and> length s \<le> 3 \<and> list_all is_digit s \<and> dec_value s \<le> 255 \<and> (length s = 1 \<or> hd s \<noteq> CHR ''0'')"

definition is_v4 :: "string \<Rightarrow> bool" where
  "is_v4 s \<longleftrightarrow> length (split_on CHR ''.'' s) = 4 \<and> list_all octet_text (split_on CHR ''.'' s)"

definition hex_digit :: "char \<Rightarrow> nat option" where
  "hex_digit c = (let n = of_char c :: nat in
     if 48 \<le> n \<and> n \<le> 57 then Some (n - 48)
     else if 97 \<le> n \<and> n \<le> 102 then Some (n - 87)
     else if 65 \<le> n \<and> n \<le> 70 then Some (n - 55) else None)"

text \<open>\<open>parseInt(g, 16)\<close>: the longest prefix of hexadecimal digits, \<open>None\<close> for \<open>NaN\<close>.\<close>

definition parse_hex :: "string \<Rightarrow> nat option" where
  "parse_hex s =
     (case takeWhile (\<lambda>c. hex_digit c \<noteq> None) s of
        [] \<Rightarrow> None
      | ds \<Rightarrow> Some (foldl (\<lambda>n c. 16 * n + the (hex_digit c)) 0 ds))"

definition octet_at :: "nat list \<Rightarrow> nat \<Rightarrow> nat" where
  "octet_at q i = (if i < length q then q ! i else 0)"

definition to_words :: "string \<Rightarrow> nat option list" where
  "to_words part =
     (if part = [] then []
      else let groups = split_on CHR '':'' part; final = last groups in
        if CHR ''.'' \<in> set final then
          (let quad = map dec_value (split_on CHR ''.'' final) in
           map parse_hex (butlast groups) @
             [Some (octet_at quad 0 * 256 + octet_at quad 1), Some (octet_at quad 2 * 256 + octet_at quad 3)])
        else map parse_hex groups)"

text \<open>\<open>ip.split("::")\<close>: the text before the first \<open>::\<close> and, if there is one, the text up to the next.\<close>

fun double_colon :: "string \<Rightarrow> string \<times> string option" where
  "double_colon (a # b # s) =
     (if a = CHR '':'' \<and> b = CHR '':'' then ([], Some (fst (double_colon s)))
      else case double_colon (b # s) of (left, right) \<Rightarrow> (a # left, right))"
| "double_colon s = (s, None)"

definition ipv6Bytes :: "(string \<Rightarrow> bool) \<Rightarrow> string \<Rightarrow> byte list option" where
  "ipv6Bytes is_v6 ip =
     (if \<not> is_v6 ip then None
      else case double_colon ip of
        (before, after) \<Rightarrow>
          let left = to_words before;
              right = (case after of None \<Rightarrow> [] | Some t \<Rightarrow> to_words t);
              ws = left @ replicate (8 - length left - length right) (Some 0) @ right
          in if after = None \<and> length left \<noteq> 8 then None
             else if length ws \<noteq> 8 \<or> list_ex (\<lambda>w. case w of None \<Rightarrow> True | Some n \<Rightarrow> 65535 < n) ws then None
             else Some (concat (map (\<lambda>w. [word_of_nat (the w div 256), word_of_nat (the w)]) ws)))"

definition zeros :: "byte list \<Rightarrow> nat \<Rightarrow> nat \<Rightarrow> bool" where
  "zeros b from_byte to_byte \<longleftrightarrow> list_all (\<lambda>x. x = 0) (take (to_byte - from_byte) (drop from_byte b))"

definition isLocalUseNat64 :: "byte list \<Rightarrow> bool" where
  "isLocalUseNat64 b \<longleftrightarrow> b ! 0 = 0 \<and> b ! 1 = 0x64 \<and> b ! 2 = 0xff \<and> b ! 3 = 0x9b \<and> b ! 4 = 0 \<and> b ! 5 = 1"

definition dotted :: "byte list \<Rightarrow> string" where
  "dotted os = join_with ''.'' (map (\<lambda>o'. decimal (unat o')) os)"

definition embeddedIPv4 :: "byte list \<Rightarrow> string option" where
  "embeddedIPv4 b =
     (let tail_quad = dotted [b ! 12, b ! 13, b ! 14, b ! 15] in
      if zeros b 0 10 \<and> b ! 10 = 0xff \<and> b ! 11 = 0xff then Some tail_quad
      else if b ! 0 = 0 \<and> b ! 1 = 0x64 \<and> b ! 2 = 0xff \<and> b ! 3 = 0x9b \<and> zeros b 4 12 then Some tail_quad
      else if isLocalUseNat64 b \<and> b ! 8 = 0 then Some (dotted [b ! 6, b ! 7, b ! 9, b ! 10])
      else if zeros b 0 12 \<and> \<not> (b ! 12 = 0 \<and> b ! 13 = 0 \<and> b ! 14 = 0 \<and> b ! 15 \<le> 1) then Some tail_quad
      else None)"

definition blocked_v4 :: "nat list \<Rightarrow> bool \<Rightarrow> bool" where
  "blocked_v4 oct blockPrivate =
     (if oct ! 0 = 0 then True
      else if oct ! 0 = 169 \<and> oct ! 1 = 254 then True
      else if 224 \<le> oct ! 0 then True
      else if \<not> blockPrivate then False
      else if oct ! 0 = 127 then True
      else if oct ! 0 = 10 then True
      else if oct ! 0 = 172 \<and> 16 \<le> oct ! 1 \<and> oct ! 1 \<le> 31 then True
      else if oct ! 0 = 192 \<and> oct ! 1 = 168 then True
      else if oct ! 0 = 100 \<and> 64 \<le> oct ! 1 \<and> oct ! 1 \<le> 127 then True
      else False)"

definition blocked_v6 :: "byte list \<Rightarrow> bool \<Rightarrow> bool" where
  "blocked_v6 b blockPrivate =
     (if zeros b 0 16 then True
      else if b ! 0 = 0xfe \<and> b ! 1 AND 0xc0 = 0x80 then True
      else if b ! 0 = 0xff then True
      else if isLocalUseNat64 b then True
      else if \<not> blockPrivate then False
      else if zeros b 0 15 \<and> b ! 15 = 1 then True
      else if b ! 0 AND 0xfe = 0xfc then True
      else False)"

definition isBlockedAddress :: "(string \<Rightarrow> bool) \<Rightarrow> string \<Rightarrow> bool \<Rightarrow> bool" where
  "isBlockedAddress is_v6 ip blockPrivate =
     (let bytes = ipv6Bytes is_v6 ip;
          v4 = (case bytes of None \<Rightarrow> ip | Some b \<Rightarrow> (case embeddedIPv4 b of Some d \<Rightarrow> d | None \<Rightarrow> ip))
      in if is_v4 v4 then blocked_v4 (map dec_value (split_on CHR ''.'' v4)) blockPrivate
         else case bytes of None \<Rightarrow> True | Some b \<Rightarrow> blocked_v6 b blockPrivate)"

subsection \<open>URLs, requests and one pinned connection (ssrf.ts)\<close>

record url =
  u_scheme :: string
  u_hostname :: string
  u_port :: string
  u_rest :: string

definition origin_of :: "url \<Rightarrow> string \<times> string \<times> string" where
  "origin_of u = (u_scheme u, u_hostname u, u_port u)"

datatype unsafe_reason = Blocked | Unresolved | Invalid
datatype fetch_error = Unsafe unsafe_reason | TooManyRedirects | BadLocation | NetworkError

record request =
  rq_method :: "string option"
  rq_headers :: "(string \<times> string) list" \<comment> \<open>a \<open>Headers\<close>: names in lower case\<close>
  rq_body :: "string option"

record response =
  rs_status :: nat
  rs_location :: "string option" \<comment> \<open>\<open>None\<close> when absent or empty\<close>

record connection =
  cn_url :: url
  cn_addresses :: "string list"
  cn_request :: request

definition bareHostname :: "url \<Rightarrow> string" where
  "bareHostname u =
     (if starts_with ''['' (u_hostname u) \<and> ends_with '']'' (u_hostname u)
      then take (length (u_hostname u) - 2) (drop 1 (u_hostname u)) else u_hostname u)"

definition resolveGuarded ::
  "(string \<Rightarrow> bool) \<Rightarrow> (string \<Rightarrow> string list option) \<Rightarrow> string \<Rightarrow> bool \<Rightarrow> fetch_error + string list" where
  "resolveGuarded is_v6 lookup host blockPrivate =
     (case lookup host of
        None \<Rightarrow> Inl (Unsafe Unresolved)
      | Some addrs \<Rightarrow>
          if list_ex (\<lambda>a. isBlockedAddress is_v6 a blockPrivate) addrs then Inl (Unsafe Blocked) else Inr addrs)"

definition assertHttpUrl :: "url option \<Rightarrow> fetch_error + url" where
  "assertHttpUrl parsed =
     (case parsed of
        None \<Rightarrow> Inl (Unsafe Invalid)
      | Some u \<Rightarrow> if u_scheme u \<noteq> ''http:'' \<and> u_scheme u \<noteq> ''https:'' then Inl (Unsafe Invalid) else Inr u)"

definition method_of :: "request \<Rightarrow> string" where
  "method_of r = upper (case rq_method r of Some m \<Rightarrow> m | None \<Rightarrow> ''GET'')"

text \<open>\<open>fetch\<close> itself refuses a body on GET and HEAD, and fails when the network does (\<open>None\<close>).\<close>

definition guardedFetchOnce ::
  "(string \<Rightarrow> bool) \<Rightarrow> (string \<Rightarrow> string list option) \<Rightarrow> (connection \<Rightarrow> response option) \<Rightarrow> url option \<Rightarrow> bool \<Rightarrow> request \<Rightarrow>
   connection list \<times> (fetch_error + response)" where
  "guardedFetchOnce is_v6 lookup serve target blockPrivate init =
     (case assertHttpUrl target of
        Inl e \<Rightarrow> ([], Inl e)
      | Inr u \<Rightarrow> (case resolveGuarded is_v6 lookup (bareHostname u) blockPrivate of
          Inl e \<Rightarrow> ([], Inl e)
        | Inr addrs \<Rightarrow>
            if rq_body init \<noteq> None \<and> method_of init \<in> {''GET'', ''HEAD''} then ([], Inl NetworkError)
            else let c = \<lparr>cn_url = u, cn_addresses = addrs, cn_request = init\<rparr> in
              case serve c of None \<Rightarrow> ([c], Inl NetworkError) | Some res \<Rightarrow> ([c], Inr res)))"

subsection \<open>Redirects (createGuardedFetch)\<close>

definition MAX_REDIRECTS :: nat where "MAX_REDIRECTS = 5"

definition CROSS_ORIGIN_SAFE :: "string set" where
  "CROSS_ORIGIN_SAFE = {''accept'', ''accept-encoding'', ''accept-language'', ''content-type'', ''user-agent''}"

definition set_header :: "string \<times> string \<Rightarrow> (string \<times> string) list \<Rightarrow> (string \<times> string) list" where
  "set_header kv hs = filter (\<lambda>(k, v). k \<noteq> lower (fst kv)) hs @ [(lower (fst kv), snd kv)]"

definition hop_headers :: "(string \<times> string) list \<Rightarrow> bool \<Rightarrow> (string \<times> string) list \<Rightarrow> (string \<times> string) list" where
  "hop_headers fixed trusted hs =
     (if trusted then fold set_header fixed hs else filter (\<lambda>(k, v). k \<in> CROSS_ORIGIN_SAFE) hs)"

definition preserves :: "response \<Rightarrow> bool" where
  "preserves res \<longleftrightarrow> rs_status res = 307 \<or> rs_status res = 308"

definition next_init :: "response \<Rightarrow> request \<Rightarrow> request" where
  "next_init res init =
     (if preserves res \<or> method_of init = ''GET'' \<or> method_of init = ''HEAD'' then init
      else init\<lparr>rq_method := Some ''GET'', rq_body := None\<rparr>)"

function doFetch ::
  "(string \<Rightarrow> bool) \<Rightarrow> (string \<Rightarrow> url \<Rightarrow> url option) \<Rightarrow> (nat \<Rightarrow> string \<Rightarrow> string list option) \<Rightarrow>
   (nat \<Rightarrow> connection \<Rightarrow> response option) \<Rightarrow> bool \<Rightarrow> (string \<times> string) list \<Rightarrow>
   url \<Rightarrow> request \<Rightarrow> nat \<Rightarrow> string \<times> string \<times> string \<Rightarrow> bool \<Rightarrow> connection list \<times> (fetch_error + response)" where
  "doFetch is_v6 parse_ref lookup serve blockPrivate fixed u init depth origin stripped =
     (let trusted = (origin_of u = origin \<and> \<not> stripped);
          sent = init\<lparr>rq_headers := hop_headers fixed trusted (rq_headers init)\<rparr>
      in case guardedFetchOnce is_v6 (lookup depth) (serve depth) (Some u) blockPrivate sent of
        (cs, Inl e) \<Rightarrow> (cs, Inl e)
      | (cs, Inr res) \<Rightarrow>
          if \<not> (300 \<le> rs_status res \<and> rs_status res < 400) then (cs, Inr res)
          else case rs_location res of
            None \<Rightarrow> (cs, Inr res)
          | Some loc \<Rightarrow>
              if MAX_REDIRECTS \<le> depth then (cs, Inl TooManyRedirects)
              else case parse_ref loc u of
                None \<Rightarrow> (cs, Inl BadLocation)
              | Some target \<Rightarrow>
                  if u_scheme u = ''https:'' \<and> u_scheme target = ''http:'' then (cs, Inl (Unsafe Blocked))
                  else if preserves res \<and> rq_body init \<noteq> None \<and> origin_of target \<noteq> origin then (cs, Inl (Unsafe Blocked))
                  else case doFetch is_v6 parse_ref lookup serve blockPrivate fixed target (next_init res init) (depth + 1) origin
                      (stripped \<or> origin_of target \<noteq> origin) of (rest, r) \<Rightarrow> (cs @ rest, r))"
  by pat_completeness auto

termination
  by (relation "measure (\<lambda>(_, _, _, _, _, _, _, _, depth, _, _). MAX_REDIRECTS - depth)") (auto simp: MAX_REDIRECTS_def)

declare doFetch.simps [simp del]

definition createGuardedFetch ::
  "(string \<Rightarrow> bool) \<Rightarrow> (string \<Rightarrow> url option) \<Rightarrow> (string \<Rightarrow> url \<Rightarrow> url option) \<Rightarrow> (nat \<Rightarrow> string \<Rightarrow> string list option) \<Rightarrow>
   (nat \<Rightarrow> connection \<Rightarrow> response option) \<Rightarrow> bool \<Rightarrow> (string \<times> string) list \<Rightarrow> string \<Rightarrow> request \<Rightarrow>
   connection list \<times> (fetch_error + response)" where
  "createGuardedFetch is_v6 parse parse_ref lookup serve blockPrivate fixed input init =
     (case parse input of
        None \<Rightarrow> ([], Inl BadLocation)
      | Some u \<Rightarrow> doFetch is_v6 parse_ref lookup serve blockPrivate fixed u init 0 (origin_of u) False)"

definition assertSafeUrl ::
  "(string \<Rightarrow> bool) \<Rightarrow> (string \<Rightarrow> url option) \<Rightarrow> (string \<Rightarrow> string list option) \<Rightarrow> string \<Rightarrow> bool \<Rightarrow> fetch_error option" where
  "assertSafeUrl is_v6 parse lookup raw blockPrivate =
     (case assertHttpUrl (parse raw) of
        Inl e \<Rightarrow> Some e
      | Inr u \<Rightarrow> (case resolveGuarded is_v6 lookup (bareHostname u) blockPrivate of Inl e \<Rightarrow> Some e | Inr _ \<Rightarrow> None))"

datatype url_verdict = Allowed | Refused unsafe_reason

definition preflightUrl ::
  "(string \<Rightarrow> bool) \<Rightarrow> (string \<Rightarrow> url option) \<Rightarrow> (string \<Rightarrow> string list option) \<Rightarrow> string \<Rightarrow> bool \<Rightarrow> url_verdict" where
  "preflightUrl is_v6 parse lookup raw blockPrivate =
     (case assertSafeUrl is_v6 parse lookup raw blockPrivate of
        None \<Rightarrow> Allowed
      | Some (Unsafe r) \<Rightarrow> Refused r
      | Some _ \<Rightarrow> Refused Blocked)"

end
