(* ===== verification/Fetch_Theorems.thy ===== *)
theory Fetch_Theorems
  imports Guarded_Fetch
begin

section \<open>Where a guarded request can go, and what it carries\<close>

subsection \<open>One connection\<close>

lemma once_cases:
  assumes "guardedFetchOnce is_v6 lookup serve target blockPrivate init = (cs, r)"
  shows "\<forall>c \<in> set cs. target = Some (cn_url c) \<and> u_scheme (cn_url c) \<in> {''http:'', ''https:''} \<and> cn_request c = init \<and>
      (\<forall>a \<in> set (cn_addresses c). \<not> isBlockedAddress is_v6 a blockPrivate)"
    "length cs \<le> 1" "r = Inr res \<Longrightarrow> rq_body init \<noteq> None \<Longrightarrow> method_of init \<notin> {''GET'', ''HEAD''}"
  using assms
  by (auto simp: guardedFetchOnce_def assertHttpUrl_def resolveGuarded_def list_ex_iff Let_def split: option.splits sum.splits if_splits)

lemma method_of_headers [simp]: "method_of (init\<lparr>rq_headers := hs\<rparr>) = method_of init"
  by (simp add: method_of_def)

text \<open>One hop: the connections it makes and, if it is followed, the hop after it.\<close>

lemma doFetch_cases:
  assumes "doFetch is_v6 parse_ref lookup serve blockPrivate fixed u init depth origin stripped = (trace, r)"
  obtains (last) cs where "trace = cs" "length cs \<le> 1"
      "\<forall>c \<in> set cs. cn_url c = u \<and> u_scheme u \<in> {''http:'', ''https:''} \<and>
        cn_request c = init\<lparr>rq_headers := hop_headers fixed (origin_of u = origin \<and> \<not> stripped) (rq_headers init)\<rparr> \<and>
        (\<forall>a \<in> set (cn_addresses c). \<not> isBlockedAddress is_v6 a blockPrivate)"
  | (hop) cs res target rest where "trace = cs @ rest" "length cs \<le> 1" "depth < MAX_REDIRECTS"
      "\<forall>c \<in> set cs. cn_url c = u \<and> u_scheme u \<in> {''http:'', ''https:''} \<and>
        cn_request c = init\<lparr>rq_headers := hop_headers fixed (origin_of u = origin \<and> \<not> stripped) (rq_headers init)\<rparr> \<and>
        (\<forall>a \<in> set (cn_addresses c). \<not> isBlockedAddress is_v6 a blockPrivate)"
      "doFetch is_v6 parse_ref lookup serve blockPrivate fixed target (next_init res init) (depth + 1) origin
         (stripped \<or> origin_of target \<noteq> origin) = (rest, r)"
      "\<not> (u_scheme u = ''https:'' \<and> u_scheme target = ''http:'')"
      "rq_body (next_init res init) \<noteq> None \<Longrightarrow> rq_body init \<noteq> None \<and> origin_of target = origin"
proof -
  let ?sent = "init\<lparr>rq_headers := hop_headers fixed (origin_of u = origin \<and> \<not> stripped) (rq_headers init)\<rparr>"
  obtain cs r1 where once: "guardedFetchOnce is_v6 (lookup depth) (serve depth) (Some u) blockPrivate ?sent = (cs, r1)"
    by (metis prod.exhaust)
  note once_facts = once_cases [OF once]
  have conns: "\<forall>c \<in> set cs. cn_url c = u \<and> u_scheme u \<in> {''http:'', ''https:''} \<and> cn_request c = ?sent \<and>
      (\<forall>a \<in> set (cn_addresses c). \<not> isBlockedAddress is_v6 a blockPrivate)"
    using once_facts(1) by auto
  show thesis
  proof (cases "trace = cs")
    case True
    with last conns once_facts(2) show thesis by blast
  next
    case False
    with assms once obtain res loc target rest where
      res: "r1 = Inr res" and deep: "\<not> MAX_REDIRECTS \<le> depth" and ref: "parse_ref loc u = Some target"
      and down: "\<not> (u_scheme u = ''https:'' \<and> u_scheme target = ''http:'')"
      and body: "\<not> (preserves res \<and> rq_body init \<noteq> None \<and> origin_of target \<noteq> origin)"
      and rest: "doFetch is_v6 parse_ref lookup serve blockPrivate fixed target (next_init res init) (depth + 1) origin
         (stripped \<or> origin_of target \<noteq> origin) = (rest, r)" and trace: "trace = cs @ rest"
      by (subst (asm) doFetch.simps) (auto simp: Let_def split: sum.splits if_splits option.splits prod.splits)
    have "rq_body init \<noteq> None \<and> origin_of target = origin" if kept: "rq_body (next_init res init) \<noteq> None"
    proof (cases "preserves res")
      case True
      then show ?thesis using kept body by (simp add: next_init_def)
    next
      case False
      have "method_of init = ''GET'' \<or> method_of init = ''HEAD''" "rq_body init \<noteq> None"
        using kept False by (auto simp: next_init_def split: if_splits)
      with once_facts(3) [OF res] show ?thesis by simp
    qed
    with hop [OF trace once_facts(2) _ conns rest down] deep show thesis by simp
  qed
qed

lemma hop_starts_at:
  assumes "doFetch is_v6 parse_ref lookup serve blockPrivate fixed u init depth origin stripped = (c # trace, r)"
  shows "cn_url c = u"
  using assms by (subst (asm) doFetch.simps)
    (auto simp: Let_def guardedFetchOnce_def assertHttpUrl_def resolveGuarded_def split: sum.splits if_splits option.splits prod.splits)

subsection \<open>Every connection is vetted, the chain is short and never downgrades\<close>

definition vetted :: "(string \<Rightarrow> bool) \<Rightarrow> bool \<Rightarrow> connection \<Rightarrow> bool" where
  "vetted is_v6 blockPrivate c \<longleftrightarrow> u_scheme (cn_url c) \<in> {''http:'', ''https:''} \<and>
     (\<forall>a \<in> set (cn_addresses c). \<not> isBlockedAddress is_v6 a blockPrivate)"

definition no_downgrade :: "connection \<Rightarrow> connection \<Rightarrow> bool" where
  "no_downgrade a b \<longleftrightarrow> (u_scheme (cn_url a) = ''https:'' \<longrightarrow> u_scheme (cn_url b) = ''https:'')"

lemma doFetch_vetted:
  assumes "doFetch is_v6 parse_ref lookup serve blockPrivate fixed u init depth origin stripped = (trace, r)"
  shows "(\<forall>c \<in> set trace. vetted is_v6 blockPrivate c) \<and> length trace + depth \<le> max (Suc MAX_REDIRECTS) (Suc depth) \<and>
    sorted_wrt no_downgrade trace"
  using assms
proof (induction "MAX_REDIRECTS - depth" arbitrary: u init depth stripped trace rule: less_induct)
  case less
  from less.prems show ?case
  proof (cases rule: doFetch_cases)
    case (last cs)
    then show ?thesis by (cases cs) (auto simp: vetted_def)
  next
    case (hop cs res target rest)
    have "MAX_REDIRECTS - (depth + 1) < MAX_REDIRECTS - depth" using hop(3) by simp
    note IH = less.hyps [OF this hop(5)]
    have first: "no_downgrade c d" if c: "c \<in> set cs" and d: "d \<in> set rest" for c d
    proof -
      obtain e ds where rest: "rest = e # ds" using d by (cases rest) auto
      have e: "cn_url e = target" "vetted is_v6 blockPrivate e" using hop_starts_at [OF hop(5) [unfolded rest]] IH rest by auto
      have "no_downgrade c e" using c e hop(4,6) by (auto simp: no_downgrade_def vetted_def)
      moreover have "d = e \<or> no_downgrade e d" using IH d by (auto simp: rest)
      ultimately show ?thesis by (auto simp: no_downgrade_def)
    qed
    have "sorted_wrt no_downgrade cs" using hop(2) by (cases cs) auto
    with IH first hop show ?thesis by (auto simp: sorted_wrt_append vetted_def)
  qed
qed

text \<open>
  Property C23. Whatever DNS answers and wherever servers redirect, a guarded fetch opens at most six
  connections, each over HTTP or HTTPS and pinned to addresses the guard allows, and once a connection was
  HTTPS every later one is.
\<close>

theorem every_hop_is_vetted:
  assumes "createGuardedFetch is_v6 parse parse_ref lookup serve blockPrivate fixed input init = (trace, r)"
  shows "(\<forall>c \<in> set trace. u_scheme (cn_url c) \<in> {''http:'', ''https:''} \<and>
      (\<forall>a \<in> set (cn_addresses c). \<not> isBlockedAddress is_v6 a blockPrivate)) \<and>
    length trace \<le> 6 \<and> sorted_wrt (\<lambda>a b. u_scheme (cn_url a) = ''https:'' \<longrightarrow> u_scheme (cn_url b) = ''https:'') trace"
proof (cases "parse input")
  case None
  with assms show ?thesis by (simp add: createGuardedFetch_def)
next
  case (Some u)
  then have "doFetch is_v6 parse_ref lookup serve blockPrivate fixed u init 0 (origin_of u) False = (trace, r)"
    using assms by (simp add: createGuardedFetch_def)
  from doFetch_vetted [OF this] show ?thesis by (simp add: vetted_def no_downgrade_def [abs_def] MAX_REDIRECTS_def)
qed

subsection \<open>Credentials and bodies stay at the origin\<close>

definition bare :: "connection \<Rightarrow> bool" where
  "bare c \<longleftrightarrow> rq_body (cn_request c) = None \<and> fst ` set (rq_headers (cn_request c)) \<subseteq> CROSS_ORIGIN_SAFE"

lemma untrusted_bare:
  assumes "doFetch is_v6 parse_ref lookup serve blockPrivate fixed u init depth origin stripped = (trace, r)"
    and "stripped" and "rq_body init = None"
  shows "\<forall>c \<in> set trace. bare c"
  using assms
proof (induction "MAX_REDIRECTS - depth" arbitrary: u init depth stripped trace rule: less_induct)
  case less
  have sent: "bare c" if "cn_request c = init\<lparr>rq_headers := hop_headers fixed (origin_of u = origin \<and> \<not> stripped) (rq_headers init)\<rparr>" for c
    using that less.prems(2,3) by (auto simp: bare_def hop_headers_def)
  from less.prems(1) show ?case
  proof (cases rule: doFetch_cases)
    case (last cs)
    with sent show ?thesis by blast
  next
    case (hop cs res target rest)
    have "MAX_REDIRECTS - (depth + 1) < MAX_REDIRECTS - depth" using hop(3) by simp
    moreover have "rq_body (next_init res init) = None" using less.prems(3) hop(7) by blast
    ultimately have "\<forall>c \<in> set rest. bare c" using less.hyps [OF _ hop(5)] less.prems(2) by blast
    with hop sent show ?thesis by auto
  qed
qed

lemma doFetch_bare:
  assumes "doFetch is_v6 parse_ref lookup serve blockPrivate fixed u init depth origin False = (trace, r)" and "origin_of u = origin"
  shows "\<forall>c \<in> set (dropWhile (\<lambda>c. origin_of (cn_url c) = origin) trace). bare c"
  using assms
proof (induction "MAX_REDIRECTS - depth" arbitrary: u init depth trace rule: less_induct)
  case less
  from less.prems(1) show ?case
  proof (cases rule: doFetch_cases)
    case (last cs)
    then have "dropWhile (\<lambda>c. origin_of (cn_url c) = origin) trace = []" using less.prems(2) by (auto simp only: dropWhile_eq_Nil_conv)
    then show ?thesis by (simp only: list.set ball_simps)
  next
    case (hop cs res target rest)
    have home: "dropWhile (\<lambda>c. origin_of (cn_url c) = origin) trace = dropWhile (\<lambda>c. origin_of (cn_url c) = origin) rest"
      using hop(1,4) less.prems(2) by (simp add: dropWhile_append2)
    show ?thesis
    proof (cases "origin_of target = origin")
      case True
      have "MAX_REDIRECTS - (depth + 1) < MAX_REDIRECTS - depth" using hop(3) by simp
      from less.hyps [OF this _ True] hop(5) True show ?thesis unfolding home by simp
    next
      case False
      with untrusted_bare [OF hop(5)] hop(7) have "\<forall>c \<in> set rest. bare c" by auto
      then show ?thesis unfolding home by (auto dest: set_dropWhileD)
    qed
  qed
qed

text \<open>
  Property C24. From the first connection that leaves the origin of the request on, no connection of the
  chain, back at that origin or not, carries a request body or a header outside the five that hold no
  authority: neither the caller's credentials nor the fixed headers reach an address a redirect chose.
\<close>

theorem credentials_stay_home:
  assumes "createGuardedFetch is_v6 parse parse_ref lookup serve blockPrivate fixed input init = (trace, r)"
    and "parse input = Some u"
  shows "\<forall>c \<in> set (dropWhile (\<lambda>c. origin_of (cn_url c) = origin_of u) trace).
    rq_body (cn_request c) = None \<and> fst ` set (rq_headers (cn_request c)) \<subseteq> CROSS_ORIGIN_SAFE"
proof -
  have "doFetch is_v6 parse_ref lookup serve blockPrivate fixed u init 0 (origin_of u) False = (trace, r)"
    using assms by (simp add: createGuardedFetch_def)
  from doFetch_bare [OF this refl] show ?thesis by (simp add: bare_def)
qed

subsection \<open>Every spelling of an IPv4 address is judged as that address\<close>

lemma of_char_digit: "n < 10 \<Longrightarrow> (of_char (char_of (48 + n :: nat) :: char) :: nat) = 48 + n"
  by (simp add: of_char_of)

lemma dec_value_snoc: "dec_value (s @ [c]) = 10 * dec_value s + (of_char c - 48)"
  by (simp add: dec_value_def)

lemma dec_value_decimal: "dec_value (decimal n) = n"
proof (induction n rule: decimal.induct)
  case (1 n)
  show ?case
  proof (cases "n < 10")
    case True
    then show ?thesis by (simp add: decimal.simps [of n] dec_value_def of_char_digit)
  next
    case False
    then show ?thesis using 1 by (simp add: decimal.simps [of n] dec_value_snoc of_char_digit)
  qed
qed

lemma decimal_digits: "list_all is_digit (decimal n)"
proof (induction n rule: decimal.induct)
  case (1 n)
  then show ?case by (cases "n < 10") (simp_all add: decimal.simps [of n] is_digit_def of_char_digit)
qed

lemma decimal_head: "decimal n \<noteq> [] \<and> (10 \<le> n \<longrightarrow> hd (decimal n) \<noteq> CHR ''0'') \<and> (0 < n \<longrightarrow> hd (decimal n) \<noteq> CHR ''0'')"
proof (induction n rule: decimal.induct)
  case (1 n)
  show ?case
  proof (cases "n < 10")
    case True
    have "char_of (48 + n) \<noteq> CHR ''0''" if "0 < n"
    proof
      assume "char_of (48 + n) = CHR ''0''"
      then have "(of_char (char_of (48 + n :: nat) :: char) :: nat) = of_char (CHR ''0'')" by simp
      with that True show False by (simp add: of_char_of)
    qed
    then show ?thesis using True by (simp add: decimal.simps [of n])
  next
    case False
    then show ?thesis using 1 by (simp add: decimal.simps [of n])
  qed
qed

lemma octet_decimal: "n \<le> 255 \<Longrightarrow> octet_text (decimal n)"
proof -
  assume n: "n \<le> 255"
  have "length (decimal 255) = 3" by (simp add: decimal.simps)
  with length_decimal_mono [OF n] have "length (decimal n) \<le> 3" by simp
  moreover have "length (decimal n) = 1 \<or> hd (decimal n) \<noteq> CHR ''0''"
    using decimal_head [of n] by (cases "n < 10") (simp_all add: decimal.simps [of n])
  ultimately show ?thesis using n decimal_digits decimal_head [of n] by (simp add: octet_text_def dec_value_decimal)
qed

lemma split_on_plain: "c \<notin> set w \<Longrightarrow> split_on c w = [w]"
  by (induction w) auto

lemma split_join_plain: "\<forall>w \<in> set (v # ws). c \<notin> set w \<Longrightarrow> split_on c (join_with [c] (v # ws)) = v # ws"
proof (induction ws arbitrary: v)
  case Nil
  then show ?case by (simp add: split_on_plain)
next
  case (Cons u ws)
  then have "split_on c (join_with [c] (u # ws)) = u # ws" by simp
  with Cons.prems show ?case by (simp add: split_on_append split_on_plain)
qed

lemma no_dot_decimal: "CHR ''.'' \<notin> set (decimal n)"
  by (rule decimal_no_char) simp

lemma unat_byte: "unat (a :: byte) \<le> 255"
  using unsigned_less [of a, where ?'a = nat] by simp

text \<open>The dotted text of four octets reads back as these octets.\<close>

lemma dotted_roundtrip:
  "is_v4 (dotted [a, b, c, d]) \<and> map dec_value (split_on CHR ''.'' (dotted [a, b, c, d])) = map unat [a, b, c, d]"
proof -
  have "split_on CHR ''.'' (dotted [a, b, c, d]) = map (\<lambda>o'. decimal (unat o')) [a, b, c, d]"
    unfolding dotted_def using split_join_plain [of "decimal (unat a)" "map (\<lambda>o'. decimal (unat o')) [b, c, d]" "CHR ''.''"]
    by (simp add: no_dot_decimal)
  then show ?thesis by (simp add: is_v4_def octet_decimal unat_byte dec_value_decimal)
qed

lemma zero_bytes:
  "replicate 8 (0 :: byte) = [0, 0, 0, 0, 0, 0, 0, 0]" "replicate 10 (0 :: byte) = [0, 0, 0, 0, 0, 0, 0, 0, 0, 0]"
  "replicate 12 (0 :: byte) = [0, 0, 0, 0, 0, 0, 0, 0, 0, 0, 0, 0]"
  by (simp_all add: numeral_eq_Suc)

definition wrapped_forms :: "byte \<Rightarrow> byte \<Rightarrow> byte \<Rightarrow> byte \<Rightarrow> byte \<Rightarrow> byte list set" where
  "wrapped_forms a b c d x =
     {replicate 10 0 @ [0xff, 0xff, a, b, c, d],
      [0, 0x64, 0xff, 0x9b] @ replicate 8 0 @ [a, b, c, d],
      [0, 0x64, 0xff, 0x9b, 0, 1, a, b, 0, c, d, x, x, x, x, x]} \<union>
     (if a = 0 \<and> b = 0 \<and> c = 0 \<and> d \<le> 1 then {} else {replicate 12 0 @ [a, b, c, d]})"

text \<open>
  Property C25. An IPv6 literal whose bytes carry an IPv4 address as a mapped, a compatible or a NAT64
  address of either prefix is blocked exactly when that IPv4 address is, in whatever spelling it comes.
\<close>

theorem wrapped_address_judged_alike:
  assumes "ipv6Bytes is_v6 ip = Some bytes" and "bytes \<in> wrapped_forms a b c d x"
  shows "isBlockedAddress is_v6 ip blockPrivate = blocked_v4 (map unat [a, b, c, d]) blockPrivate"
proof -
  have "embeddedIPv4 bytes = Some (dotted [a, b, c, d])"
    using assms(2) unfolding wrapped_forms_def zero_bytes
    by (auto simp: embeddedIPv4_def zeros_def isLocalUseNat64_def split: if_splits)
  then show ?thesis
    using dotted_roundtrip [of a b c d] by (simp add: isBlockedAddress_def assms(1) Let_def)
qed

subsection \<open>A redirect to another host\<close>

definition demo_url :: "string \<Rightarrow> url" where
  "demo_url h = \<lparr>u_scheme = ''https:'', u_hostname = h, u_port = [], u_rest = ''/''\<rparr>"

definition demo_serve :: "nat \<Rightarrow> connection \<Rightarrow> response option" where
  "demo_serve n c = Some (if u_hostname (cn_url c) = ''a'' then \<lparr>rs_status = 302, rs_location = Some ''b''\<rparr>
     else \<lparr>rs_status = 200, rs_location = None\<rparr>)"

definition demo_request :: request where
  "demo_request = \<lparr>rq_method = Some ''POST'', rq_headers = [(''x-api-key'', ''k''), (''accept'', ''x'')], rq_body = Some ''secret''\<rparr>"

definition demo_chain :: "connection list \<times> (fetch_error + response)" where
  "demo_chain = createGuardedFetch (\<lambda>s. CHR '':'' \<in> set s) (\<lambda>s. Some (demo_url s)) (\<lambda>loc u. Some (demo_url loc))
     (\<lambda>n h. Some [''8.8.8.8'']) demo_serve True [(''Authorization'', ''t'')] ''a'' demo_request"

lemma demo_chain_split:
  "createGuardedFetch (\<lambda>s. CHR '':'' \<in> set s) (\<lambda>s. Some (demo_url s)) (\<lambda>loc u. Some (demo_url loc))
     (\<lambda>n h. Some [''8.8.8.8'']) demo_serve True [(''Authorization'', ''t'')] ''a'' demo_request = (fst demo_chain, snd demo_chain)"
  by (simp add: demo_chain_def)

theorem every_hop_is_vetted_witness:
  "length (fst demo_chain) \<le> 6 \<and> list_all (\<lambda>c. u_scheme (cn_url c) \<in> {''http:'', ''https:''}) (fst demo_chain)"
  using every_hop_is_vetted [OF demo_chain_split] by (auto simp: list_all_iff)

theorem credentials_stay_home_witness:
  "list_all (\<lambda>c. rq_body (cn_request c) = None)
     (dropWhile (\<lambda>c. origin_of (cn_url c) = origin_of (demo_url ''a'')) (fst demo_chain))"
  using credentials_stay_home [OF demo_chain_split refl] by (auto simp: list_all_iff)

theorem wrapped_address_judged_alike_witness:
  "isBlockedAddress (\<lambda>s. CHR '':'' \<in> set s) ''::ffff:a9fe:a9fe'' False = blocked_v4 [169, 254, 169, 254] False"
proof -
  have w: "to_words ''ffff:a9fe:a9fe'' = [Some 65535, Some 43518, Some 43518]"
    by (simp add: to_words_def parse_hex_def hex_digit_def Let_def)
  have n: "to_words [] = []" by (simp add: to_words_def)
  have five: "replicate 5 (Some (0 :: nat)) = [Some 0, Some 0, Some 0, Some 0, Some 0]" by (simp add: numeral_eq_Suc)
  have "ipv6Bytes (\<lambda>s. CHR '':'' \<in> set s) ''::ffff:a9fe:a9fe'' = Some ([0, 0, 0, 0, 0, 0, 0, 0, 0, 0] @ [0xff, 0xff, 169, 254, 169, 254])"
    using five by (simp add: ipv6Bytes_def w n Let_def)
  then have "ipv6Bytes (\<lambda>s. CHR '':'' \<in> set s) ''::ffff:a9fe:a9fe'' = Some (replicate 10 0 @ [0xff, 0xff, 169, 254, 169, 254])"
    by (simp add: zero_bytes)
  from wrapped_address_judged_alike [OF this, of 169 254 169 254 0] show ?thesis by (simp add: wrapped_forms_def)
qed

end
