(* ===== verification/Automation_Theorems.thy ===== *)
theory Automation_Theorems
  imports Automations
begin

section \<open>What firing an automation guarantees\<close>

text \<open>
  The daily ceiling along every interleaving (and the run in which a firing that was slow to start
  breaks it), what becomes of the budget hold on every branch, which rows a scheduler's tick claims and
  what it does to them, and the failure streak.
\<close>

subsection \<open>What a statement does to the row of one automation\<close>

lemma skip_row_simps [simp]:
  "au_id (skip_row now skip today r) = au_id r" "au_enabled (skip_row now skip today r) = au_enabled r"
  "au_failures (skip_row now skip today r) = au_failures r"
  "au_runs_day (skip_row now skip None r) = au_runs_day r" "au_runs_today (skip_row now skip None r) = au_runs_today r"
  by (simp_all add: skip_row_def split: option.split)

lemma fired_row_simps [simp]:
  "au_id (fired_row f a t opened r) = au_id r" "au_runs_day (fired_row f a t opened r) = Some (fg_today f)"
  "au_runs_today (fired_row f a t opened r) = roll (fg_today f) r (au_runs_today r + 1) 1"
  by (simp_all add: fired_row_def)

lemma quiet_row_simps [simp]:
  "au_id (quiet_row today now r) = au_id r" "au_failures (quiet_row today now r) = 0"
  "au_enabled (quiet_row today now r) = au_enabled r"
  by (simp_all add: quiet_row_def)

lemma fire_locked_cases:
  assumes "fire_locked f a s = Inr (s', out)"
  obtains (gone) "out = Gone" "s' = s"
  | (limit) locked where "find_row au_id (au_id a) (sy_autos s) = Some locked" "out = HitDailyLimit"
      "s' = s\<lparr>sy_autos := stampSkip (fg_now f) (au_id a) (daily_skip (fg_now f)) (Some (fg_today f)) (sy_autos s)\<rparr>"
  | (busy) why where "out = WasBusy why"
      "s' = s\<lparr>sy_autos := stampSkip (fg_now f) (au_id a) (busy_skip (fg_now f)) None (sy_autos s)\<rparr>"
  | (fired) locked where "find_row au_id (au_id a) (sy_autos s) = Some locked"
      "\<not> ceiling_reached a (fg_manual f) (fg_today f) locked"
      "previousRunBlocks (sy_db s) (au_last_task locked) (au_thread_mode a = SingleThread) = None"
      "materialize f a locked s = Inr (s', out)"
  using assms by (auto simp: fire_locked_def split: option.splits if_splits)

lemma materialize_cases:
  assumes "materialize f a locked s = Inr (s', out)"
  obtains chat turn created opened tasks chats ms where "out = Fired chat turn created"
    "sy_autos s' = update_where (\<lambda>r. au_id r = au_id a) (fired_row f a turn opened) (sy_autos s)"
    "db_usage (sy_db s') = db_usage (sy_db s)" "db_tasks (sy_db s') = tasks"
    "enqueueTask (\<lambda>_ x. x) chats (fg_now f)
        \<lparr>q_id = fg_task f, q_chat = chat, q_user = au_user a, q_payload = run_payload f a (sy_telegram s)\<rparr> True True (db_tasks (sy_db s)) =
     (tasks, Inr (turn, created), ms)"
  using assms unfolding materialize_def Let_def
  by (auto split: sum.splits prod.splits)

subsection \<open>The daily ceiling\<close>

definition may_stamp :: "bool \<Rightarrow> ident \<Rightarrow> day \<Rightarrow> automation list \<Rightarrow> bool" where
  "may_stamp ordered aid today rows \<longleftrightarrow>
     (ordered \<longrightarrow> list_all (\<lambda>r. au_id r = aid \<longrightarrow> (case au_runs_day r of Some d \<Rightarrow> d \<le> today | None \<Rightarrow> True)) rows)"

text \<open>What any process may do to the automation \<open>aid\<close>, with the days of its unattended runs.
  With \<open>ordered\<close> no statement stamps a day older than the stamped one.\<close>

inductive auto_step :: "bool \<Rightarrow> ident \<Rightarrow> int \<Rightarrow> time \<Rightarrow> system \<times> day list \<Rightarrow> system \<times> day list \<Rightarrow> bool"
  for ordered :: bool and aid :: ident and cap :: int where
  fire: "fire_locked f a s = Inr (s', out) \<Longrightarrow> (au_id a = aid \<longrightarrow> cap_of a = Some cap) \<Longrightarrow> may_stamp ordered aid (fg_today f) (sy_autos s) \<Longrightarrow>
     days' = (if au_id a = aid \<and> \<not> fg_manual f \<and> (\<exists>c t new. out = Fired c t new) then days @ [fg_today f] else days) \<Longrightarrow>
     auto_step ordered aid cap now (s, days) (s', days')"
| skip: "(case today of Some d \<Rightarrow> may_stamp ordered aid d (sy_autos s) | None \<Rightarrow> True) \<Longrightarrow>
     auto_step ordered aid cap now (s, days) (s\<lparr>sy_autos := stampSkip now a sk today (sy_autos s)\<rparr>, days)"
| quiet: "may_stamp ordered aid today (sy_autos s) \<Longrightarrow>
     auto_step ordered aid cap now (s, days) (s\<lparr>sy_autos := update_where (\<lambda>r. au_id r = a) (quiet_row today now) (sy_autos s)\<rparr>, days)"
| other: "map (\<lambda>r. (au_id r, au_runs_day r, au_runs_today r)) (sy_autos s') = map (\<lambda>r. (au_id r, au_runs_day r, au_runs_today r)) (sy_autos s) \<Longrightarrow>
     auto_step ordered aid cap now (s, days) (s', days)"
| remove: "sy_autos s' = delete_where (\<lambda>r. au_id r = a) (sy_autos s) \<Longrightarrow> auto_step ordered aid cap now (s, days) (s', days)"

definition row_tally :: "int \<Rightarrow> day list \<Rightarrow> automation \<Rightarrow> bool" where
  "row_tally cap days r \<longleftrightarrow>
     (case au_runs_day r of
        None \<Rightarrow> days = []
      | Some d \<Rightarrow> int (count_list days d) \<le> au_runs_today r \<and> (\<forall>e > d. count_list days e = 0))"

definition tally_ok :: "ident \<Rightarrow> int \<Rightarrow> system \<times> day list \<Rightarrow> bool" where
  "tally_ok aid cap = (\<lambda>(s, days). distinct (map au_id (sy_autos s)) \<and> (\<forall>d. int (count_list days d) \<le> cap) \<and>
     (\<forall>r \<in> set (sy_autos s). au_id r = aid \<longrightarrow> row_tally cap days r))"

lemma row_tally_restamp:
  assumes "row_tally cap days r" and "case au_runs_day r of Some d \<Rightarrow> d \<le> today | None \<Rightarrow> True"
    and "au_runs_day r' = Some today" "au_runs_today r' = roll today r (au_runs_today r) 0"
  shows "row_tally cap days r'"
  using assms by (auto simp: row_tally_def roll_def split: option.splits)

lemma row_tally_fired:
  assumes "row_tally cap days r" and "case au_runs_day r of Some d \<Rightarrow> d \<le> fg_today f | None \<Rightarrow> True"
    and "\<not> ceiling_reached a False (fg_today f) r" "cap_of a = Some cap" "0 < cap"
  shows "row_tally cap (days @ [fg_today f]) (fired_row f a t opened r)" and "int (count_list days (fg_today f)) < cap"
proof -
  show "row_tally cap (days @ [fg_today f]) (fired_row f a t opened r)"
    using assms by (auto simp: row_tally_def roll_def ceiling_reached_def split: option.splits)
  show "int (count_list days (fg_today f)) < cap"
  proof (cases "au_runs_day r")
    case None
    then show ?thesis using assms by (simp add: row_tally_def)
  next
    case (Some d)
    then show ?thesis
      using assms by (cases "d = fg_today f") (auto simp: row_tally_def ceiling_reached_def)
  qed
qed

lemma row_tally_manual:
  assumes "row_tally cap days r" and "case au_runs_day r of Some d \<Rightarrow> d \<le> fg_today f | None \<Rightarrow> True"
  shows "row_tally cap days (fired_row f a t opened r)"
  using assms by (auto simp: row_tally_def roll_def split: option.splits)


lemma stamped_before:
  assumes "may_stamp True aid today rows" and "r \<in> set rows" "au_id r = aid"
  shows "case au_runs_day r of Some d \<Rightarrow> d \<le> today | None \<Rightarrow> True"
  using assms by (auto simp: may_stamp_def list_all_iff)

lemma tally_ok_update:
  assumes "tally_ok aid cap (s, days)" and "sy_autos s' = update_where P g (sy_autos s)" and "\<And>r. au_id (g r) = au_id r"
    and "\<And>d. int (count_list days' d) \<le> cap"
    and "\<And>r. r \<in> set (sy_autos s) \<Longrightarrow> au_id r = aid \<Longrightarrow> row_tally cap days r \<Longrightarrow> row_tally cap days' (if P r then g r else r)"
  shows "tally_ok aid cap (s', days')"
proof -
  have "row_tally cap days' r" if r: "r \<in> set (sy_autos s')" "au_id r = aid" for r
  proof -
    from r(1) assms(2) obtain x where x: "x \<in> set (sy_autos s)" "r = (if P x then g x else x)" by auto
    then have "au_id x = aid" using r(2) assms(3) [of x] by (auto split: if_splits)
    with assms(1) x(1) have "row_tally cap days x" by (auto simp: tally_ok_def)
    from assms(5) [OF x(1) \<open>au_id x = aid\<close> this] x(2) show ?thesis by simp
  qed
  then show ?thesis using assms(1-4) by (simp add: tally_ok_def keys_update_where)
qed

lemma tally_ok_fired:
  assumes ok: "tally_ok aid cap (s, days)" and "0 < cap" and stamp: "may_stamp True aid (fg_today f) (sy_autos s)"
    and a: "au_id a = aid" "cap_of a = Some cap"
    and locked: "find_row au_id (au_id a) (sy_autos s) = Some locked" and open_today: "\<not> ceiling_reached a (fg_manual f) (fg_today f) locked"
    and s': "sy_autos s' = update_where (\<lambda>r. au_id r = au_id a) (fired_row f a turn opened) (sy_autos s)"
  shows "tally_ok aid cap (s', if fg_manual f then days else days @ [fg_today f])"
proof (rule tally_ok_update [OF ok s'])
  have keys: "distinct (map au_id (sy_autos s))" using ok by (simp add: tally_ok_def)
  have here: "locked \<in> set (sy_autos s)" "au_id locked = aid" using find_row_SomeD [OF locked] a by auto
  have only: "r = locked" if "r \<in> set (sy_autos s)" "au_id r = aid" for r
    using same_key_same_row [OF keys that(1) here(1)] that(2) here(2) by simp
  note before = stamped_before [OF stamp here]
  have tally: "row_tally cap days locked" using ok here by (auto simp: tally_ok_def)
  show "int (count_list (if fg_manual f then days else days @ [fg_today f]) d) \<le> cap" for d
  proof (cases "fg_manual f \<or> d \<noteq> fg_today f")
    case False
    with open_today have "\<not> ceiling_reached a False (fg_today f) locked" by simp
    from row_tally_fired(2) [OF tally before this a(2) \<open>0 < cap\<close>] False show ?thesis by simp
  qed (use ok in \<open>auto simp: tally_ok_def\<close>)
  show "row_tally cap (if fg_manual f then days else days @ [fg_today f]) (if au_id r = au_id a then fired_row f a turn opened r else r)"
    if "r \<in> set (sy_autos s)" "au_id r = aid" for r
    using only [OF that] here(2) a row_tally_fired(1) [OF tally before] row_tally_manual [OF tally before] open_today \<open>0 < cap\<close>
    by (cases "fg_manual f") auto
qed simp

lemma tally_ok_step:
  assumes "auto_step True aid cap now p q" and "tally_ok aid cap p" and "0 < cap"
  shows "tally_ok aid cap q"
  using assms
proof (induction rule: auto_step.induct)
  case (fire f a s s' out days' days now)
  have ok: "tally_ok aid cap (s, days)" by fact
  from fire.hyps(1) show ?case
  proof (cases rule: fire_locked_cases)
    case gone
    then show ?thesis using ok fire.hyps(4) by simp
  next
    case (limit locked)
    have "tally_ok aid cap (s', days)"
    proof (rule tally_ok_update [OF ok, where P = "\<lambda>r. au_id r = au_id a" and g = "skip_row (fg_now f) (daily_skip (fg_now f)) (Some (fg_today f))"])
      show "row_tally cap days (if au_id r = au_id a then skip_row (fg_now f) (daily_skip (fg_now f)) (Some (fg_today f)) r else r)"
        if "r \<in> set (sy_autos s)" "au_id r = aid" "row_tally cap days r" for r
        using row_tally_restamp [OF that(3) stamped_before [OF fire.hyps(3) that(1,2)]] that(3) by (simp add: skip_row_def)
    qed (use limit ok in \<open>auto simp: stampSkip_def tally_ok_def\<close>)
    then show ?thesis using limit fire.hyps(4) by simp
  next
    case (busy why)
    have "tally_ok aid cap (s', days)"
      by (rule tally_ok_update [OF ok, where P = "\<lambda>r. au_id r = au_id a" and g = "skip_row (fg_now f) (busy_skip (fg_now f)) None"])
        (use busy ok in \<open>auto simp: stampSkip_def tally_ok_def row_tally_def split: option.splits\<close>)
    then show ?thesis using busy fire.hyps(4) by simp
  next
    case (fired locked)
    from fired(4) obtain chat turn created opened where out: "out = Fired chat turn created"
      and s': "sy_autos s' = update_where (\<lambda>r. au_id r = au_id a) (fired_row f a turn opened) (sy_autos s)"
      by (rule materialize_cases)
    show ?thesis
    proof (cases "au_id a = aid")
      case True
      from tally_ok_fired [OF ok \<open>0 < cap\<close> fire.hyps(3) True _ fired(1,2) s'] fire.hyps(2,4) True out show ?thesis by auto
    next
      case False
      have "tally_ok aid cap (s', days)"
        by (rule tally_ok_update [OF ok s']) (use False ok in \<open>auto simp: tally_ok_def\<close>)
      then show ?thesis using False fire.hyps(4) by simp
    qed
  qed
next
  case (skip today s now days a sk)
  show ?case
  proof (rule tally_ok_update [OF skip.prems(1), where P = "\<lambda>r. au_id r = a" and g = "skip_row now sk today"])
    show "row_tally cap days (if au_id r = a then skip_row now sk today r else r)"
      if r: "r \<in> set (sy_autos s)" "au_id r = aid" "row_tally cap days r" for r
    proof (cases today)
      case None
      then show ?thesis using r(3) by (simp add: row_tally_def split: option.splits)
    next
      case (Some d)
      then have "may_stamp True aid d (sy_autos s)" using skip.hyps by simp
      from row_tally_restamp [OF r(3) stamped_before [OF this r(1,2)]] r(3) Some show ?thesis by (simp add: skip_row_def)
    qed
  qed (use skip.prems in \<open>auto simp: stampSkip_def tally_ok_def\<close>)
next
  case (quiet today s now days a)
  show ?case
  proof (rule tally_ok_update [OF quiet.prems(1), where P = "\<lambda>r. au_id r = a" and g = "quiet_row today now"])
    show "row_tally cap days (if au_id r = a then quiet_row today now r else r)"
      if r: "r \<in> set (sy_autos s)" "au_id r = aid" "row_tally cap days r" for r
      using row_tally_restamp [OF r(3) stamped_before [OF quiet.hyps r(1,2)]] r(3) by (simp add: quiet_row_def)
  qed (use quiet.prems in \<open>auto simp: tally_ok_def\<close>)
next
  case (other s' s now days)
  have "map au_id (sy_autos s') = map au_id (sy_autos s)"
    using arg_cong [OF other.hyps, where f = "map fst"] by (simp add: comp_def)
  moreover have "row_tally cap days r" if r: "r \<in> set (sy_autos s')" "au_id r = aid" for r
  proof -
    from r(1) have "(au_id r, au_runs_day r, au_runs_today r) \<in> set (map (\<lambda>r. (au_id r, au_runs_day r, au_runs_today r)) (sy_autos s'))" by auto
    then obtain x where x: "x \<in> set (sy_autos s)" "au_id x = au_id r" "au_runs_day x = au_runs_day r" "au_runs_today x = au_runs_today r"
      unfolding other.hyps by auto
    then have "row_tally cap days x" using other.prems(1) r(2) by (simp add: tally_ok_def)
    with x show ?thesis by (simp add: row_tally_def split: option.splits)
  qed
  ultimately show ?case using other.prems(1) by (simp add: tally_ok_def)
next
  case (remove s' a s now days)
  then show ?case by (auto simp: tally_ok_def)
qed

text \<open>An automation whose ceiling is \<open>cap\<close>: its tally bounds the runs of the stamped day.\<close>

interpretation tally: guarded_steps "\<lambda>now p q. 0 < cap \<and> auto_step True aid cap now p q" "tally_ok aid cap" for aid cap
  by unfold_locales (blast intro: tally_ok_step)

lemma timed_run_weaken:
  assumes "timed_run step (t0, s0) (t1, s1)" and "\<And>now p q. step now p q \<Longrightarrow> step' now p q"
  shows "timed_run step' (t0, s0) (t1, s1)"
  using assms(1)
  by (induction "(t0, s0)" "(t1, s1)" arbitrary: t1 s1 rule: timed_run.induct)
    (auto intro: timed_run.intros assms(2))

text \<open>
  Property C26. As long as no statement stamps a day older than the stamped one, no day ever sees more
  unattended runs of an automation than its ceiling, whatever firings, skips, quiet runs and edits
  interleave and however the day rolls over between them.
\<close>

theorem daily_ceiling_holds:
  assumes "timed_run (auto_step True aid cap) (t0, (s0, [])) (t1, (s1, days))" and "0 < cap"
    and "distinct (map au_id (sy_autos s0))" "\<forall>r \<in> set (sy_autos s0). 0 \<le> au_runs_today r"
  shows "int (count_list days d) \<le> cap"
proof -
  have "tally_ok aid cap (s0, [])" using assms(2-4) by (auto simp: tally_ok_def row_tally_def split: option.split)
  moreover have "timed_run (\<lambda>now p q. 0 < cap \<and> auto_step True aid cap now p q) (t0, (s0, [])) (t1, (s1, days))"
    by (rule timed_run_weaken [OF assms(1)]) (use assms(2) in auto)
  ultimately have "tally_ok aid cap (s1, days)" by (blast intro: tally.ok_run)
  then show ?thesis by (simp add: tally_ok_def)
qed

subsection \<open>A slow firing reopens the day\<close>

definition demo_auto :: automation where
  "demo_auto = \<lparr>au_id = ''a'', au_user = ''u'', au_project = None, au_title = ''t'', au_prompt = ''p'', au_run_when = None,
     au_model = None, au_trigger = Webhook None, au_enabled = True, au_max_runs = Some 1, au_runs_day = None, au_runs_today = 0,
     au_skipped_today = 0, au_quiet_today = 0, au_last_skip = None, au_thread_mode = FreshThread, au_notify = Some ''always'',
     au_deliver = True, au_thread = None, au_next_run = None, au_last_run = None, au_last_task = None, au_failures = 0,
     au_disabled = None, au_updated = 0\<rparr>"

definition demo_system :: "automation \<Rightarrow> system" where
  "demo_system a = \<lparr>sy_autos = [a], sy_db = \<lparr>db_tasks = [], db_chats = [], db_messages = [], db_usage = [], db_effects = []\<rparr>,
     sy_budget = \<lparr>bd_users = [], bd_tiers = [], bd_usage = []\<rparr>, sy_accounts = [\<lparr>ac_id = ''u'', ac_status = ''active'', ac_locale = None\<rparr>],
     sy_projects = [], sy_telegram = []\<rparr>"

definition demo_firing :: "string \<Rightarrow> day \<Rightarrow> firing" where
  "demo_firing i d = \<lparr>fg_task = i, fg_chat = i, fg_message = i, fg_now = 0, fg_today = d, fg_manual = False,
     fg_event = Some ''e'', fg_suffix = [], fg_locale = ''en''\<rparr>"

text \<open>Nothing stands in the way of a firing with fresh ids once the guards are passed.\<close>

lemma materialize_fresh:
  assumes thread: "thread_of a locked (db_chats (sy_db s)) = None" and chat: "find_row c_id (fg_chat f) (db_chats (sy_db s)) = None"
    and user: "find_row ac_id (au_user a) (sy_accounts s) \<noteq> None" and project: "au_project a = None"
    and message: "find_row m_id (fg_message f) (db_messages (sy_db s)) = None"
    and task: "queued_of (fg_chat f) (db_tasks (sy_db s)) = None" "find_row t_id (fg_task f) (db_tasks (sy_db s)) = None"
  obtains s' where "materialize f a locked s = Inr (s', Fired (fg_chat f) (fg_task f) True)"
    "sy_autos s' = update_where (\<lambda>r. au_id r = au_id a) (fired_row f a (fg_task f) (Some (fg_chat f))) (sy_autos s)"
    "sy_accounts s' = sy_accounts s"
proof -
  define chats where "chats = db_chats (sy_db s) @ [run_chat f a]"
  have ins: "insert_run_chat f a s = Inr chats" using chat user project by (simp add: insert_run_chat_def chats_def)
  have row: "find_row c_id (fg_chat f) chats \<noteq> None"
    by (simp add: chats_def find_row_append run_chat_def split: option.split)
  have msg: "insert_message chats (run_message f a (fg_chat f) None) (db_messages (sy_db s)) =
      Inr (db_messages (sy_db s) @ [run_message f a (fg_chat f) None])"
    using message row by (simp add: insert_message_def run_message_def)
  have row': "find_row c_id (fg_chat f) (update_where (\<lambda>c. c_id c = fg_chat f) (\<lambda>c. c\<lparr>c_active_leaf := Some (fg_message f), c_updated := fg_now f\<rparr>) chats) \<noteq> None"
    using row by (simp add: find_row_update_where)
  define q where "q = \<lparr>q_id = fg_task f, q_chat = fg_chat f, q_user = au_user a, q_payload = run_payload f a (sy_telegram s)\<rparr>"
  have enq: "enqueueTask (\<lambda>_ x. x) cs now q True True (db_tasks (sy_db s)) = (db_tasks (sy_db s) @ [new_task now q], Inr (fg_task f, True), [])"
    if "find_row c_id (fg_chat f) cs \<noteq> None" for cs now
    using task that by (auto simp: enqueueTask_def insert_queued_def wake_def q_def)
  have "\<exists>s'. materialize f a locked s = Inr (s', Fired (fg_chat f) (fg_task f) True) \<and>
      sy_autos s' = update_where (\<lambda>r. au_id r = au_id a) (fired_row f a (fg_task f) (Some (fg_chat f))) (sy_autos s) \<and>
      sy_accounts s' = sy_accounts s"
    by (simp add: materialize_def Let_def thread ins msg enq [OF row', unfolded q_def])
  then show thesis using that by blast
qed

lemma demo_fires:
  assumes "\<not> ceiling_reached demo_auto False d r" and "au_id r = ''a''" and "au_thread r = None"
  obtains s' where "fire_locked (demo_firing ''i'' d) demo_auto (demo_system r) = Inr (s', Fired ''i'' ''i'' True)"
    and "sy_autos s' = [fired_row (demo_firing ''i'' d) demo_auto ''i'' (Some ''i'') r]"
proof -
  let ?f = "demo_firing ''i'' d" and ?s = "demo_system r"
  obtain s' where m: "materialize ?f demo_auto r ?s = Inr (s', Fired (fg_chat ?f) (fg_task ?f) True)"
    and s': "sy_autos s' = update_where (\<lambda>r. au_id r = au_id demo_auto) (fired_row ?f demo_auto (fg_task ?f) (Some (fg_chat ?f))) (sy_autos ?s)"
    by (rule materialize_fresh [of demo_auto r ?s ?f])
      (auto simp: thread_of_def demo_system_def demo_auto_def demo_firing_def queued_of_def split: option.split)
  have "previousRunBlocks (sy_db ?s) (au_last_task r) False = None"
    by (simp add: previousRunBlocks_def demo_system_def split: option.split)
  then have "fire_locked ?f demo_auto ?s = materialize ?f demo_auto r ?s"
    using assms by (simp add: fire_locked_def demo_system_def demo_firing_def demo_auto_def)
  with m s' that assms(2) show thesis by (simp add: demo_firing_def demo_system_def demo_auto_def)
qed

lemma demo_run_step:
  assumes "\<not> ceiling_reached demo_auto False d r" and "au_id r = ''a''" and "au_thread r = None"
    and run: "timed_run (auto_step False ''a'' 1) p (0, demo_system r, days)"
  shows "timed_run (auto_step False ''a'' 1) p (0, demo_system (fired_row (demo_firing ''i'' d) demo_auto ''i'' (Some ''i'') r), days @ [d])"
proof -
  obtain s' where fires: "fire_locked (demo_firing ''i'' d) demo_auto (demo_system r) = Inr (s', Fired ''i'' ''i'' True)"
    and s': "sy_autos s' = [fired_row (demo_firing ''i'' d) demo_auto ''i'' (Some ''i'') r]"
    using assms(1-3) by (rule demo_fires)
  have "auto_step False ''a'' 1 0 (demo_system r, days) (s', days @ [d])"
    by (rule auto_step.fire [OF fires]) (auto simp: demo_auto_def cap_of_def may_stamp_def demo_firing_def)
  moreover have "auto_step False ''a'' 1 0 (s', days @ [d])
      (demo_system (fired_row (demo_firing ''i'' d) demo_auto ''i'' (Some ''i'') r), days @ [d])"
    by (rule auto_step.other) (simp add: s' demo_system_def)
  moreover obtain t0 q where "p = (t0, q)" by (cases p)
  ultimately show ?thesis using run by (auto intro: timed_run.act)
qed

text \<open>
  A firing computes its day before the condition gate and the lock. One that is slow to get
  there stamps yesterday over today, and the day it left is counted from zero again: with a ceiling of
  one run a day, one day sees two.
\<close>

theorem slow_firing_reopens_the_day:
  "\<exists>s' days. timed_run (auto_step False ''a'' 1) (0, demo_system demo_auto, []) (0, s', days) \<and>
     1 < count_list days ''2026-01-02''"
proof -
  define fired where "fired = (\<lambda>d. fired_row (demo_firing ''i'' d) demo_auto ''i'' (Some ''i''))"
  have free: "\<not> ceiling_reached demo_auto False d r" if "au_runs_day r \<noteq> Some d" for d r
    using that by (simp add: ceiling_reached_def split: option.split)
  have keeps: "au_id (fired d r) = au_id r" "au_thread (fired d r) = au_thread r" "au_runs_day (fired d r) = Some d" for d r
    by (simp_all add: fired_def) (simp_all add: fired_row_def demo_firing_def demo_auto_def)
  have start: "au_id demo_auto = ''a''" "au_thread demo_auto = None" "au_runs_day demo_auto = None"
    by (simp_all add: demo_auto_def)
  have step: "timed_run (auto_step False ''a'' 1) p (0, demo_system (fired d r), days @ [d])"
    if "\<not> ceiling_reached demo_auto False d r" "au_id r = ''a''" "au_thread r = None"
      "timed_run (auto_step False ''a'' 1) p (0, demo_system r, days)" for d r p days
    using demo_run_step [OF that] by (simp add: fired_def)
  have "timed_run (auto_step False ''a'' 1) (0, demo_system demo_auto, []) (0, demo_system demo_auto, [])"
    by (rule timed_run.start)
  from step [OF free _ _ this, of "''2026-01-02''"]
  have "timed_run (auto_step False ''a'' 1) (0, demo_system demo_auto, [])
      (0, demo_system (fired ''2026-01-02'' demo_auto), [''2026-01-02''])" by (simp add: start)
  from step [OF free _ _ this, of "''2026-01-01''"]
  have "timed_run (auto_step False ''a'' 1) (0, demo_system demo_auto, [])
      (0, demo_system (fired ''2026-01-01'' (fired ''2026-01-02'' demo_auto)), [''2026-01-02'', ''2026-01-01''])"
    by (simp add: keeps start)
  from step [OF free _ _ this, of "''2026-01-02''"]
  have "timed_run (auto_step False ''a'' 1) (0, demo_system demo_auto, [])
      (0, demo_system (fired ''2026-01-02'' (fired ''2026-01-01'' (fired ''2026-01-02'' demo_auto))),
       [''2026-01-02'', ''2026-01-01'', ''2026-01-02''])"
    by (simp add: keeps start)
  moreover have "1 < count_list [''2026-01-02'', ''2026-01-01'', ''2026-01-02''] ''2026-01-02''" by simp
  ultimately show ?thesis by blast
qed

theorem daily_ceiling_holds_witness: "int (count_list [''2026-01-02''] ''2026-01-02'') \<le> 1"
proof -
  obtain s' where fires: "fire_locked (demo_firing ''i'' ''2026-01-02'') demo_auto (demo_system demo_auto) = Inr (s', Fired ''i'' ''i'' True)"
    by (rule demo_fires [of "''2026-01-02''" demo_auto]) (auto simp: demo_auto_def ceiling_reached_def cap_of_def)
  have "auto_step True ''a'' 1 0 (demo_system demo_auto, []) (s', [] @ [''2026-01-02''])"
    by (rule auto_step.fire [OF fires])
      (auto simp: demo_auto_def cap_of_def may_stamp_def demo_firing_def demo_system_def)
  then have "timed_run (auto_step True ''a'' 1) (0, demo_system demo_auto, []) (0, s', [''2026-01-02''])"
    by (auto intro: timed_run.act timed_run.start)
  from daily_ceiling_holds [OF this] show ?thesis by (simp add: demo_system_def demo_auto_def)
qed

subsection \<open>What becomes of the budget hold\<close>

definition holds :: "ident \<Rightarrow> system \<Rightarrow> usage_row list" where
  "holds task s = filter (hold_of task) (db_usage (sy_db s))"

lemma holds_release: "su_ledger_ok su \<Longrightarrow> holds (fg_task f) (release su f s) = []"
  by (auto simp: holds_def release_def releaseHold_def hold_of_def filter_empty_conv)

lemma usage_with_ledger [simp]: "db_usage (sy_db (with_ledger b s)) = bd_usage b"
  by (simp add: with_ledger_def)

lemma new_task_queued [simp]: "is_queued (new_task now q)" "t_id (new_task now q) = q_id q"
  by (simp_all add: new_task_def is_queued_def)

lemma holds_autos [simp]: "holds task (s\<lparr>sy_autos := rows\<rparr>) = holds task s"
  by (simp add: holds_def)

lemma recordUsage_holds:
  "filter (hold_of task) (bd_usage (recordUsage cost_of ok uid now i b)) = filter (hold_of task) (bd_usage b)"
  by (simp add: recordUsage_def settled_row_def hold_of_def)

lemma evaluateRunWhen_holds:
  "evaluateRunWhen cost_of ok uid now user task' target answer b = (b', v) \<Longrightarrow>
     filter (hold_of task) (bd_usage b') = filter (hold_of task) (bd_usage b)"
  by (auto simp: evaluateRunWhen_def recordUsage_holds Let_def split: option.splits prod.splits)

lemma ask_gate_holds: "ask_gate su f a s = (s', v) \<Longrightarrow> holds task s' = holds task s"
  by (auto simp: ask_gate_def ledger_of_def holds_def
      dest!: evaluateRunWhen_holds [where task = task] split: option.splits if_splits prod.splits)

lemma enqueue_retry_created:
  assumes "enqueue_retry n env i chats now q in_tx pub t = (t', Inr (turn, True), w)"
  shows "turn = q_id q \<and> (\<exists>r \<in> set t'. t_id r = q_id q \<and> is_queued r)"
  using assms
proof (induction n arbitrary: i t)
  case (Suc n)
  show ?case
  proof (cases "insert_queued chats now q (env i t)")
    case (Inr p)
    then show ?thesis using Suc
      by (cases p; cases "snd p")
        (auto simp: Let_def insert_queued_def split: option.splits if_splits)
  qed (use Suc.prems in \<open>simp add: Let_def\<close>)
qed simp

lemma enqueueTask_created:
  assumes "enqueueTask env chats now q in_tx pub t = (t', Inr (turn, True), w)"
  shows "turn = q_id q \<and> (\<exists>r \<in> set t'. t_id r = q_id q \<and> is_queued r)"
proof (cases "insert_queued chats now q (env 1 (env 0 t))")
  case (Inr p)
  then show ?thesis using assms
    by (cases p; cases "snd p")
      (auto simp: enqueueTask_def Let_def insert_queued_def
        dest: enqueue_retry_created split: option.splits if_splits)
qed (use assms in \<open>simp add: enqueueTask_def Let_def\<close>)

definition owns_turn :: "firing \<Rightarrow> system \<Rightarrow> (fire_error + fire_result) \<Rightarrow> bool" where
  "owns_turn f s r \<longleftrightarrow> (case r of Inr res \<Rightarrow> fr_fired res \<and> list_ex (\<lambda>t. t_id t = fg_task f \<and> is_queued t) (db_tasks (sy_db s)) | Inl _ \<Rightarrow> False)"

lemma fire_under_lock_hold:
  assumes "fire_under_lock env su f a s = (s', r)" and "su_ledger_ok su"
  shows "holds (fg_task f) s' = [] \<or> owns_turn f s' r"
proof (cases "fire_locked f a (env 7 s)")
  case (Inr p)
  obtain s2 out where p: "p = (s2, out)" by (cases p)
  show ?thesis
  proof (cases "\<exists>chat turn. out = Fired chat turn True")
    case True
    then obtain chat turn where out: "out = Fired chat turn True" by blast
    with assms(1) Inr p have s': "s' = s2" and r: "r = Inr (fire_result_of out)" by (simp_all add: fire_under_lock_def Let_def)
    from Inr p have "fire_locked f a (env 7 s) = Inr (s2, out)" by simp
    then obtain locked where "materialize f a locked (env 7 s) = Inr (s2, out)"
      using out by (cases rule: fire_locked_cases) auto
    then obtain turn' tasks chats chat' w where "db_tasks (sy_db s2) = tasks" and
      "enqueueTask (\<lambda>_ x. x) chats (fg_now f)
        \<lparr>q_id = fg_task f, q_chat = chat', q_user = au_user a, q_payload = run_payload f a (sy_telegram (env 7 s))\<rparr> True True
        (db_tasks (sy_db (env 7 s))) = (tasks, Inr (turn', True), w)"
      using out by (cases rule: materialize_cases) auto
    from enqueueTask_created [OF this(2)] this(1) show ?thesis
      by (auto simp: owns_turn_def s' r out fire_result_of_def list_ex_iff)
  next
    case False
    then have "s' = release su f (env 8 s2)"
      using assms(1) Inr p by (auto simp: fire_under_lock_def Let_def split: fire_outcome.splits if_splits)
    then show ?thesis using holds_release [OF assms(2)] by simp
  qed
qed (use assms in \<open>auto simp: fire_under_lock_def Let_def holds_release\<close>)

lemma tier_read_keeps_usage [simp]: "bd_usage (fst (getTierForUser user b)) = bd_usage b"
  by (auto simp: getTierForUser_def getDefaultTier_def Let_def split: option.split)

lemma reserveBudget_holds:
  assumes "reserveBudget (\<lambda>b. b) prices uid now month i ps b = (ps', b', r)"
  shows "filter (hold_of (rv_task i)) (bd_usage b') = filter (hold_of (rv_task i)) (bd_usage b) \<or>
    (\<exists>w. r = Some \<lparr>allowed = True, window = w\<rparr>)"
  using assms
  by (auto simp: reserveBudget_def reserve_locked_def Let_def split: if_splits option.splits prod.splits
      dest!: arg_cong [where f = fst and x = "getTierForUser _ _"])

lemma fire_reserved_hold:
  assumes "fire_reserved env su f a s = (s', r)" and ok: "su_ledger_ok su" and none: "holds (fg_task f) s = []"
    and env: "\<And>k x. holds (fg_task f) (env k x) = holds (fg_task f) x"
  shows "holds (fg_task f) s' = [] \<or> owns_turn f s' r"
proof -
  obtain ps b o' where reserve: "reserveBudget (\<lambda>b. b) (su_prices su) (su_hold_id su) (fg_now f) (su_month su)
      ((su_reserve su)\<lparr>rv_user := au_user a, rv_task := fg_task f\<rparr>) (su_price_state su) (ledger_of s) = (ps, b, o')"
    by (metis prod_cases3)
  have before: "filter (hold_of (fg_task f)) (bd_usage (ledger_of s)) = []" using none by (simp add: holds_def ledger_of_def)
  from reserveBudget_holds [OF reserve] before
  have kept: "holds (fg_task f) (with_ledger b s) = [] \<or> (\<exists>w. o' = Some \<lparr>allowed = True, window = w\<rparr>)"
    by (simp add: holds_def)
  show ?thesis
  proof (cases o')
    case None
    then show ?thesis using assms(1) kept by (simp add: fire_reserved_def reserve)
  next
    case (Some res)
    show ?thesis
    proof (cases "allowed res")
      case False
      then show ?thesis using assms(1) kept Some by (auto simp: fire_reserved_def reserve Let_def split: if_splits)
    next
      case True
      obtain s2 v where gate: "ask_gate su f a (env 5 (with_ledger b s)) = (s2, v)" by fastforce
      show ?thesis
      proof (cases v)
        case None
        then have "fire_under_lock env su f a s2 = (s', r)"
          using assms(1) Some True gate by (simp add: fire_reserved_def reserve Let_def)
        from fire_under_lock_hold [OF this ok] show ?thesis .
      next
        case (Some said)
        then have "holds (fg_task f) s' = []"
          using assms(1) \<open>o' = Some res\<close> True gate by (auto simp: fire_reserved_def reserve Let_def env holds_release [OF ok])
        then show ?thesis ..
      qed
    qed
  qed
qed

text \<open>
  Property C27. As long as the statements on the ledger succeed and nobody else touches the holds of its task,
  a firing leaks no budget hold, however it ends - refused by the ceiling, the overlap guard, the budget or the
  condition, overtaken under the lock, folded into another turn, or failed: its hold is gone, unless the firing
  created the queued turn that now owns it. (A release that fails is swallowed; the hold then waits for
  the orphan sweep of the reaper.)
\<close>

theorem firing_leaks_no_hold:
  assumes "fireAutomation env su f a s = (s', r)" and "su_ledger_ok su" and "holds (fg_task f) s = []"
    and "\<forall>k x. holds (fg_task f) (env k x) = holds (fg_task f) x"
  shows "holds (fg_task f) s' = [] \<or> owns_turn f s' r"
proof -
  have env: "holds (fg_task f) (env k x) = holds (fg_task f) x" for k x using assms(4) by blast
  let ?s4 = "env 4 (env 2 (env 0 s))"
  have "holds (fg_task f) ?s4 = []" using assms(3) by (simp add: env)
  then have reserved: "holds (fg_task f) s' = [] \<or> owns_turn f s' r" if "fire_reserved env su f a ?s4 = (s', r)"
    using fire_reserved_hold [OF that assms(2) _ env] by blast
  show ?thesis
    using assms(1,3) reserved by (auto simp: fireAutomation_def Let_def env split: if_splits)
qed

subsection \<open>The failure streak\<close>

definition failing_row :: "disabled_reason option \<Rightarrow> run_status \<Rightarrow> automation \<Rightarrow> automation" where
  "failing_row reason status r =
     (if status \<noteq> RunFailed then r
      else if au_failures r + 1 < MAX_CONSECUTIVE_FAILURES \<or> \<not> au_enabled r then r\<lparr>au_failures := au_failures r + 1\<rparr>
      else r\<lparr>au_failures := au_failures r + 1, au_enabled := False, au_disabled := reason\<rparr>)"

definition streak :: "automation \<Rightarrow> int \<times> bool \<times> disabled_reason option" where
  "streak r = (au_failures r, au_enabled r, au_disabled r)"

lemma record_outcome_row:
  assumes "status \<noteq> RunCompleted" and "find_row au_id aid rows = Some r"
  shows "\<exists>r'. find_row au_id aid (recordAutomationOutcome cal (\<lambda>x. x) now aid status reason quiet rows) = Some r' \<and>
     streak r' = streak (failing_row reason status r)"
  using assms find_row_SomeD [OF assms(2)]
  by (cases status) (auto simp: recordAutomationOutcome_def find_row_update_where failing_row_def streak_def Let_def)

fun outcomes :: "calendar \<Rightarrow> ident \<Rightarrow> (time \<times> run_status \<times> disabled_reason option) list \<Rightarrow> automation list \<Rightarrow> automation list" where
  "outcomes cal aid [] rows = rows"
| "outcomes cal aid ((now, status, reason) # os) rows =
     outcomes cal aid os (recordAutomationOutcome cal (\<lambda>x. x) now aid status reason False rows)"

lemma outcomes_streak:
  assumes "find_row au_id aid rows = Some r" and "\<forall>(n, st, re) \<in> set os. st \<noteq> RunCompleted"
    and "0 \<le> au_failures r" "MAX_CONSECUTIVE_FAILURES \<le> au_failures r \<longrightarrow> \<not> au_enabled r"
  shows "\<exists>r'. find_row au_id aid (outcomes cal aid os rows) = Some r' \<and>
     au_failures r' = au_failures r + int (count_list (map (\<lambda>(n, st, re). st) os) RunFailed) \<and>
     (MAX_CONSECUTIVE_FAILURES \<le> au_failures r' \<longrightarrow> \<not> au_enabled r')"
  using assms
proof (induction os arbitrary: rows r)
  case (Cons x os)
  obtain now status reason where x: "x = (now, status, reason)" by (cases x)
  with Cons.prems have "status \<noteq> RunCompleted" by simp
  from record_outcome_row [OF this Cons.prems(1), of cal now reason False] obtain r1
    where r1: "find_row au_id aid (recordAutomationOutcome cal (\<lambda>x. x) now aid status reason False rows) = Some r1"
      and st: "streak r1 = streak (failing_row reason status r)" by blast
  have one: "au_failures r1 = au_failures r + (if status = RunFailed then 1 else 0)"
    "MAX_CONSECUTIVE_FAILURES \<le> au_failures r1 \<longrightarrow> \<not> au_enabled r1"
    using st Cons.prems(4) by (auto simp: streak_def failing_row_def split: if_splits)
  have "0 \<le> au_failures r1" using one(1) Cons.prems(3) by auto
  from Cons.IH [OF r1 _ this one(2)] Cons.prems(2) one(1) show ?case by (auto simp: x)
qed auto

text \<open>
  Three failed runs with no completed one between them leave an automation switched off,
  whatever suspended or cancelled runs come between: those neither count nor reset the streak.
\<close>

theorem failing_automation_stops:
  assumes "find_row au_id aid rows = Some r" and "0 \<le> au_failures r" "au_failures r < MAX_CONSECUTIVE_FAILURES"
    and "\<forall>(n, st, re) \<in> set os. st \<noteq> RunCompleted"
    and "3 \<le> count_list (map (\<lambda>(n, st, re). st) os) RunFailed"
  shows "\<exists>r'. find_row au_id aid (outcomes cal aid os rows) = Some r' \<and> \<not> au_enabled r'"
proof -
  have "MAX_CONSECUTIVE_FAILURES \<le> au_failures r \<longrightarrow> \<not> au_enabled r" using assms(3) by simp
  from outcomes_streak [OF assms(1,4,2) this, of cal] assms(2,5) show ?thesis
    by (fastforce simp: MAX_CONSECUTIVE_FAILURES_def)
qed

subsection \<open>The scheduler's tick\<close>

lemma disable_keeps_ids: "map au_id (disable_ineligible now tick accounts projects rows) = map au_id rows"
  by (auto simp: disable_ineligible_def split: option.split)

lemma eligible_untouched:
  assumes "r \<in> set (disable_ineligible now tick accounts projects rows)" and "eligible now' accounts projects r"
  shows "r \<in> set rows"
  using assms by (auto simp: disable_ineligible_def eligible_def due_def split: option.splits if_splits)

lemma set_claim_due:
  "r \<in> set (claim_due now accounts projects skip rows) \<Longrightarrow> r \<in> set rows \<and> eligible now accounts projects r \<and> \<not> skip (au_id r)"
  by (auto simp: claim_due_def dest: in_set_takeD)

lemma claim_due_all:
  assumes "length (filter (\<lambda>r. eligible now accounts projects r \<and> \<not> skip (au_id r)) rows) \<le> TICK_LIMIT"
  shows "set (claim_due now accounts projects skip rows) = {r \<in> set rows. eligible now accounts projects r \<and> \<not> skip (au_id r)}"
  using assms by (simp add: claim_due_def)

lemma advanced_not_due:
  assumes "\<And>c z t u. cron_next cal c z t = Some u \<Longrightarrow> t < u" and "now' \<le> now"
  shows "\<not> due now' (advance cal now tick r)"
proof -
  have "now < t" if "next_run_of cal (au_trigger r) now = Some t" for t
    using that assms(1) by (cases "au_trigger r") (auto simp: next_run_of_def nextOccurrenceAfter_def split: option.splits if_splits)
  then show ?thesis using assms(2) by (fastforce simp: due_def advance_def split: option.splits)
qed

lemma claimed_was_eligible:
  assumes "tick_transaction cal now tick skip s = (s1, claimed)" and "a \<in> set claimed"
  obtains r where "r \<in> set (sy_autos s)" "eligible now (sy_accounts s) (sy_projects s) r" "\<not> skip (au_id r)" "a = claimed_row tick r"
proof -
  from assms obtain r where r: "a = claimed_row tick r"
    "r \<in> set (claim_due now (sy_accounts s) (sy_projects s) skip (disable_ineligible now tick (sy_accounts s) (sy_projects s) (sy_autos s)))"
    by (auto simp: tick_transaction_def Let_def)
  from set_claim_due [OF r(2)] eligible_untouched r(1) that show thesis by blast
qed

text \<open>
  A tick claims only due automations of an active owner and a living project, and moves each
  of them past this moment before it fires: another replica ticking at that time or earlier claims none
  of them again.
\<close>

theorem occurrence_claimed_once:
  assumes "tick_transaction cal now tick skip s = (s1, claimed)"
    and "\<And>c z t u. cron_next cal c z t = Some u \<Longrightarrow> t < u" and "now' \<le> now"
  shows "(\<forall>a \<in> set claimed. \<exists>r \<in> set (sy_autos s). a = claimed_row tick r \<and> eligible now (sy_accounts s) (sy_projects s) r) \<and>
    au_id ` set claimed \<inter> au_id ` set (snd (tick_transaction cal now' tick' skip' s1)) = {}"
proof
  show "\<forall>a \<in> set claimed. \<exists>r \<in> set (sy_autos s). a = claimed_row tick r \<and> eligible now (sy_accounts s) (sy_projects s) r"
    using claimed_was_eligible [OF assms(1)] by metis
  let ?rows = "disable_ineligible now tick (sy_accounts s) (sy_projects s) (sy_autos s)"
  have s1: "sy_autos s1 = update_where (\<lambda>r. au_id r \<in> au_id ` set claimed) (advance cal now tick) ?rows"
    using assms(1) by (auto simp: tick_transaction_def Let_def image_image claimed_row_def)
  have fresh: "au_id b \<notin> au_id ` set claimed" if b: "b \<in> set (snd (tick_transaction cal now' tick' skip' s1))" for b
  proof
    assume claimed: "au_id b \<in> au_id ` set claimed"
    from b obtain r1 where r1: "r1 \<in> set (sy_autos s1)" "eligible now' (sy_accounts s1) (sy_projects s1) r1" "b = claimed_row tick' r1"
      using claimed_was_eligible [of cal now' tick' skip' s1 "fst (tick_transaction cal now' tick' skip' s1)"] by (metis prod.collapse)
    from r1(1) obtain r where r: "r1 = (if au_id r \<in> au_id ` set claimed then advance cal now tick r else r)"
      unfolding s1 set_update_where by blast
    then have "au_id r1 = au_id r" by (simp add: advance_def)
    then have "r1 = advance cal now tick r" using r claimed r1(3) by (simp add: claimed_row_def)
    then have "\<not> due now' r1" using advanced_not_due [OF assms(2,3)] by simp
    with r1(2) show False by (simp add: eligible_def)
  qed
  show "au_id ` set claimed \<inter> au_id ` set (snd (tick_transaction cal now' tick' skip' s1)) = {}"
  proof (rule equals0I)
    fix x
    assume "x \<in> au_id ` set claimed \<inter> au_id ` set (snd (tick_transaction cal now' tick' skip' s1))"
    then obtain b where "b \<in> set (snd (tick_transaction cal now' tick' skip' s1))" "x = au_id b" "x \<in> au_id ` set claimed"
      by blast
    with fresh show False by simp
  qed
qed

text \<open>
  The row a tick hands to the firing carries neither the delivery flag nor the notify mode,
  so no scheduled run is ever sent to Telegram and none is offered the quiet exit, whatever its owner set.
\<close>

theorem scheduled_runs_lose_delivery:
  assumes "a \<in> set (snd (tick_transaction cal now tick skip s))"
  shows "\<exists>kvs. pl_rest (run_payload f a links) = JObj kvs \<and> ''origin'' \<notin> fst ` set kvs \<and> ''notifyMode'' \<notin> fst ` set kvs"
proof -
  obtain r where "a = claimed_row tick r"
    using claimed_was_eligible [OF prod.collapse [symmetric] assms] by blast
  then have "\<not> au_deliver a" "au_notify a = None" by (simp_all add: claimed_row_def)
  then show ?thesis by (auto simp: run_payload_def opt_key_def split: option.split)
qed

text \<open>A row somebody changed since the tick stamped it is not re-armed by the firing that failed.\<close>

lemma rearm_respects_owner:
  "\<forall>r \<in> set rows. au_id r = au_id a \<longrightarrow> au_updated r \<noteq> tick \<Longrightarrow> rearm ok now tick a rows = rows"
proof -
  assume "\<forall>r \<in> set rows. au_id r = au_id a \<longrightarrow> au_updated r \<noteq> tick"
  then have "find (\<lambda>r. au_id r = au_id a \<and> au_updated r = tick) rows = None" and
    "\<forall>r \<in> set rows. \<not> (au_id r = au_id a \<and> au_updated r = tick)" by (auto simp: find_None_iff)
  then show ?thesis by (simp add: rearm_def Let_def update_where_none)
qed

text \<open>A firing stamps the day but not the tally of quiet runs, so a new day starts with yesterday's.\<close>

lemma quiet_tally_survives_midnight:
  "au_quiet_today (quiet_row (fg_today f) now (fired_row f a turn opened r)) = au_quiet_today r + 1"
  by (simp add: quiet_row_def roll_def) (simp add: fired_row_def)

subsection \<open>A scheduled automation\<close>

definition demo_calendar :: calendar where
  "demo_calendar = \<lparr>zone_day = (\<lambda>_ _. Some ''2026-01-02''), utc_day = (\<lambda>_. ''2026-01-02''),
     cron_next = (\<lambda>_ _ t. Some (t + 1)), iso_instant = (\<lambda>_ _. Some 0)\<rparr>"

definition demo_surroundings :: surroundings where
  "demo_surroundings = \<lparr>su_calendar = demo_calendar,
     su_reserve = \<lparr>rv_user = [], rv_task = [], rv_shared = False, rv_model = None, rv_provider = None, rv_config = None\<rparr>,
     su_prices = None, su_price_state = \<lparr>ps_models = [], ps_cache = [], ps_live = \<lparr>lp_book = None, lp_cache = []\<rparr>\<rparr>, su_month = 0, su_cost = (\<lambda>_ _. None),
     su_gate = \<lparr>gt_provider = [], gt_config = None, gt_model = [], gt_shared = False\<rparr>, su_answer = None,
     su_hold_id = ''h'', su_gate_id = ''g'', su_ledger_ok = True\<rparr>"

definition demo_scheduled :: system where
  "demo_scheduled = demo_system (demo_auto\<lparr>au_trigger := Schedule ''@hourly'' None, au_next_run := Some 5\<rparr>)"

text \<open>A firing whose condition says no after a hold was taken on the shared budget.\<close>

definition gated_auto :: automation where
  "gated_auto = demo_auto\<lparr>au_run_when := Some ''new mail''\<rparr>"

definition gated_system :: system where
  "gated_system = (demo_system gated_auto)\<lparr>sy_budget := \<lparr>bd_users = [\<lparr>us_id = ''u'', us_tier = None\<rparr>], bd_tiers = [], bd_usage = []\<rparr>\<rparr>"

definition gated_surroundings :: surroundings where
  "gated_surroundings = demo_surroundings\<lparr>su_reserve := \<lparr>rv_user = ''u'', rv_task = ''i'', rv_shared = True, rv_model = None,
     rv_provider = None, rv_config = None\<rparr>, su_answer := Some (''NO'', None)\<rparr>"

definition gated_run :: "system \<times> (fire_error + fire_result)" where
  "gated_run = fireAutomation (\<lambda>k s. s) gated_surroundings (demo_firing ''i'' ''2026-01-02'') gated_auto gated_system"

definition gated_hold :: usage_row where
  "gated_hold = hold_row ''h'' 0 0 \<lparr>rv_user = ''u'', rv_task = ''i'', rv_shared = True, rv_model = None, rv_provider = None, rv_config = None\<rparr>"

definition gated_budget :: budget_db where
  "gated_budget = \<lparr>bd_users = [\<lparr>us_id = ''u'', us_tier = None\<rparr>],
     bd_tiers = [\<lparr>ti_id = ''default'', ti_name = ''Default'', ti_5h = None, ti_week = None, ti_month = None, ti_default = Some True\<rparr>],
     bd_usage = [gated_hold]\<rparr>"

lemma gated_reserve:
  "reserveBudget (\<lambda>b. b) (su_prices gated_surroundings) (su_hold_id gated_surroundings) 0 (su_month gated_surroundings)
     ((su_reserve gated_surroundings)\<lparr>rv_user := ''u'', rv_task := ''i''\<rparr>) (su_price_state gated_surroundings) (ledger_of gated_system) =
   (su_price_state gated_surroundings, gated_budget, Some \<lparr>allowed = True, window = None\<rparr>)"
  by (simp add: reserveBudget_def reserve_locked_def getTierForUser_def getDefaultTier_def gated_surroundings_def demo_surroundings_def
      gated_system_def demo_system_def ledger_of_def gated_budget_def gated_hold_def over_cap_def capFor_def ORDER_def or_zero_def Let_def)

lemma gated_no: "parseVerdict ''NO'' = Some (False, [])"
  by code_simp

lemma gated_answer: "snd gated_run = Inr (skipped Condition (Some []))"
proof -
  let ?s = "with_ledger gated_budget gated_system"
  have "ask_gate gated_surroundings (demo_firing ''i'' ''2026-01-02'') gated_auto ?s = (?s, Some [])"
    by (simp add: ask_gate_def gated_auto_def demo_firing_def evaluateRunWhen_def gated_surroundings_def gated_no toTokenUsage_def
        with_ledger_def ledger_of_def Let_def)
  moreover have "(su_reserve gated_surroundings)\<lparr>rv_user := au_user gated_auto, rv_task := ''i''\<rparr> =
      (su_reserve gated_surroundings)\<lparr>rv_user := ''u'', rv_task := ''i''\<rparr>"
    by (simp add: gated_auto_def demo_auto_def)
  ultimately have "snd (fire_reserved (\<lambda>k s. s) gated_surroundings (demo_firing ''i'' ''2026-01-02'') gated_auto gated_system) =
      Inr (skipped Condition (Some []))"
    using gated_reserve by (simp add: fire_reserved_def demo_firing_def Let_def)
  moreover have "previousRunBlocks (sy_db gated_system) (au_last_task gated_auto) (au_thread_mode gated_auto = SingleThread) = None"
    by (simp add: gated_auto_def demo_auto_def previousRunBlocks_def)
  moreover have "\<not> ceiling_reached gated_auto False ''2026-01-02'' gated_auto"
    by (simp add: ceiling_reached_def gated_auto_def demo_auto_def split: option.split)
  moreover have "find_row au_id (au_id gated_auto) (sy_autos gated_system) = Some gated_auto"
    by (simp add: gated_system_def demo_system_def)
  ultimately show ?thesis by (simp add: gated_run_def fireAutomation_def Let_def demo_firing_def)
qed

theorem firing_leaks_no_hold_witness:
  "holds ''i'' (with_ledger gated_budget gated_system) = [gated_hold] \<and> holds ''i'' (fst gated_run) = []"
proof -
  have "holds ''i'' (fst gated_run) = [] \<or> owns_turn (demo_firing ''i'' ''2026-01-02'') (fst gated_run) (snd gated_run)"
    using firing_leaks_no_hold [of "\<lambda>k s. s" gated_surroundings "demo_firing ''i'' ''2026-01-02''" gated_auto gated_system
        "fst gated_run" "snd gated_run"]
    by (simp add: gated_run_def) (simp add: gated_surroundings_def demo_surroundings_def demo_firing_def holds_def gated_system_def demo_system_def)
  then show ?thesis
    by (simp add: gated_answer owns_turn_def skipped_def) (simp add: holds_def gated_budget_def gated_hold_def hold_of_def hold_row_def)
qed

lemma demo_claimed:
  "snd (tick_transaction demo_calendar 7 8 (\<lambda>_. False) demo_scheduled) =
     [claimed_row 8 (demo_auto\<lparr>au_trigger := Schedule ''@hourly'' None, au_next_run := Some 5\<rparr>)]"
  by (simp add: tick_transaction_def Let_def demo_scheduled_def demo_system_def demo_auto_def disable_ineligible_def
      claim_due_def eligible_def due_def project_alive_def TICK_LIMIT_def)

theorem occurrence_claimed_once_witness:
  "''a'' \<notin> au_id ` set (snd (tick_transaction demo_calendar 6 9 (\<lambda>_. False)
     (fst (tick_transaction demo_calendar 7 8 (\<lambda>_. False) demo_scheduled))))"
proof -
  have "''a'' \<in> au_id ` set (snd (tick_transaction demo_calendar 7 8 (\<lambda>_. False) demo_scheduled))"
    by (simp add: demo_claimed claimed_row_def demo_auto_def)
  moreover have law: "t < u" if "cron_next demo_calendar c z t = Some u" for c z t u
    using that by (auto simp: demo_calendar_def)
  ultimately show ?thesis
    using occurrence_claimed_once [where cal = demo_calendar and now' = 6 and now = 7 and tick = 8 and skip = "\<lambda>_. False"
        and s = demo_scheduled and tick' = 9 and skip' = "\<lambda>_. False", OF prod.collapse [symmetric] law] by fastforce
qed

theorem scheduled_runs_lose_delivery_witness:
  "\<exists>kvs. pl_rest (run_payload (demo_firing ''i'' ''2026-01-02'')
       (claimed_row 8 (demo_auto\<lparr>au_trigger := Schedule ''@hourly'' None, au_next_run := Some 5\<rparr>)) [(''u'', ''42'')]) = JObj kvs \<and>
     ''origin'' \<notin> fst ` set kvs \<and> ''notifyMode'' \<notin> fst ` set kvs"
  by (rule scheduled_runs_lose_delivery [of _ demo_calendar 7 8 "\<lambda>_. False" demo_scheduled]) (simp add: demo_claimed)

theorem failing_automation_stops_witness:
  "\<exists>r'. find_row au_id ''a'' (outcomes demo_calendar ''a'' [(0, RunFailed, None), (1, RunSuspended, None), (2, RunFailed, None),
     (3, RunFailed, Some BudgetExhausted)] [demo_auto]) = Some r' \<and> \<not> au_enabled r'"
  by (rule failing_automation_stops [where r = demo_auto])
    (simp_all add: demo_auto_def MAX_CONSECUTIVE_FAILURES_def)

subsection \<open>The condition gate\<close>

text \<open>A firing is stopped by its condition only on an answer whose verdict line says no; a call that
  failed or an answer that cannot be read lets it run.\<close>

lemma gate_fails_open:
  assumes "evaluateRunWhen cost_of ok uid now user task target answer b = (b', False, said)"
  shows "\<exists>text reported. answer = Some (text, reported) \<and> parseVerdict text = Some (False, said) \<and> length said \<le> MAX_NOTE_CHARS"
proof -
  obtain raw reported where answer: "answer = Some (raw, reported)" and says: "parseVerdict raw = Some (False, said)"
    using assms by (auto simp: evaluateRunWhen_def Let_def split: option.splits prod.splits)
  from says have "length said \<le> MAX_NOTE_CHARS"
    by (auto simp: parseVerdict_def Let_def split: list.splits option.splits prod.splits)
  with answer says show ?thesis by blast
qed

lemma verdict_examples:
  "parseVerdict (''NO'' @ newline # ''No new orders.'') = Some (False, ''No new orders.'')"
  "parseVerdict (''<think>yes?</think> **Answer:** yes - it holds'') = Some (True, ''it holds'')"
  "parseVerdict ''Not sure'' = None"
  by code_simp+

end
