(* ===== verification/Canonical.thy ===== *)
theory Canonical
  imports Js_Text
begin

section \<open>Canonical values (src/lib/marketplace/canonical.ts)\<close>

text \<open>
  The byte encoding every fingerprint and comparison of the plugin review is built on, and its
  injectivity: two values share bytes only when they are the same value at the same path, up to the
  order of an object's keys. A \<^typ>\<open>string\<close> stands for its UTF-8 bytes; numbers are the integers the
  surfaces hold. The digest itself (\<open>sha256\<close>) is an argument wherever it is used.
\<close>

datatype canon_value =
    CUndefined
  | CNull
  | CString string
  | CNumber int
  | CBool bool
  | CArray "canon_value list"
  | CObject "(string \<times> canon_value) list"

definition lp :: "string \<Rightarrow> string" where
  "lp s = decimal (length s) @ '':'' @ s"

definition number_text :: "int \<Rightarrow> string" where
  "number_text i = (if i < 0 then CHR ''-'' # decimal (nat (- i)) else decimal (nat i))"

text \<open>\<open>canon_entries\<close> pairs each key with the text of its value; the object's text takes them in the
  order of the keys.\<close>

fun canonicalTypedValue :: "string \<Rightarrow> canon_value \<Rightarrow> string"
  and canon_items :: "string \<Rightarrow> nat \<Rightarrow> canon_value list \<Rightarrow> string"
  and canon_entries :: "string \<Rightarrow> (string \<times> canon_value) list \<Rightarrow> (string \<times> string) list" where
  "canonicalTypedValue path CUndefined = ''L'' @ lp path @ ''u'' @ lp []"
| "canonicalTypedValue path CNull = ''L'' @ lp path @ ''z'' @ lp []"
| "canonicalTypedValue path (CString s) = ''L'' @ lp path @ ''s'' @ lp s"
| "canonicalTypedValue path (CNumber i) = ''L'' @ lp path @ ''n'' @ lp (number_text i)"
| "canonicalTypedValue path (CBool b) = ''L'' @ lp path @ ''b'' @ lp (if b then ''1'' else ''0'')"
| "canonicalTypedValue path (CArray vs) = ''A'' @ lp path @ lp (canon_items path 0 vs)"
| "canonicalTypedValue path (CObject kvs) = ''O'' @ lp path @ lp (concat (map snd (sort_key fst (canon_entries path kvs))))"
| "canon_items path i [] = []"
| "canon_items path i (v # vs) = canonicalTypedValue (path @ ''['' @ decimal i @ '']'') v @ canon_items path (Suc i) vs"
| "canon_entries path [] = []"
| "canon_entries path ((k, v) # kvs) = (k, canonicalTypedValue (path @ ''.'' @ k) v) # canon_entries path kvs"

definition rootHash :: "(string \<Rightarrow> string) \<Rightarrow> (string \<times> string) list \<Rightarrow> string" where
  "rootHash sha entries =
     sha (''capka:plugin-tree:v1'' @ concat (map (\<lambda>(path, content). lp path @ lp content) (sort_key fst entries)))"

subsection \<open>Equal up to the order of keys\<close>

fun norm :: "canon_value \<Rightarrow> canon_value"
  and norm_entries :: "(string \<times> canon_value) list \<Rightarrow> (string \<times> canon_value) list" where
  "norm (CArray vs) = CArray (map norm vs)"
| "norm (CObject kvs) = CObject (sort_key fst (norm_entries kvs))"
| "norm v = v"
| "norm_entries [] = []"
| "norm_entries ((k, v) # kvs) = (k, norm v) # norm_entries kvs"

subsection \<open>Length prefixes are unambiguous\<close>

lemma digits_colon:
  assumes "decimal m @ CHR '':'' # xs = decimal n @ CHR '':'' # ys"
  shows "m = n \<and> xs = ys"
proof -
  have cut: "takeWhile (\<lambda>c. c \<noteq> CHR '':'') (decimal k @ CHR '':'' # zs) = decimal k"
    "dropWhile (\<lambda>c. c \<noteq> CHR '':'') (decimal k @ CHR '':'' # zs) = CHR '':'' # zs" for k zs
    using decimal_no_char [of "CHR '':''" k] by (simp_all add: takeWhile_append dropWhile_append)
  from assms cut [of m xs] cut [of n ys] have "decimal m = decimal n" "xs = ys" by simp_all
  with decimal_inj show ?thesis by blast
qed

lemma lp_append_inj: "lp s @ xs = lp t @ ys \<longleftrightarrow> s = t \<and> xs = ys"
proof
  assume "lp s @ xs = lp t @ ys"
  then have "decimal (length s) @ CHR '':'' # (s @ xs) = decimal (length t) @ CHR '':'' # (t @ ys)" by (simp add: lp_def)
  from digits_colon [OF this] show "s = t \<and> xs = ys" by (metis append_eq_append_conv)
qed simp

lemma lp_inj [simp]: "lp s = lp t \<longleftrightarrow> s = t"
  using lp_append_inj [of s "[]" t "[]"] by simp

lemma number_text_inj: "number_text i = number_text j \<Longrightarrow> i = j"
proof -
  assume eq: "number_text i = number_text j"
  have minus: "CHR ''-'' \<notin> set (decimal n)" for n by (rule decimal_no_char) simp
  have no_minus: "CHR ''-'' # xs \<noteq> decimal n" for xs n using minus [of n] by (metis list.set_intros(1))
  show ?thesis
    using eq no_minus no_minus [symmetric] by (auto simp: number_text_def dest!: decimal_inj split: if_splits)
qed

subsection \<open>The encoding is injective\<close>

lemma canon_entries_map: "canon_entries path kvs = map (\<lambda>(k, v). (k, canonicalTypedValue (path @ ''.'' @ k) v)) kvs"
  by (induction path kvs rule: canonicalTypedValue_canon_items_canon_entries.induct(3)) auto

lemma norm_entries_map: "norm_entries kvs = map (\<lambda>(k, v). (k, norm v)) kvs"
  by (induction kvs rule: norm_norm_entries.induct(2)) auto

lemma sort_key_map: "(\<And>x. key (g x) = key' x) \<Longrightarrow> sort_key key (map g xs) = map g (sort_key key' xs)"
proof (induction xs)
  case (Cons x xs)
  have "insort_key key (g x) (map g ys) = map g (insort_key key' x ys)" for ys
    by (induction ys) (simp_all add: Cons.prems)
  with Cons show ?case by simp
qed simp

definition entry_texts :: "string \<Rightarrow> (string \<times> canon_value) list \<Rightarrow> string" where
  "entry_texts path es = concat (map (\<lambda>(k, v). canonicalTypedValue (path @ ''.'' @ k) v) es)"

lemma canonical_object:
  "canonicalTypedValue path (CObject kvs) = ''O'' @ lp path @ lp (entry_texts path (sort_key fst kvs))"
proof -
  have "sort_key fst (canon_entries path kvs) = map (\<lambda>(k, v). (k, canonicalTypedValue (path @ ''.'' @ k) v)) (sort_key fst kvs)"
    unfolding canon_entries_map by (rule sort_key_map) auto
  then show ?thesis by (simp add: entry_texts_def comp_def case_prod_unfold)
qed

lemma norm_object: "norm (CObject kvs) = CObject (map (\<lambda>(k, v). (k, norm v)) (sort_key fst kvs))"
proof -
  have "sort_key fst (map (\<lambda>(k, v). (k, norm v)) kvs) = map (\<lambda>(k, v). (k, norm v)) (sort_key fst kvs)"
    by (rule sort_key_map) auto
  then show ?thesis by (simp add: norm_entries_map)
qed

lemma canonical_not_Nil [simp]: "canonicalTypedValue path v \<noteq> []"
  by (cases v) auto

definition decodes :: "canon_value \<Rightarrow> bool" where
  "decodes v \<longleftrightarrow> (\<forall>p p' v' r r'. canonicalTypedValue p v @ r = canonicalTypedValue p' v' @ r' \<longrightarrow> p = p' \<and> norm v = norm v' \<and> r = r')"

lemma decodesD:
  assumes "decodes v" and "canonicalTypedValue p v @ r = canonicalTypedValue p' v' @ r'"
  shows "p = p'" "norm v = norm v'" "r = r'"
  using assms(1) [unfolded decodes_def, rule_format, OF assms(2)] by simp_all

lemma canon_items_inj:
  "\<forall>v \<in> set vs. decodes v \<Longrightarrow> canon_items p i vs = canon_items p i vs' \<Longrightarrow> map norm vs = map norm vs'"
proof (induction vs arbitrary: i vs')
  case Nil
  then show ?case by (cases vs') auto
next
  case (Cons v vs)
  then obtain w ws where vs': "vs' = w # ws" by (cases vs') auto
  have "decodes v" using Cons.prems by simp
  note head = decodesD [OF this Cons.prems(2) [unfolded vs' canon_items.simps]]
  have "map norm vs = map norm ws" using Cons.prems(1) by (intro Cons.IH [OF _ head(3)]) simp
  with head(2) show ?case unfolding vs' list.map by (rule arg_cong2)
qed

lemma entry_texts_inj:
  "\<forall>(k, v) \<in> set es. decodes v \<Longrightarrow> entry_texts p es = entry_texts p fs \<Longrightarrow>
     map (\<lambda>(k, v). (k, norm v)) es = map (\<lambda>(k, v). (k, norm v)) fs"
proof (induction es arbitrary: fs)
  case Nil
  then show ?case by (cases fs) (auto simp: entry_texts_def)
next
  case (Cons e es)
  then obtain f fs' where fs: "fs = f # fs'" by (cases fs) (auto simp: entry_texts_def)
  obtain k v l w where ef: "e = (k, v)" "f = (l, w)" by (metis surj_pair)
  have "decodes v" using Cons.prems(1) by (simp add: ef)
  moreover have "canonicalTypedValue (p @ ''.'' @ k) v @ entry_texts p es = canonicalTypedValue (p @ ''.'' @ l) w @ entry_texts p fs'"
    using Cons.prems(2) by (simp add: fs ef entry_texts_def)
  ultimately have head: "p @ ''.'' @ k = p @ ''.'' @ l" "norm v = norm w" "entry_texts p es = entry_texts p fs'"
    by (rule decodesD)+
  have "map (\<lambda>(k, v). (k, norm v)) es = map (\<lambda>(k, v). (k, norm v)) fs'"
    using Cons.prems(1) by (intro Cons.IH [OF _ head(3)]) simp
  with head(1,2) show ?case unfolding fs ef by simp
qed

lemma decodes_all: "decodes v"
proof (induction v)
  case (CString s)
  show ?case unfolding decodes_def
  proof (intro allI impI)
    fix p p' v' r r'
    assume "canonicalTypedValue p (CString s) @ r = canonicalTypedValue p' v' @ r'"
    then show "p = p' \<and> norm (CString s) = norm v' \<and> r = r'"
      by (cases v') (auto simp: lp_append_inj)
  qed
next
  case (CNumber i)
  show ?case unfolding decodes_def
  proof (intro allI impI)
    fix p p' v' r r'
    assume "canonicalTypedValue p (CNumber i) @ r = canonicalTypedValue p' v' @ r'"
    then show "p = p' \<and> norm (CNumber i) = norm v' \<and> r = r'"
      by (cases v') (auto simp: lp_append_inj dest: number_text_inj)
  qed
next
  case (CBool b)
  show ?case unfolding decodes_def
  proof (intro allI impI)
    fix p p' v' r r'
    assume "canonicalTypedValue p (CBool b) @ r = canonicalTypedValue p' v' @ r'"
    then show "p = p' \<and> norm (CBool b) = norm v' \<and> r = r'"
      by (cases v') (auto simp: lp_append_inj split: if_splits)
  qed
next
  case (CArray vs)
  show ?case unfolding decodes_def
  proof (intro allI impI)
    fix p p' v' r r'
    assume "canonicalTypedValue p (CArray vs) @ r = canonicalTypedValue p' v' @ r'"
    then obtain ws where v': "v' = CArray ws" and eq: "p = p'" "canon_items p 0 vs = canon_items p 0 ws" "r = r'"
      by (cases v') (auto simp: lp_append_inj canonical_object simp del: canonicalTypedValue.simps(7))
    have "map norm vs = map norm ws" using CArray by (intro canon_items_inj [OF _ eq(2)]) blast
    with eq show "p = p' \<and> norm (CArray vs) = norm v' \<and> r = r'" by (simp add: v')
  qed
next
  case (CObject kvs)
  have contents: "\<forall>(k, v) \<in> set (sort_key fst kvs). decodes v" using CObject by fastforce
  show ?case unfolding decodes_def
  proof (intro allI impI)
    fix p p' v' r r'
    assume "canonicalTypedValue p (CObject kvs) @ r = canonicalTypedValue p' v' @ r'"
    then obtain ls where v': "v' = CObject ls" and eq: "p = p'" "entry_texts p (sort_key fst kvs) = entry_texts p (sort_key fst ls)" "r = r'"
      by (cases v') (auto simp: lp_append_inj canonical_object simp del: canonicalTypedValue.simps(7))
    from entry_texts_inj [OF contents eq(2)] eq(1,3) show "p = p' \<and> norm (CObject kvs) = norm v' \<and> r = r'"
      unfolding v' norm_object by simp
  qed
next
  case CUndefined
  show ?case unfolding decodes_def
  proof (intro allI impI)
    fix p p' v' r r'
    assume "canonicalTypedValue p CUndefined @ r = canonicalTypedValue p' v' @ r'"
    then show "p = p' \<and> norm CUndefined = norm v' \<and> r = r'" by (cases v') (auto simp: lp_append_inj)
  qed
next
  case CNull
  show ?case unfolding decodes_def
  proof (intro allI impI)
    fix p p' v' r r'
    assume "canonicalTypedValue p CNull @ r = canonicalTypedValue p' v' @ r'"
    then show "p = p' \<and> norm CNull = norm v' \<and> r = r'" by (cases v') (auto simp: lp_append_inj)
  qed
qed

lemma canonical_prefix_free:
  assumes eq: "canonicalTypedValue p v @ r = canonicalTypedValue p' v' @ r'"
  shows "p = p' \<and> norm v = norm v' \<and> r = r'"
  using decodesD [OF decodes_all eq] by simp

text \<open>Reordering an object's keys does not change its text.\<close>

lemma canonical_norm: "norm v = norm v' \<Longrightarrow> canonicalTypedValue p v = canonicalTypedValue p v'"
proof (induction v arbitrary: p v')
  case (CArray vs)
  then obtain ws where v': "v' = CArray ws" and eq: "map norm vs = map norm ws"
    by (cases v') (auto simp: norm_object simp del: norm.simps(2))
  have "canon_items p i us = canon_items p i ws" if "map norm us = map norm ws" "set us \<subseteq> set vs" for i us ws
    using that
  proof (induction us arbitrary: i ws)
    case (Cons u us)
    then obtain w ws' where ws: "ws = w # ws'" and n: "norm u = norm w" "map norm us = map norm ws'" by (cases ws) auto
    have "canonicalTypedValue q u = canonicalTypedValue q w" for q
      using Cons.prems(2) by (intro CArray.IH [OF _ n(1)]) simp
    moreover have "canon_items p (Suc i) us = canon_items p (Suc i) ws'"
      using Cons.prems(2) by (intro Cons.IH [OF n(2)]) simp
    ultimately show ?case unfolding ws canon_items.simps by simp
  qed simp
  with eq show ?case by (simp add: v')
next
  case (CObject kvs)
  then obtain ls where v': "v' = CObject ls"
    and eq: "map (\<lambda>(k, v). (k, norm v)) (sort_key fst kvs) = map (\<lambda>(k, v). (k, norm v)) (sort_key fst ls)"
    by (cases v') (auto simp: norm_object simp del: norm.simps(2))
  have "entry_texts p es = entry_texts p fs" if "map (\<lambda>(k, v). (k, norm v)) es = map (\<lambda>(k, v). (k, norm v)) fs" "set es \<subseteq> set kvs" for es fs
    using that
  proof (induction es arbitrary: fs)
    case (Cons e es)
    obtain k v where e: "e = (k, v)" by (cases e)
    with Cons obtain w fs' where fs: "fs = (k, w) # fs'" and n: "norm v = norm w" "map (\<lambda>(k, v). (k, norm v)) es = map (\<lambda>(k, v). (k, norm v)) fs'"
      by (cases fs) auto
    have "canonicalTypedValue (p @ ''.'' @ k) v = canonicalTypedValue (p @ ''.'' @ k) w"
      using CObject.IH [of "(k, v)" v] Cons.prems(2) n(1) by (simp add: e)
    with Cons.IH [OF n(2)] Cons.prems(2) show ?case by (simp add: e fs entry_texts_def)
  qed simp
  from this [OF eq] show ?case unfolding v' canonical_object by simp
next
  case CUndefined
  then show ?case by (cases v') (auto simp: norm_object simp del: norm.simps(2))
next
  case CNull
  then show ?case by (cases v') (auto simp: norm_object simp del: norm.simps(2))
next
  case (CString s)
  then show ?case by (cases v') (auto simp: norm_object simp del: norm.simps(2))
next
  case (CNumber i)
  then show ?case by (cases v') (auto simp: norm_object simp del: norm.simps(2))
next
  case (CBool b)
  then show ?case by (cases v') (auto simp: norm_object simp del: norm.simps(2))
qed

lemma canonical_text_iff: "canonicalTypedValue p v = canonicalTypedValue p v' \<longleftrightarrow> norm v = norm v'"
  using canonical_prefix_free [of p v "[]" p v' "[]"] canonical_norm [of v v' p] by auto

text \<open>
  Property C28. Two typed values have the same canonical text exactly when they are the same value at the
  same path, up to the order of object keys: no shifted argument boundary, no retyped value and no value
  moved to another field goes unseen by a comparison of texts.
\<close>

theorem canonical_text_is_faithful:
  "canonicalTypedValue p v = canonicalTypedValue p' v' \<longleftrightarrow> p = p' \<and> norm v = norm v'"
  using canonical_prefix_free [of p v "[]" p' v' "[]"] canonical_norm [of v v' p] by auto

text \<open>A file set's root text determines the set: the paths in order with their digests.\<close>

lemma root_text_inj:
  "concat (map (\<lambda>(path, content). lp path @ lp content) es) = concat (map (\<lambda>(path, content). lp path @ lp content) fs) \<Longrightarrow> es = fs"
proof (induction es arbitrary: fs)
  case Nil
  then show ?case by (cases fs) (auto simp: lp_def)
next
  case (Cons e es)
  obtain f fs' where fs: "fs = f # fs'" using Cons.prems by (cases fs; cases e) (auto simp: lp_def)
  then show ?case using Cons by (cases e; cases f) (simp add: lp_append_inj)
qed

end
