(* ===== verification/Plugin_Fence.thy ===== *)
theory Plugin_Fence
  imports Plugin_Apply
begin

section \<open>Who may write a resource, and who sees it\<close>

text \<open>
  The mutation fence of src/lib/marketplace/fence.ts and the runtime filter of runtime-view.ts: both
  read the apply state of the install a resource's \<open>source\<close> names.
\<close>

datatype authority = Manual | PluginApply ident
datatype write_outcome = Updated | Missing | Fenced

definition catalog_tag :: "ident \<Rightarrow> string" where
  "catalog_tag install = ''catalog:'' @ install"

definition applying :: "install_row \<Rightarrow> bool" where
  "applying r \<longleftrightarrow> (case apply_of r of Some a \<Rightarrow> as_status a = Applying | None \<Rightarrow> False)"

definition applied_by :: "time \<Rightarrow> ident \<Rightarrow> install_row \<Rightarrow> bool" where
  "applied_by now operation r \<longleftrightarrow>
     (case apply_of r of
        Some a \<Rightarrow> as_status a = Applying \<and> as_operation a = operation \<and> now < as_lease a
      | None \<Rightarrow> False)"

definition fencePredicate :: "time \<Rightarrow> authority \<Rightarrow> string \<Rightarrow> install_row list \<Rightarrow> bool" where
  "fencePredicate now who source t =
     (case who of
        Manual \<Rightarrow> \<not> list_ex (\<lambda>r. source = catalog_tag (pi_id r) \<and> applying r) t
      | PluginApply operation \<Rightarrow> list_ex (\<lambda>r. source = catalog_tag (pi_id r) \<and> applied_by now operation r) t)"

text \<open>The fence of an insert. The rows it locks are those it reads, so its answer stands until the
  transaction ends; the lock is the transaction.\<close>

definition acquireFence :: "time \<Rightarrow> authority \<Rightarrow> string \<Rightarrow> install_row list \<Rightarrow> bool" where
  "acquireFence now who source t =
     (case who of
        PluginApply operation \<Rightarrow> 0 < length (filter (\<lambda>r. source = catalog_tag (pi_id r) \<and> applied_by now operation r) t)
      | Manual \<Rightarrow> length (filter (\<lambda>r. source = catalog_tag (pi_id r) \<and> applying r) t) = 0)"

definition outcomeOf :: "nat \<Rightarrow> bool \<Rightarrow> write_outcome" where
  "outcomeOf rowsAffected existed = (if 0 < rowsAffected then Updated else if existed then Fenced else Missing)"

subsection \<open>The runtime filter (runtime-view.ts)\<close>

datatype owner_state = OwnerReady | OwnerApplying | OwnerFailed | OwnerOrphaned

definition installIdOf :: "string option \<Rightarrow> ident option" where
  "installIdOf source =
     (case source of
        Some s \<Rightarrow> if take 8 s = ''catalog:'' then Some (drop 8 s) else None
      | None \<Rightarrow> None)"

definition owner_state_of :: "install_row \<Rightarrow> owner_state" where
  "owner_state_of r =
     (case apply_of r of
        Some a \<Rightarrow> (case as_status a of Applying \<Rightarrow> OwnerApplying | ApplyFailed \<Rightarrow> OwnerFailed)
      | None \<Rightarrow> OwnerReady)"

text \<open>The map of \<open>ownerStates\<close>, from source to state: seeded orphaned, then overwritten by the rows.\<close>

definition ownerStates :: "string option list \<Rightarrow> install_row list \<Rightarrow> string \<Rightarrow> owner_state option" where
  "ownerStates sources t =
     (let ids = List.map_filter installIdOf sources in
      fold (\<lambda>r m. m(catalog_tag (pi_id r) \<mapsto> owner_state_of r)) (filter (\<lambda>r. pi_id r \<in> set ids) t)
        (fold (\<lambda>i m. m(catalog_tag i \<mapsto> OwnerOrphaned)) ids Map.empty))"

definition keepRuntimeVisible :: "('r \<Rightarrow> string option) \<Rightarrow> install_row list \<Rightarrow> 'r list \<Rightarrow> 'r list" where
  "keepRuntimeVisible source t rows =
     (if \<not> list_ex (\<lambda>r. installIdOf (source r) \<notin> {None, Some []}) rows then rows
      else filter (\<lambda>r. case installIdOf (source r) of
          None \<Rightarrow> True
        | Some i \<Rightarrow> i = [] \<or> ownerStates (map source rows) t (the (source r)) = Some OwnerReady) rows)"

definition keepManageable :: "('r \<Rightarrow> string option) \<Rightarrow> install_row list \<Rightarrow> 'r list \<Rightarrow> ('r \<times> bool) list" where
  "keepManageable source t rows =
     (if \<not> list_ex (\<lambda>r. installIdOf (source r) \<notin> {None, Some []}) rows then map (\<lambda>r. (r, False)) rows
      else List.map_filter (\<lambda>r. case installIdOf (source r) of
          None \<Rightarrow> Some (r, False)
        | Some i \<Rightarrow>
            if i = [] then Some (r, False)
            else if ownerStates (map source rows) t (the (source r)) = Some OwnerOrphaned then Some (r, True)
            else None) rows)"

end
