(* ===== verification/Fence_Theorems.thy ===== *)
theory Fence_Theorems
  imports Plugin_Fence Apply_Theorems
begin

section \<open>One writer, no reader\<close>

text \<open>
  While the fence lets an apply write a plugin's resources, no other writer passes it and no run sees
  the resources; the fence and the publication agree on who holds the apply.
\<close>

lemma catalog_tag_inj [simp]: "catalog_tag a = catalog_tag b \<longleftrightarrow> a = b"
  by (simp add: catalog_tag_def)

lemma installIdOf_tag [simp]: "installIdOf (Some (catalog_tag i)) = Some i"
  by (simp add: installIdOf_def catalog_tag_def)

lemma installIdOf_Some: "installIdOf s = Some i \<longleftrightarrow> s = Some (catalog_tag i)"
proof
  assume "installIdOf s = Some i"
  then obtain x where s: "s = Some x" and x: "take 8 x = ''catalog:''" "drop 8 x = i"
    by (auto simp: installIdOf_def split: option.splits if_splits)
  have "x = take 8 x @ drop 8 x" by simp
  with x have "x = ''catalog:'' @ i" by metis
  with s show "s = Some (catalog_tag i)" by (simp add: catalog_tag_def)
qed simp

lemma acquireFence_eq: "acquireFence now who source t = fencePredicate now who source t"
  by (auto simp: acquireFence_def fencePredicate_def list_ex_iff filter_empty_conv split: authority.split)

lemma fence_apply_iff:
  "fencePredicate now (PluginApply op) (catalog_tag i) t \<longleftrightarrow> (\<exists>r \<in> set t. finalizable_apply now i op r)"
  by (auto simp: fencePredicate_def list_ex_iff applied_by_def finalizable_apply_def owned_by_def split: option.splits)

lemma fence_apply_tag: "fencePredicate now (PluginApply op) source t \<Longrightarrow> \<exists>r \<in> set t. source = catalog_tag (pi_id r) \<and> applied_by now op r"
  by (auto simp: fencePredicate_def list_ex_iff)

lemma applied_by_applying: "applied_by now op r \<Longrightarrow> applying r"
  by (auto simp: applied_by_def applying_def split: option.splits)

lemma applying_state: "applying r \<longleftrightarrow> owner_state_of r = OwnerApplying"
  by (auto simp: applying_def owner_state_of_def split: option.splits apply_status.splits)

subsection \<open>The state of an owner\<close>

lemma ownerStates_seed:
  "fold (\<lambda>i m. m(catalog_tag i \<mapsto> OwnerOrphaned)) ids m0 (catalog_tag i) =
     (if i \<in> set ids then Some OwnerOrphaned else m0 (catalog_tag i))"
  by (induction ids arbitrary: m0) auto

lemma ownerStates_rows:
  assumes "distinct (map pi_id t)"
  shows "fold (\<lambda>r m. m(catalog_tag (pi_id r) \<mapsto> owner_state_of r)) t m0 (catalog_tag i) =
     (case find_row pi_id i t of Some r \<Rightarrow> Some (owner_state_of r) | None \<Rightarrow> m0 (catalog_tag i))"
  using assms
proof (induction t arbitrary: m0)
  case (Cons r t)
  then have fresh: "find_row pi_id (pi_id r) t = None" by (auto simp: find_row_None_iff)
  show ?case using Cons fresh by (auto split: option.split)
qed simp

lemma find_row_filter_ids: "find_row pi_id i (filter (\<lambda>r. pi_id r \<in> S) t) = (if i \<in> S then find_row pi_id i t else None)"
  by (induction t) auto

lemma ownerStates_eq:
  assumes "distinct (map pi_id t)" and "Some (catalog_tag i) \<in> set sources"
  shows "ownerStates sources t (catalog_tag i) =
    Some (case find_row pi_id i t of Some r \<Rightarrow> owner_state_of r | None \<Rightarrow> OwnerOrphaned)"
proof -
  have ids: "i \<in> set (List.map_filter installIdOf sources)"
    using assms(2) by (force simp: List.map_filter_def image_iff)
  have "distinct (map pi_id (filter (\<lambda>r. pi_id r \<in> S) t))" for S using assms(1) by (simp add: distinct_map_filter)
  note rows = ownerStates_rows [OF this]
  show ?thesis
    unfolding ownerStates_def Let_def rows find_row_filter_ids ownerStates_seed if_P [OF ids] by (simp split: option.split)
qed

text \<open>What a run sees: rows without an owner, and those of an install with no apply under way or failed.\<close>

lemma runtime_visible:
  assumes "distinct (map pi_id t)" and "i \<noteq> []" and "source r = Some (catalog_tag i)"
  shows "r \<in> set (keepRuntimeVisible source t rows) \<longleftrightarrow>
    r \<in> set rows \<and> (\<exists>p. find_row pi_id i t = Some p \<and> apply_of p = None)"
proof (cases "r \<in> set rows")
  case True
  then have own: "list_ex (\<lambda>r. installIdOf (source r) \<notin> {None, Some []}) rows"
    using assms(2,3) by (auto simp: list_ex_iff intro!: bexI [of _ r])
  have "Some (catalog_tag i) \<in> set (map source rows)" using True assms(3) by force
  from ownerStates_eq [OF assms(1) this] True own assms(2,3) show ?thesis
    by (auto simp: keepRuntimeVisible_def owner_state_of_def split: option.splits apply_status.splits)
next
  case False
  then show ?thesis by (auto simp: keepRuntimeVisible_def split: if_splits)
qed

text \<open>
  Property C12. While the fence passes an apply for a resource, it passes no manual write and no other operation,
  and the resources of that plugin are hidden from every run.
\<close>

theorem apply_writes_alone_and_unseen:
  assumes ids: "distinct (map pi_id t)" and fence: "fencePredicate now (PluginApply op) source t"
    and named: "source \<noteq> ''catalog:''"
  shows "\<not> fencePredicate now' Manual source t \<and>
    (fencePredicate now' (PluginApply op') source t \<longrightarrow> op' = op) \<and>
    r \<notin> set (keepRuntimeVisible (\<lambda>r. Some source) t rows)"
proof -
  from fence_apply_tag [OF fence] obtain p where p: "p \<in> set t" "source = catalog_tag (pi_id p)" "applied_by now op p" by blast
  have manual: "\<not> fencePredicate now' Manual source t"
    using p applied_by_applying by (auto simp: fencePredicate_def list_ex_iff)
  have other: "op' = op" if "fencePredicate now' (PluginApply op') source t"
  proof -
    from fence_apply_tag [OF that] obtain q where q: "q \<in> set t" "source = catalog_tag (pi_id q)" "applied_by now' op' q" by blast
    have "q = p" using same_key_same_row [OF ids q(1) p(1)] p(2) q(2) by simp
    with p q show ?thesis by (auto simp: applied_by_def split: option.splits)
  qed
  have row: "find_row pi_id (pi_id p) t = Some p" using find_row_Some_iff [OF ids] p(1) by simp
  have "pi_id p \<noteq> []" using named p(2) by (auto simp: catalog_tag_def)
  from runtime_visible [OF ids this, where source = "\<lambda>r. Some source" and r = r and rows = rows] row p(2,3)
  have "r \<notin> set (keepRuntimeVisible (\<lambda>r. Some source) t rows)" by (auto simp: applied_by_def split: option.splits)
  with manual other show ?thesis by blast
qed

theorem apply_writes_alone_and_unseen_witness:
  "''skill'' \<notin> set (keepRuntimeVisible (\<lambda>r. Some ''catalog:i'') demo_claimed [''skill'']) \<and> \<not> fencePredicate 0 Manual ''catalog:i'' demo_claimed"
proof -
  have "distinct (map pi_id demo_claimed)" by (simp add: demo_claimed_def)
  moreover have "fencePredicate 0 (PluginApply ''o1'') ''catalog:i'' demo_claimed"
    by (simp add: fencePredicate_def catalog_tag_def demo_apply_defs set_apply_def applied_by_def apply_of_def new_apply_def apply_lease_def APPLY_LEASE_SECONDS_def)
  ultimately show ?thesis
    using apply_writes_alone_and_unseen [of demo_claimed 0 "''o1''" "''catalog:i''" 0 _ "''skill''" "[''skill'']"]
    by simp
qed

text \<open>
  The fence passes an operation for a plugin's resources exactly when its publication would land at that
  moment.
\<close>

theorem fence_agrees_with_publication:
  "fencePredicate now (PluginApply op) (catalog_tag i) t = snd (finalizeApply now i op m t) \<and>
   acquireFence now (PluginApply op) (catalog_tag i) t = snd (finalizeApply now i op m t)"
  by (auto simp: acquireFence_eq fence_apply_iff finalizeApply_def filter_empty_conv)

text \<open>The management lists show a plugin's resource only when its install is gone, and mark it.\<close>

lemma manageable_orphan:
  assumes "distinct (map pi_id t)" and "i \<noteq> []" and "source r = Some (catalog_tag i)"
  shows "(r, b) \<in> set (keepManageable source t rows) \<longleftrightarrow> r \<in> set rows \<and> b \<and> find_row pi_id i t = None"
proof (cases "r \<in> set rows")
  case True
  then have own: "list_ex (\<lambda>r. installIdOf (source r) \<notin> {None, Some []}) rows"
    using assms(2,3) by (auto simp: list_ex_iff intro!: bexI [of _ r])
  have "Some (catalog_tag i) \<in> set (map source rows)" using True assms(3) by force
  from ownerStates_eq [OF assms(1) this] have st: "ownerStates (map source rows) t (catalog_tag i) = Some OwnerOrphaned \<longleftrightarrow> find_row pi_id i t = None"
    by (auto simp: owner_state_of_def split: option.splits apply_status.splits)
  have unowned: "(r, b) \<in> set (List.map_filter f rows) \<longleftrightarrow> f r = Some (r, b)"
    if "\<And>x y. f x = Some y \<Longrightarrow> fst y = x" for f :: "'a \<Rightarrow> ('a \<times> bool) option"
    using that True by (force simp: List.map_filter_def)
  let ?f = "\<lambda>r. case installIdOf (source r) of
          None \<Rightarrow> Some (r, False)
        | Some i \<Rightarrow>
            if i = [] then Some (r, False)
            else if ownerStates (map source rows) t (the (source r)) = Some OwnerOrphaned then Some (r, True)
            else None"
  have "keepManageable source t rows = List.map_filter ?f rows" unfolding keepManageable_def using own by (simp only: not_True_eq_False if_False)
  moreover have "(r, b) \<in> set (List.map_filter ?f rows) \<longleftrightarrow> ?f r = Some (r, b)"
    by (rule unowned) (auto split: option.splits if_splits)
  moreover have "?f r = Some (r, b) \<longleftrightarrow> b \<and> find_row pi_id i t = None" using assms(2,3) st by auto
  ultimately have "(r, b) \<in> set (keepManageable source t rows) \<longleftrightarrow> b \<and> find_row pi_id i t = None" by (simp only:)
  with True show ?thesis by simp
next
  case False
  then show ?thesis by (auto simp: keepManageable_def List.map_filter_def split: if_splits option.splits)
qed

end
