(* ===== verification/Install_Review.thy ===== *)
theory Install_Review
  imports Canonical Guarded_Fetch Plugin_Apply
begin

section \<open>What an install reaches, what changes, and the consented artifact\<close>

text \<open>
  The surfaces of src/lib/marketplace/surface.ts, the delta between two of them with its gate
  (delta.ts), and the review hash that binds a consent to both (review.ts). A JavaScript \<open>Record\<close> is
  the list of its entries; \<open>sha\<close> stands for \<open>contentHash\<close>.
\<close>

subsection \<open>Surfaces (surface.ts)\<close>

datatype transport = Http | Sse | Stdio
datatype auth_kind = AuthToken | AuthOauth
datatype activation = ForcedDisabled | LeftAsIs | ActEnabled | ActDisabled
datatype completeness = Derived | Reconstructed | BaselineUnknown

record endpoint =
  ep_scheme :: string
  ep_host :: string
  ep_port :: int
  ep_pathname :: string
  ep_queryKeys :: "string list"

record execution =
  ex_binary :: string
  ex_argCount :: nat
  ex_placeholderArgs :: "nat list"
  ex_fingerprint :: string

record connector =
  cn_name :: string
  cn_origin :: string
  cn_transport :: transport
  cn_endpoint :: "endpoint option"
  cn_auth :: "auth_kind option"
  cn_secretKeys :: "string list"
  cn_needsSecret :: bool
  cn_thirdParty :: bool
  cn_bundled :: bool
  cn_activation :: activation
  cn_credential :: "string option"
  cn_execution :: "execution option"

record surface_skill =
  sk_name :: string
  sk_originPath :: string
  sk_instructionHash :: string
  sk_bodyHash :: string
  sk_filesRootHash :: string

record surface_file =
  sfl_path :: string
  sfl_bytes :: nat
  sfl_hash :: string

record surface_files =
  sfs_count :: nat
  sfs_bytes :: nat
  sfs_rootHash :: string
  sfs_entrypoints :: "string list"
  sfs_files :: "surface_file list"

record surface =
  sv_version :: int
  sv_completeness :: completeness
  sv_connectors :: "connector list"
  sv_skills :: "surface_skill list"
  sv_files :: surface_files

subsection \<open>The comparable form of a resource (delta.ts)\<close>

fun transport_text :: "transport \<Rightarrow> string" where
  "transport_text Http = ''http''"
| "transport_text Sse = ''sse''"
| "transport_text Stdio = ''stdio''"

fun auth_text :: "auth_kind \<Rightarrow> string" where
  "auth_text AuthToken = ''token''"
| "auth_text AuthOauth = ''oauth''"

definition or_null :: "('a \<Rightarrow> canon_value) \<Rightarrow> 'a option \<Rightarrow> canon_value" where
  "or_null f x = (case x of Some v \<Rightarrow> f v | None \<Rightarrow> CNull)"

definition strings_canon :: "string list \<Rightarrow> canon_value" where
  "strings_canon xs = CArray (map CString xs)"

definition endpoint_canon :: "endpoint \<Rightarrow> canon_value" where
  "endpoint_canon e =
     CObject [(''scheme'', CString (ep_scheme e)), (''host'', CString (ep_host e)), (''port'', CNumber (ep_port e)),
       (''pathname'', CString (ep_pathname e)), (''queryKeys'', strings_canon (ep_queryKeys e))]"

definition execution_canon :: "execution \<Rightarrow> canon_value" where
  "execution_canon x =
     CObject [(''binary'', CString (ex_binary x)), (''argCount'', CNumber (int (ex_argCount x))),
       (''placeholderArgs'', CArray (map (CNumber \<circ> int) (ex_placeholderArgs x))), (''fingerprint'', CString (ex_fingerprint x))]"

definition connectorIdentity :: "connector \<Rightarrow> string" where
  "connectorIdentity c =
     canonicalTypedValue ''connector'' (CObject
       [(''transport'', CString (transport_text (cn_transport c))),
        (''endpoint'', or_null endpoint_canon (cn_endpoint c)),
        (''authKind'', or_null (CString \<circ> auth_text) (cn_auth c)),
        (''credentialFingerprint'', or_null CString (cn_credential c)),
        (''secretKeys'', strings_canon (cn_secretKeys c)),
        (''needsSecret'', CBool (cn_needsSecret c)),
        (''runsThirdPartyCode'', CBool (cn_thirdParty c)),
        (''bundled'', CBool (cn_bundled c)),
        (''execution'', or_null execution_canon (cn_execution c))])"

subsection \<open>Entries of a delta\<close>

datatype delta_kind = Unchanged | Removal | Expansion | Attenuation | Replacement | UnknownChange
datatype delta_aspect = CredentialAspect | CommandAspect | EndpointAspect | InstructionsAspect | FilesAspect | ActivationAspect
datatype delta_resource = ConnectorRes | SkillRes | FilesRes

record delta_entry =
  de_resource :: delta_resource
  de_key :: string
  de_name :: string
  de_kind :: delta_kind
  de_aspects :: "delta_aspect list"

definition delta_line :: "delta_resource \<Rightarrow> string \<Rightarrow> string \<Rightarrow> delta_kind \<Rightarrow> delta_aspect list \<Rightarrow> delta_entry" where
  "delta_line res k n kind asp = \<lparr>de_resource = res, de_key = k, de_name = n, de_kind = kind, de_aspects = asp\<rparr>"

definition connectorAspects :: "connector \<Rightarrow> connector \<Rightarrow> delta_aspect list" where
  "connectorAspects b a =
     (if cn_needsSecret b \<noteq> cn_needsSecret a
         \<or> canonicalTypedValue ''k'' (strings_canon (cn_secretKeys b)) \<noteq> canonicalTypedValue ''k'' (strings_canon (cn_secretKeys a))
         \<or> cn_auth b \<noteq> cn_auth a \<or> cn_credential b \<noteq> cn_credential a
      then [CredentialAspect] else []) @
     (if canonicalTypedValue ''e'' (or_null execution_canon (cn_execution b)) \<noteq> canonicalTypedValue ''e'' (or_null execution_canon (cn_execution a))
      then [CommandAspect] else []) @
     (if canonicalTypedValue ''p'' (or_null endpoint_canon (cn_endpoint b)) \<noteq> canonicalTypedValue ''p'' (or_null endpoint_canon (cn_endpoint a))
         \<or> cn_transport b \<noteq> cn_transport a
      then [EndpointAspect] else [])"

definition skillAspects :: "surface_skill \<Rightarrow> surface_skill \<Rightarrow> delta_aspect list" where
  "skillAspects b a =
     (if sk_instructionHash b \<noteq> sk_instructionHash a \<or> sk_bodyHash b \<noteq> sk_bodyHash a \<or> sk_originPath b \<noteq> sk_originPath a
      then [InstructionsAspect] else []) @
     (if sk_filesRootHash b \<noteq> sk_filesRootHash a then [FilesAspect] else [])"

definition connector_entry :: "(string \<times> connector) list \<Rightarrow> string \<times> connector \<Rightarrow> delta_entry" where
  "connector_entry before ka =
     (let (k, a) = ka in case map_of before k of
        None \<Rightarrow> delta_line ConnectorRes k (cn_name a) Expansion []
      | Some b \<Rightarrow>
          (let same = connectorIdentity b = connectorIdentity a in
           if same \<and> cn_activation b = ActEnabled \<and> cn_activation a = ForcedDisabled
             then delta_line ConnectorRes k (cn_name a) Attenuation [ActivationAspect]
           else if same then delta_line ConnectorRes k (cn_name a) Unchanged []
           else delta_line ConnectorRes k (cn_name a) Replacement (connectorAspects b a)))"

definition skill_entry :: "(string \<times> surface_skill) list \<Rightarrow> string \<times> surface_skill \<Rightarrow> delta_entry" where
  "skill_entry before ka =
     (let (k, a) = ka in case map_of before k of
        None \<Rightarrow> delta_line SkillRes k (sk_name a) Expansion []
      | Some b \<Rightarrow> (let asp = skillAspects b a in
           delta_line SkillRes k (sk_name a) (if asp \<noteq> [] then Replacement else Unchanged) asp))"

definition files_entries :: "surface_files \<Rightarrow> surface_files \<Rightarrow> delta_entry list" where
  "files_entries b a =
     (if sfs_count b = 0 \<and> sfs_count a = 0 then []
      else if sfs_rootHash b \<noteq> sfs_rootHash a then
        (let kind = (if sfs_count a = 0 then Removal else if sfs_count b = 0 then Expansion else Replacement) in
         [delta_line FilesRes ''files'' ''files'' kind (if kind = Replacement then [FilesAspect] else [])])
      else if sfs_count a \<noteq> 0 then [delta_line FilesRes ''files'' ''files'' Unchanged []] else [])"

fun resource_text :: "delta_resource \<Rightarrow> string" where
  "resource_text ConnectorRes = ''connector''"
| "resource_text SkillRes = ''skill''"
| "resource_text FilesRes = ''files''"

definition unknown_entries :: "surface \<Rightarrow> delta_entry list" where
  "unknown_entries a =
     map (\<lambda>c. delta_line ConnectorRes (cn_origin c) (cn_name c) UnknownChange []) (sv_connectors a) @
     map (\<lambda>s. delta_line SkillRes (sk_name s) (sk_name s) UnknownChange []) (sv_skills a) @
     (if sfs_count (sv_files a) \<noteq> 0 then [delta_line FilesRes ''files'' ''files'' UnknownChange []] else [])"

definition removals :: "delta_resource \<Rightarrow> ('a \<Rightarrow> string) \<Rightarrow> (string \<times> 'a) list \<Rightarrow> (string \<times> 'a) list \<Rightarrow> delta_entry list" where
  "removals res name before after =
     map (\<lambda>(k, b). delta_line res k (name b) Removal []) (filter (\<lambda>(k, b). map_of after k = None) before)"

definition compared_entries :: "surface \<Rightarrow> surface \<Rightarrow> delta_entry list" where
  "compared_entries b a =
     (let bc = js_map cn_origin (sv_connectors b); ac = js_map cn_origin (sv_connectors a);
          bs = js_map sk_name (sv_skills b); as = js_map sk_name (sv_skills a) in
      map (connector_entry bc) ac @ removals ConnectorRes cn_name bc ac @
      map (skill_entry bs) as @ removals SkillRes sk_name bs as @
      files_entries (sv_files b) (sv_files a))"

definition compareAxis :: "surface option \<Rightarrow> surface \<Rightarrow> delta_entry list" where
  "compareAxis before a =
     (case before of
        None \<Rightarrow> unknown_entries a
      | Some b \<Rightarrow>
          if sv_completeness b = BaselineUnknown then unknown_entries a
          else sort_key (\<lambda>e. resource_text (de_resource e) @ CHR 0x00 # de_key e) (compared_entries b a))"

subsection \<open>The gate\<close>

datatype gate = NoConsent | RequiresConsent | CannotApply

record install_delta =
  id_upstream :: "delta_entry list"
  id_effective :: "delta_entry list"
  id_kinds :: "delta_kind list"
  id_gate :: gate

definition CONSENT_FREE :: "delta_kind list" where
  "CONSENT_FREE = [Unchanged, Removal, Attenuation]"

definition classifyDelta :: "surface option \<Rightarrow> surface option \<Rightarrow> surface \<Rightarrow> (string \<times> url_verdict) list \<Rightarrow> install_delta" where
  "classifyDelta sourceBefore runtimeBefore sourceAfter urls =
     (let effective = compareAxis runtimeBefore sourceAfter; kinds = js_set (map de_kind effective) in
      \<lparr>id_upstream = compareAxis sourceBefore sourceAfter,
       id_effective = effective,
       id_kinds = kinds,
       id_gate =
         (if list_ex (\<lambda>(n, v). v \<noteq> Allowed) urls then CannotApply
          else if list_ex (\<lambda>k. k \<notin> set CONSENT_FREE) kinds then RequiresConsent
          else NoConsent)\<rparr>)"

subsection \<open>The review hash (review.ts)\<close>

datatype disposition = Keep | Delete | Reassign

record review_subject =
  rs_kind :: apply_kind
  rs_install :: "ident option"
  rs_marketplace :: ident
  rs_plugin :: string
  rs_scope :: scope
  rs_owner :: "ident option"
  rs_target :: string
  rs_only :: "string list option"
  rs_skillsOnly :: bool

record observations =
  ob_urls :: "(string \<times> url_verdict) list"
  ob_auth :: "(string \<times> auth_kind) list"
  ob_blockPrivate :: bool
  ob_observedAt :: time

record review_input =
  ri_subject :: review_subject
  ri_sourceBefore :: "surface option"
  ri_runtimeBefore :: "surface option"
  ri_sourceAfter :: surface
  ri_observations :: observations
  ri_dispositions :: "(string \<times> disposition) list"
  ri_policyRevisions :: "(string \<times> int) list"

fun kind_text :: "apply_kind \<Rightarrow> string" where
  "kind_text Install = ''install''"
| "kind_text Upgrade = ''upgrade''"
| "kind_text Retry = ''retry''"

fun scope_text :: "scope \<Rightarrow> string" where
  "scope_text SystemScope = ''system''"
| "scope_text UserScope = ''user''"

fun disposition_text :: "disposition \<Rightarrow> string" where
  "disposition_text Keep = ''keep''"
| "disposition_text Delete = ''delete''"
| "disposition_text Reassign = ''reassign''"

fun completeness_text :: "completeness \<Rightarrow> string" where
  "completeness_text Derived = ''derived''"
| "completeness_text Reconstructed = ''reconstructed''"
| "completeness_text BaselineUnknown = ''unknown''"

fun activation_text :: "activation \<Rightarrow> string" where
  "activation_text ForcedDisabled = ''forced_disabled''"
| "activation_text LeftAsIs = ''left_as_is''"
| "activation_text ActEnabled = ''enabled''"
| "activation_text ActDisabled = ''disabled''"

fun verdict_text :: "url_verdict \<Rightarrow> string" where
  "verdict_text Allowed = ''allowed''"
| "verdict_text (Refused Blocked) = ''blocked''"
| "verdict_text (Refused Unresolved) = ''unresolved''"
| "verdict_text (Refused Invalid) = ''invalid''"

definition record_canon :: "('a \<Rightarrow> canon_value) \<Rightarrow> (string \<times> 'a) list \<Rightarrow> canon_value" where
  "record_canon f m = CObject (map (\<lambda>(k, v). (k, f v)) m)"

definition connector_canon :: "connector \<Rightarrow> canon_value" where
  "connector_canon c =
     CObject
       [(''originKey'', CString (cn_origin c)), (''name'', CString (cn_name c)),
        (''transport'', CString (transport_text (cn_transport c))),
        (''endpoint'', or_null endpoint_canon (cn_endpoint c)),
        (''authKind'', or_null (CString \<circ> auth_text) (cn_auth c)),
        (''credentialFingerprint'', or_null CString (cn_credential c)),
        (''secretKeys'', strings_canon (cn_secretKeys c)), (''needsSecret'', CBool (cn_needsSecret c)),
        (''runsThirdPartyCode'', CBool (cn_thirdParty c)), (''bundled'', CBool (cn_bundled c)),
        (''activation'', CString (activation_text (cn_activation c))),
        (''execution'', or_null execution_canon (cn_execution c))]"

definition skill_canon :: "surface_skill \<Rightarrow> canon_value" where
  "skill_canon k =
     CObject [(''name'', CString (sk_name k)), (''originPath'', CString (sk_originPath k)),
       (''instructionHash'', CString (sk_instructionHash k)), (''bodyHash'', CString (sk_bodyHash k)),
       (''filesRootHash'', CString (sk_filesRootHash k))]"

definition files_canon :: "surface_files \<Rightarrow> canon_value" where
  "files_canon f =
     CObject [(''count'', CNumber (int (sfs_count f))), (''bytes'', CNumber (int (sfs_bytes f))),
       (''rootHash'', CString (sfs_rootHash f)), (''entrypoints'', strings_canon (sfs_entrypoints f))]"

definition surface_canon :: "surface \<Rightarrow> canon_value" where
  "surface_canon s =
     CObject [(''completeness'', CString (completeness_text (sv_completeness s))),
       (''connectors'', CArray (map connector_canon (sv_connectors s))),
       (''skills'', CArray (map skill_canon (sv_skills s))),
       (''files'', files_canon (sv_files s))]"

definition hashableSurface :: "surface option \<Rightarrow> canon_value" where
  "hashableSurface s = or_null surface_canon s"

definition subject_canon :: "review_subject \<Rightarrow> canon_value" where
  "subject_canon s =
     CObject [(''kind'', CString (kind_text (rs_kind s))), (''installId'', or_null CString (rs_install s)),
       (''marketplaceId'', CString (rs_marketplace s)), (''pluginName'', CString (rs_plugin s)),
       (''scope'', CString (scope_text (rs_scope s))), (''ownerId'', or_null CString (rs_owner s)),
       (''targetSha'', CString (rs_target s)), (''only'', or_null (strings_canon \<circ> sort) (rs_only s)),
       (''skillsOnly'', CBool (rs_skillsOnly s))]"

definition observations_canon :: "observations \<Rightarrow> canon_value" where
  "observations_canon ob =
     CObject [(''urls'', record_canon (CString \<circ> verdict_text) (ob_urls ob)),
       (''detectedAuth'', record_canon (CString \<circ> auth_text) (ob_auth ob)),
       (''blockPrivate'', CBool (ob_blockPrivate ob))]"

definition review_canon :: "review_input \<Rightarrow> canon_value" where
  "review_canon i =
     CObject [(''v'', CNumber 1), (''subject'', subject_canon (ri_subject i)),
       (''sourceBefore'', hashableSurface (ri_sourceBefore i)),
       (''runtimeBefore'', hashableSurface (ri_runtimeBefore i)),
       (''sourceAfter'', hashableSurface (Some (ri_sourceAfter i))),
       (''observations'', observations_canon (ri_observations i)),
       (''dispositions'', record_canon (CString \<circ> disposition_text) (ri_dispositions i)),
       (''policyRevisions'', record_canon CNumber (ri_policyRevisions i))]"

definition reviewHash :: "(string \<Rightarrow> string) \<Rightarrow> review_input \<Rightarrow> string" where
  "reviewHash sha i = sha (canonicalTypedValue ''review'' (review_canon i))"

end
