(* ===== verification/Policies.thy ===== *)
theory Policies
  imports Install_Review
begin

section \<open>Permission rules and what an apply may do to them\<close>

text \<open>
  The rules of \<open>capability_policies\<close> and their resolution (src/lib/governance/matcher.ts, policy.ts), and
  what a plugin apply decides about them (src/lib/marketplace/policy-disposition.ts). A table is the list
  of its rows; the columns no decision reads (\<open>createdBy\<close> and the timestamps) are left out.
\<close>

datatype capability = SkillCap | ConnectorCap
datatype policy_scope = PSystem | PUser | PProject
datatype effect = Allow | Deny | Ask

record policy_row =
  po_id :: ident
  po_scope :: policy_scope
  po_user :: "ident option"
  po_project :: "ident option"
  po_type :: capability
  po_key :: string
  po_effect :: effect
  po_revision :: nat

subsection \<open>Resolution (matcher.ts)\<close>

fun SCOPE_RANK :: "policy_scope \<Rightarrow> nat" where
  "SCOPE_RANK PSystem = 0"
| "SCOPE_RANK PUser = 1"
| "SCOPE_RANK PProject = 2"

definition explain_step :: "capability \<Rightarrow> string \<Rightarrow> policy_row \<Rightarrow> policy_row option \<Rightarrow> policy_row option" where
  "explain_step type key r best =
     (if po_type r \<noteq> type \<or> po_key r \<noteq> key then best
      else case best of
        None \<Rightarrow> Some r
      | Some b \<Rightarrow> if SCOPE_RANK (po_scope b) < SCOPE_RANK (po_scope r) then Some r else best)"

text \<open>The rule that governs; the caller reads its effect, scope and id.\<close>

definition explainPolicy :: "policy_row list \<Rightarrow> capability \<Rightarrow> string \<Rightarrow> policy_row option" where
  "explainPolicy rows type key = fold (explain_step type key) rows None"

definition buildMatcher :: "policy_row list \<Rightarrow> capability \<Rightarrow> string \<Rightarrow> effect" where
  "buildMatcher rows type key = (case explainPolicy rows type key of Some r \<Rightarrow> po_effect r | None \<Rightarrow> Allow)"

definition isOffered :: "effect \<Rightarrow> bool" where
  "isOffered e \<longleftrightarrow> e \<noteq> Deny"

subsection \<open>The table (policy.ts)\<close>

definition visible_policy :: "ident \<Rightarrow> ident option \<Rightarrow> policy_row \<Rightarrow> bool" where
  "visible_policy user project r \<longleftrightarrow>
     po_scope r = PSystem \<or>
     po_scope r = PUser \<and> po_user r = Some user \<and> po_project r = None \<or>
     (case project of
        Some p \<Rightarrow> p \<noteq> [] \<and> po_scope r = PProject \<and> po_project r = Some p
      | None \<Rightarrow> False)"

definition resolvePolicies :: "policy_row list \<Rightarrow> ident \<Rightarrow> ident option \<Rightarrow> capability \<Rightarrow> string \<Rightarrow> effect" where
  "resolvePolicies t user project = buildMatcher (filter (visible_policy user project) t)"

record policy_input =
  pin_type :: capability
  pin_key :: string
  pin_effect :: effect
  pin_scope :: policy_scope
  pin_user :: "ident option"
  pin_project :: "ident option"

definition subject_of :: "policy_input \<Rightarrow> ident option \<times> ident option" where
  "subject_of i = (if pin_scope i = PUser then pin_user i else None, if pin_scope i = PProject then pin_project i else None)"

text \<open>The partial unique index of the row's scope.\<close>

definition policy_slot :: "policy_row \<Rightarrow> policy_scope \<times> ident option \<times> capability \<times> string" where
  "policy_slot r =
     (po_scope r, case po_scope r of PSystem \<Rightarrow> None | PUser \<Rightarrow> po_user r | PProject \<Rightarrow> po_project r, po_type r, po_key r)"

definition subject_check :: "policy_row \<Rightarrow> bool" where
  "subject_check r \<longleftrightarrow>
     (case po_scope r of
        PSystem \<Rightarrow> po_user r = None \<and> po_project r = None
      | PUser \<Rightarrow> po_user r \<noteq> None \<and> po_project r = None
      | PProject \<Rightarrow> po_project r \<noteq> None \<and> po_user r = None)"

definition new_policy :: "ident \<Rightarrow> policy_input \<Rightarrow> policy_row" where
  "new_policy fresh i =
     \<lparr>po_id = fresh, po_scope = pin_scope i, po_user = fst (subject_of i), po_project = snd (subject_of i),
      po_type = pin_type i, po_key = pin_key i, po_effect = pin_effect i, po_revision = 0\<rparr>"

text \<open>\<open>setPolicy\<close>: None when the row breaks the subject check, which raises.\<close>

definition setPolicy :: "ident \<Rightarrow> policy_input \<Rightarrow> policy_row list \<Rightarrow> (policy_row list \<times> ident) option" where
  "setPolicy fresh i t =
     (let new = new_policy fresh i in
      if \<not> subject_check new then None
      else case find (\<lambda>r. policy_slot r = policy_slot new) t of
        Some old \<Rightarrow>
          Some (update_where (\<lambda>r. policy_slot r = policy_slot new)
                  (\<lambda>r. r\<lparr>po_effect := pin_effect i, po_revision := po_revision r + 1\<rparr>) t, po_id old)
      | None \<Rightarrow> Some (t @ [new], fresh))"

definition clearPolicy :: "ident \<Rightarrow> policy_row list \<Rightarrow> policy_row list \<times> policy_row option" where
  "clearPolicy pid t = (delete_where (\<lambda>r. po_id r = pid) t, find_row po_id pid t)"

subsection \<open>The baseline of a review (policy-disposition.ts)\<close>

fun capability_text :: "capability \<Rightarrow> string" where
  "capability_text SkillCap = ''skill''"
| "capability_text ConnectorCap = ''connector''"

fun policy_scope_text :: "policy_scope \<Rightarrow> string" where
  "policy_scope_text PSystem = ''system''"
| "policy_scope_text PUser = ''user''"
| "policy_scope_text PProject = ''project''"

definition or_empty :: "string option \<Rightarrow> string" where
  "or_empty x = (case x of Some s \<Rightarrow> s | None \<Rightarrow> [])"

definition policyKey :: "policy_row \<Rightarrow> string" where
  "policyKey r =
     join_with '':'' [policy_scope_text (po_scope r), capability_text (po_type r), po_key r, or_empty (po_user r), or_empty (po_project r)]"

definition readPolicyBaseline :: "(capability \<times> string) list \<Rightarrow> policy_row list \<Rightarrow> policy_row list" where
  "readPolicyBaseline names t = (if names = [] then [] else filter (\<lambda>r. (po_type r, po_key r) \<in> set names) t)"

record resource_row = \<comment> \<open>a row of \<open>mcp_servers\<close> or \<open>skills\<close>\<close>
  rr_type :: capability
  rr_name :: string
  rr_source :: string

definition foreignSurvivors :: "(capability \<times> string) list \<Rightarrow> string option \<Rightarrow> resource_row list \<Rightarrow> (capability \<times> string) list" where
  "foreignSurvivors names ownTag rows =
     (if names = [] then []
      else js_set (map (\<lambda>r. (rr_type r, rr_name r))
             (filter (\<lambda>r. (rr_type r, rr_name r) \<in> set names \<and> rr_source r \<noteq> or_empty ownTag) rows)))"

definition policyRevisions :: "policy_row list \<Rightarrow> (string \<times> int) list" where
  "policyRevisions rows = fold (\<lambda>r. AList.update (policyKey r) (int (po_revision r))) rows []"

datatype outlook = StillApplies | AppliesToNothing

record policy_outlook =
  ol_key :: string
  ol_type :: capability
  ol_capability :: string
  ol_effect :: effect
  ol_outlook :: outlook
  ol_canDelete :: bool

record actor =
  ac_user :: ident
  ac_admin :: bool

definition ownsPolicy :: "policy_row \<Rightarrow> actor \<Rightarrow> bool" where
  "ownsPolicy r a \<longleftrightarrow> ac_admin a \<or> po_scope r = PUser \<and> po_user r = Some (ac_user a)"

definition outlook_of :: "(capability \<times> string) list \<Rightarrow> policy_row \<Rightarrow> outlook" where
  "outlook_of surviving r = (if (po_type r, po_key r) \<in> set surviving then StillApplies else AppliesToNothing)"

definition analysePolicies :: "policy_row list \<Rightarrow> (capability \<times> string) list \<Rightarrow> actor \<Rightarrow> policy_outlook list" where
  "analysePolicies affected surviving a =
     map (\<lambda>r. \<lparr>ol_key = policyKey r, ol_type = po_type r, ol_capability = po_key r, ol_effect = po_effect r,
                ol_outlook = outlook_of surviving r,
                ol_canDelete = (outlook_of surviving r = AppliesToNothing \<and> ownsPolicy r a)\<rparr>) affected"

definition survivingDispositions :: "(string \<times> disposition) list \<Rightarrow> policy_outlook list \<Rightarrow> (string \<times> disposition) list" where
  "survivingDispositions dispositions outlooks =
     filter (\<lambda>(key, d). case map_of (js_map ol_key outlooks) key of
         None \<Rightarrow> False
       | Some out \<Rightarrow> \<not> (d = Delete \<and> \<not> ol_canDelete out)) dispositions"

subsection \<open>Carrying the dispositions out\<close>

datatype dispose_error =
    ForbiddenDisposition string string
  | StalePolicy string
  | NotImplemented string

text \<open>\<open>assertDispositionAllowed\<close>: the error it throws, if any.\<close>

definition assertDispositionAllowed ::
  "string \<Rightarrow> disposition \<Rightarrow> policy_row \<Rightarrow> policy_outlook option \<Rightarrow> actor \<Rightarrow> dispose_error option" where
  "assertDispositionAllowed key d r ol a =
     (if d = Keep then None
      else if \<not> ownsPolicy r a then Some (ForbiddenDisposition key ''only an admin can change a rule that is not your own'')
      else case ol of
        None \<Rightarrow> Some (ForbiddenDisposition key ''this rule is not part of the review'')
      | Some out \<Rightarrow>
          if ol_outlook out \<noteq> AppliesToNothing
          then Some (ForbiddenDisposition key ''this rule still applies to a resource that remains'')
          else None)"

text \<open>\<open>applyDispositions\<close> inside its transaction: the table with the rules gone and the deleted rows of
  the baseline, or the error that aborts the transaction. A disposition that is none of the three
  literals takes the branch of \<open>Reassign\<close>.\<close>

fun applyDispositions ::
  "policy_row list \<Rightarrow> policy_outlook list \<Rightarrow> actor \<Rightarrow> (string \<times> disposition) list \<Rightarrow> policy_row list \<Rightarrow>
   dispose_error + (policy_row list \<times> policy_row list)" where
  "applyDispositions baseline outlooks a [] t = Inr (t, [])"
| "applyDispositions baseline outlooks a ((key, d) # ds) t =
     (if d = Keep then applyDispositions baseline outlooks a ds t
      else case map_of (js_map policyKey baseline) key of
        None \<Rightarrow> Inl (StalePolicy key)
      | Some r \<Rightarrow>
          (case assertDispositionAllowed key d r (map_of (js_map ol_key outlooks) key) a of
             Some e \<Rightarrow> Inl e
           | None \<Rightarrow>
               if d = Delete then
                 (let hit = (\<lambda>x. po_id x = po_id r \<and> po_revision x = po_revision r) in
                  if filter hit t = [] then Inl (StalePolicy key)
                  else case applyDispositions baseline outlooks a ds (delete_where hit t) of
                    Inl e \<Rightarrow> Inl e
                  | Inr (t', deleted) \<Rightarrow> Inr (t', r # deleted))
               else Inl (NotImplemented key)))"

end
