(* ===== verification/Plugin_Audit.thy ===== *)
theory Plugin_Audit
  imports Policies
begin

section \<open>The journal of applies (src/lib/marketplace/audit.ts, project.ts)\<close>

text \<open>
  The public projection of a surface, the durable review built on it, and the rows an apply appends to
  \<open>audit_log\<close> under deterministic ids. An insert that meets its id already there compares what is
  stored and answers None, the \<open>AuditInvariantViolation\<close>, when it disagrees.
\<close>

subsection \<open>The public surface (project.ts)\<close>

record public_execution =
  px_binary :: string
  px_argCount :: nat
  px_placeholderArgs :: "nat list"

record public_connector =
  pc_name :: string
  pc_origin :: string
  pc_transport :: transport
  pc_endpoint :: "endpoint option"
  pc_auth :: "auth_kind option"
  pc_secretKeys :: "string list"
  pc_needsSecret :: bool
  pc_thirdParty :: bool
  pc_bundled :: bool
  pc_activation :: activation
  pc_execution :: "public_execution option"

record public_surface =
  pv_version :: int
  pv_completeness :: completeness
  pv_connectors :: "public_connector list"
  pv_skills :: "(string \<times> string) list" \<comment> \<open>name and origin path\<close>
  pv_files :: "nat \<times> nat \<times> string list" \<comment> \<open>count, bytes and entry points\<close>

definition public_connector_of :: "connector \<Rightarrow> public_connector" where
  "public_connector_of c =
     \<lparr>pc_name = cn_name c, pc_origin = cn_origin c, pc_transport = cn_transport c, pc_endpoint = cn_endpoint c,
      pc_auth = cn_auth c, pc_secretKeys = cn_secretKeys c, pc_needsSecret = cn_needsSecret c,
      pc_thirdParty = cn_thirdParty c, pc_bundled = cn_bundled c, pc_activation = cn_activation c,
      pc_execution = map_option (\<lambda>x. \<lparr>px_binary = ex_binary x, px_argCount = ex_argCount x, px_placeholderArgs = ex_placeholderArgs x\<rparr>)
        (cn_execution c)\<rparr>"

definition toPublicSurface :: "surface \<Rightarrow> public_surface" where
  "toPublicSurface s =
     \<lparr>pv_version = sv_version s, pv_completeness = sv_completeness s,
      pv_connectors = map public_connector_of (sv_connectors s),
      pv_skills = map (\<lambda>k. (sk_name k, sk_originPath k)) (sv_skills s),
      pv_files = (sfs_count (sv_files s), sfs_bytes (sv_files s), sfs_entrypoints (sv_files s))\<rparr>"

subsection \<open>Journal rows\<close>

record durable_review =
  dr_subject :: review_subject
  dr_hash :: string
  dr_surface :: public_surface
  dr_delta :: install_delta
  dr_gate :: gate
  dr_observations :: observations
  dr_notes :: "string list"

datatype audit_detail =
    ApplyDetail (dt_operation: ident) (dt_hash: string) (dt_outcome: string) (dt_error: "string option") (dt_review: "durable_review option")
  | ClearDetail ident policy_scope capability string effect "ident option" "ident option"
  | OtherDetail json

record audit_row =
  lg_id :: ident
  lg_actor :: "ident option"
  lg_action :: string
  lg_type :: string
  lg_key :: "string option"
  lg_detail :: audit_detail

datatype apply_event = Accepted | Succeeded | StaleEvent | BlockedEvent | FailedEvent

fun event_text :: "apply_event \<Rightarrow> string" where
  "event_text Accepted = ''accepted''"
| "event_text Succeeded = ''succeeded''"
| "event_text StaleEvent = ''stale''"
| "event_text BlockedEvent = ''blocked''"
| "event_text FailedEvent = ''failed''"

definition ACTION :: "apply_event \<Rightarrow> string" where
  "ACTION e = ''plugin.apply_'' @ event_text e"

definition applyEventId :: "ident \<Rightarrow> apply_event \<Rightarrow> ident" where
  "applyEventId operation e = ''plugin-apply:'' @ operation @ '':'' @ event_text e"

definition insertOnce :: "audit_row \<Rightarrow> audit_row list \<Rightarrow> audit_row list option" where
  "insertOnce row jl =
     (case find_row lg_id (lg_id row) jl of
        None \<Rightarrow> Some (jl @ [row])
      | Some got \<Rightarrow>
          if lg_actor got = lg_actor row \<and> lg_action got = lg_action row \<and> lg_key got = lg_key row \<and> lg_detail got = lg_detail row
          then Some jl else None)"

definition insertPolicyClearAudit :: "ident option \<Rightarrow> ident \<Rightarrow> policy_row \<Rightarrow> audit_row list \<Rightarrow> audit_row list option" where
  "insertPolicyClearAudit actorId operation r =
     insertOnce
       \<lparr>lg_id = ''plugin-apply:'' @ operation @ '':policy:'' @ po_id r, lg_actor = actorId, lg_action = ''policy.clear'',
        lg_type = capability_text (po_type r), lg_key = Some (po_key r),
        lg_detail = ClearDetail operation (po_scope r) (po_type r) (po_key r) (po_effect r) (po_user r) (po_project r)\<rparr>"

record plugin_event =
  pe_operation :: ident
  pe_event :: apply_event
  pe_actor :: "ident option"
  pe_review :: "durable_review option"
  pe_hash :: string
  pe_key :: string
  pe_error :: "string option"

definition event_outcome :: "apply_event \<Rightarrow> string" where
  "event_outcome e = (if e = Accepted then ''pending'' else event_text e)"

definition event_row :: "plugin_event \<Rightarrow> audit_row" where
  "event_row e =
     \<lparr>lg_id = applyEventId (pe_operation e) (pe_event e), lg_actor = pe_actor e, lg_action = ACTION (pe_event e),
      lg_type = ''plugin'', lg_key = Some (pe_key e),
      lg_detail = ApplyDetail (pe_operation e) (pe_hash e) (event_outcome (pe_event e))
        (case pe_error e of Some [] \<Rightarrow> None | x \<Rightarrow> x) (pe_review e)\<rparr>"

text \<open>The stored row as the comparison reads it: actor, action, target, outcome, hash and error code.\<close>

definition stored_identity :: "audit_row \<Rightarrow> (ident option \<times> string \<times> string option) \<times> (string option \<times> string option \<times> string option)" where
  "stored_identity r =
     ((lg_actor r, lg_action r, lg_key r),
      case lg_detail r of
        ApplyDetail _ h out err _ \<Rightarrow> (Some out, Some h, err)
      | _ \<Rightarrow> (None, None, None))"

definition insertPluginAudit :: "plugin_event \<Rightarrow> audit_row list \<Rightarrow> audit_row list option" where
  "insertPluginAudit e jl =
     (case find_row lg_id (applyEventId (pe_operation e) (pe_event e)) jl of
        None \<Rightarrow> Some (jl @ [event_row e])
      | Some got \<Rightarrow>
          if stored_identity got =
             ((pe_actor e, ACTION (pe_event e), Some (pe_key e)), (Some (event_outcome (pe_event e)), Some (pe_hash e), pe_error e))
          then Some jl else None)"

end
