(* ===== verification/Async_Calls.thy ===== *)
theory Async_Calls
  imports Main
begin

section \<open>Async functions over a shared world\<close>

text \<open>
  An \<open>async\<close> function of the program reads and writes a world others write as well, and returns or
  throws. \<open>andThen\<close> is \<open>await\<close> in sequence, \<open>attempt\<close> is \<open>try/catch\<close>, and \<open>transaction\<close> keeps the
  world when its body throws. The triples say what a function leaves behind in either case, and the
  rules below take one apart along its structure.
\<close>

type_synonym ('w, 'e, 'a) async = "'w \<Rightarrow> 'w \<times> ('e + 'a)"

definition ret :: "'a \<Rightarrow> ('w, 'e, 'a) async" where
  "ret x w = (w, Inr x)"

definition throw :: "'e \<Rightarrow> ('w, 'e, 'a) async" where
  "throw e w = (w, Inl e)"

definition andThen :: "('w, 'e, 'a) async \<Rightarrow> ('a \<Rightarrow> ('w, 'e, 'b) async) \<Rightarrow> ('w, 'e, 'b) async" where
  "andThen m f w = (case m w of (w', Inl e) \<Rightarrow> (w', Inl e) | (w', Inr x) \<Rightarrow> f x w')"

definition attempt :: "('w, 'e, 'a) async \<Rightarrow> ('e \<Rightarrow> ('w, 'e, 'a) async) \<Rightarrow> ('w, 'e, 'a) async" where
  "attempt m h w = (case m w of (w', Inl e) \<Rightarrow> h e w' | (w', Inr x) \<Rightarrow> (w', Inr x))"

definition transaction :: "('w, 'e, 'a) async \<Rightarrow> ('w, 'e, 'a) async" where
  "transaction m w = (case m w of (w', Inl e) \<Rightarrow> (w, Inl e) | (w', Inr x) \<Rightarrow> (w', Inr x))"

definition triple :: "('w \<Rightarrow> bool) \<Rightarrow> ('w, 'e, 'a) async \<Rightarrow> ('a \<Rightarrow> 'w \<Rightarrow> bool) \<Rightarrow> ('e \<Rightarrow> 'w \<Rightarrow> bool) \<Rightarrow> bool" where
  "triple P m Q E \<longleftrightarrow> (\<forall>w. P w \<longrightarrow> (case m w of (w', Inl e) \<Rightarrow> E e w' | (w', Inr x) \<Rightarrow> Q x w'))"

lemma tripleI:
  assumes "\<And>w w' x. P w \<Longrightarrow> m w = (w', Inr x) \<Longrightarrow> Q x w'" and "\<And>w w' e. P w \<Longrightarrow> m w = (w', Inl e) \<Longrightarrow> E e w'"
  shows "triple P m Q E"
  using assms unfolding triple_def by (fastforce split: prod.split sum.split)

lemma tripleD:
  assumes "triple P m Q E" and "P w" and "m w = (w', r)"
  shows "case r of Inl e \<Rightarrow> E e w' | Inr x \<Rightarrow> Q x w'"
  using assms unfolding triple_def by (fastforce split: sum.splits)

lemma triple_ret: "(\<And>w. P w \<Longrightarrow> Q x w) \<Longrightarrow> triple P (ret x) Q E"
  by (simp add: triple_def ret_def)

lemma triple_throw: "(\<And>w. P w \<Longrightarrow> E e w) \<Longrightarrow> triple P (throw e) Q E"
  by (simp add: triple_def throw_def)

lemma triple_andThen:
  assumes "triple P m R E" and "\<And>x. triple (R x) (f x) Q E"
  shows "triple P (andThen m f) Q E"
  unfolding triple_def andThen_def
proof (intro allI impI)
  fix w assume "P w"
  obtain w' r where m: "m w = (w', r)" by (cases "m w")
  from tripleD [OF assms(1) \<open>P w\<close> m] assms(2)
  show "case case m w of (w', Inl e) \<Rightarrow> (w', Inl e) | (w', Inr x) \<Rightarrow> f x w' of (w', Inl e) \<Rightarrow> E e w' | (w', Inr x) \<Rightarrow> Q x w'"
    by (cases r) (simp_all add: m triple_def)
qed

lemma triple_attempt:
  assumes "triple P m Q R" and "\<And>e. triple (R e) (h e) Q E"
  shows "triple P (attempt m h) Q E"
  unfolding triple_def attempt_def
proof (intro allI impI)
  fix w assume "P w"
  obtain w' r where m: "m w = (w', r)" by (cases "m w")
  from tripleD [OF assms(1) \<open>P w\<close> m] assms(2)
  show "case case m w of (w', Inl e) \<Rightarrow> h e w' | (w', Inr x) \<Rightarrow> (w', Inr x) of (w', Inl e) \<Rightarrow> E e w' | (w', Inr x) \<Rightarrow> Q x w'"
    by (cases r) (simp_all add: m triple_def)
qed

lemma triple_transaction:
  assumes "\<And>w w' x. P w \<Longrightarrow> m w = (w', Inr x) \<Longrightarrow> Q x w'" and "\<And>w e. P w \<Longrightarrow> E e w"
  shows "triple P (transaction m) Q E"
  unfolding triple_def transaction_def
proof (intro allI impI)
  fix w assume "P w"
  obtain w' r where m: "m w = (w', r)" by (cases "m w")
  with assms \<open>P w\<close>
  show "case case m w of (w', Inl e) \<Rightarrow> (w, Inl e) | (w', Inr x) \<Rightarrow> (w', Inr x) of (w', Inl e) \<Rightarrow> E e w' | (w', Inr x) \<Rightarrow> Q x w'"
    by (cases r) simp_all
qed

lemma triple_weaken:
  assumes "triple P m Q E" and "\<And>w. P' w \<Longrightarrow> P w" and "\<And>x w. Q x w \<Longrightarrow> Q' x w" and "\<And>e w. E e w \<Longrightarrow> E' e w"
  shows "triple P' m Q' E'"
  using assms unfolding triple_def by (fastforce split: prod.splits sum.splits)

text \<open>Two functions that start alike differ only where their continuations do.\<close>

lemma andThen_cong: "(\<And>x w'. m w = (w', Inr x) \<Longrightarrow> f x w' = g x w') \<Longrightarrow> andThen m f w = andThen m g w"
  by (auto simp: andThen_def split: prod.split sum.split)

end
