(* ===== verification/Plugin_Barrier.thy ===== *)
theory Plugin_Barrier
  imports Plugin_Audit Plugin_Fence Async_Calls
begin

section \<open>The apply barrier (src/lib/marketplace/barrier.ts, manifest-store.ts)\<close>

text \<open>
  One reviewed apply from its hash to its terminal event. The world holds the tables the barrier reads
  and writes. Before every statement the others move the world (\<open>cx_env\<close>) and the statement itself may
  fail (\<open>cx_fault\<close>); the numbers name the statements in the order of the code. What comes from
  outside is an argument: the plan with its observations and the runtime surface of a build
  (\<open>cx_look\<close>, None when it throws), the resource writes (\<open>cx_writes\<close>), the clock, the fresh ids, the
  digest and the decoding of a stored surface.
\<close>

subsection \<open>Reading a stored manifest (manifest-store.ts)\<close>

record read_manifest =
  rm_surface :: "surface option"
  rm_revision :: "int option" \<comment> \<open>None: \<open>NaN\<close>\<close>
  rm_apply :: "apply_state option"
  rm_never :: bool

fun json_field :: "string \<Rightarrow> json \<Rightarrow> json option" where
  "json_field k (JObj fs) = map_of fs k"
| "json_field k _ = None"

definition readStoredManifest :: "(json \<Rightarrow> surface) \<Rightarrow> manifest option \<Rightarrow> read_manifest" where
  "readStoredManifest as_surface raw =
     (case raw of
        None \<Rightarrow> \<lparr>rm_surface = None, rm_revision = Some 0, rm_apply = None, rm_never = False\<rparr>
      | Some m \<Rightarrow>
          if json_field ''schemaVersion'' (mf_rest m) \<noteq> Some (JNum 2)
          then \<lparr>rm_surface = None, rm_revision = Some 0, rm_apply = None, rm_never = False\<rparr>
          else \<lparr>rm_surface = (case json_field ''installSurface'' (mf_rest m) of
                    None \<Rightarrow> None | Some JNull \<Rightarrow> None | Some j \<Rightarrow> Some (as_surface j)),
                rm_revision = mf_revision m, rm_apply = mf_apply m, rm_never = (mf_revision m = Some 0)\<rparr>)"

definition reservedManifest :: "apply_state option \<Rightarrow> manifest" where
  "reservedManifest a =
     \<lparr>mf_revision = Some 0, mf_apply = a,
      mf_rest = JObj [(''schemaVersion'', JNum 2),
        (''inventory'', JObj [(''skills'', JArr []), (''connectors'', JArr []), (''ignored'', JArr []), (''notes'', JArr [])]),
        (''installSurface'', JNull)]\<rparr>"

subsection \<open>The world and the request\<close>

record world =
  w_installs :: "install_row list"
  w_policies :: "policy_row list"
  w_resources :: "resource_row list"
  w_log :: "audit_row list"

datatype exn = StagingConflict | AuditViolation | FencedWrite | LeaseLost | DispositionRefused dispose_error | OtherError

record apply_request =
  aq_marketplace :: ident
  aq_plugin :: string
  aq_scope :: scope
  aq_owner :: "ident option"
  aq_target :: string
  aq_only :: "string list option"
  aq_skillsOnly :: bool
  aq_actorId :: ident
  aq_hash :: string
  aq_dispositions :: "(string \<times> disposition) list"
  aq_actor :: actor
  aq_install :: "ident option"

text \<open>What a build sees of the outside.\<close>

record observed =
  og_after :: surface
  og_observations :: observations
  og_runtime :: surface
  og_notes :: "string list"

record ctx =
  cx_sha :: "string \<Rightarrow> string"
  cx_surface :: "json \<Rightarrow> surface"
  cx_env :: "nat \<Rightarrow> world \<Rightarrow> world"
  cx_fault :: "nat \<Rightarrow> bool"
  cx_now :: "nat \<Rightarrow> time"
  cx_look :: "nat \<Rightarrow> world \<Rightarrow> observed option"
  cx_writes :: "ident \<Rightarrow> ident \<Rightarrow> observed \<Rightarrow> (world, exn, manifest) async"
  cx_staleId :: ident
  cx_blockedId :: ident
  cx_operation :: ident
  cx_freshInstall :: ident

definition HASH_RE :: "string \<Rightarrow> bool" where
  "HASH_RE s \<longleftrightarrow> length s = 64 \<and> list_all (\<lambda>c. c \<in> set ''0123456789abcdef'') s"

subsection \<open>Gathering a review\<close>

definition emptySurface :: "(string \<Rightarrow> string) \<Rightarrow> surface" where
  "emptySurface sha =
     \<lparr>sv_version = 1, sv_completeness = Derived, sv_connectors = [], sv_skills = [],
      sv_files = \<lparr>sfs_count = 0, sfs_bytes = 0, sfs_rootHash = rootHash sha [], sfs_entrypoints = [], sfs_files = []\<rparr>\<rparr>"

definition subjectKind :: "(json \<Rightarrow> surface) \<Rightarrow> ident option \<Rightarrow> manifest option \<Rightarrow> apply_kind" where
  "subjectKind as_surface install raw =
     (if install = None \<or> rm_never (readStoredManifest as_surface raw) then Install else Upgrade)"

definition applyKind :: "(json \<Rightarrow> surface) \<Rightarrow> ident option \<Rightarrow> manifest option \<Rightarrow> apply_kind" where
  "applyKind as_surface install raw =
     (if install = None then Install else if rm_never (readStoredManifest as_surface raw) then Retry else Upgrade)"

definition subject_for :: "(json \<Rightarrow> surface) \<Rightarrow> apply_request \<Rightarrow> manifest option \<Rightarrow> review_subject" where
  "subject_for as_surface q raw =
     \<lparr>rs_kind = subjectKind as_surface (aq_install q) raw, rs_install = aq_install q, rs_marketplace = aq_marketplace q,
      rs_plugin = aq_plugin q, rs_scope = aq_scope q, rs_owner = aq_owner q, rs_target = aq_target q,
      rs_only = (case aq_only q of Some (x # xs) \<Rightarrow> Some (x # xs) | _ \<Rightarrow> None), rs_skillsOnly = aq_skillsOnly q\<rparr>"

record gathered =
  ga_seen :: observed
  ga_review :: review_input
  ga_delta :: install_delta
  ga_baseline :: "policy_row list"
  ga_policies :: "policy_outlook list"
  ga_stored :: read_manifest

definition surface_names :: "surface \<Rightarrow> (capability \<times> string) list" where
  "surface_names s = map (\<lambda>c. (ConnectorCap, cn_name c)) (sv_connectors s) @ map (\<lambda>k. (SkillCap, sk_name k)) (sv_skills s)"

text \<open>\<open>gather\<close> with the projection of the review over the dispositions given, as a function of what it read:
  the plan with its observations, the policy rules and the resources.\<close>

definition gather :: "ctx \<Rightarrow> apply_request \<Rightarrow> manifest option \<Rightarrow> observed \<Rightarrow> policy_row list \<Rightarrow> resource_row list \<Rightarrow> gathered" where
  "gather c q raw og rules resources =
     (let stored = readStoredManifest (cx_surface c) raw;
          isFirst = (aq_install q = None \<or> rm_never stored);
          before = (if isFirst then Some (emptySurface (cx_sha c)) else rm_surface stored);
          runtime = (if isFirst then Some (emptySurface (cx_sha c))
                     else case before of None \<Rightarrow> None | Some _ \<Rightarrow> Some (og_runtime og));
          names = surface_names (og_after og) @ (case before of Some b \<Rightarrow> surface_names b | None \<Rightarrow> []);
          baseline = readPolicyBaseline names rules;
          surviving = surface_names (og_after og) @
            foreignSurvivors (map (\<lambda>r. (po_type r, po_key r)) baseline)
              (map_option (\<lambda>i. ''catalog:'' @ i) (aq_install q)) resources
      in \<lparr>ga_seen = og,
          ga_review = \<lparr>ri_subject = subject_for (cx_surface c) q raw, ri_sourceBefore = before, ri_runtimeBefore = runtime,
            ri_sourceAfter = og_after og, ri_observations = og_observations og, ri_dispositions = aq_dispositions q,
            ri_policyRevisions = policyRevisions baseline\<rparr>,
          ga_delta = classifyDelta before runtime (og_after og) (ob_urls (og_observations og)),
          ga_baseline = baseline, ga_policies = analysePolicies baseline surviving (aq_actor q),
          ga_stored = stored\<rparr>)"

definition hash_of :: "ctx \<Rightarrow> gathered \<Rightarrow> string" where
  "hash_of c g = reviewHash (cx_sha c) (ga_review g)"

definition durable_of :: "ctx \<Rightarrow> gathered \<Rightarrow> durable_review" where
  "durable_of c g =
     \<lparr>dr_subject = ri_subject (ga_review g), dr_hash = hash_of c g, dr_surface = toPublicSurface (og_after (ga_seen g)),
      dr_delta = ga_delta g, dr_gate = id_gate (ga_delta g), dr_observations = og_observations (ga_seen g),
      dr_notes = og_notes (ga_seen g)\<rparr>"

subsection \<open>Statements\<close>

text \<open>One statement of the database: the world moves first, then the statement runs or fails.\<close>

definition call :: "ctx \<Rightarrow> nat \<Rightarrow> (world, exn, 'a) async \<Rightarrow> (world, exn, 'a) async" where
  "call c n m w = (if cx_fault c n then (cx_env c n w, Inl OtherError) else m (cx_env c n w))"

definition reads :: "(world \<Rightarrow> 'a) \<Rightarrow> (world, exn, 'a) async" where
  "reads f w = (w, Inr (f w))"

definition installs :: "(install_row list \<Rightarrow> install_row list \<times> bool) \<Rightarrow> (world, exn, bool) async" where
  "installs f w = (let (t, won) = f (w_installs w) in (w\<lparr>w_installs := t\<rparr>, Inr won))"

definition journal :: "(audit_row list \<Rightarrow> audit_row list option) \<Rightarrow> (world, exn, unit) async" where
  "journal f w = (case f (w_log w) of Some l \<Rightarrow> (w\<lparr>w_log := l\<rparr>, Inr ()) | None \<Rightarrow> (w, Inl AuditViolation))"

text \<open>The reads of \<open>gather\<close> are separate statements, numbered apart from those of the apply: what was looked at
  (with the resources of the install), the rules of the names, the resources of the names. The others may
  change the world between any two of them.\<close>

definition build :: "ctx \<Rightarrow> apply_request \<Rightarrow> manifest option \<Rightarrow> nat \<Rightarrow> (world, exn, gathered) async" where
  "build c q raw n =
     andThen (call c n (\<lambda>w. case cx_look c n w of Some og \<Rightarrow> (w, Inr og) | None \<Rightarrow> (w, Inl OtherError))) (\<lambda>og.
     andThen (call c (n + 20) (reads w_policies)) (\<lambda>rules.
     andThen (call c (n + 40) (reads w_resources)) (\<lambda>resources.
     ret (gather c q raw og rules resources))))"

definition plugin_event :: "apply_request \<Rightarrow> ident \<Rightarrow> apply_event \<Rightarrow> durable_review option \<Rightarrow> string option \<Rightarrow> plugin_event" where
  "plugin_event q operation e review err =
     \<lparr>pe_operation = operation, pe_event = e, pe_actor = Some (aq_actorId q), pe_review = review, pe_hash = aq_hash q,
      pe_key = aq_plugin q, pe_error = err\<rparr>"

definition audits :: "apply_request \<Rightarrow> ident \<Rightarrow> apply_event \<Rightarrow> durable_review option \<Rightarrow> string option \<Rightarrow> (world, exn, unit) async" where
  "audits q operation e review err = journal (insertPluginAudit (plugin_event q operation e review err))"

subsection \<open>Outcomes\<close>

record fresh_review =
  fr_hash :: string
  fr_gate :: gate
  fr_policies :: "policy_outlook list"

datatype apply_outcome =
    ApplySucceeded
  | ApplyStale fresh_review "(string \<times> disposition) list"
  | ApplyBlocked fresh_review
  | ApplyBroken string
  | ApplyRejected

definition fresh_of :: "ctx \<Rightarrow> gathered \<Rightarrow> fresh_review" where
  "fresh_of c g = \<lparr>fr_hash = hash_of c g, fr_gate = id_gate (ga_delta g), fr_policies = ga_policies g\<rparr>"

definition staleWith :: "ctx \<Rightarrow> apply_request \<Rightarrow> gathered \<Rightarrow> apply_outcome" where
  "staleWith c q g =
     (let ds = survivingDispositions (aq_dispositions q) (ga_policies g) in
      ApplyStale (fresh_of c (g\<lparr>ga_review := (ga_review g)\<lparr>ri_dispositions := ds\<rparr>\<rparr>)) ds)"

subsection \<open>The claim\<close>

definition install_id :: "ctx \<Rightarrow> apply_request \<Rightarrow> ident" where
  "install_id c q = (case aq_install q of Some i \<Rightarrow> i | None \<Rightarrow> cx_freshInstall c)"

definition claim_of :: "ctx \<Rightarrow> apply_request \<Rightarrow> apply_kind \<Rightarrow> read_manifest \<Rightarrow> claim_input" where
  "claim_of c q kind stored =
     \<lparr>ci_install = install_id c q, ci_operation = cx_operation c, ci_expected = rm_revision stored, ci_target = aq_target q,
      ci_kind = kind, ci_review = Some (aq_hash q)\<rparr>"

definition staged_row :: "ctx \<Rightarrow> apply_request \<Rightarrow> time \<Rightarrow> install_row" where
  "staged_row c q now =
     \<lparr>pi_id = install_id c q, pi_marketplace = aq_marketplace q, pi_plugin = aq_plugin q, pi_scope = aq_scope q, pi_user = aq_owner q,
      pi_manifest = Some (reservedManifest (Some (new_apply now (claim_of c q Install (readStoredManifest (cx_surface c) None)))))\<rparr>"

text \<open>The primary key and the two partial unique indexes.\<close>

definition install_clash :: "install_row \<Rightarrow> install_row \<Rightarrow> bool" where
  "install_clash r x \<longleftrightarrow>
     pi_id x = pi_id r \<or>
     pi_marketplace x = pi_marketplace r \<and> pi_plugin x = pi_plugin r \<and> pi_scope x = pi_scope r \<and> pi_user x = pi_user r"

definition stage :: "ctx \<Rightarrow> apply_request \<Rightarrow> time \<Rightarrow> (world, exn, unit) async" where
  "stage c q now w =
     (if list_ex (install_clash (staged_row c q now)) (w_installs w) then (w, Inl StagingConflict)
      else (w\<lparr>w_installs := w_installs w @ [staged_row c q now]\<rparr>, Inr ()))"

definition claim :: "ctx \<Rightarrow> apply_request \<Rightarrow> apply_kind \<Rightarrow> gathered \<Rightarrow> (world, exn, unit) async" where
  "claim c q kind first =
     transaction (andThen
       (if aq_install q = None then stage c q (cx_now c 3)
        else andThen (installs (claimApply (cx_now c 3) (claim_of c q kind (ga_stored first))))
               (\<lambda>ok. if ok then ret () else throw StagingConflict))
       (\<lambda>_. audits q (cx_operation c) Accepted (Some (durable_of c first)) None))"

subsection \<open>The claimed phases\<close>

definition recordTerminalFailure :: "ctx \<Rightarrow> apply_request \<Rightarrow> nat \<Rightarrow> string \<Rightarrow> (world, exn, unit) async" where
  "recordTerminalFailure c q n code =
     andThen (call c n (installs (markApplyFailed (install_id c q) (cx_operation c))))
       (\<lambda>won. if won then call c (n + 1) (audits q (cx_operation c) FailedEvent None (Some code)) else ret ())"

definition second_check :: "ctx \<Rightarrow> apply_request \<Rightarrow> apply_kind \<Rightarrow> manifest option \<Rightarrow> (world, exn, apply_outcome + gathered) async" where
  "second_check c q kind raw =
     andThen (build c q raw 4) (\<lambda>second.
       if hash_of c second \<noteq> aq_hash q
       then andThen (call c 5 (installs (releaseApplyClaim (install_id c q) (cx_operation c) kind))) (\<lambda>_.
            andThen (call c 6 (audits q (cx_operation c) StaleEvent None None)) (\<lambda>_.
            ret (Inl (staleWith c q second))))
       else ret (Inr second))"

definition clear_audits :: "ctx \<Rightarrow> apply_request \<Rightarrow> policy_row list \<Rightarrow> (world, exn, unit) async" where
  "clear_audits c q rows =
     foldr (\<lambda>r m. andThen (journal (insertPolicyClearAudit (Some (aq_actorId q)) (cx_operation c) r)) (\<lambda>_. m)) rows (ret ())"

definition dispose :: "apply_request \<Rightarrow> gathered \<Rightarrow> (world, exn, policy_row list) async" where
  "dispose q second w =
     (case applyDispositions (ga_baseline second) (ga_policies second) (aq_actor q) (aq_dispositions q) (w_policies w) of
        Inl e \<Rightarrow> (w, Inl (DispositionRefused e))
      | Inr (t, deleted) \<Rightarrow> (w\<lparr>w_policies := t\<rparr>, Inr deleted))"

definition commit :: "ctx \<Rightarrow> apply_request \<Rightarrow> gathered \<Rightarrow> manifest \<Rightarrow> (world, exn, unit) async" where
  "commit c q second m =
     transaction (
       andThen (installs (finalizeApply (cx_now c 11) (install_id c q) (cx_operation c) m)) (\<lambda>won.
       if \<not> won then throw LeaseLost
       else andThen (dispose q second) (\<lambda>deleted.
            andThen (clear_audits c q deleted) (\<lambda>_.
            audits q (cx_operation c) Succeeded None None))))"

fun commit_error :: "exn \<Rightarrow> string" where
  "commit_error LeaseLost = ''lease_lost''"
| "commit_error (DispositionRefused (ForbiddenDisposition _ _)) = ''policy_forbidden''"
| "commit_error _ = ''policy_stale''"

definition mutating :: "ctx \<Rightarrow> apply_request \<Rightarrow> gathered \<Rightarrow> (world, exn, apply_outcome) async" where
  "mutating c q second =
     andThen
       (attempt
         (andThen (call c 7 (installs (renewApplyLease (cx_now c 7) (install_id c q) (cx_operation c)))) (\<lambda>_.
          andThen (cx_writes c (cx_operation c) (install_id c q) (ga_seen second)) (\<lambda>m. ret (Inr m))))
         (\<lambda>e. let code = (if e = FencedWrite then ''fenced'' else ''write_failed'') in
            andThen (recordTerminalFailure c q 8 code) (\<lambda>_. ret (Inl (ApplyBroken code)))))
       (\<lambda>r. case r of
          Inl out \<Rightarrow> ret out
        | Inr m \<Rightarrow>
            attempt (andThen (call c 11 (commit c q second m)) (\<lambda>_. ret ApplySucceeded))
              (\<lambda>e. andThen (recordTerminalFailure c q 12 (commit_error e)) (\<lambda>_. ret (ApplyBroken (commit_error e)))))"

definition claimed_phase :: "ctx \<Rightarrow> apply_request \<Rightarrow> apply_kind \<Rightarrow> manifest option \<Rightarrow> (world, exn, apply_outcome) async" where
  "claimed_phase c q kind raw =
     andThen
       (attempt (second_check c q kind raw)
         (\<lambda>_. andThen (call c 14 (installs (releaseApplyClaim (install_id c q) (cx_operation c) kind))) (\<lambda>_.
              ret (Inl (ApplyBroken ''aborted'')))))
       (\<lambda>r. case r of
          Inl out \<Rightarrow> ret out
        | Inr second \<Rightarrow>
            attempt (mutating c q second)
              (\<lambda>_. andThen (recordTerminalFailure c q 15 ''aborted'') (\<lambda>_. ret (ApplyBroken ''aborted''))))"

definition claim_outcome :: "ctx \<Rightarrow> apply_request \<Rightarrow> gathered \<Rightarrow> exn \<Rightarrow> apply_outcome" where
  "claim_outcome c q first e =
     (case e of
        StagingConflict \<Rightarrow> staleWith c q first
      | AuditViolation \<Rightarrow> ApplyBroken ''audit_failed''
      | _ \<Rightarrow> ApplyBroken ''claim_failed'')"

definition checked :: "ctx \<Rightarrow> apply_request \<Rightarrow> manifest option \<Rightarrow> gathered \<Rightarrow> (world, exn, apply_outcome) async" where
  "checked c q raw first =
     (if hash_of c first \<noteq> aq_hash q
      then andThen (call c 2 (audits q (cx_staleId c) StaleEvent None None)) (\<lambda>_. ret (staleWith c q first))
      else if id_gate (ga_delta first) = CannotApply
      then andThen (call c 2 (audits q (cx_blockedId c) BlockedEvent None None)) (\<lambda>_. ret (ApplyBlocked (fresh_of c first)))
      else let kind = applyKind (cx_surface c) (aq_install q) raw in
        andThen
          (attempt (andThen (call c 3 (claim c q kind first)) (\<lambda>_. ret None))
            (\<lambda>e. ret (Some (claim_outcome c q first e))))
          (\<lambda>r. case r of Some out \<Rightarrow> ret out | None \<Rightarrow> claimed_phase c q kind raw))"

definition applyPluginReviewed :: "ctx \<Rightarrow> apply_request \<Rightarrow> (world, exn, apply_outcome) async" where
  "applyPluginReviewed c q =
     (if \<not> HASH_RE (aq_hash q) then ret ApplyRejected
      else andThen
        (case aq_install q of
           Some i \<Rightarrow> call c 0 (reads (\<lambda>w. Option.bind (find_row pi_id i (w_installs w)) pi_manifest))
         | None \<Rightarrow> ret None)
        (\<lambda>raw. andThen (build c q raw 1) (checked c q raw)))"

subsection \<open>The reaper of the worker (src/lib/tasks/worker.ts)\<close>

definition reap_event :: "stale_apply \<Rightarrow> plugin_event" where
  "reap_event s =
     \<lparr>pe_operation = sa_operation s, pe_event = FailedEvent, pe_actor = None, pe_review = None, pe_hash = or_empty (sa_review s),
      pe_key = sa_plugin s, pe_error = Some ''lease_expired''\<rparr>"

fun reap_audits :: "stale_apply list \<Rightarrow> (world, exn, unit) async" where
  "reap_audits [] = ret ()"
| "reap_audits (s # ss) = andThen (journal (insertPluginAudit (reap_event s))) (\<lambda>_. reap_audits ss)"

definition reapPluginApplies :: "time \<Rightarrow> (world, exn, unit) async" where
  "reapPluginApplies now =
     transaction (\<lambda>w. let (t, stale) = reconcileStaleApplies now (w_installs w) in reap_audits stale (w\<lparr>w_installs := t\<rparr>))"

end
