(* ===== verification/Review_Theorems.thy ===== *)
theory Review_Theorems
  imports Install_Review
begin

section \<open>What a delta hides, and what a review hash binds\<close>

text \<open>
  The canonical form of a record determines the record, so an unchanged entry of a delta is an
  unchanged resource and two inputs with one review hash are one decision with one gate.
\<close>

subsection \<open>Objects with fixed keys\<close>

lemma norm_object_map_of:
  assumes "norm (CObject kvs) = norm (CObject ls)"
  shows "map_of (map (\<lambda>(k, v). (k, norm v)) kvs) = map_of (map (\<lambda>(k, v). (k, norm v)) ls)"
proof -
  let ?n = "map (\<lambda>(k, v). (k, norm v))"
  have stable: "map_of (sort_key fst es) k = map_of es k" for es :: "(string \<times> canon_value) list" and k
  proof -
    have first: "map_of es k = map_option snd (find (\<lambda>e. fst e = k) es)" for es :: "(string \<times> canon_value) list"
      by (induction es) auto
    have filt: "find P es = (case filter P es of [] \<Rightarrow> None | e # _ \<Rightarrow> Some e)" for P and es :: "(string \<times> canon_value) list"
      by (induction es) auto
    show ?thesis unfolding first filt sort_key_stable ..
  qed
  from assms have "sort_key fst (?n kvs) = sort_key fst (?n ls)" by (simp add: norm_entries_map)
  then show ?thesis using stable [of "?n kvs"] stable [of "?n ls"] by (metis ext)
qed

lemma same_keys_lookup:
  "map fst es = map fst fs \<Longrightarrow> distinct (map fst es) \<Longrightarrow> map_of es = map_of fs \<Longrightarrow> es = fs"
proof (induction es arbitrary: fs)
  case (Cons e es)
  obtain k v where e: "e = (k, v)" by (cases e)
  obtain w fs' where fs: "fs = (k, w) # fs'" using Cons.prems(1) e by (cases fs) auto
  have v: "v = w" using fun_cong [OF Cons.prems(3), of k] by (simp add: e fs)
  have fresh: "k \<notin> set (map fst es)" "k \<notin> set (map fst fs')"
    using Cons.prems(1,2) by (auto simp: e fs)
  have "map_of es = map_of fs'"
  proof
    fix x
    have none: "map_of es k = None" "map_of fs' k = None" using fresh by (simp_all add: map_of_eq_None_iff)
    show "map_of es x = map_of fs' x"
      using fun_cong [OF Cons.prems(3), of x] none by (cases "x = k") (simp_all add: e fs)
  qed
  with Cons.IH [of fs'] Cons.prems(1,2) show ?case by (simp add: e fs v)
qed simp

lemma norm_same_keys:
  assumes "map fst kvs = map fst ls" and "distinct (map fst kvs)"
  shows "norm (CObject kvs) = norm (CObject ls) \<longleftrightarrow> map (norm \<circ> snd) kvs = map (norm \<circ> snd) ls"
proof
  let ?n = "map (\<lambda>(k, v). (k, norm v))"
  have pairs: "?n es = zip (map fst es) (map (norm \<circ> snd) es)" for es by (induction es) auto
  have keys: "map fst (?n es) = map fst es" and vals: "map snd (?n es) = map (norm \<circ> snd) es" for es
    by (induction es) auto
  { assume "norm (CObject kvs) = norm (CObject ls)"
    from norm_object_map_of [OF this] have "?n kvs = ?n ls"
      using assms by (intro same_keys_lookup) (simp_all only: keys)
    then show "map (norm \<circ> snd) kvs = map (norm \<circ> snd) ls" by (metis vals) }
  { assume "map (norm \<circ> snd) kvs = map (norm \<circ> snd) ls"
    then have "?n kvs = ?n ls" unfolding pairs assms(1) by (rule arg_cong)
    then show "norm (CObject kvs) = norm (CObject ls)" by (simp add: norm_entries_map) }
qed

subsection \<open>The canonical form of each record determines it\<close>

declare norm.simps(2) [simp del]

named_theorems canon_inj

lemma norm_or_null:
  assumes "\<And>x y. norm (f x) = norm (f y) \<longleftrightarrow> x = y" and "\<And>x. norm (f x) \<noteq> CNull"
  shows "norm (or_null f a) = norm (or_null f b) \<longleftrightarrow> a = b"
  using assms assms(2) [symmetric] by (cases a; cases b) (simp_all add: or_null_def)

lemma norm_array_map:
  assumes "\<And>x y. norm (f x) = norm (f y) \<longleftrightarrow> x = y"
  shows "norm (CArray (map f xs)) = norm (CArray (map f ys)) \<longleftrightarrow> xs = ys"
proof -
  have "map (norm \<circ> f) xs = map (norm \<circ> f) ys \<longleftrightarrow> xs = ys"
    using assms by (intro inj_map_eq_map) (auto simp: inj_def)
  then show ?thesis by simp
qed

lemma norm_strings [canon_inj]: "norm (strings_canon xs) = norm (strings_canon ys) \<longleftrightarrow> xs = ys"
  unfolding strings_canon_def by (rule norm_array_map) simp

lemma transport_text_inj [simp]: "transport_text a = transport_text b \<longleftrightarrow> a = b"
  by (cases a; cases b) simp_all

lemma auth_text_inj [simp]: "auth_text a = auth_text b \<longleftrightarrow> a = b"
  by (cases a; cases b) simp_all

lemma kind_text_inj [simp]: "kind_text a = kind_text b \<longleftrightarrow> a = b"
  by (cases a; cases b) simp_all

lemma scope_text_inj [simp]: "scope_text a = scope_text b \<longleftrightarrow> a = b"
  by (cases a; cases b) simp_all

lemma completeness_text_inj [simp]: "completeness_text a = completeness_text b \<longleftrightarrow> a = b"
  by (cases a; cases b) simp_all

lemma activation_text_inj [simp]: "activation_text a = activation_text b \<longleftrightarrow> a = b"
  by (cases a; cases b) simp_all

lemma disposition_text_inj [simp]: "disposition_text a = disposition_text b \<longleftrightarrow> a = b"
  by (cases a; cases b) simp_all

lemma verdict_text_inj [simp]: "verdict_text a = verdict_text b \<longleftrightarrow> a = b"
  by (cases a rule: verdict_text.cases; cases b rule: verdict_text.cases) simp_all

lemma norm_string_or_null [canon_inj]: "norm (or_null CString a) = norm (or_null CString b) \<longleftrightarrow> a = b"
  by (rule norm_or_null) simp_all

lemma norm_auth_or_null [canon_inj]:
  "norm (or_null (CString \<circ> auth_text) a) = norm (or_null (CString \<circ> auth_text) b) \<longleftrightarrow> a = b"
  by (rule norm_or_null) simp_all

lemma object_not_null [simp]: "norm (CObject kvs) \<noteq> CNull"
  by (simp add: norm.simps(2))

lemma norm_endpoint [canon_inj]: "norm (endpoint_canon a) = norm (endpoint_canon b) \<longleftrightarrow> a = b"
  unfolding endpoint_canon_def by (subst norm_same_keys) (auto simp: canon_inj)

lemma norm_execution [canon_inj]: "norm (execution_canon a) = norm (execution_canon b) \<longleftrightarrow> a = b"
proof -
  have ints: "norm (CArray (map (CNumber \<circ> int) xs)) = norm (CArray (map (CNumber \<circ> int) ys)) \<longleftrightarrow> xs = ys" for xs ys
    by (rule norm_array_map) simp
  show ?thesis unfolding execution_canon_def by (subst norm_same_keys) (auto simp: ints simp del: norm.simps(1))
qed

lemma norm_endpoint_or_null [canon_inj]:
  "norm (or_null endpoint_canon a) = norm (or_null endpoint_canon b) \<longleftrightarrow> a = b"
  by (rule norm_or_null, rule norm_endpoint) (simp add: endpoint_canon_def)

lemma norm_execution_or_null [canon_inj]:
  "norm (or_null execution_canon a) = norm (or_null execution_canon b) \<longleftrightarrow> a = b"
  by (rule norm_or_null, rule norm_execution) (simp add: execution_canon_def)

subsection \<open>An unchanged resource is the same resource\<close>

text \<open>Everything that decides what a connector reaches, runs or is sent; its place in the manifest
  (\<open>originKey\<close>), its display name and its activation are compared separately.\<close>

definition same_reach :: "connector \<Rightarrow> connector \<Rightarrow> bool" where
  "same_reach b a \<longleftrightarrow>
     cn_transport b = cn_transport a \<and> cn_endpoint b = cn_endpoint a \<and> cn_auth b = cn_auth a \<and>
     cn_credential b = cn_credential a \<and> cn_secretKeys b = cn_secretKeys a \<and> cn_needsSecret b = cn_needsSecret a \<and>
     cn_thirdParty b = cn_thirdParty a \<and> cn_bundled b = cn_bundled a \<and> cn_execution b = cn_execution a"

lemma connectorIdentity_iff: "connectorIdentity b = connectorIdentity a \<longleftrightarrow> same_reach b a"
  unfolding connectorIdentity_def canonical_text_iff
  by (subst norm_same_keys) (auto simp: canon_inj same_reach_def)

lemma skillAspects_Nil:
  "skillAspects b a = [] \<longleftrightarrow>
     sk_instructionHash b = sk_instructionHash a \<and> sk_bodyHash b = sk_bodyHash a \<and>
     sk_originPath b = sk_originPath a \<and> sk_filesRootHash b = sk_filesRootHash a"
  by (auto simp: skillAspects_def)

lemma connector_entry_free:
  "de_kind (connector_entry before (k, a)) \<in> set CONSENT_FREE \<longleftrightarrow>
     (\<exists>b. map_of before k = Some b \<and> same_reach b a)"
  by (auto simp: connector_entry_def delta_line_def CONSENT_FREE_def Let_def connectorIdentity_iff split: option.split)

lemma skill_entry_free:
  "de_kind (skill_entry before (k, a)) \<in> set CONSENT_FREE \<longleftrightarrow>
     (\<exists>b. map_of before k = Some b \<and> skillAspects b a = [])"
  by (auto simp: skill_entry_def delta_line_def CONSENT_FREE_def Let_def split: option.split)

lemma files_entries_free:
  "(\<forall>e \<in> set (files_entries b a). de_kind e \<in> set CONSENT_FREE) \<longleftrightarrow>
     sfs_count a = 0 \<or> sfs_rootHash b = sfs_rootHash a"
  by (auto simp: files_entries_def delta_line_def CONSENT_FREE_def Let_def)

lemma removals_free: "e \<in> set (removals res name bs as) \<Longrightarrow> de_kind e = Removal"
  by (auto simp: removals_def delta_line_def)

lemma removals_all_free: "(\<forall>e \<in> set (removals res name bs as). de_kind e \<in> set CONSENT_FREE) = True"
  using removals_free [of _ res name bs as] by (force simp: CONSENT_FREE_def)

lemma compareAxis_entries:
  "sv_completeness b \<noteq> BaselineUnknown \<Longrightarrow> set (compareAxis (Some b) a) = set (compared_entries b a)"
  by (simp add: compareAxis_def)

lemma gate_free:
  "id_gate (classifyDelta sb rb a urls) = NoConsent \<longleftrightarrow>
     (\<forall>(n, v) \<in> set urls. v = Allowed) \<and> (\<forall>e \<in> set (compareAxis rb a). de_kind e \<in> set CONSENT_FREE)"
  by (auto simp: classifyDelta_def Let_def list_ex_iff js_set_def split: prod.splits)

lemma unknown_entries_free:
  "(\<forall>e \<in> set (unknown_entries a). de_kind e \<in> set CONSENT_FREE) \<longleftrightarrow>
     sv_connectors a = [] \<and> sv_skills a = [] \<and> sfs_count (sv_files a) = 0"
  by (cases "sv_connectors a"; cases "sv_skills a") (auto simp: unknown_entries_def delta_line_def CONSENT_FREE_def)

text \<open>The resource a surface ends up with under a key: the last one that names it.\<close>

definition under_key :: "('a \<Rightarrow> string) \<Rightarrow> string \<Rightarrow> 'a list \<Rightarrow> 'a option" where
  "under_key key k xs = find (\<lambda>x. key x = k) (rev xs)"

lemma under_key_js_map: "map_of (js_map key xs) = (\<lambda>k. under_key key k xs)"
  by (simp add: fun_eq_iff map_of_js_map under_key_def)

lemma js_map_under_key: "(k, x) \<in> set (js_map key xs) \<longleftrightarrow> under_key key k xs = Some x"
  by (simp add: js_map_entry under_key_def)

lemma entries_free_map:
  "(\<forall>e \<in> set (map f (js_map key xs)). P e) \<longleftrightarrow> (\<forall>k x. under_key key k xs = Some x \<longrightarrow> P (f (k, x)))"
  by (auto simp: js_map_under_key)

lemma compared_entries_free:
  "(\<forall>e \<in> set (compared_entries b a). de_kind e \<in> set CONSENT_FREE) \<longleftrightarrow>
     (\<forall>k c. under_key cn_origin k (sv_connectors a) = Some c \<longrightarrow>
        (\<exists>c0. under_key cn_origin k (sv_connectors b) = Some c0 \<and> same_reach c0 c)) \<and>
     (\<forall>k s. under_key sk_name k (sv_skills a) = Some s \<longrightarrow>
        (\<exists>s0. under_key sk_name k (sv_skills b) = Some s0 \<and> skillAspects s0 s = [])) \<and>
     (sfs_count (sv_files a) = 0 \<or> sfs_rootHash (sv_files b) = sfs_rootHash (sv_files a))"
proof -
  have split5: "(\<forall>e \<in> set (u @ v @ w @ x @ y). P e) \<longleftrightarrow>
     (\<forall>e \<in> set u. P e) \<and> (\<forall>e \<in> set v. P e) \<and> (\<forall>e \<in> set w. P e) \<and> (\<forall>e \<in> set x. P e) \<and> (\<forall>e \<in> set y. P e)"
    for u v w x y :: "delta_entry list" and P by auto
  show ?thesis
    unfolding compared_entries_def Let_def split5 entries_free_map connector_entry_free skill_entry_free
      files_entries_free under_key_js_map removals_all_free simp_thms ..
qed

text \<open>
  Property C10. Against a known baseline an apply passes without consent exactly when every address is
  allowed, every connector the artifact leaves behind was already there with the same transport,
  endpoint, credentials and command line, every skill was there with the same files and
  instructions, and the bundled files are the same or gone.
\<close>

theorem no_consent_hides_no_change:
  assumes known: "sv_completeness b \<noteq> BaselineUnknown"
  shows "id_gate (classifyDelta sb (Some b) a urls) = NoConsent \<longleftrightarrow>
    (\<forall>(n, v) \<in> set urls. v = Allowed) \<and>
    (\<forall>k c. under_key cn_origin k (sv_connectors a) = Some c \<longrightarrow>
       (\<exists>c0. under_key cn_origin k (sv_connectors b) = Some c0 \<and> same_reach c0 c)) \<and>
    (\<forall>k s. under_key sk_name k (sv_skills a) = Some s \<longrightarrow>
       (\<exists>s0. under_key sk_name k (sv_skills b) = Some s0 \<and>
         sk_instructionHash s0 = sk_instructionHash s \<and> sk_bodyHash s0 = sk_bodyHash s \<and>
         sk_originPath s0 = sk_originPath s \<and> sk_filesRootHash s0 = sk_filesRootHash s)) \<and>
    (sfs_count (sv_files a) = 0 \<or> sfs_rootHash (sv_files b) = sfs_rootHash (sv_files a))"
  unfolding gate_free compareAxis_entries [OF known] compared_entries_free skillAspects_Nil ..

definition demo_files :: surface_files where
  "demo_files = \<lparr>sfs_count = 0, sfs_bytes = 0, sfs_rootHash = ''e3'', sfs_entrypoints = [], sfs_files = []\<rparr>"

definition demo_connector :: connector where
  "demo_connector = \<lparr>cn_name = ''api'', cn_origin = ''mcp.json#api'', cn_transport = Http,
     cn_endpoint = Some \<lparr>ep_scheme = ''https'', ep_host = ''h'', ep_port = 443, ep_pathname = ''/mcp'', ep_queryKeys = []\<rparr>,
     cn_auth = Some AuthToken, cn_secretKeys = [''Authorization''], cn_needsSecret = False, cn_thirdParty = False,
     cn_bundled = False, cn_activation = ActEnabled, cn_credential = Some ''k1'', cn_execution = None\<rparr>"

definition demo_surface :: "connector list \<Rightarrow> surface" where
  "demo_surface cs = \<lparr>sv_version = 1, sv_completeness = Derived, sv_connectors = cs, sv_skills = [], sv_files = demo_files\<rparr>"

theorem no_consent_hides_no_change_witness:
  "id_gate (classifyDelta None (Some (demo_surface [demo_connector]))
     (demo_surface [demo_connector\<lparr>cn_activation := ForcedDisabled\<rparr>]) [(''api'', Allowed)]) = NoConsent \<and>
   id_gate (classifyDelta None (Some (demo_surface [demo_connector]))
     (demo_surface [demo_connector\<lparr>cn_credential := Some ''k2''\<rparr>]) [(''api'', Allowed)]) \<noteq> NoConsent"
proof -
  have known: "sv_completeness (demo_surface cs) \<noteq> BaselineUnknown" for cs by (simp add: demo_surface_def)
  show ?thesis unfolding no_consent_hides_no_change [OF known]
    by (auto simp: demo_surface_def demo_connector_def demo_files_def under_key_def same_reach_def)
qed

subsection \<open>What the review hash binds\<close>

lemma norm_connector [canon_inj]: "norm (connector_canon a) = norm (connector_canon b) \<longleftrightarrow> a = b"
  unfolding connector_canon_def by (subst norm_same_keys) (auto simp: canon_inj)

lemma norm_skill [canon_inj]: "norm (skill_canon a) = norm (skill_canon b) \<longleftrightarrow> a = b"
  unfolding skill_canon_def by (subst norm_same_keys) (auto simp: canon_inj)

lemma norm_record:
  assumes "\<And>x y. norm (f x) = norm (f y) \<longleftrightarrow> x = y"
  shows "norm (record_canon f m) = norm (record_canon f m') \<longleftrightarrow> sort_key fst m = sort_key fst m'"
proof -
  let ?g = "\<lambda>(k, v). (k, norm (f v))"
  have form: "norm (record_canon f es) = CObject (map ?g (sort_key fst es))" for es
  proof -
    have "map (\<lambda>(k, v). (k, norm v)) (map (\<lambda>(k, v). (k, f v)) es) = map ?g es" for es :: "(string \<times> 'a) list"
      by (induction es) auto
    moreover have "sort_key fst (map ?g es) = map ?g (sort_key fst es)" by (rule sort_key_map) auto
    ultimately show ?thesis unfolding record_canon_def norm.simps(2) norm_entries_map by (simp only:)
  qed
  have "inj ?g" using assms by (auto simp: inj_def)
  then show ?thesis unfolding form canon_value.inject by (rule inj_map_eq_map)
qed

lemma norm_texts [canon_inj]:
  "norm (record_canon (CString \<circ> verdict_text) m) = norm (record_canon (CString \<circ> verdict_text) m') \<longleftrightarrow> sort_key fst m = sort_key fst m'"
  "norm (record_canon (CString \<circ> auth_text) n) = norm (record_canon (CString \<circ> auth_text) n') \<longleftrightarrow> sort_key fst n = sort_key fst n'"
  "norm (record_canon (CString \<circ> disposition_text) d) = norm (record_canon (CString \<circ> disposition_text) d') \<longleftrightarrow> sort_key fst d = sort_key fst d'"
  "norm (record_canon CNumber r) = norm (record_canon CNumber r') \<longleftrightarrow> sort_key fst r = sort_key fst r'"
  by (rule norm_record, simp)+

lemma norm_files [canon_inj]:
  "norm (files_canon a) = norm (files_canon b) \<longleftrightarrow>
     sfs_count a = sfs_count b \<and> sfs_bytes a = sfs_bytes b \<and> sfs_rootHash a = sfs_rootHash b \<and> sfs_entrypoints a = sfs_entrypoints b"
  unfolding files_canon_def by (subst norm_same_keys) (auto simp: canon_inj)

text \<open>Two surfaces a decision cannot tell apart: they may differ in the version of their format and in
  the list of files behind one root hash.\<close>

definition same_surface :: "surface \<Rightarrow> surface \<Rightarrow> bool" where
  "same_surface a b \<longleftrightarrow>
     sv_completeness a = sv_completeness b \<and> sv_connectors a = sv_connectors b \<and> sv_skills a = sv_skills b \<and>
     sfs_count (sv_files a) = sfs_count (sv_files b) \<and> sfs_bytes (sv_files a) = sfs_bytes (sv_files b) \<and>
     sfs_rootHash (sv_files a) = sfs_rootHash (sv_files b) \<and> sfs_entrypoints (sv_files a) = sfs_entrypoints (sv_files b)"

lemma norm_surface [canon_inj]: "norm (surface_canon a) = norm (surface_canon b) \<longleftrightarrow> same_surface a b"
proof -
  have arrays: "norm (CArray (map connector_canon cs)) = norm (CArray (map connector_canon cs')) \<longleftrightarrow> cs = cs'"
    "norm (CArray (map skill_canon ks)) = norm (CArray (map skill_canon ks')) \<longleftrightarrow> ks = ks'" for cs cs' ks ks'
    by (rule norm_array_map, rule canon_inj)+
  show ?thesis unfolding surface_canon_def same_surface_def
    by (subst norm_same_keys) (auto simp: arrays canon_inj simp del: norm.simps(1))
qed

lemma norm_hashable [canon_inj]: "norm (hashableSurface a) = norm (hashableSurface b) \<longleftrightarrow> rel_option same_surface a b"
proof -
  have "norm (surface_canon s) \<noteq> CNull" for s by (simp add: surface_canon_def)
  from this this [symmetric] show ?thesis
    by (cases a; cases b) (simp_all add: hashableSurface_def or_null_def canon_inj)
qed

definition same_subject :: "review_subject \<Rightarrow> review_subject \<Rightarrow> bool" where
  "same_subject a b \<longleftrightarrow> a\<lparr>rs_only := map_option sort (rs_only a)\<rparr> = b\<lparr>rs_only := map_option sort (rs_only b)\<rparr>"

lemma norm_subject [canon_inj]: "norm (subject_canon a) = norm (subject_canon b) \<longleftrightarrow> same_subject a b"
proof -
  have only: "norm (or_null (strings_canon \<circ> sort) x) = norm (or_null (strings_canon \<circ> sort) y) \<longleftrightarrow> map_option sort x = map_option sort y" for x y
    by (cases x; cases y) (simp_all add: or_null_def strings_canon_def norm_strings [unfolded strings_canon_def] del: norm.simps(1), simp_all)
  show ?thesis unfolding subject_canon_def same_subject_def
    by (subst norm_same_keys; cases a; cases b) (auto simp: canon_inj only)
qed

lemma norm_observations [canon_inj]:
  "norm (observations_canon a) = norm (observations_canon b) \<longleftrightarrow>
     sort_key fst (ob_urls a) = sort_key fst (ob_urls b) \<and> sort_key fst (ob_auth a) = sort_key fst (ob_auth b) \<and>
     ob_blockPrivate a = ob_blockPrivate b"
  unfolding observations_canon_def by (subst norm_same_keys) (auto simp: canon_inj)

definition same_review :: "review_input \<Rightarrow> review_input \<Rightarrow> bool" where
  "same_review i j \<longleftrightarrow>
     same_subject (ri_subject i) (ri_subject j) \<and>
     rel_option same_surface (ri_sourceBefore i) (ri_sourceBefore j) \<and>
     rel_option same_surface (ri_runtimeBefore i) (ri_runtimeBefore j) \<and>
     same_surface (ri_sourceAfter i) (ri_sourceAfter j) \<and>
     sort_key fst (ob_urls (ri_observations i)) = sort_key fst (ob_urls (ri_observations j)) \<and>
     sort_key fst (ob_auth (ri_observations i)) = sort_key fst (ob_auth (ri_observations j)) \<and>
     ob_blockPrivate (ri_observations i) = ob_blockPrivate (ri_observations j) \<and>
     sort_key fst (ri_dispositions i) = sort_key fst (ri_dispositions j) \<and>
     sort_key fst (ri_policyRevisions i) = sort_key fst (ri_policyRevisions j)"

lemma norm_review: "norm (review_canon i) = norm (review_canon j) \<longleftrightarrow> same_review i j"
  unfolding review_canon_def same_review_def by (subst norm_same_keys) (auto simp: canon_inj)

lemma compareAxis_same:
  assumes "rel_option same_surface b b'" and "same_surface a a'"
  shows "compareAxis b a = compareAxis b' a'"
proof -
  have entries: "compared_entries u v = compared_entries u' v'" "unknown_entries v = unknown_entries v'"
    if "same_surface u u'" "same_surface v v'" for u u' v v'
    using that by (simp_all add: same_surface_def compared_entries_def files_entries_def unknown_entries_def)
  have none: "unknown_entries a = unknown_entries a'" using entries(2) [OF assms(2) assms(2)] .
  from assms(1) show ?thesis
  proof cases
    case (Some u u')
    then show ?thesis using none entries(1) [OF Some(3) assms(2)] by (simp add: compareAxis_def same_surface_def)
  qed (simp add: compareAxis_def none)
qed

lemma same_urls: "sort_key fst u = sort_key fst v \<Longrightarrow> list_ex P u = list_ex P v"
  by (metis list_ex_iff set_sort)

lemma review_delta_same:
  assumes same: "same_review i j"
  shows "classifyDelta (ri_sourceBefore i) (ri_runtimeBefore i) (ri_sourceAfter i) (ob_urls (ri_observations i)) =
    classifyDelta (ri_sourceBefore j) (ri_runtimeBefore j) (ri_sourceAfter j) (ob_urls (ri_observations j))"
proof -
  have "compareAxis (ri_sourceBefore i) (ri_sourceAfter i) = compareAxis (ri_sourceBefore j) (ri_sourceAfter j)"
    "compareAxis (ri_runtimeBefore i) (ri_sourceAfter i) = compareAxis (ri_runtimeBefore j) (ri_sourceAfter j)"
    using same by (auto intro!: compareAxis_same simp: same_review_def)
  moreover have "list_ex P (ob_urls (ri_observations i)) = list_ex P (ob_urls (ri_observations j))" for P
    using same by (intro same_urls) (simp add: same_review_def)
  ultimately show ?thesis by (simp add: classifyDelta_def)
qed

text \<open>
  Property C11. As long as the digest of these two inputs does not collide, a review hash accepted for
  one of them is the hash of the other exactly when they are the same decision: subject, both
  baselines, the artifact, the address verdicts and their policy, the dispositions and the revisions
  of the rules. And the same decision has the same delta and the same gate.
\<close>

theorem review_hash_binds_decision:
  assumes "sha (canonicalTypedValue ''review'' (review_canon i)) = sha (canonicalTypedValue ''review'' (review_canon j)) \<Longrightarrow>
    canonicalTypedValue ''review'' (review_canon i) = canonicalTypedValue ''review'' (review_canon j)"
  shows "(reviewHash sha i = reviewHash sha j \<longleftrightarrow> same_review i j) \<and>
    (same_review i j \<longrightarrow>
      classifyDelta (ri_sourceBefore i) (ri_runtimeBefore i) (ri_sourceAfter i) (ob_urls (ri_observations i)) =
      classifyDelta (ri_sourceBefore j) (ri_runtimeBefore j) (ri_sourceAfter j) (ob_urls (ri_observations j)))"
proof (intro conjI impI)
  show "reviewHash sha i = reviewHash sha j \<longleftrightarrow> same_review i j"
    unfolding reviewHash_def norm_review [symmetric] canonical_text_iff [of "''review''", symmetric] using assms by metis
qed (rule review_delta_same)

definition demo_review :: "(string \<times> disposition) list \<Rightarrow> time \<Rightarrow> review_input" where
  "demo_review d t =
     \<lparr>ri_subject = \<lparr>rs_kind = Upgrade, rs_install = Some ''i1'', rs_marketplace = ''m'', rs_plugin = ''p'', rs_scope = SystemScope,
        rs_owner = None, rs_target = ''abc'', rs_only = None, rs_skillsOnly = False\<rparr>,
      ri_sourceBefore = Some (demo_surface [demo_connector]), ri_runtimeBefore = Some (demo_surface [demo_connector]),
      ri_sourceAfter = demo_surface [],
      ri_observations = \<lparr>ob_urls = [(''api'', Allowed)], ob_auth = [(''api'', AuthToken)], ob_blockPrivate = True, ob_observedAt = t\<rparr>,
      ri_dispositions = d, ri_policyRevisions = [(''r'', 3)]\<rparr>"

theorem review_hash_binds_decision_witness:
  "reviewHash (\<lambda>s. s) (demo_review [(''r'', Delete)] 1) = reviewHash (\<lambda>s. s) (demo_review [(''r'', Delete)] 2) \<and>
   reviewHash (\<lambda>s. s) (demo_review [(''r'', Delete)] 1) \<noteq> reviewHash (\<lambda>s. s) (demo_review [(''r'', Keep)] 1)"
proof -
  have iff: "reviewHash (\<lambda>s. s) i = reviewHash (\<lambda>s. s) j \<longleftrightarrow> same_review i j" for i j
    using review_hash_binds_decision [of "\<lambda>s. s" i j] by blast
  show ?thesis unfolding iff
    by (auto simp: demo_review_def same_review_def same_subject_def same_surface_def)
qed

end
