(* ===== verification/Barrier_Theorems.thy ===== *)
theory Barrier_Theorems
  imports Plugin_Barrier Review_Theorems Apply_Theorems
begin

section \<open>What applies is what was reviewed, and the journal tells how it ended\<close>

subsection \<open>Only the writes depend on the writer\<close>

lemma writes_select:
  "cx_sha (c\<lparr>cx_writes := f\<rparr>) = cx_sha c" "cx_surface (c\<lparr>cx_writes := f\<rparr>) = cx_surface c"
  "cx_env (c\<lparr>cx_writes := f\<rparr>) = cx_env c" "cx_fault (c\<lparr>cx_writes := f\<rparr>) = cx_fault c"
  "cx_now (c\<lparr>cx_writes := f\<rparr>) = cx_now c" "cx_look (c\<lparr>cx_writes := f\<rparr>) = cx_look c"
  "cx_writes (c\<lparr>cx_writes := f\<rparr>) = f" "cx_staleId (c\<lparr>cx_writes := f\<rparr>) = cx_staleId c"
  "cx_blockedId (c\<lparr>cx_writes := f\<rparr>) = cx_blockedId c" "cx_operation (c\<lparr>cx_writes := f\<rparr>) = cx_operation c"
  "cx_freshInstall (c\<lparr>cx_writes := f\<rparr>) = cx_freshInstall c"
  by simp_all

lemma writes_irrelevant [simp]:
  "call (c\<lparr>cx_writes := f\<rparr>) = call c"
  "gather (c\<lparr>cx_writes := f\<rparr>) = gather c"
  "hash_of (c\<lparr>cx_writes := f\<rparr>) = hash_of c"
  "install_id (c\<lparr>cx_writes := f\<rparr>) = install_id c"
  "build (c\<lparr>cx_writes := f\<rparr>) = build c"
  "staleWith (c\<lparr>cx_writes := f\<rparr>) = staleWith c"
  "fresh_of (c\<lparr>cx_writes := f\<rparr>) = fresh_of c"
  "claim (c\<lparr>cx_writes := f\<rparr>) = claim c"
  "claim_outcome (c\<lparr>cx_writes := f\<rparr>) = claim_outcome c"
  "recordTerminalFailure (c\<lparr>cx_writes := f\<rparr>) = recordTerminalFailure c"
  "second_check (c\<lparr>cx_writes := f\<rparr>) = second_check c"
  "commit (c\<lparr>cx_writes := f\<rparr>) = commit c"
proof -
  show call: "call (c\<lparr>cx_writes := f\<rparr>) = call c" unfolding fun_eq_iff call_def writes_select by (intro allI refl)
  show gather: "gather (c\<lparr>cx_writes := f\<rparr>) = gather c" unfolding fun_eq_iff gather_def writes_select by (intro allI refl)
  show hash: "hash_of (c\<lparr>cx_writes := f\<rparr>) = hash_of c" unfolding fun_eq_iff hash_of_def writes_select by (intro allI refl)
  show inst: "install_id (c\<lparr>cx_writes := f\<rparr>) = install_id c" unfolding fun_eq_iff install_id_def writes_select by (intro allI refl)
  show build: "build (c\<lparr>cx_writes := f\<rparr>) = build c" unfolding fun_eq_iff build_def writes_select call gather by (intro allI refl)
  show fresh: "fresh_of (c\<lparr>cx_writes := f\<rparr>) = fresh_of c" unfolding fun_eq_iff fresh_of_def hash by (intro allI refl)
  show stale: "staleWith (c\<lparr>cx_writes := f\<rparr>) = staleWith c" unfolding fun_eq_iff staleWith_def fresh by (intro allI refl)
  show "claim_outcome (c\<lparr>cx_writes := f\<rparr>) = claim_outcome c" unfolding fun_eq_iff claim_outcome_def stale by (intro allI refl)
  have claim_of: "claim_of (c\<lparr>cx_writes := f\<rparr>) = claim_of c" unfolding fun_eq_iff claim_of_def inst writes_select by (intro allI refl)
  have staged: "staged_row (c\<lparr>cx_writes := f\<rparr>) = staged_row c" unfolding fun_eq_iff staged_row_def inst claim_of writes_select by (intro allI refl)
  have stage: "stage (c\<lparr>cx_writes := f\<rparr>) = stage c" unfolding fun_eq_iff stage_def staged by (intro allI refl)
  have durable: "durable_of (c\<lparr>cx_writes := f\<rparr>) = durable_of c" unfolding fun_eq_iff durable_of_def hash by (intro allI refl)
  show "claim (c\<lparr>cx_writes := f\<rparr>) = claim c" unfolding fun_eq_iff claim_def claim_of stage durable writes_select by (intro allI refl)
  show "recordTerminalFailure (c\<lparr>cx_writes := f\<rparr>) = recordTerminalFailure c"
    unfolding fun_eq_iff recordTerminalFailure_def call inst writes_select by (intro allI refl)
  show "second_check (c\<lparr>cx_writes := f\<rparr>) = second_check c"
    unfolding fun_eq_iff second_check_def call inst hash build stale writes_select by (intro allI refl)
  have clear: "clear_audits (c\<lparr>cx_writes := f\<rparr>) = clear_audits c" unfolding fun_eq_iff clear_audits_def writes_select by (intro allI refl)
  show "commit (c\<lparr>cx_writes := f\<rparr>) = commit c" unfolding fun_eq_iff commit_def inst clear writes_select by (intro allI refl)
qed

lemma mutating_same:
  assumes "f (cx_operation c) (install_id c q) (ga_seen second) = g (cx_operation c) (install_id c q) (ga_seen second)"
  shows "mutating (c\<lparr>cx_writes := f\<rparr>) q second = mutating (c\<lparr>cx_writes := g\<rparr>) q second"
  unfolding mutating_def writes_irrelevant writes_select assms ..

lemma second_check_result:
  assumes "second_check c q kind raw w = (w', Inr (Inr second))"
  shows "\<exists>og ps rs. second = gather c q raw og ps rs \<and> hash_of c second = aq_hash q"
  using assms
  by (auto simp: second_check_def andThen_def build_def call_def reads_def ret_def split: prod.splits sum.splits if_splits option.splits)

lemma andThen_Inr: "andThen m f w = (w', Inr x) \<Longrightarrow> \<exists>w1 y. m w = (w1, Inr y) \<and> f y w1 = (w', Inr x)"
  by (auto simp: andThen_def split: prod.splits sum.splits)

lemma attempt_Inr: "attempt m h w = (w', Inr x) \<Longrightarrow> m w = (w', Inr x) \<or> (\<exists>e w1. m w = (w1, Inl e) \<and> h e w1 = (w', Inr x))"
  by (auto simp: attempt_def split: prod.splits sum.splits)

lemma claimed_phase_cong:
  assumes "\<And>og ps rs. hash_of c (gather c q raw og ps rs) = aq_hash q \<Longrightarrow>
    f (cx_operation c) (install_id c q) og = g (cx_operation c) (install_id c q) og"
  shows "claimed_phase (c\<lparr>cx_writes := f\<rparr>) q kind raw w = claimed_phase (c\<lparr>cx_writes := g\<rparr>) q kind raw w"
  unfolding claimed_phase_def writes_irrelevant writes_select
proof (rule andThen_cong)
  let ?h = "\<lambda>_ :: exn. andThen (call c 14 (installs (releaseApplyClaim (install_id c q) (cx_operation c) kind)))
      (\<lambda>_. ret (Inl (ApplyBroken ''aborted'')))"
  fix x w'
  assume run: "attempt (second_check c q kind raw) ?h w = (w', Inr x)"
  show "(case x of Inl out \<Rightarrow> ret out | Inr second \<Rightarrow> attempt (mutating (c\<lparr>cx_writes := f\<rparr>) q second)
           (\<lambda>_. andThen (recordTerminalFailure c q 15 ''aborted'') (\<lambda>_. ret (ApplyBroken ''aborted'')))) w' =
        (case x of Inl out \<Rightarrow> ret out | Inr second \<Rightarrow> attempt (mutating (c\<lparr>cx_writes := g\<rparr>) q second)
           (\<lambda>_. andThen (recordTerminalFailure c q 15 ''aborted'') (\<lambda>_. ret (ApplyBroken ''aborted'')))) w'"
  proof (cases x)
    case (Inr second)
    have "second_check c q kind raw w = (w', Inr x)"
      using attempt_Inr [OF run] by (auto simp: Inr ret_def dest!: andThen_Inr)
    from second_check_result [OF this [unfolded Inr]] obtain og ps rs where s: "second = gather c q raw og ps rs" "hash_of c second = aq_hash q" by blast
    then have "ga_seen second = og" by (simp add: gather_def Let_def)
    with assms [of og ps rs] s have "f (cx_operation c) (install_id c q) (ga_seen second) = g (cx_operation c) (install_id c q) (ga_seen second)" by simp
    then have "mutating (c\<lparr>cx_writes := f\<rparr>) q second = mutating (c\<lparr>cx_writes := g\<rparr>) q second" by (rule mutating_same)
    then show ?thesis by (simp add: Inr)
  qed simp
qed

lemma build_result: "build c q raw n w = (w', Inr g) \<Longrightarrow> \<exists>og ps rs. g = gather c q raw og ps rs"
  by (auto simp: build_def andThen_def call_def reads_def ret_def split: if_splits option.splits prod.splits sum.splits)

lemma hash_same:
  assumes "reviewHash (cx_sha c) i = aq_hash q" and "hash_of c g = aq_hash q"
    and "\<And>j. cx_sha c (canonicalTypedValue ''review'' (review_canon i)) = cx_sha c (canonicalTypedValue ''review'' (review_canon j)) \<Longrightarrow>
      canonicalTypedValue ''review'' (review_canon i) = canonicalTypedValue ''review'' (review_canon j)"
  shows "same_review i (ga_review g)"
proof -
  have "cx_sha c (canonicalTypedValue ''review'' (review_canon i)) = cx_sha c (canonicalTypedValue ''review'' (review_canon (ga_review g)))"
    using assms(1,2) by (simp add: hash_of_def reviewHash_def)
  from assms(3) [OF this] show ?thesis by (simp add: canonical_text_iff norm_review)
qed

lemma gather_delta: "ga_delta (gather c q raw og ps rs) = (let i = ga_review (gather c q raw og ps rs) in
    classifyDelta (ri_sourceBefore i) (ri_runtimeBefore i) (ri_sourceAfter i) (ob_urls (ri_observations i)))"
  by (simp add: gather_def Let_def)

text \<open>
  Property C6. Let the installer have seen a review with the accepted hash, and let its digest not collide. Then the apply
  behaves the same whatever the writer would do with any plan that is not that same review, or that the
  gate refuses: only the reviewed plan reaches the writer.
\<close>

theorem only_the_reviewed_plan_is_written:
  assumes shown: "reviewHash (cx_sha c) i = aq_hash q"
    and digest: "\<And>j. cx_sha c (canonicalTypedValue ''review'' (review_canon i)) = cx_sha c (canonicalTypedValue ''review'' (review_canon j)) \<Longrightarrow>
      canonicalTypedValue ''review'' (review_canon i) = canonicalTypedValue ''review'' (review_canon j)"
    and agree: "\<And>raw og ps rs. same_review i (ga_review (gather c q raw og ps rs)) \<Longrightarrow> id_gate (ga_delta (gather c q raw og ps rs)) \<noteq> CannotApply \<Longrightarrow>
      f (cx_operation c) (install_id c q) og = g (cx_operation c) (install_id c q) og"
  shows "applyPluginReviewed (c\<lparr>cx_writes := f\<rparr>) q w = applyPluginReviewed (c\<lparr>cx_writes := g\<rparr>) q w"
proof -
  have claimed: "claimed_phase (c\<lparr>cx_writes := f\<rparr>) q kind raw w' = claimed_phase (c\<lparr>cx_writes := g\<rparr>) q kind raw w'"
    if first: "hash_of c (gather c q raw og1 ps1 rs1) = aq_hash q" "id_gate (ga_delta (gather c q raw og1 ps1 rs1)) \<noteq> CannotApply" for kind raw w' og1 ps1 rs1
  proof (rule claimed_phase_cong)
    fix og ps rs assume second: "hash_of c (gather c q raw og ps rs) = aq_hash q"
    from hash_same [OF shown first(1) digest] hash_same [OF shown second digest]
    have "ga_delta (gather c q raw og ps rs) = ga_delta (gather c q raw og1 ps1 rs1)"
      unfolding gather_delta Let_def by (metis review_delta_same)
    with agree hash_same [OF shown second digest] first(2)
    show "f (cx_operation c) (install_id c q) og = g (cx_operation c) (install_id c q) og" by simp
  qed
  have checked: "checked (c\<lparr>cx_writes := f\<rparr>) q raw (gather c q raw og1 ps1 rs1) = checked (c\<lparr>cx_writes := g\<rparr>) q raw (gather c q raw og1 ps1 rs1)" for raw og1 ps1 rs1
    unfolding checked_def writes_irrelevant writes_select Let_def
    using claimed [of raw og1 ps1 rs1] by (auto simp: fun_eq_iff intro!: andThen_cong split: option.split)
  have built: "andThen (build c q raw 1) (checked (c\<lparr>cx_writes := f\<rparr>) q raw) w1 = andThen (build c q raw 1) (checked (c\<lparr>cx_writes := g\<rparr>) q raw) w1" for raw w1
    using build_result checked by (intro andThen_cong) metis
  show ?thesis
  proof (cases "HASH_RE (aq_hash q)")
    case True
    then have ok: "(\<not> HASH_RE (aq_hash q)) = False" by simp
    show ?thesis unfolding applyPluginReviewed_def writes_irrelevant ok if_False by (rule andThen_cong) (rule built)
  next
    case False
    then show ?thesis by (simp add: applyPluginReviewed_def)
  qed
qed

subsection \<open>Terminal events\<close>

lemma event_text_suffix: "xs @ event_text e = ys @ event_text e' \<Longrightarrow> e = e'"
proof -
  assume "xs @ event_text e = ys @ event_text e'"
  then have "rev (event_text e) @ rev xs = rev (event_text e') @ rev ys" by (metis rev_append)
  then show ?thesis by (cases e; cases e') simp_all
qed

lemma applyEventId_event: "applyEventId a e = applyEventId b e' \<Longrightarrow> e = e'"
  using event_text_suffix [of "''plugin-apply:'' @ a @ '':''" e "''plugin-apply:'' @ b @ '':''" e'] by (simp add: applyEventId_def)

lemma applyEventId_inj [simp]: "applyEventId a e = applyEventId a e' \<longleftrightarrow> e = e'"
  by (auto dest: applyEventId_event)

definition conclusive :: "ident \<Rightarrow> audit_row \<Rightarrow> bool" where
  "conclusive op r \<longleftrightarrow> lg_id r = applyEventId op Succeeded \<or> lg_id r = applyEventId op FailedEvent"

definition conclusions :: "ident \<Rightarrow> world \<Rightarrow> audit_row list" where
  "conclusions op w = filter (conclusive op) (w_log w)"

definition held :: "ident \<Rightarrow> ident \<Rightarrow> world \<Rightarrow> bool" where
  "held i op w \<longleftrightarrow> (\<exists>r \<in> set (w_installs w). owned_by i op r)"

text \<open>What the others may do to an operation: leave its claim and its conclusions alone, or take the claim
  away, recording at most one failure.\<close>

definition rely :: "ident \<Rightarrow> ident \<Rightarrow> world \<Rightarrow> world \<Rightarrow> bool" where
  "rely i op w w' \<longleftrightarrow>
     (held i op w' \<longrightarrow> held i op w) \<and>
     (conclusions op w' = conclusions op w \<or>
      held i op w \<and> \<not> held i op w' \<and> (\<exists>x. conclusions op w' = conclusions op w @ [x] \<and> lg_id x = applyEventId op FailedEvent))"

definition unclaimed :: "ident \<Rightarrow> ident \<Rightarrow> world \<Rightarrow> bool" where
  "unclaimed i op w \<longleftrightarrow> conclusions op w = [] \<and> \<not> held i op w"

definition unsettled :: "ident \<Rightarrow> ident \<Rightarrow> world \<Rightarrow> bool" where
  "unsettled i op w \<longleftrightarrow>
     conclusions op w = [] \<or> \<not> held i op w \<and> (\<exists>x. conclusions op w = [x] \<and> lg_id x = applyEventId op FailedEvent)"

definition published :: "ident \<Rightarrow> world \<Rightarrow> bool" where
  "published op w \<longleftrightarrow> (\<exists>x. conclusions op w = [x] \<and> lg_id x = applyEventId op Succeeded)"

lemma rely_unclaimed: "rely i op w w' \<Longrightarrow> unclaimed i op w \<Longrightarrow> unclaimed i op w'"
  by (auto simp: rely_def unclaimed_def)

lemma rely_unsettled: "rely i op w w' \<Longrightarrow> unsettled i op w \<Longrightarrow> unsettled i op w'"
  by (auto simp: rely_def unsettled_def)

lemma unclaimed_unsettled: "unclaimed i op w \<Longrightarrow> unsettled i op w"
  by (simp add: unclaimed_def unsettled_def)

lemma triple_call:
  assumes "triple P m Q E" and "\<And>w. R w \<Longrightarrow> P (cx_env c n w)" and "\<And>w. P w \<Longrightarrow> E OtherError w"
  shows "triple R (call c n m) Q E"
  using assms unfolding triple_def call_def by (auto split: prod.splits sum.splits)

subsubsection \<open>Statements and conclusions\<close>

lemma insert_event:
  assumes "insertPluginAudit e jl = Some jl'"
  shows "filter (conclusive op) jl' = filter (conclusive op) jl \<or>
    conclusive op (event_row e) \<and> filter (conclusive op) jl' = filter (conclusive op) jl @ [event_row e]"
  using assms by (auto simp: insertPluginAudit_def split: option.splits if_splits)

lemma insert_event_new:
  assumes "insertPluginAudit e jl = Some jl'" and "conclusive op (event_row e)" and "filter (conclusive op) jl = []"
  shows "filter (conclusive op) jl' = [event_row e]"
proof (cases "find_row lg_id (applyEventId (pe_operation e) (pe_event e)) jl")
  case None
  with assms show ?thesis by (auto simp: insertPluginAudit_def)
next
  case (Some got)
  then have "got \<in> set jl" "lg_id got = lg_id (event_row e)" by (auto dest: find_row_SomeD simp: event_row_def)
  with assms(2,3) have False by (auto simp: conclusive_def filter_empty_conv)
  then show ?thesis ..
qed

lemma event_row_id [simp]: "lg_id (event_row e) = applyEventId (pe_operation e) (pe_event e)"
  by (simp add: event_row_def)

lemma audits_other:
  assumes "e \<noteq> Succeeded" and "e \<noteq> FailedEvent"
  shows "triple (\<lambda>w. conclusions op w = l \<and> held i op w = h) (audits q x e review err) (\<lambda>_ w. conclusions op w = l \<and> held i op w = h)
    (\<lambda>_ w. conclusions op w = l \<and> held i op w = h)"
proof (rule tripleI)
  fix w w' u assume w: "conclusions op w = l \<and> held i op w = h" and run: "audits q x e review err w = (w', Inr u)"
  then obtain jl' where ins: "insertPluginAudit (plugin_event q x e review err) (w_log w) = Some jl'" and w': "w' = w\<lparr>w_log := jl'\<rparr>"
    by (auto simp: audits_def journal_def split: option.splits)
  have "\<not> conclusive op (event_row (plugin_event q x e review err))"
    using assms by (auto simp: conclusive_def plugin_event_def dest: applyEventId_event)
  with insert_event [OF ins, of op] w show "conclusions op w' = l \<and> held i op w' = h"
    by (auto simp: w' conclusions_def held_def)
next
  fix w w' exn assume "conclusions op w = l \<and> held i op w = h" and "audits q x e review err w = (w', Inl exn)"
  then show "conclusions op w' = l \<and> held i op w' = h"
    by (auto simp: audits_def journal_def split: option.splits)
qed

lemma audits_conclusive:
  assumes "e = Succeeded \<or> e = FailedEvent"
  shows "triple (\<lambda>w. conclusions op w = [] \<and> held i op w = h) (audits q op e review err)
    (\<lambda>_ w. held i op w = h \<and> (\<exists>x. conclusions op w = [x] \<and> lg_id x = applyEventId op e))
    (\<lambda>_ w. conclusions op w = [] \<and> held i op w = h)"
proof (rule tripleI)
  fix w w' u assume w: "conclusions op w = [] \<and> held i op w = h" and run: "audits q op e review err w = (w', Inr u)"
  then obtain jl' where ins: "insertPluginAudit (plugin_event q op e review err) (w_log w) = Some jl'" and w': "w' = w\<lparr>w_log := jl'\<rparr>"
    by (auto simp: audits_def journal_def split: option.splits)
  have "conclusive op (event_row (plugin_event q op e review err))" using assms by (auto simp: conclusive_def plugin_event_def)
  from insert_event_new [OF ins this] w show "held i op w' = h \<and> (\<exists>x. conclusions op w' = [x] \<and> lg_id x = applyEventId op e)"
    by (auto simp: w' conclusions_def held_def plugin_event_def)
qed (auto simp: audits_def journal_def split: option.splits)

lemma installs_frame:
  "triple (\<lambda>w. conclusions op w = l) (installs f) (\<lambda>_ w. conclusions op w = l) E"
  by (rule tripleI) (auto simp: installs_def conclusions_def split: prod.splits)

lemma mark_won: "snd (markApplyFailed i op t) \<longleftrightarrow> (\<exists>r \<in> set t. owned_by i op r)"
  by (auto simp: markApplyFailed_def filter_empty_conv)

lemma owned_changes [simp]:
  "\<not> owned_by i op (fail_apply r)"
  "\<not> owned_by i op (set_apply None r)"
  "owned_by i op (map_apply (\<lambda>a. a\<lparr>as_lease := x\<rparr>) r) = owned_by i op r"
  by (auto simp: owned_by_def fail_apply_def split: option.splits)

lemma update_none: "(\<And>r. P r \<Longrightarrow> \<not> P (f r)) \<Longrightarrow> \<not> (\<exists>r \<in> set (update_where P f t). P r)"
  by auto

lemma mark_drops: "\<not> (\<exists>r \<in> set (fst (markApplyFailed i op t)). owned_by i op r)"
  unfolding markApplyFailed_def fst_conv by (rule update_none) simp

lemma release_drops: "\<not> (\<exists>r \<in> set (fst (releaseApplyClaim i op kind t)). owned_by i op r)"
proof (cases kind)
  case Install
  then show ?thesis by (auto simp: releaseApplyClaim_def)
next
  case Upgrade
  then show ?thesis unfolding releaseApplyClaim_def fst_conv by (simp only: apply_kind.case) (rule update_none, simp)
next
  case Retry
  then show ?thesis unfolding releaseApplyClaim_def fst_conv by (simp only: apply_kind.case) (rule update_none, simp)
qed

lemma renew_holds: "(\<exists>r \<in> set (fst (renewApplyLease now i op t)). owned_by i op r) \<longleftrightarrow> (\<exists>r \<in> set t. owned_by i op r)"
proof -
  have "(\<exists>r \<in> set (update_where P f t). P r) \<longleftrightarrow> (\<exists>r \<in> set t. P r)" if "\<And>r. P (f r) = P r" for P and f :: "install_row \<Rightarrow> install_row"
    by (induction t) (auto simp: that)
  then show ?thesis unfolding renewApplyLease_def fst_conv by simp
qed

lemma finalize_won: "snd (finalizeApply now i op m t) \<Longrightarrow> \<exists>r \<in> set t. owned_by i op r"
  by (auto simp: finalizeApply_def filter_empty_conv finalizable_apply_def)

lemma triple_conj_frame:
  "triple (unsettled i op) (installs (markApplyFailed i op))
     (\<lambda>won w. if won then unclaimed i op w else unsettled i op w) E"
proof (rule tripleI)
  fix w w' won assume pre: "unsettled i op w" and run: "installs (markApplyFailed i op) w = (w', Inr won)"
  have won: "won \<longleftrightarrow> held i op w" and t: "w_installs w' = fst (markApplyFailed i op (w_installs w))" and l: "w_log w' = w_log w"
    using run mark_won [of i op "w_installs w"] by (auto simp: installs_def held_def split: prod.splits)
  have "\<not> held i op w'" using mark_drops by (simp add: held_def t)
  with pre won l show "if won then unclaimed i op w' else unsettled i op w'"
    by (auto simp: unsettled_def unclaimed_def conclusions_def)
qed (simp add: installs_def split: prod.splits)

lemma release_unsettled:
  "triple (unsettled i op) (installs (releaseApplyClaim i op kind)) (\<lambda>_. unsettled i op) (\<lambda>_. unsettled i op)"
proof (rule tripleI)
  fix w w' x assume pre: "unsettled i op w" and run: "installs (releaseApplyClaim i op kind) w = (w', Inr x)"
  then have "w_installs w' = fst (releaseApplyClaim i op kind (w_installs w))" "w_log w' = w_log w"
    by (auto simp: installs_def split: prod.splits)
  then have "conclusions op w' = conclusions op w" "\<not> held i op w'" using release_drops by (simp_all add: conclusions_def held_def)
  then show "unsettled i op w'" using pre by (auto simp: unsettled_def)
qed (simp add: installs_def split: prod.splits)

lemma renew_unsettled:
  "triple (unsettled i op) (installs (renewApplyLease now i op)) (\<lambda>_. unsettled i op) (\<lambda>_. unsettled i op)"
proof (rule tripleI)
  fix w w' x assume pre: "unsettled i op w" and run: "installs (renewApplyLease now i op) w = (w', Inr x)"
  then have "w_installs w' = fst (renewApplyLease now i op (w_installs w))" "w_log w' = w_log w"
    by (auto simp: installs_def split: prod.splits)
  then show "unsettled i op w'" using pre renew_holds [of now i op "w_installs w"] by (simp add: unsettled_def conclusions_def held_def)
qed (simp add: installs_def split: prod.splits)

subsection \<open>How an operation ends\<close>

lemma other_unsettled:
  assumes "e \<noteq> Succeeded" and "e \<noteq> FailedEvent"
  shows "triple (unsettled i op) (audits q x e review err) (\<lambda>_. unsettled i op) (\<lambda>_. unsettled i op)"
proof (rule tripleI)
  fix w w' u assume pre: "unsettled i op w" and run: "audits q x e review err w = (w', Inr u)"
  from tripleD [OF audits_other [OF assms, of op "conclusions op w" i "held i op w" q x review err] _ run]
  show "unsettled i op w'" using pre by (simp add: unsettled_def)
next
  fix w w' u assume pre: "unsettled i op w" and run: "audits q x e review err w = (w', Inl u)"
  from tripleD [OF audits_other [OF assms, of op "conclusions op w" i "held i op w" q x review err] _ run]
  show "unsettled i op w'" using pre by (simp add: unsettled_def)
qed

lemma failed_event: "triple (unclaimed i op) (audits q op FailedEvent None err) (\<lambda>_. unsettled i op) (\<lambda>_. unsettled i op)"
  by (rule triple_weaken [OF audits_conclusive [where e = FailedEvent and h = False and i = i]])
    (auto simp: unclaimed_def unsettled_def)

lemma record_unsettled:
  assumes env: "\<And>n w. rely i (cx_operation c) w (cx_env c n w)" and i: "i = install_id c q"
  shows "triple (unsettled i (cx_operation c)) (recordTerminalFailure c q n code) (\<lambda>_. unsettled i (cx_operation c)) (\<lambda>_. unsettled i (cx_operation c))"
  unfolding recordTerminalFailure_def i [symmetric]
proof (rule triple_andThen)
  show "triple (unsettled i (cx_operation c)) (call c n (installs (markApplyFailed i (cx_operation c))))
    (\<lambda>won w. if won then unclaimed i (cx_operation c) w else unsettled i (cx_operation c) w) (\<lambda>_. unsettled i (cx_operation c))"
    by (rule triple_call [OF triple_conj_frame]) (auto intro: rely_unsettled [OF env])
  fix won
  show "triple (\<lambda>w. if won then unclaimed i (cx_operation c) w else unsettled i (cx_operation c) w)
    (if won then call c (n + 1) (audits q (cx_operation c) FailedEvent None (Some code)) else ret ())
    (\<lambda>_. unsettled i (cx_operation c)) (\<lambda>_. unsettled i (cx_operation c))"
  proof (cases won)
    case True
    have "triple (unclaimed i (cx_operation c)) (call c (n + 1) (audits q (cx_operation c) FailedEvent None (Some code)))
      (\<lambda>_. unsettled i (cx_operation c)) (\<lambda>_. unsettled i (cx_operation c))"
      by (rule triple_call [OF failed_event]) (auto intro: rely_unclaimed [OF env] unclaimed_unsettled)
    with True show ?thesis by simp
  qed (simp add: triple_ret)
qed

lemma read_keeps: "(\<And>w. P w \<Longrightarrow> P (cx_env c n w)) \<Longrightarrow> triple P (call c n (reads f)) (\<lambda>_. P) (\<lambda>_. P)"
  unfolding triple_def call_def reads_def by auto

lemma build_unsettled:
  assumes env: "\<And>n w. rely i (cx_operation c) w (cx_env c n w)" and "\<And>w w'. rely i (cx_operation c) w w' \<Longrightarrow> P w \<Longrightarrow> P w'"
  shows "triple P (build c q raw n) (\<lambda>_. P) (\<lambda>_. P)"
proof -
  note stable = assms(2) [OF env]
  have "triple P (call c n (\<lambda>w. case cx_look c n w of Some og \<Rightarrow> (w, Inr og) | None \<Rightarrow> (w, Inl OtherError))) (\<lambda>_. P) (\<lambda>_. P)"
    using stable unfolding triple_def call_def by (auto split: option.split)
  then show ?thesis
    unfolding build_def
    by (rule triple_andThen, intro triple_andThen [where R = "\<lambda>_. P"] triple_ret read_keeps stable) auto
qed

lemma second_check_unsettled:
  assumes env: "\<And>n w. rely i (cx_operation c) w (cx_env c n w)" and i: "i = install_id c q"
  shows "triple (unsettled i (cx_operation c)) (second_check c q kind raw)
    (\<lambda>r w. r \<noteq> Inl ApplySucceeded \<and> unsettled i (cx_operation c) w) (\<lambda>_. unsettled i (cx_operation c))"
  unfolding second_check_def i [symmetric]
proof (rule triple_andThen [OF build_unsettled [OF env rely_unsettled]], assumption)
  fix second
  let ?U = "unsettled i (cx_operation c)"
  have stale: "triple ?U (call c 6 (audits q (cx_operation c) StaleEvent None None)) (\<lambda>_. ?U) (\<lambda>_. ?U)"
    by (rule triple_call [OF other_unsettled]) (auto intro: rely_unsettled [OF env])
  have release: "triple ?U (call c 5 (installs (releaseApplyClaim i (cx_operation c) kind))) (\<lambda>_. ?U) (\<lambda>_. ?U)"
    by (rule triple_call [OF release_unsettled]) (auto intro: rely_unsettled [OF env])
  have out: "staleWith c q second \<noteq> ApplySucceeded" by (simp add: staleWith_def Let_def)
  show "triple ?U
    (if hash_of c second \<noteq> aq_hash q
     then andThen (call c 5 (installs (releaseApplyClaim i (cx_operation c) kind))) (\<lambda>_.
          andThen (call c 6 (audits q (cx_operation c) StaleEvent None None)) (\<lambda>_. ret (Inl (staleWith c q second))))
     else ret (Inr second)) (\<lambda>r w. r \<noteq> Inl ApplySucceeded \<and> ?U w) (\<lambda>_. ?U)"
    by (auto intro!: triple_andThen [OF release] triple_andThen [OF stale] triple_ret simp: out)
qed

definition ending :: "ident \<Rightarrow> ident \<Rightarrow> apply_outcome \<Rightarrow> world \<Rightarrow> bool" where
  "ending i op out w \<longleftrightarrow> (if out = ApplySucceeded then published op w else unsettled i op w)"

lemma clear_audits_frame:
  assumes "clear_audits c q rows w = (w', Inr u)"
  shows "conclusions (cx_operation c) w' = conclusions (cx_operation c) w"
  using assms
proof (induction rows arbitrary: w)
  case (Cons r rows)
  from Cons.prems obtain w1 where j: "journal (insertPolicyClearAudit (Some (aq_actorId q)) (cx_operation c) r) w = (w1, Inr ())"
    and rest: "clear_audits c q rows w1 = (w', Inr u)"
    by (auto simp: clear_audits_def dest!: andThen_Inr)
  have other: "\<not> conclusive (cx_operation c) x" if "lg_id x = ''plugin-apply:'' @ cx_operation c @ '':policy:'' @ po_id r" for x
    using that by (auto simp: conclusive_def applyEventId_def)
  have "conclusions (cx_operation c) w1 = conclusions (cx_operation c) w"
    using j by (auto simp: journal_def insertPolicyClearAudit_def insertOnce_def conclusions_def other split: option.splits if_splits)
  with Cons.IH [OF rest] show ?case by simp
qed (simp add: clear_audits_def ret_def)

lemma commit_publishes:
  "triple (unsettled i (cx_operation c)) (commit c q second m) (\<lambda>_. published (cx_operation c)) (\<lambda>_. unsettled i (cx_operation c))"
  if i: "i = install_id c q"
  unfolding commit_def i [symmetric]
proof (rule triple_transaction)
  fix w w' u
  assume pre: "unsettled i (cx_operation c) w"
    and run: "andThen (installs (finalizeApply (cx_now c 11) i (cx_operation c) m)) (\<lambda>won.
       if \<not> won then throw LeaseLost
       else andThen (dispose q second) (\<lambda>deleted. andThen (clear_audits c q deleted) (\<lambda>_. audits q (cx_operation c) Succeeded None None))) w = (w', Inr u)"
  from andThen_Inr [OF run] obtain w1 won where fin: "installs (finalizeApply (cx_now c 11) i (cx_operation c) m) w = (w1, Inr won)" and
    r1: "(if \<not> won then throw LeaseLost
       else andThen (dispose q second) (\<lambda>deleted. andThen (clear_audits c q deleted) (\<lambda>_. audits q (cx_operation c) Succeeded None None))) w1 = (w', Inr u)"
    by blast
  then have won by (auto simp: throw_def split: if_splits)
  with fin have "snd (finalizeApply (cx_now c 11) i (cx_operation c) m (w_installs w))" by (auto simp: installs_def split: prod.splits)
  from finalize_won [OF this] have "held i (cx_operation c) w" by (simp add: held_def)
  with pre have "conclusions (cx_operation c) w = []" by (simp add: unsettled_def)
  then have c1: "conclusions (cx_operation c) w1 = []" using fin by (auto simp: installs_def conclusions_def split: prod.splits)
  from r1 \<open>won\<close> have r1': "andThen (dispose q second) (\<lambda>deleted.
      andThen (clear_audits c q deleted) (\<lambda>_. audits q (cx_operation c) Succeeded None None)) w1 = (w', Inr u)" by simp
  from andThen_Inr [OF this] obtain w2 deleted where d: "dispose q second w1 = (w2, Inr deleted)" and
    r2: "andThen (clear_audits c q deleted) (\<lambda>_. audits q (cx_operation c) Succeeded None None) w2 = (w', Inr u)"
    by blast
  have c2: "conclusions (cx_operation c) w2 = []" using d c1 by (auto simp: dispose_def conclusions_def split: sum.splits prod.splits)
  from andThen_Inr [OF r2] obtain w3 x where ca: "clear_audits c q deleted w2 = (w3, Inr x)" and
    au: "audits q (cx_operation c) Succeeded None None w3 = (w', Inr u)" by blast
  have "conclusions (cx_operation c) w3 = []" using clear_audits_frame [OF ca] c2 by simp
  with tripleD [OF audits_conclusive [where e = Succeeded and i = i and h = "held i (cx_operation c) w3"] _ au]
  show "published (cx_operation c) w'" by (simp add: published_def)
qed

lemma mutating_ends:
  assumes env: "\<And>n w. rely i (cx_operation c) w (cx_env c n w)" and i: "i = install_id c q"
    and writes: "\<And>og w. rely i (cx_operation c) w (fst (cx_writes c (cx_operation c) i og w))"
  shows "triple (unsettled i (cx_operation c)) (mutating c q second) (ending i (cx_operation c)) (\<lambda>_. unsettled i (cx_operation c))"
  unfolding mutating_def i [symmetric]
proof (rule triple_andThen [where R = "\<lambda>r w. r \<noteq> Inl ApplySucceeded \<and> unsettled i (cx_operation c) w"])
  let ?U = "unsettled i (cx_operation c)"
  have renew: "triple ?U (call c 7 (installs (renewApplyLease (cx_now c 7) i (cx_operation c)))) (\<lambda>_. ?U) (\<lambda>_. ?U)"
    by (rule triple_call [OF renew_unsettled]) (auto intro: rely_unsettled [OF env])
  have wr: "triple ?U (cx_writes c (cx_operation c) i og) (\<lambda>_. ?U) (\<lambda>_. ?U)" for og
    by (rule tripleI) (metis fst_conv rely_unsettled writes)+
  show "triple ?U
    (attempt (andThen (call c 7 (installs (renewApplyLease (cx_now c 7) i (cx_operation c))))
        (\<lambda>_. andThen (cx_writes c (cx_operation c) i (ga_seen second)) (\<lambda>m. ret (Inr m))))
      (\<lambda>e. let code = if e = FencedWrite then ''fenced'' else ''write_failed'' in
         andThen (recordTerminalFailure c q 8 code) (\<lambda>_. ret (Inl (ApplyBroken code)))))
    (\<lambda>r w. r \<noteq> Inl ApplySucceeded \<and> ?U w) (\<lambda>_. ?U)"
    by (auto intro!: triple_attempt [where R = "\<lambda>_. ?U"] triple_andThen [OF renew] triple_andThen [OF wr] triple_ret
        triple_andThen [OF record_unsettled [OF env i]] simp: Let_def)
  fix r
  have commit: "triple ?U (call c 11 (commit c q second m)) (\<lambda>_. published (cx_operation c)) (\<lambda>_. ?U)" for m
    by (rule triple_call [OF commit_publishes [OF i]]) (auto intro: rely_unsettled [OF env])
  show "triple (\<lambda>w. r \<noteq> Inl ApplySucceeded \<and> ?U w)
    (case r of Inl out \<Rightarrow> ret out
     | Inr m \<Rightarrow> attempt (andThen (call c 11 (commit c q second m)) (\<lambda>_. ret ApplySucceeded))
         (\<lambda>e. andThen (recordTerminalFailure c q 12 (commit_error e)) (\<lambda>_. ret (ApplyBroken (commit_error e)))))
    (ending i (cx_operation c)) (\<lambda>_. ?U)"
  proof (cases r)
    case (Inl out)
    then show ?thesis by (auto intro!: triple_ret simp: ending_def)
  next
    case (Inr m)
    have "triple ?U (attempt (andThen (call c 11 (commit c q second m)) (\<lambda>_. ret ApplySucceeded))
         (\<lambda>e. andThen (recordTerminalFailure c q 12 (commit_error e)) (\<lambda>_. ret (ApplyBroken (commit_error e)))))
      (ending i (cx_operation c)) (\<lambda>_. ?U)"
      by (auto intro!: triple_attempt [where R = "\<lambda>_. ?U"] triple_andThen [OF commit] triple_ret
          triple_andThen [OF record_unsettled [OF env i]] simp: ending_def)
    with Inr show ?thesis by simp
  qed
qed

lemma claimed_phase_ends:
  assumes env: "\<And>n w. rely i (cx_operation c) w (cx_env c n w)" and i: "i = install_id c q"
    and writes: "\<And>og w. rely i (cx_operation c) w (fst (cx_writes c (cx_operation c) i og w))"
  shows "triple (unsettled i (cx_operation c)) (claimed_phase c q kind raw) (ending i (cx_operation c)) (\<lambda>_. unsettled i (cx_operation c))"
  unfolding claimed_phase_def i [symmetric]
proof (rule triple_andThen [where R = "\<lambda>r w. r \<noteq> Inl ApplySucceeded \<and> unsettled i (cx_operation c) w"])
  let ?U = "unsettled i (cx_operation c)"
  have release: "triple ?U (call c 14 (installs (releaseApplyClaim i (cx_operation c) kind))) (\<lambda>_. ?U) (\<lambda>_. ?U)"
    by (rule triple_call [OF release_unsettled]) (auto intro: rely_unsettled [OF env])
  show "triple ?U (attempt (second_check c q kind raw)
      (\<lambda>_. andThen (call c 14 (installs (releaseApplyClaim i (cx_operation c) kind))) (\<lambda>_. ret (Inl (ApplyBroken ''aborted'')))))
    (\<lambda>r w. r \<noteq> Inl ApplySucceeded \<and> ?U w) (\<lambda>_. ?U)"
    by (auto intro!: triple_attempt [OF second_check_unsettled [OF env i]] triple_andThen [OF release] triple_ret)
  fix r
  show "triple (\<lambda>w. r \<noteq> Inl ApplySucceeded \<and> ?U w)
    (case r of Inl out \<Rightarrow> ret out
     | Inr second \<Rightarrow> attempt (mutating c q second)
         (\<lambda>_. andThen (recordTerminalFailure c q 15 ''aborted'') (\<lambda>_. ret (ApplyBroken ''aborted''))))
    (ending i (cx_operation c)) (\<lambda>_. ?U)"
  proof (cases r)
    case (Inl out)
    then show ?thesis by (auto intro!: triple_ret simp: ending_def)
  next
    case (Inr second)
    have "triple ?U (attempt (mutating c q second)
         (\<lambda>_. andThen (recordTerminalFailure c q 15 ''aborted'') (\<lambda>_. ret (ApplyBroken ''aborted''))))
      (ending i (cx_operation c)) (\<lambda>_. ?U)"
      by (auto intro!: triple_attempt [OF mutating_ends [OF env i writes]] triple_andThen [OF record_unsettled [OF env i]] triple_ret
          simp: ending_def)
    with Inr show ?thesis by simp
  qed
qed

lemma claim_unsettled:
  "triple (unclaimed i op) (claim c q kind first) (\<lambda>_. unsettled i op) (\<lambda>_. unsettled i op)" if op: "op = cx_operation c"
  unfolding claim_def op [symmetric]
proof (rule triple_transaction)
  fix w w' u
  let ?enter = "if aq_install q = None then stage c q (cx_now c 3)
      else andThen (installs (claimApply (cx_now c 3) (claim_of c q kind (ga_stored first)))) (\<lambda>ok. if ok then ret () else throw StagingConflict)"
  assume pre: "unclaimed i op w" and run: "andThen ?enter (\<lambda>_. audits q op Accepted (Some (durable_of c first)) None) w = (w', Inr u)"
  from andThen_Inr [OF run] obtain w1 x where enter: "?enter w = (w1, Inr x)" and au: "audits q op Accepted (Some (durable_of c first)) None w1 = (w', Inr u)"
    by blast
  have "conclusions op w1 = conclusions op w"
    using enter by (auto simp: stage_def installs_def conclusions_def ret_def throw_def dest!: andThen_Inr split: if_splits prod.splits)
  with pre have "conclusions op w1 = [] \<and> held i op w1 = held i op w1" by (simp add: unclaimed_def)
  from tripleD [OF audits_other [where i = i and op = op] this au] show "unsettled i op w'" by (simp add: unsettled_def)
qed (rule unclaimed_unsettled)

lemma first_refusal:
  assumes env: "\<And>n w. rely i (cx_operation c) w (cx_env c n w)" and e: "e \<noteq> Succeeded" "e \<noteq> FailedEvent"
  shows "triple (unclaimed i (cx_operation c)) (call c n (audits q x e review err)) (\<lambda>_. unsettled i (cx_operation c)) (\<lambda>_. unsettled i (cx_operation c))"
  by (rule triple_call [OF other_unsettled [OF e]]) (auto intro: rely_unclaimed [OF env] unclaimed_unsettled)

lemma not_succeeded [simp]: "staleWith c q g \<noteq> ApplySucceeded" "claim_outcome c q first e \<noteq> ApplySucceeded"
  by (simp_all add: staleWith_def claim_outcome_def Let_def split: exn.split)

lemma checked_ends:
  assumes env: "\<And>n w. rely i (cx_operation c) w (cx_env c n w)" and i: "i = install_id c q"
    and writes: "\<And>og w. rely i (cx_operation c) w (fst (cx_writes c (cx_operation c) i og w))"
  shows "triple (unclaimed i (cx_operation c)) (checked c q raw first) (ending i (cx_operation c)) (\<lambda>_. unsettled i (cx_operation c))"
proof -
  let ?U = "unsettled i (cx_operation c)" and ?N = "unclaimed i (cx_operation c)" and ?kind = "applyKind (cx_surface c) (aq_install q) raw"
  have refuse: "triple ?N (andThen (call c 2 (audits q x e review err)) (\<lambda>_. ret out)) (ending i (cx_operation c)) (\<lambda>_. ?U)"
    if "e \<noteq> Succeeded" "e \<noteq> FailedEvent" "out \<noteq> ApplySucceeded" for x e review err out
    by (rule triple_andThen [OF first_refusal [OF env that(1,2)]]) (auto intro!: triple_ret simp: ending_def that(3))
  have claim: "triple ?N (call c 3 (claim c q ?kind first)) (\<lambda>_. ?U) (\<lambda>_. ?U)"
    by (rule triple_call [OF claim_unsettled [OF refl]]) (auto intro: rely_unclaimed [OF env] unclaimed_unsettled)
  have enter: "triple ?N (attempt (andThen (call c 3 (claim c q ?kind first)) (\<lambda>_. ret None)) (\<lambda>e. ret (Some (claim_outcome c q first e))))
      (\<lambda>r w. r \<noteq> Some ApplySucceeded \<and> ?U w) (\<lambda>_. ?U)"
    by (auto intro!: triple_attempt [where R = "\<lambda>_. ?U"] triple_andThen [OF claim] triple_ret)
  have rest: "triple (\<lambda>w. r \<noteq> Some ApplySucceeded \<and> ?U w) (case r of Some out \<Rightarrow> ret out | None \<Rightarrow> claimed_phase c q ?kind raw)
      (ending i (cx_operation c)) (\<lambda>_. ?U)" for r
    by (cases r) (auto intro!: triple_ret claimed_phase_ends [OF env i writes] simp: ending_def)
  from triple_andThen [OF enter rest] refuse show ?thesis
    by (simp add: checked_def Let_def)
qed

text \<open>The reaper is one of those others.\<close>

lemma reap_audits_effect:
  assumes "reap_audits ss w = (w', Inr u)"
  shows "w_installs w' = w_installs w \<and>
    (filter (\<lambda>s. sa_operation s = op) ss = [] \<longrightarrow> conclusions op w' = conclusions op w) \<and>
    (length (filter (\<lambda>s. sa_operation s = op) ss) = 1 \<longrightarrow>
      conclusions op w' = conclusions op w \<or> (\<exists>x. conclusions op w' = conclusions op w @ [x] \<and> lg_id x = applyEventId op FailedEvent))"
  using assms
proof (induction ss arbitrary: w)
  case (Cons s ss)
  from Cons.prems obtain w1 where j: "journal (insertPluginAudit (reap_event s)) w = (w1, Inr ())" and rest: "reap_audits ss w1 = (w', Inr u)"
    by (auto dest!: andThen_Inr)
  then obtain jl where ins: "insertPluginAudit (reap_event s) (w_log w) = Some jl" and w1: "w1 = w\<lparr>w_log := jl\<rparr>"
    by (auto simp: journal_def split: option.splits)
  have id: "conclusive op (event_row (reap_event s)) \<longleftrightarrow> sa_operation s = op"
    by (auto simp: conclusive_def reap_event_def applyEventId_def)
  have step: "conclusions op w1 = conclusions op w \<or>
      sa_operation s = op \<and> conclusions op w1 = conclusions op w @ [event_row (reap_event s)]"
    using insert_event [OF ins, of op] id by (auto simp: conclusions_def w1)
  have eid: "lg_id (event_row (reap_event s)) = applyEventId (sa_operation s) FailedEvent" by (simp add: reap_event_def)
  from Cons.IH [OF rest] step w1 eid show ?case by auto
qed (simp add: ret_def)

lemma stale_reports_one:
  assumes "distinct (map pi_id t)" and "\<And>r a. r \<in> set t \<Longrightarrow> apply_of r = Some a \<Longrightarrow> as_operation a = op \<Longrightarrow> pi_id r = i"
  shows "length (filter (\<lambda>s. sa_operation s = op) (snd (reconcileStaleApplies now t))) \<le> 1"
    and "filter (\<lambda>s. sa_operation s = op) (snd (reconcileStaleApplies now t)) \<noteq> [] \<Longrightarrow>
      (\<exists>r \<in> set t. owned_by i op r) \<and> \<not> (\<exists>r \<in> set (fst (reconcileStaleApplies now t)). owned_by i op r)"
proof -
  have at_most: "length (filter (\<lambda>s. sa_operation s = op) (List.map_filter stale_report (filter (stale_claim now) t))) \<le>
      length (filter (\<lambda>r. pi_id r = i) t)"
    using assms(2)
  proof (induction t)
    case (Cons r t)
    have ih: "length (filter (\<lambda>s. sa_operation s = op) (List.map_filter stale_report (filter (stale_claim now) t))) \<le> length (filter (\<lambda>r. pi_id r = i) t)"
      using Cons by simp
    show ?case
    proof (cases "stale_claim now r")
      case True
      then obtain a where a: "apply_of r = Some a" by (auto simp: stale_claim_def split: option.splits)
      with Cons.prems [of r a] ih True show ?thesis by (auto simp: List.map_filter_def stale_report_def)
    qed (use ih in auto)
  qed simp
  have one: "length (filter (\<lambda>r. pi_id r = i) t) \<le> 1"
    using assms(1) by (induction t) (auto simp: filter_empty_conv image_iff)
  show "length (filter (\<lambda>s. sa_operation s = op) (snd (reconcileStaleApplies now t))) \<le> 1"
    using at_most one by (simp add: reconcileStaleApplies_def)
  assume "filter (\<lambda>s. sa_operation s = op) (snd (reconcileStaleApplies now t)) \<noteq> []"
  then obtain r a where r: "r \<in> set t" "stale_claim now r" "apply_of r = Some a" "as_operation a = op"
    by (auto simp: reconcileStaleApplies_def filter_empty_conv List.map_filter_def stale_report_def split: if_splits)
  from assms(2) [OF r(1,3,4)] r have own: "owned_by i op r" by (auto simp: owned_by_def stale_claim_def)
  have "\<not> owned_by i op x" if "x \<in> set (fst (reconcileStaleApplies now t))" for x
  proof
    assume x: "owned_by i op x"
    with that have "x \<in> set t" "\<not> stale_claim now x" by (auto simp: reconcileStaleApplies_def)
    moreover have "pi_id x = pi_id r" using x own by (simp add: owned_by_def)
    ultimately have "x = r" using same_key_same_row [OF assms(1) _ r(1)] by blast
    with \<open>\<not> stale_claim now x\<close> r(2) show False by simp
  qed
  with own r(1) show "(\<exists>r \<in> set t. owned_by i op r) \<and> \<not> (\<exists>r \<in> set (fst (reconcileStaleApplies now t)). owned_by i op r)" by blast
qed

lemma reaper_rely:
  assumes ids: "distinct (map pi_id (w_installs w))"
    and mine: "\<And>r a. r \<in> set (w_installs w) \<Longrightarrow> apply_of r = Some a \<Longrightarrow> as_operation a = op \<Longrightarrow> pi_id r = i"
  shows "rely i op w (fst (reapPluginApplies now w))"
proof (cases "reapPluginApplies now w")
  case (Pair w' res)
  show ?thesis
  proof (cases res)
    case (Inl e)
    with Pair have "w' = w" by (auto simp: reapPluginApplies_def transaction_def split: prod.splits sum.splits)
    with Pair show ?thesis by (simp add: rely_def)
  next
    case (Inr u)
    let ?t = "fst (reconcileStaleApplies now (w_installs w))" and ?ss = "snd (reconcileStaleApplies now (w_installs w))"
    from Pair Inr have run: "reap_audits ?ss (w\<lparr>w_installs := ?t\<rparr>) = (w', Inr u)"
      by (auto simp: reapPluginApplies_def transaction_def Let_def split: prod.splits sum.splits)
    note eff = reap_audits_effect [OF run, of op]
    have concl: "conclusions op (w\<lparr>w_installs := ?t\<rparr>) = conclusions op w" by (simp add: conclusions_def)
    have keep: "held i op w' \<Longrightarrow> held i op w" using eff by (auto simp: held_def reconcileStaleApplies_def)
    show ?thesis
    proof (cases "filter (\<lambda>s. sa_operation s = op) ?ss = []")
      case True
      with eff concl keep Pair show ?thesis by (simp add: rely_def)
    next
      case False
      then have "length (filter (\<lambda>s. sa_operation s = op) ?ss) = 1"
        using stale_reports_one(1) [where t = "w_installs w" and op = op and i = i and now = now, OF ids mine] by (cases "filter (\<lambda>s. sa_operation s = op) ?ss") auto
      moreover have "held i op w" "\<not> held i op w'"
        using stale_reports_one(2) [where t = "w_installs w" and op = op and i = i and now = now, OF ids mine False] eff by (auto simp: held_def)
      ultimately show ?thesis using eff concl Pair by (simp add: rely_def)
    qed
  qed
qed

text \<open>
  Property C7. Let the others act within their rights (as the reaper does): between two statements of an apply
  they leave its claim and its succeeded and failed events alone, or end it by taking the claim away and
  writing its failed event. Then whichever statements fail, the journal ends up with at most one succeeded or
  failed event of the operation, and with a succeeded one exactly when the caller is told so. (A stale
  refusal is no such event: it may still follow the failed event of a reaper, as shown below.)
\<close>

theorem journal_tells_the_ending:
  assumes env: "\<And>n w. rely (install_id c q) (cx_operation c) w (cx_env c n w)"
    and writes: "\<And>og w. rely (install_id c q) (cx_operation c) w (fst (cx_writes c (cx_operation c) (install_id c q) og w))"
    and fresh: "conclusions (cx_operation c) w = []" "\<not> held (install_id c q) (cx_operation c) w"
    and run: "applyPluginReviewed c q w = (w', r)"
  shows "length (conclusions (cx_operation c) w') \<le> 1 \<and>
    ((\<exists>x \<in> set (w_log w'). lg_id x = applyEventId (cx_operation c) Succeeded) \<longleftrightarrow> r = Inr ApplySucceeded)"
proof -
  let ?N = "unclaimed (install_id c q) (cx_operation c)" and ?U = "unsettled (install_id c q) (cx_operation c)"
  have start: "triple ?N (case aq_install q of
      Some i \<Rightarrow> call c 0 (reads (\<lambda>w. Option.bind (find_row pi_id i (w_installs w)) pi_manifest)) | None \<Rightarrow> ret None) (\<lambda>_. ?N) (\<lambda>_. ?N)"
    using rely_unclaimed [OF env] by (auto simp: triple_def call_def reads_def ret_def split: option.split)
  have looked: "triple ?N (build c q raw 1) (\<lambda>_. ?N) (\<lambda>_. ?N)" for raw
    by (rule build_unsettled [OF env]) (rule rely_unclaimed)
  have "triple ?N (build c q raw 1) (\<lambda>_. ?N) (\<lambda>_. ?U)" for raw
    by (rule triple_weaken [OF looked]) (auto intro: unclaimed_unsettled)
  from triple_andThen [OF this checked_ends [OF env refl writes]]
  have built: "triple ?N (andThen (build c q raw 1) (checked c q raw)) (ending (install_id c q) (cx_operation c)) (\<lambda>_. ?U)" for raw .
  have startU: "triple ?N (case aq_install q of
      Some i \<Rightarrow> call c 0 (reads (\<lambda>w. Option.bind (find_row pi_id i (w_installs w)) pi_manifest)) | None \<Rightarrow> ret None) (\<lambda>_. ?N) (\<lambda>_. ?U)"
    by (rule triple_weaken [OF start]) (auto intro: unclaimed_unsettled)
  have "triple ?N (applyPluginReviewed c q) (ending (install_id c q) (cx_operation c)) (\<lambda>_. ?U)"
  proof (cases "HASH_RE (aq_hash q)")
    case True
    then have ok: "(\<not> HASH_RE (aq_hash q)) = False" by simp
    show ?thesis unfolding applyPluginReviewed_def ok if_False by (rule triple_andThen [OF startU built])
  next
    case False
    then show ?thesis by (auto intro!: triple_ret unclaimed_unsettled simp: applyPluginReviewed_def ending_def)
  qed
  from tripleD [OF this _ run] fresh have ends: "case r of Inl e \<Rightarrow> ?U w' | Inr out \<Rightarrow> ending (install_id c q) (cx_operation c) out w'"
    by (simp add: unclaimed_def)
  have told: "(\<exists>x \<in> set (w_log w'). lg_id x = applyEventId (cx_operation c) Succeeded) \<longleftrightarrow>
      (\<exists>x \<in> set (conclusions (cx_operation c) w'). lg_id x = applyEventId (cx_operation c) Succeeded)"
    by (auto simp: conclusions_def conclusive_def)
  show ?thesis unfolding told
    using ends by (auto simp: ending_def published_def unsettled_def split: sum.splits if_splits)
qed

subsection \<open>Concrete runs\<close>

definition accepted_hash :: string where
  "accepted_hash = replicate 64 (CHR ''a'')"

definition demo_observed :: "connector list \<Rightarrow> observed" where
  "demo_observed cs =
     \<lparr>og_after = demo_surface cs, og_observations = \<lparr>ob_urls = [], ob_auth = [], ob_blockPrivate = True, ob_observedAt = 0\<rparr>,
      og_runtime = demo_surface [], og_notes = []\<rparr>"

definition demo_request :: apply_request where
  "demo_request =
     \<lparr>aq_marketplace = ''m'', aq_plugin = ''p'', aq_scope = SystemScope, aq_owner = None, aq_target = ''abc'', aq_only = None,
      aq_skillsOnly = False, aq_actorId = ''u'', aq_hash = accepted_hash, aq_dispositions = [],
      aq_actor = \<lparr>ac_user = ''u'', ac_admin = True\<rparr>, aq_install = None\<rparr>"

definition demo_world :: world where
  "demo_world = \<lparr>w_installs = [], w_policies = [], w_resources = [], w_log = []\<rparr>"

definition demo_ctx :: ctx where
  "demo_ctx =
     \<lparr>cx_sha = (\<lambda>_. accepted_hash), cx_surface = (\<lambda>_. demo_surface []), cx_env = (\<lambda>n w. w), cx_fault = (\<lambda>_. False), cx_now = (\<lambda>_. 0),
      cx_look = (\<lambda>n w. Some (demo_observed [])), cx_writes = (\<lambda>op i og w. (w, Inr demo_published)),
      cx_staleId = ''s'', cx_blockedId = ''b'', cx_operation = ''o'', cx_freshInstall = ''i''\<rparr>"

lemma accepted_hash_ok: "HASH_RE accepted_hash"
  by (simp add: HASH_RE_def accepted_hash_def list_all_iff)

lemma demo_gathered: "ga_delta (gather c demo_request None (demo_observed cs) ps rs) =
    classifyDelta (Some (emptySurface (cx_sha c))) (Some (emptySurface (cx_sha c))) (demo_surface cs) []"
  by (simp add: gather_def Let_def demo_request_def demo_observed_def)

lemma demo_gate: "id_gate (classifyDelta x y z []) \<noteq> CannotApply"
  by (simp add: classifyDelta_def Let_def)

definition broken_ctx :: ctx where
  "broken_ctx = demo_ctx\<lparr>cx_fault := (\<lambda>n. n = 9), cx_writes := (\<lambda>op i og w. (w, Inl OtherError))\<rparr>"

lemma broken_select:
  "cx_env broken_ctx n w = w" "cx_fault broken_ctx n \<longleftrightarrow> n = 9" "cx_now broken_ctx n = 0"
  "cx_look broken_ctx n w = Some (demo_observed [])" "cx_writes broken_ctx op i og w = (w, Inl OtherError)"
  "cx_operation broken_ctx = ''o''"
  by (simp_all add: broken_ctx_def demo_ctx_def)

lemma demo_request_select: "aq_hash demo_request = accepted_hash" "aq_install demo_request = None"
  by (simp_all add: demo_request_def)

lemma broken_hash: "hash_of broken_ctx g = accepted_hash"
  by (simp add: hash_of_def reviewHash_def broken_ctx_def demo_ctx_def)

lemma gathered_gate: "id_gate (ga_delta (gather c demo_request None (demo_observed cs) ps rs)) \<noteq> CannotApply"
  unfolding demo_gathered by (rule demo_gate)

lemmas run_defs = andThen_def attempt_def transaction_def build_def reads_def call_def ret_def throw_def claim_def stage_def audits_def
  journal_def claimed_phase_def second_check_def mutating_def recordTerminalFailure_def installs_def

lemma staged_owned: "owned_by (install_id c q) (cx_operation c) (staged_row c q now)"
  by (simp add: staged_row_def owned_by_def apply_of_def reservedManifest_def new_apply_def claim_of_def)

lemma first_event: "insertPluginAudit e [] = Some [event_row e]"
  by (simp add: insertPluginAudit_def)

lemma mark_one:
  "markApplyFailed i op [r] = (if owned_by i op r then ([fail_apply r], True) else ([r], False))"
  by (simp add: markApplyFailed_def)

lemma broken_run:
  "applyPluginReviewed broken_ctx demo_request demo_world =
     (demo_world\<lparr>w_installs := [fail_apply (map_apply (\<lambda>a. a\<lparr>as_lease := 60000\<rparr>) (staged_row broken_ctx demo_request 0))],
        w_log := [event_row (plugin_event demo_request ''o'' Accepted
          (Some (durable_of broken_ctx (gather broken_ctx demo_request None (demo_observed []) [] []))) None)]\<rparr>,
      Inr (ApplyBroken ''aborted''))"
proof -
  have own: "owned_by (install_id broken_ctx demo_request) ''o'' (staged_row broken_ctx demo_request 0)"
    using staged_owned [of broken_ctx] by (simp add: broken_select)
  then have renewed: "renewApplyLease 0 (install_id broken_ctx demo_request) ''o'' [staged_row broken_ctx demo_request 0] =
      ([map_apply (\<lambda>a. a\<lparr>as_lease := 60000\<rparr>) (staged_row broken_ctx demo_request 0)], True)"
    by (simp add: renewApplyLease_def apply_lease_def APPLY_LEASE_SECONDS_def)
  show ?thesis
    using own renewed
    by (simp add: applyPluginReviewed_def demo_request_select accepted_hash_ok checked_def broken_hash gathered_gate broken_select
        demo_world_def first_event mark_one run_defs Let_def)
qed

lemma update_where_other: "x \<in> set t \<Longrightarrow> \<not> P x \<Longrightarrow> x \<in> set (update_where P f t)"
  by (induction t) auto

text \<open>
  The failure of an apply and its journal entry are two statements. Whenever the first wins and the
  second fails, the handler throws, the install stays failed with nothing written to the journal, the
  operation has no claim left to record an ending by, and no later pass of the reaper touches or reports it.
\<close>

theorem failure_can_go_unrecorded:
  assumes "held (install_id c q) (cx_operation c) (cx_env c n w)" and "\<not> cx_fault c n" and "cx_fault c (n + 1)"
    and "\<And>x. cx_env c (n + 1) x = x"
    and run: "recordTerminalFailure c q n code w = (w', r)"
  shows "r = Inl OtherError \<and> w_log w' = w_log (cx_env c n w) \<and> \<not> held (install_id c q) (cx_operation c) w' \<and>
    (\<exists>p \<in> set (w_installs w'). pi_id p = install_id c q \<and>
       map_option (\<lambda>a. (as_operation a, as_status a)) (apply_of p) = Some (cx_operation c, ApplyFailed) \<and>
       (\<forall>now. p \<in> set (fst (reconcileStaleApplies now (w_installs w'))))) \<and>
    (\<forall>now. filter (\<lambda>s. sa_install s = install_id c q \<and> sa_operation s = cx_operation c)
       (snd (reconcileStaleApplies now (w_installs w'))) = [])"
proof -
  let ?i = "install_id c q" and ?op = "cx_operation c" and ?w1 = "cx_env c n w"
  let ?t = "update_where (owned_by ?i ?op) fail_apply (w_installs ?w1)"
  from assms(1) obtain p where p: "p \<in> set (w_installs ?w1)" "owned_by ?i ?op p" by (auto simp: held_def)
  then have won: "markApplyFailed ?i ?op (w_installs ?w1) = (?t, True)" using mark_won [of ?i ?op] by (auto simp: markApplyFailed_def)
  have w': "w' = ?w1\<lparr>w_installs := ?t\<rparr>" and r: "r = Inl OtherError"
    using run assms(2-4) won by (simp_all add: recordTerminalFailure_def andThen_def call_def installs_def)
  have gone: "\<not> owned_by ?i ?op x" if "x \<in> set ?t" for x
    using mark_drops [of ?i ?op "w_installs ?w1"] that unfolding markApplyFailed_def fst_conv by blast
  obtain a where a: "apply_of p = Some a" "as_operation a = ?op" using p(2) by (auto simp: owned_by_def split: option.splits)
  have failed: "fail_apply p \<in> set ?t" using p by (force simp: set_update_where)
  have row: "pi_id (fail_apply p) = ?i" "apply_of (fail_apply p) = Some (a\<lparr>as_status := ApplyFailed\<rparr>)"
    using p(2) a by (simp_all add: fail_apply_def owned_by_def)
  have kept: "fail_apply p \<in> set (fst (reconcileStaleApplies now ?t))" for now
    unfolding reconcileStaleApplies_def fst_conv
    by (rule update_where_other [OF failed]) (simp add: stale_claim_def row(2))
  have "s \<notin> set (snd (reconcileStaleApplies now ?t))" if "sa_install s = ?i" "sa_operation s = ?op" for s now
  proof
    assume "s \<in> set (snd (reconcileStaleApplies now ?t))"
    then obtain x where "x \<in> set ?t" "stale_claim now x" "stale_report x = Some s"
      unfolding reconcileStaleApplies_def snd_conv by (auto simp: List.map_filter_def simp del: set_update_where)
    then have "owned_by ?i ?op x" using that by (auto simp: owned_by_def stale_claim_def stale_report_def split: option.splits)
    with gone \<open>x \<in> set ?t\<close> show False by blast
  qed
  then have "filter (\<lambda>s. sa_install s = ?i \<and> sa_operation s = ?op) (snd (reconcileStaleApplies now ?t)) = []" for now
    unfolding filter_empty_conv by blast
  moreover have "\<not> held ?i ?op w'" using gone by (simp add: w' held_def del: set_update_where)
  moreover have "map_option (\<lambda>a. (as_operation a, as_status a)) (apply_of (fail_apply p)) = Some (?op, ApplyFailed)" by (simp add: row(2) a(2))
  moreover have "w_installs w' = ?t" "w_log w' = w_log ?w1" by (simp_all add: w')
  moreover have "fail_apply p \<in> set (w_installs w')" using failed by (simp add: w' del: set_update_where)
  ultimately show ?thesis using row(1) kept r by (intro conjI allI bexI [of _ "fail_apply p"]) (simp_all only: not_False_eq_True)
qed

text \<open>A whole apply that ends so: its writer fails, then the entry of that failure.\<close>

theorem failure_can_go_unrecorded_witness:
  "\<exists>w w'. recordTerminalFailure broken_ctx demo_request 8 ''write_failed'' w = (w', Inl OtherError) \<and>
     w_log w' = w_log w \<and> \<not> held (install_id broken_ctx demo_request) ''o'' w' \<and>
     applyPluginReviewed broken_ctx demo_request demo_world = (w', Inr (ApplyBroken ''aborted''))"
proof -
  let ?log = "[event_row (plugin_event demo_request ''o'' Accepted
    (Some (durable_of broken_ctx (gather broken_ctx demo_request None (demo_observed []) [] []))) None)]"
  let ?w = "demo_world\<lparr>w_installs := [map_apply (\<lambda>a. a\<lparr>as_lease := 60000\<rparr>) (staged_row broken_ctx demo_request 0)], w_log := ?log\<rparr>"
  have own: "owned_by (install_id broken_ctx demo_request) ''o'' (map_apply (\<lambda>a. a\<lparr>as_lease := 60000\<rparr>) (staged_row broken_ctx demo_request 0))"
    using staged_owned [of broken_ctx] by (simp add: broken_select)
  obtain w' r where run: "recordTerminalFailure broken_ctx demo_request 8 ''write_failed'' ?w = (w', r)" by (rule prod.exhaust)
  have "held (install_id broken_ctx demo_request) (cx_operation broken_ctx) (cx_env broken_ctx 8 ?w)"
    using own by (simp add: held_def broken_select)
  from failure_can_go_unrecorded [OF this _ _ _ run]
  have facts: "r = Inl OtherError" "w_log w' = w_log ?w" "\<not> held (install_id broken_ctx demo_request) ''o'' w'"
    by (simp_all add: broken_select)
  have "w' = ?w\<lparr>w_installs := [fail_apply (map_apply (\<lambda>a. a\<lparr>as_lease := 60000\<rparr>) (staged_row broken_ctx demo_request 0))]\<rparr>"
    using run own by (simp add: recordTerminalFailure_def andThen_def call_def installs_def broken_select mark_one)
  with broken_run facts run show ?thesis by (intro exI [of _ ?w] exI [of _ w']) simp
qed

definition moved_hash :: string where
  "moved_hash = replicate 64 (CHR ''b'')"

definition moved_review :: "connector list \<Rightarrow> review_input" where
  "moved_review cs =
     \<lparr>ri_subject = subject_for (\<lambda>_. demo_surface []) demo_request None, ri_sourceBefore = Some (emptySurface (\<lambda>_. moved_hash)),
      ri_runtimeBefore = Some (emptySurface (\<lambda>_. moved_hash)), ri_sourceAfter = demo_surface cs,
      ri_observations = og_observations (demo_observed cs), ri_dispositions = [], ri_policyRevisions = []\<rparr>"

definition moved_text :: "connector list \<Rightarrow> string" where
  "moved_text cs = canonicalTypedValue ''review'' (review_canon (moved_review cs))"

definition moved_ctx :: ctx where
  "moved_ctx = demo_ctx\<lparr>cx_sha := (\<lambda>s. if s = moved_text [] then accepted_hash else moved_hash),
     cx_env := (\<lambda>n w. if n = 4 then fst (reapPluginApplies 100000 w) else w),
     cx_look := (\<lambda>n w. Some (demo_observed (if n = 1 then [] else [demo_connector])))\<rparr>"

lemma moved_select:
  "cx_env moved_ctx n w = (if n = 4 then fst (reapPluginApplies 100000 w) else w)" "\<not> cx_fault moved_ctx n" "cx_now moved_ctx n = 0"
  "cx_look moved_ctx n w = Some (demo_observed (if n = 1 then [] else [demo_connector]))"
  "cx_operation moved_ctx = ''o''" "cx_sha moved_ctx = (\<lambda>s. if s = moved_text [] then accepted_hash else moved_hash)"
  "cx_surface moved_ctx = (\<lambda>_. demo_surface [])"
  by (simp_all add: moved_ctx_def demo_ctx_def)

lemma moved_empty: "emptySurface (cx_sha moved_ctx) = emptySurface (\<lambda>_. moved_hash)"
proof -
  have "''capka:plugin-tree:v1'' \<noteq> moved_text []" by (simp add: moved_text_def review_canon_def)
  then show ?thesis by (simp add: emptySurface_def rootHash_def moved_select)
qed

lemma moved_gathered: "ga_review (gather moved_ctx demo_request None (demo_observed cs) [] rs) = moved_review cs"
  by (simp add: gather_def Let_def moved_empty [unfolded moved_select] moved_review_def readPolicyBaseline_def policyRevisions_def moved_select demo_request_def)
    (simp add: demo_observed_def)

lemma moved_hashes:
  shows "hash_of moved_ctx (gather moved_ctx demo_request None (demo_observed []) [] rs) = accepted_hash"
    and "hash_of moved_ctx (gather moved_ctx demo_request None (demo_observed [demo_connector]) [] rs) \<noteq> accepted_hash"
proof -
  have "\<not> same_review (moved_review [demo_connector]) (moved_review [])"
    by (simp add: same_review_def moved_review_def same_surface_def demo_surface_def)
  then have "moved_text [demo_connector] \<noteq> moved_text []"
    by (simp add: moved_text_def canonical_text_iff norm_review)
  moreover have "moved_hash \<noteq> accepted_hash" by (simp add: moved_hash_def accepted_hash_def)
  ultimately show "hash_of moved_ctx (gather moved_ctx demo_request None (demo_observed []) [] rs) = accepted_hash"
    "hash_of moved_ctx (gather moved_ctx demo_request None (demo_observed [demo_connector]) [] rs) \<noteq> accepted_hash"
    by (simp_all add: hash_of_def reviewHash_def moved_gathered moved_select moved_text_def)
qed

lemma moved_reap:
  "reapPluginApplies 100000 \<lparr>w_installs = [staged_row moved_ctx demo_request 0], w_policies = [], w_resources = [], w_log = [event_row e]\<rparr> =
     (\<lparr>w_installs = [fail_apply (staged_row moved_ctx demo_request 0)], w_policies = [], w_resources = [],
       w_log = [event_row e, event_row (reap_event (the (stale_report (staged_row moved_ctx demo_request 0))))]\<rparr>, Inr ())"
  if "pe_event e = Accepted" and "pe_operation e = ''o''"
proof -
  have row: "apply_of (staged_row moved_ctx demo_request 0) = Some (new_apply 0 (claim_of moved_ctx demo_request Install (readStoredManifest (cx_surface moved_ctx) None)))"
    by (simp add: staged_row_def apply_of_def reservedManifest_def)
  then have rep: "stale_claim 100000 (staged_row moved_ctx demo_request 0)" "\<exists>s. stale_report (staged_row moved_ctx demo_request 0) = Some s \<and> sa_operation s = ''o''"
    by (simp_all add: stale_claim_def new_apply_def apply_lease_def APPLY_LEASE_SECONDS_def REAP_MARGIN_SECONDS_def stale_report_def claim_of_def moved_select)
  then obtain s where s: "stale_report (staged_row moved_ctx demo_request 0) = Some s" "sa_operation s = ''o''" by blast
  have "insertPluginAudit (reap_event s) [event_row e] = Some [event_row e, event_row (reap_event s)]"
    using that by (simp add: insertPluginAudit_def reap_event_def s(2))
  with rep(1) s show ?thesis
    by (simp add: reapPluginApplies_def reconcileStaleApplies_def List.map_filter_def run_defs reap_audits.simps)
qed

text \<open>
  The second check writes its stale entry whether or not it won the release: when the reaper ended the operation
  while the review was being rebuilt, the journal names two endings for it.
\<close>

theorem stale_refusal_adds_a_second_ending:
  "\<exists>c q w' out. applyPluginReviewed c q demo_world = (w', Inr out) \<and>
     map lg_id (w_log w') = [applyEventId (cx_operation c) Accepted, applyEventId (cx_operation c) FailedEvent, applyEventId (cx_operation c) StaleEvent]"
proof -
  let ?r = "staged_row moved_ctx demo_request 0"
  let ?acc = "plugin_event demo_request ''o'' Accepted (Some (durable_of moved_ctx (gather moved_ctx demo_request None (demo_observed []) [] []))) None"
  have rel: "releaseApplyClaim i ''o'' Install [fail_apply ?r] = ([fail_apply ?r], False)" for i
    by (simp add: releaseApplyClaim_def)
  have rep: "sa_operation (the (stale_report ?r)) = ''o''"
    by (simp add: stale_report_def staged_row_def apply_of_def reservedManifest_def new_apply_def claim_of_def moved_select)
  have kind: "applyKind f None None = Install" for f by (simp add: applyKind_def)
  let ?late = "event_row (reap_event (the (stale_report ?r)))"
  have stale: "insertPluginAudit (plugin_event demo_request ''o'' StaleEvent None None) [event_row (plugin_event demo_request ''o'' Accepted x None), ?late] =
      Some [event_row (plugin_event demo_request ''o'' Accepted x None), ?late, event_row (plugin_event demo_request ''o'' StaleEvent None None)]" for x
    by (simp add: insertPluginAudit_def plugin_event_def reap_event_def rep)
  have acc: "pe_event (plugin_event demo_request ''o'' Accepted x None) = Accepted" "pe_operation (plugin_event demo_request ''o'' Accepted x None) = ''o''" for x
    by (simp_all add: plugin_event_def)
  have "applyPluginReviewed moved_ctx demo_request demo_world =
      (\<lparr>w_installs = [fail_apply ?r], w_policies = [], w_resources = [],
        w_log = [event_row ?acc, event_row (reap_event (the (stale_report ?r))), event_row (plugin_event demo_request ''o'' StaleEvent None None)]\<rparr>,
       Inr (staleWith moved_ctx demo_request (gather moved_ctx demo_request None (demo_observed [demo_connector]) [] [])))"
    by (simp add: acc applyPluginReviewed_def demo_request_select accepted_hash_ok checked_def moved_hashes gathered_gate moved_select
        demo_world_def first_event run_defs Let_def moved_reap rel kind stale)
  then show ?thesis
    by (intro exI [of _ moved_ctx] exI [of _ demo_request]) (simp add: moved_select plugin_event_def reap_event_def rep)
qed

lemma demo_select:
  "cx_env demo_ctx n w = w" "\<not> cx_fault demo_ctx n" "cx_now demo_ctx n = 0" "cx_look demo_ctx n w = Some (demo_observed [])"
  "cx_writes demo_ctx op i og w = (w, Inr demo_published)" "cx_operation demo_ctx = ''o''"
  by (simp_all add: demo_ctx_def)

lemma demo_succeeds: "snd (applyPluginReviewed demo_ctx demo_request demo_world) = Inr ApplySucceeded"
proof -
  let ?r = "staged_row demo_ctx demo_request 0"
  have hash: "hash_of demo_ctx g = accepted_hash" for g by (simp add: hash_of_def reviewHash_def demo_ctx_def)
  have own: "owned_by (install_id demo_ctx demo_request) ''o'' ?r" using staged_owned [of demo_ctx] by (simp add: demo_select)
  let ?r' = "map_apply (\<lambda>a. a\<lparr>as_lease := 60000\<rparr>) ?r"
  from own have renewed: "renewApplyLease 0 (install_id demo_ctx demo_request) ''o'' [?r] = ([?r'], True)"
    by (simp add: renewApplyLease_def apply_lease_def APPLY_LEASE_SECONDS_def)
  have "finalizable_apply 0 (install_id demo_ctx demo_request) ''o'' ?r'"
    using own by (auto simp: finalizable_apply_def owned_by_def split: option.splits)
  then have fin: "finalizeApply 0 (install_id demo_ctx demo_request) ''o'' demo_published [?r'] = ([?r'\<lparr>pi_manifest := Some demo_published\<rparr>], True)"
    by (simp add: finalizeApply_def)
  have disp: "aq_dispositions demo_request = []" by (simp add: demo_request_def)
  have succ: "insertPluginAudit (plugin_event demo_request ''o'' Succeeded None None) [event_row (plugin_event demo_request ''o'' Accepted x None)] =
      Some [event_row (plugin_event demo_request ''o'' Accepted x None), event_row (plugin_event demo_request ''o'' Succeeded None None)]" for x
    by (simp add: insertPluginAudit_def plugin_event_def)
  show ?thesis
    by (simp add: applyPluginReviewed_def demo_request_select accepted_hash_ok checked_def hash gathered_gate demo_select
        demo_world_def first_event run_defs Let_def renewed fin commit_def dispose_def disp clear_audits_def succ)
qed

theorem journal_tells_the_ending_witness:
  "list_ex (\<lambda>x. lg_id x = applyEventId ''o'' Succeeded) (w_log (fst (applyPluginReviewed demo_ctx demo_request demo_world)))"
proof -
  obtain w' where run: "applyPluginReviewed demo_ctx demo_request demo_world = (w', Inr ApplySucceeded)"
    using demo_succeeds by (cases "applyPluginReviewed demo_ctx demo_request demo_world") auto
  have "conclusions (cx_operation demo_ctx) demo_world = []" "\<not> held (install_id demo_ctx demo_request) (cx_operation demo_ctx) demo_world"
    by (simp_all add: conclusions_def held_def demo_world_def)
  from journal_tells_the_ending [OF _ _ this run] show ?thesis
    by (simp add: demo_select run rely_def list_ex_iff)
qed

definition picky_writer :: "exn \<Rightarrow> ident \<Rightarrow> ident \<Rightarrow> observed \<Rightarrow> (world, exn, manifest) async" where
  "picky_writer e op i og w = (if sv_connectors (og_after og) = [] then (w, Inr demo_published) else (w, Inl e))"

theorem only_the_reviewed_plan_is_written_witness:
  "applyPluginReviewed (moved_ctx\<lparr>cx_writes := picky_writer FencedWrite\<rparr>) demo_request demo_world =
   applyPluginReviewed (moved_ctx\<lparr>cx_writes := picky_writer OtherError\<rparr>) demo_request demo_world"
proof (rule only_the_reviewed_plan_is_written [where i = "moved_review []"])
  have shown_text: "canonicalTypedValue ''review'' (review_canon (moved_review [])) = moved_text []" by (simp add: moved_text_def)
  have hash: "moved_hash \<noteq> accepted_hash" by (simp add: moved_hash_def accepted_hash_def)
  show "reviewHash (cx_sha moved_ctx) (moved_review []) = aq_hash demo_request"
    by (simp add: reviewHash_def shown_text moved_select demo_request_select)
  show "canonicalTypedValue ''review'' (review_canon (moved_review [])) = canonicalTypedValue ''review'' (review_canon j)"
    if "cx_sha moved_ctx (canonicalTypedValue ''review'' (review_canon (moved_review []))) =
      cx_sha moved_ctx (canonicalTypedValue ''review'' (review_canon j))" for j
    using that hash by (simp add: shown_text moved_select split: if_splits)
  show "picky_writer FencedWrite (cx_operation moved_ctx) (install_id moved_ctx demo_request) og =
      picky_writer OtherError (cx_operation moved_ctx) (install_id moved_ctx demo_request) og"
    if "same_review (moved_review []) (ga_review (gather moved_ctx demo_request raw og ps rs))" for raw og ps rs
    using that by (simp add: same_review_def same_surface_def gather_def Let_def moved_review_def demo_surface_def picky_writer_def [abs_def])
qed

end
