(* ===== verification/Policy_Theorems.thy ===== *)
theory Policy_Theorems
  imports Policies Review_Theorems
begin

section \<open>Permission rules: resolution, and what an apply can take away\<close>

text \<open>
  The table keeps one rule per subject and capability, the most specific visible rule decides, and a
  plugin apply removes only rules it reviewed: unchanged since the baseline was read, applying to
  nothing, and within the authority of whoever asked.
\<close>

subsection \<open>The most specific rule governs\<close>

definition about_cap :: "capability \<Rightarrow> string \<Rightarrow> policy_row \<Rightarrow> bool" where
  "about_cap type key r \<longleftrightarrow> po_type r = type \<and> po_key r = key"

lemma explain_from:
  "fold (explain_step type key) rows best = (case fold (explain_step type key) rows None of
      None \<Rightarrow> best
    | Some r \<Rightarrow> (case best of None \<Rightarrow> Some r | Some b \<Rightarrow> if SCOPE_RANK (po_scope b) < SCOPE_RANK (po_scope r) then Some r else best))"
proof (induction rows arbitrary: best)
  case (Cons x rows)
  show ?case
    by (simp add: Cons.IH [of "explain_step type key x best"] Cons.IH [of "explain_step type key x None"])
      (auto simp: explain_step_def split: option.splits)
qed (simp split: option.split)

lemma explain_Cons:
  "explainPolicy (r # rows) type key =
     (if \<not> about_cap type key r then explainPolicy rows type key
      else case explainPolicy rows type key of
        Some s \<Rightarrow> if SCOPE_RANK (po_scope r) < SCOPE_RANK (po_scope s) then Some s else Some r
      | None \<Rightarrow> Some r)"
  unfolding explainPolicy_def fold_Cons o_apply
  by (subst explain_from) (auto simp: explain_step_def about_cap_def split: option.split)

lemma explain_Nil [simp]: "explainPolicy [] type key = None"
  by (simp add: explainPolicy_def)

lemma explain_None: "explainPolicy rows type key = None \<longleftrightarrow> (\<forall>r \<in> set rows. \<not> about_cap type key r)"
  by (induction rows) (auto simp: explain_Cons split: option.splits)

lemma explain_Some:
  "explainPolicy rows type key = Some r \<Longrightarrow>
     r \<in> set rows \<and> about_cap type key r \<and>
     (\<forall>s \<in> set rows. about_cap type key s \<longrightarrow> SCOPE_RANK (po_scope s) \<le> SCOPE_RANK (po_scope r))"
proof (induction rows arbitrary: r)
  case (Cons x rows)
  show ?case
  proof (cases "explainPolicy rows type key")
    case None
    then have "\<forall>s \<in> set rows. \<not> about_cap type key s" by (simp add: explain_None)
    with Cons.prems None show ?thesis by (auto simp: explain_Cons split: if_splits)
  next
    case (Some s)
    from Cons.IH [OF Some] Cons.prems Some show ?thesis
      by (fastforce simp: explain_Cons split: if_splits)
  qed
qed simp

lemma explain_filter: "explainPolicy (filter (about_cap type key) rows) type key = explainPolicy rows type key"
  by (induction rows) (simp_all add: explain_Cons)

lemma rank_inj [simp]: "SCOPE_RANK a = SCOPE_RANK b \<longleftrightarrow> a = b"
  by (cases a; cases b) simp_all

text \<open>The rule of one subject.\<close>

definition rule_for :: "policy_row list \<Rightarrow> policy_scope \<Rightarrow> ident option \<Rightarrow> capability \<Rightarrow> string \<Rightarrow> policy_row option" where
  "rule_for t scope subject type key = find_row policy_slot (scope, subject, type, key) t"

definition valid_policies :: "policy_row list \<Rightarrow> bool" where
  "valid_policies t \<longleftrightarrow> distinct (map po_id t) \<and> distinct (map policy_slot t) \<and> (\<forall>r \<in> set t. subject_check r)"

lemma slot_iff:
  assumes "subject_check r"
  shows "policy_slot r = (PSystem, x, type, key) \<longleftrightarrow> po_scope r = PSystem \<and> x = None \<and> about_cap type key r"
    and "policy_slot r = (PUser, Some u, type, key) \<longleftrightarrow> po_scope r = PUser \<and> po_user r = Some u \<and> po_project r = None \<and> about_cap type key r"
    and "policy_slot r = (PProject, Some p, type, key) \<longleftrightarrow> po_scope r = PProject \<and> po_project r = Some p \<and> about_cap type key r"
  using assms by (auto simp: policy_slot_def subject_check_def about_cap_def split: policy_scope.splits)

lemma rule_for_Some:
  "valid_policies t \<Longrightarrow> rule_for t s x type key = Some r \<longleftrightarrow> r \<in> set t \<and> policy_slot r = (s, x, type, key)"
  unfolding rule_for_def valid_policies_def by (rule find_row_Some_iff) simp

lemma rule_for_None: "rule_for t s x type key = None \<longleftrightarrow> (\<forall>r \<in> set t. policy_slot r \<noteq> (s, x, type, key))"
  unfolding rule_for_def find_row_None_iff by (metis (mono_tags, lifting) image_iff)

definition project_rule :: "policy_row list \<Rightarrow> ident option \<Rightarrow> capability \<Rightarrow> string \<Rightarrow> policy_row option" where
  "project_rule t project type key =
     (case project of Some p \<Rightarrow> if p = [] then None else rule_for t PProject (Some p) type key | None \<Rightarrow> None)"

definition governing :: "policy_row list \<Rightarrow> ident \<Rightarrow> ident option \<Rightarrow> capability \<Rightarrow> string \<Rightarrow> policy_row option" where
  "governing t u project type key =
     (case project_rule t project type key of Some r \<Rightarrow> Some r
      | None \<Rightarrow> (case rule_for t PUser (Some u) type key of Some r \<Rightarrow> Some r
               | None \<Rightarrow> rule_for t PSystem None type key))"

lemma visible_slot:
  assumes "valid_policies t" and r: "r \<in> set t"
  shows "visible_policy u project r \<and> about_cap type key r \<longleftrightarrow>
    project_rule t project type key = Some r \<or> rule_for t PUser (Some u) type key = Some r \<or> rule_for t PSystem None type key = Some r"
proof -
  have ok: "subject_check r" using assms by (simp add: valid_policies_def)
  have rf: "rule_for t s x type key = Some r \<longleftrightarrow> policy_slot r = (s, x, type, key)" for s x
    using rule_for_Some [OF assms(1)] r by simp
  show ?thesis
    by (auto simp: visible_policy_def project_rule_def rf slot_iff [OF ok] split: option.split)
qed

lemma layer_scope:
  assumes "valid_policies t"
  shows "project_rule t project type key = Some r \<Longrightarrow> r \<in> set t \<and> po_scope r = PProject"
    and "rule_for t PUser (Some u) type key = Some r \<Longrightarrow> r \<in> set t \<and> po_scope r = PUser"
    and "rule_for t PSystem None type key = Some r \<Longrightarrow> r \<in> set t \<and> po_scope r = PSystem"
  by (auto simp: project_rule_def rule_for_Some [OF assms] policy_slot_def split: option.splits if_splits)

lemma explain_governing:
  assumes valid: "valid_policies t"
  shows "explainPolicy (filter (visible_policy u project) t) type key = governing t u project type key"
proof (cases "explainPolicy (filter (visible_policy u project) t) type key")
  case None
  have "project_rule t project type key \<noteq> Some r" "rule_for t PUser (Some u) type key \<noteq> Some r"
    "rule_for t PSystem None type key \<noteq> Some r" for r
    using None [unfolded explain_None] visible_slot [OF valid, of r u project type key] layer_scope [OF valid] by auto
  then have "project_rule t project type key = None" "rule_for t PUser (Some u) type key = None"
    "rule_for t PSystem None type key = None" by (meson option.exhaust)+
  then show ?thesis by (simp add: None governing_def)
next
  case (Some r)
  from explain_Some [OF Some] have r: "r \<in> set t" "visible_policy u project r" "about_cap type key r"
    and top: "\<And>s. s \<in> set t \<Longrightarrow> visible_policy u project s \<and> about_cap type key s \<Longrightarrow> SCOPE_RANK (po_scope s) \<le> SCOPE_RANK (po_scope r)"
    by auto
  have above: "SCOPE_RANK PProject \<le> SCOPE_RANK (po_scope r)" if "project_rule t project type key = Some s" for s
    using top [of s] layer_scope(1) [OF valid that] visible_slot [OF valid, of s u project type key] that by auto
  have above_user: "SCOPE_RANK PUser \<le> SCOPE_RANK (po_scope r)" if "rule_for t PUser (Some u) type key = Some s" for s
    using top [of s] layer_scope(2) [OF valid that] visible_slot [OF valid, of s u project type key] that by auto
  from visible_slot [OF valid r(1), of u project type key] r(2,3)
  consider (p) "project_rule t project type key = Some r" | (u) "rule_for t PUser (Some u) type key = Some r"
    | (s) "rule_for t PSystem None type key = Some r" by blast
  then have "governing t u project type key = Some r"
  proof cases
    case p
    then show ?thesis by (simp add: governing_def)
  next
    case u
    then have "project_rule t project type key = None"
      using above layer_scope(2) [OF valid u] by (cases "project_rule t project type key") auto
    with u show ?thesis by (simp add: governing_def)
  next
    case s
    have "project_rule t project type key = None"
      using above layer_scope(3) [OF valid s] by (cases "project_rule t project type key") auto
    moreover have "rule_for t PUser (Some u) type key = None"
      using above_user layer_scope(3) [OF valid s] by (cases "rule_for t PUser (Some u) type key") auto
    ultimately show ?thesis using s by (simp add: governing_def)
  qed
  with Some show ?thesis by simp
qed

text \<open>
  Property C13. In a table that keeps its indexes and its subject check, a run is governed by its
  project's rule, else by the user's, else by the organisation's, and a capability without any of
  them is allowed.
\<close>

theorem most_specific_rule_governs:
  assumes "valid_policies t"
  shows "resolvePolicies t u project type key =
    (case project_rule t project type key of Some r \<Rightarrow> po_effect r
     | None \<Rightarrow> (case rule_for t PUser (Some u) type key of Some r \<Rightarrow> po_effect r
              | None \<Rightarrow> (case rule_for t PSystem None type key of Some r \<Rightarrow> po_effect r | None \<Rightarrow> Allow)))"
  unfolding resolvePolicies_def buildMatcher_def explain_governing [OF assms] governing_def by (simp split: option.split)

definition demo_rule :: "ident \<Rightarrow> policy_scope \<Rightarrow> ident option \<Rightarrow> effect \<Rightarrow> policy_row" where
  "demo_rule pid scope user e =
     \<lparr>po_id = pid, po_scope = scope, po_user = user, po_project = None, po_type = ConnectorCap, po_key = ''api'',
      po_effect = e, po_revision = 0\<rparr>"

theorem most_specific_rule_governs_witness:
  "resolvePolicies [demo_rule ''r1'' PSystem None Deny, demo_rule ''r2'' PUser (Some ''u'') Ask] ''u'' None ConnectorCap ''api'' = Ask"
proof -
  have "valid_policies [demo_rule ''r1'' PSystem None Deny, demo_rule ''r2'' PUser (Some ''u'') Ask]"
    by (simp add: valid_policies_def demo_rule_def policy_slot_def subject_check_def)
  from most_specific_rule_governs [OF this, of "''u''" None ConnectorCap "''api''"] show ?thesis
    by (simp add: project_rule_def rule_for_def demo_rule_def policy_slot_def)
qed

subsection \<open>Every write keeps the table valid\<close>

text \<open>The writes of policy.ts, with the ids ever given out; a fresh id is none of them.\<close>

inductive policy_step :: "ident set \<times> policy_row list \<Rightarrow> ident set \<times> policy_row list \<Rightarrow> bool" where
  set_policy: "fresh \<notin> used \<Longrightarrow> setPolicy fresh i t = Some (t', pid) \<Longrightarrow> policy_step (used, t) (insert fresh used, t')"
| clear_policy: "policy_step (used, t) (used, fst (clearPolicy pid t))"

definition bump_policy :: "effect \<Rightarrow> policy_row \<Rightarrow> policy_row" where
  "bump_policy e r = r\<lparr>po_effect := e, po_revision := po_revision r + 1\<rparr>"

lemma bump_policy_simps [simp]:
  "po_id (bump_policy e r) = po_id r" "policy_slot (bump_policy e r) = policy_slot r"
  "subject_check (bump_policy e r) = subject_check r" "po_revision (bump_policy e r) = Suc (po_revision r)"
  "po_scope (bump_policy e r) = po_scope r" "po_user (bump_policy e r) = po_user r"
  by (simp_all add: bump_policy_def policy_slot_def subject_check_def split: policy_scope.split)

lemma setPolicy_cases:
  assumes "setPolicy fresh i t = Some (t', pid)"
  obtains (update) "t' = update_where (\<lambda>r. policy_slot r = policy_slot (new_policy fresh i)) (bump_policy (pin_effect i)) t"
    | (insert) "t' = t @ [new_policy fresh i]" and "\<forall>r \<in> set t. policy_slot r \<noteq> policy_slot (new_policy fresh i)"
        and "subject_check (new_policy fresh i)"
proof (cases "find (\<lambda>r. policy_slot r = policy_slot (new_policy fresh i)) t")
  case None
  moreover from None have "\<forall>r \<in> set t. policy_slot r \<noteq> policy_slot (new_policy fresh i)" by (auto simp: find_None_iff)
  ultimately show ?thesis using assms by (intro insert) (auto simp: setPolicy_def Let_def split: if_splits)
next
  case (Some old)
  with assms show ?thesis by (intro update) (auto simp: setPolicy_def Let_def bump_policy_def [abs_def] split: if_splits)
qed

definition valid_store :: "ident set \<times> policy_row list \<Rightarrow> bool" where
  "valid_store s \<longleftrightarrow> valid_policies (snd s) \<and> po_id ` set (snd s) \<subseteq> fst s"

lemma new_policy_id [simp]: "po_id (new_policy fresh i) = fresh" "po_revision (new_policy fresh i) = 0"
  by (simp_all add: new_policy_def)

lemma set_keeps_valid:
  assumes "valid_store (used, t)" and "fresh \<notin> used" and "setPolicy fresh i t = Some (t', pid)"
  shows "valid_store (insert fresh used, t')"
  using assms(3)
proof (cases rule: setPolicy_cases)
  case update
  have "map po_id t' = map po_id t" "map policy_slot t' = map policy_slot t"
    unfolding update by (rule keys_update_where, simp)+
  moreover have "\<forall>r \<in> set t'. subject_check r"
    using assms(1) by (auto simp: update valid_store_def valid_policies_def)
  moreover have "po_id ` set t' = po_id ` set t" using \<open>map po_id t' = map po_id t\<close> by (metis set_map)
  ultimately show ?thesis using assms(1) by (auto simp: valid_store_def valid_policies_def)
next
  case insert
  then show ?thesis using assms(1,2) by (auto simp: valid_store_def valid_policies_def)
qed

lemma clear_keeps_valid:
  "valid_store (used, t) \<Longrightarrow> valid_store (used, fst (clearPolicy pid t))"
  by (auto simp: valid_store_def valid_policies_def clearPolicy_def)

lemma step_keeps_valid: "policy_step s s' \<Longrightarrow> valid_store s \<Longrightarrow> valid_store s'"
  by (induction rule: policy_step.induct) (auto intro: set_keeps_valid clear_keeps_valid)

lemma steps_keep_valid: "policy_step\<^sup>*\<^sup>* s s' \<Longrightarrow> valid_store s \<Longrightarrow> valid_store s'"
  by (induction rule: rtranclp_induct) (auto intro: step_keeps_valid)

text \<open>Since an earlier state, a row of one of its ids is that row untouched or has a higher revision;
  its subject and capability never change.\<close>

definition descends :: "ident set \<times> policy_row list \<Rightarrow> policy_row \<Rightarrow> bool" where
  "descends s0 r \<longleftrightarrow> po_id r \<in> fst s0 \<longrightarrow>
     (\<exists>r0 \<in> set (snd s0). po_id r0 = po_id r \<and> (r = r0 \<or> po_revision r0 < po_revision r))"

lemma descends_bump: "descends s0 r \<Longrightarrow> descends s0 (bump_policy e r)"
  unfolding descends_def by (auto intro: less_SucI)

lemma steps_descend:
  "policy_step\<^sup>*\<^sup>* s0 s \<Longrightarrow> fst s0 \<subseteq> fst s \<and> (\<forall>r \<in> set (snd s). descends s0 r)"
proof (induction rule: rtranclp_induct)
  case base
  show ?case by (auto simp: descends_def)
next
  case (step s s')
  from step.hyps(2) show ?case
  proof cases
    case (set_policy fresh used i t t' pid)
    from set_policy(4) show ?thesis
    proof (cases rule: setPolicy_cases)
      case update
      then show ?thesis using step.IH set_policy(1,2) by (auto simp: descends_bump)
    next
      case insert
      have "descends s0 (new_policy fresh i)" using step.IH set_policy(1,3) by (auto simp: descends_def)
      then show ?thesis using insert step.IH set_policy(1,2) by auto
    qed
  next
    case (clear_policy used t pid)
    then show ?thesis using step.IH by (auto simp: clearPolicy_def)
  qed
qed

subsection \<open>What an apply deletes\<close>

lemma js_map_map:
  "(\<And>x. key' (f x) = key x) \<Longrightarrow> map_of (js_map key' (map f xs)) k = map_option f (map_of (js_map key xs) k)"
proof -
  assume same: "\<And>x. key' (f x) = key x"
  have "find (\<lambda>x. key' x = k) (map f ys) = map_option f (find (\<lambda>x. key x = k) ys)" for ys
    by (induction ys) (simp_all add: same)
  then show ?thesis by (simp add: map_of_js_map rev_map)
qed

definition outlook_row :: "(capability \<times> string) list \<Rightarrow> actor \<Rightarrow> policy_row \<Rightarrow> policy_outlook" where
  "outlook_row surviving a r =
     \<lparr>ol_key = policyKey r, ol_type = po_type r, ol_capability = po_key r, ol_effect = po_effect r,
      ol_outlook = outlook_of surviving r, ol_canDelete = (outlook_of surviving r = AppliesToNothing \<and> ownsPolicy r a)\<rparr>"

lemma analysePolicies_map: "analysePolicies rows surviving a = map (outlook_row surviving a) rows"
  by (simp add: analysePolicies_def outlook_row_def [abs_def])

lemma outlook_lookup:
  "map_of (js_map ol_key (analysePolicies rows surviving a)) k = map_option (outlook_row surviving a) (map_of (js_map policyKey rows) k)"
  unfolding analysePolicies_map by (rule js_map_map) (simp add: outlook_row_def)

lemma baseline_lookup: "map_of (js_map policyKey rows) key = Some r \<Longrightarrow> r \<in> set rows \<and> policyKey r = key"
  using js_map_key [of key r policyKey rows] by (auto dest: map_of_SomeD)

definition same_version :: "policy_row \<Rightarrow> policy_row \<Rightarrow> bool" where
  "same_version r x \<longleftrightarrow> po_id x = po_id r \<and> po_revision x = po_revision r"

lemma apply_Delete:
  "applyDispositions b (analysePolicies b surviving a) a ((key, d) # ds) t = Inr (t', deleted) \<Longrightarrow>
     d = Keep \<and> applyDispositions b (analysePolicies b surviving a) a ds t = Inr (t', deleted) \<or>
     (\<exists>r deleted'. d = Delete \<and> r \<in> set b \<and> policyKey r = key \<and> ownsPolicy r a \<and> (po_type r, po_key r) \<notin> set surviving \<and>
        deleted = r # deleted' \<and>
        applyDispositions b (analysePolicies b surviving a) a ds (filter (\<lambda>x. \<not> same_version r x) t) = Inr (t', deleted'))"
  by (auto simp: outlook_lookup assertDispositionAllowed_def outlook_row_def outlook_of_def Let_def delete_where_def same_version_def
      dest!: baseline_lookup dest: js_map_key split: if_splits option.splits sum.splits prod.splits)

lemma apply_result:
  "applyDispositions b (analysePolicies b surviving a) a ds t = Inr (t', deleted) \<Longrightarrow>
     t' = filter (\<lambda>x. \<forall>r \<in> set deleted. \<not> same_version r x) t \<and>
     (\<forall>r \<in> set deleted. r \<in> set b \<and> (policyKey r, Delete) \<in> set ds \<and> ownsPolicy r a \<and> (po_type r, po_key r) \<notin> set surviving)"
proof (induction ds arbitrary: t deleted)
  case (Cons e ds)
  obtain key d where e: "e = (key, d)" by (cases e)
  from apply_Delete [OF Cons.prems [unfolded e]] show ?case
  proof (elim disjE exE conjE)
    assume "applyDispositions b (analysePolicies b surviving a) a ds t = Inr (t', deleted)"
    from Cons.IH [OF this] show ?thesis by simp
  next
    fix r deleted'
    assume r: "d = Delete" "r \<in> set b" "policyKey r = key" "ownsPolicy r a" "(po_type r, po_key r) \<notin> set surviving" "deleted = r # deleted'"
    assume "applyDispositions b (analysePolicies b surviving a) a ds (filter (\<lambda>x. \<not> same_version r x) t) = Inr (t', deleted')"
    from Cons.IH [OF this] r show ?thesis by (auto simp: e conj_commute)
  qed
qed simp

lemma evolved_same_version:
  assumes steps: "policy_step\<^sup>*\<^sup>* (used, t0) (used', t)" and valid: "valid_store (used, t0)"
    and r: "r \<in> set t0" and x: "x \<in> set t" and same: "same_version r x"
  shows "x = r"
proof -
  have "po_id r \<in> used" using valid r by (auto simp: valid_store_def)
  with steps_descend [OF steps] x same obtain r0 where "r0 \<in> set t0" "po_id r0 = po_id r" "x = r0 \<or> po_revision r0 < po_revision x"
    by (fastforce simp: descends_def same_version_def)
  moreover from this r valid have "r0 = r" by (auto simp: valid_store_def valid_policies_def intro: same_key_same_row)
  ultimately show ?thesis using same by (auto simp: same_version_def)
qed

lemma baseline_subset: "set (readPolicyBaseline names t) \<subseteq> set t"
  by (auto simp: readPolicyBaseline_def)

lemma deleted_rule_reviewed:
  assumes steps: "policy_step\<^sup>*\<^sup>* (used, t0) (used', t)" and valid: "valid_store (used, t0)"
    and ok: "applyDispositions (readPolicyBaseline names t0) (analysePolicies (readPolicyBaseline names t0) surviving a) a ds t = Inr (t', deleted)"
    and gone: "x \<in> set t" "x \<notin> set t'"
  shows "x \<in> set (readPolicyBaseline names t0) \<and> (policyKey x, Delete) \<in> set ds \<and> (po_type x, po_key x) \<notin> set surviving \<and>
    (ac_admin a \<or> po_scope x = PUser \<and> po_user x = Some (ac_user a))"
proof -
  from apply_result [OF ok] gone obtain r where r: "r \<in> set deleted" "same_version r x"
    and ok': "r \<in> set (readPolicyBaseline names t0)" "(policyKey r, Delete) \<in> set ds" "ownsPolicy r a" "(po_type r, po_key r) \<notin> set surviving"
    by auto
  have "x = r" using evolved_same_version [OF steps valid _ gone(1) r(2)] baseline_subset ok'(1) by blast
  with ok' show ?thesis by (simp add: ownsPolicy_def)
qed

text \<open>
  Property C9. Rules are set and cleared in any way from the moment \<open>tr\<close> a review is read, to the moment \<open>t0\<close> the
  apply reads its baseline again under the claim, to the moment \<open>t\<close> its dispositions go through. Every rule that
  disappears is, column for column, a row of the baseline the apply read again, was named for deletion, applies to
  no surviving resource, and belongs to the asker unless an administrator asked; and if the review was read
  with a row of that id and revision, it is that row. (The review hash binds the rule's key and revision and
  not its id: a rule cleared and set anew in between is the exception shown below.)
\<close>

theorem deleted_rules_were_reviewed:
  assumes "policy_step\<^sup>*\<^sup>* (seen, tr) (used, t0)" and "valid_store (seen, tr)"
    and "policy_step\<^sup>*\<^sup>* (used, t0) (used', t)"
    and "applyDispositions (readPolicyBaseline names t0) (analysePolicies (readPolicyBaseline names t0) surviving a) a ds t = Inr (t', deleted)"
    and "x \<in> set t" "x \<notin> set t'"
  shows "x \<in> set (readPolicyBaseline names t0) \<and> (policyKey x, Delete) \<in> set ds \<and> (po_type x, po_key x) \<notin> set surviving \<and>
    (ac_admin a \<or> po_scope x = PUser \<and> po_user x = Some (ac_user a)) \<and>
    (\<forall>r \<in> set tr. po_id r = po_id x \<and> po_revision r = po_revision x \<longrightarrow> r = x)"
proof -
  have valid: "valid_store (used, t0)" using steps_keep_valid [OF assms(1,2)] .
  note reread = deleted_rule_reviewed [OF assms(3) valid assms(4-6)]
  then have "x \<in> set t0" using baseline_subset by blast
  then have "r = x" if "r \<in> set tr" "po_id r = po_id x" "po_revision r = po_revision x" for r
    using evolved_same_version [OF assms(1,2) that(1)] that(2,3) by (simp add: same_version_def)
  with reread show ?thesis by blast
qed

text \<open>
  Property C8. An apply changes what a capability resolves to for nobody but the asker, unless the asker is an
  administrator, and for nobody at all while a resource of that name remains.
\<close>

theorem apply_spares_other_runs:
  assumes steps: "policy_step\<^sup>*\<^sup>* (used, t0) (used', t)" and valid: "valid_store (used, t0)"
    and ok: "applyDispositions (readPolicyBaseline names t0) (analysePolicies (readPolicyBaseline names t0) surviving a) a ds t = Inr (t', deleted)"
    and other: "\<not> ac_admin a \<and> u \<noteq> ac_user a \<or> (type, key) \<in> set surviving"
  shows "resolvePolicies t' u project type key = resolvePolicies t u project type key"
proof -
  let ?seen = "\<lambda>r. about_cap type key r \<and> visible_policy u project r"
  have kept: "x \<in> set t'" if "x \<in> set t" "?seen x" for x
  proof (rule ccontr)
    assume "x \<notin> set t'"
    from deleted_rule_reviewed [OF steps valid ok that(1) this] other that(2) show False
      by (auto simp: about_cap_def visible_policy_def split: option.splits)
  qed
  have t': "t' = filter (\<lambda>x. \<forall>r \<in> set deleted. \<not> same_version r x) t" using apply_result [OF ok] by simp
  have "filter ?seen t' = filter ?seen t"
    using kept unfolding t' filter_filter by (intro filter_cong) auto
  then have "filter (about_cap type key) (filter (visible_policy u project) t') = filter (about_cap type key) (filter (visible_policy u project) t)"
    by (simp add: conj_commute)
  then have "explainPolicy (filter (visible_policy u project) t') type key = explainPolicy (filter (visible_policy u project) t) type key"
    by (metis explain_filter)
  then show ?thesis by (simp add: resolvePolicies_def buildMatcher_def)
qed

definition demo_before :: "policy_row list" where
  "demo_before = [demo_rule ''r1'' PSystem None Deny, demo_rule ''r2'' PUser (Some ''u'') Ask]"

abbreviation demo_member :: actor where
  "demo_member \<equiv> \<lparr>ac_user = ''u'', ac_admin = False\<rparr>"

lemma demo_store: "valid_store ({''r1'', ''r2''}, demo_before)"
  by (simp add: valid_store_def valid_policies_def demo_before_def demo_rule_def policy_slot_def subject_check_def)

lemma demo_apply:
  "applyDispositions (readPolicyBaseline [(ConnectorCap, ''api'')] demo_before)
     (analysePolicies (readPolicyBaseline [(ConnectorCap, ''api'')] demo_before) [] demo_member) demo_member
     [(''user:connector:api:u:'', Delete)] demo_before =
   Inr ([demo_rule ''r1'' PSystem None Deny], [demo_rule ''r2'' PUser (Some ''u'') Ask])"
  by (simp add: readPolicyBaseline_def demo_before_def demo_rule_def analysePolicies_def policyKey_def or_empty_def js_map_def
      assertDispositionAllowed_def ownsPolicy_def outlook_of_def)

text \<open>A review read while a third rule was there, cleared before the apply.\<close>

definition demo_review_table :: "policy_row list" where
  "demo_review_table = demo_before @ [demo_rule ''r3'' PUser (Some ''v'') Deny]"

theorem deleted_rules_were_reviewed_witness:
  "demo_rule ''r2'' PUser (Some ''u'') Ask \<in> set (readPolicyBaseline [(ConnectorCap, ''api'')] demo_before) \<and>
   fst (clearPolicy ''r3'' demo_review_table) = demo_before"
proof -
  let ?used = "{''r1'', ''r2'', ''r3''}"
  have cleared: "fst (clearPolicy ''r3'' demo_review_table) = demo_before"
    by (simp add: clearPolicy_def demo_review_table_def demo_before_def demo_rule_def delete_where_def)
  then have "policy_step\<^sup>*\<^sup>* (?used, demo_review_table) (?used, demo_before)"
    by (metis policy_step.clear_policy r_into_rtranclp)
  moreover have "valid_store (?used, demo_review_table)"
    by (simp add: valid_store_def valid_policies_def demo_review_table_def demo_before_def demo_rule_def policy_slot_def subject_check_def)
  ultimately show ?thesis
    using deleted_rules_were_reviewed [OF _ _ rtranclp.rtrancl_refl demo_apply, of ?used demo_review_table ?used "demo_rule ''r2'' PUser (Some ''u'') Ask"] cleared
    by (simp add: demo_before_def demo_rule_def)
qed

theorem apply_spares_other_runs_witness:
  "resolvePolicies [demo_rule ''r1'' PSystem None Deny] ''v'' None ConnectorCap ''api'' = resolvePolicies demo_before ''v'' None ConnectorCap ''api''"
  using apply_spares_other_runs [OF rtranclp.rtrancl_refl demo_store demo_apply] by simp

subsection \<open>A rule removed and set anew is not the rule that was reviewed\<close>

definition set_api :: "effect \<Rightarrow> policy_input" where
  "set_api e = \<lparr>pin_type = ConnectorCap, pin_key = ''api'', pin_effect = e, pin_scope = PSystem, pin_user = None, pin_project = None\<rparr>"

definition admin_actor :: actor where
  "admin_actor = \<lparr>ac_user = ''a'', ac_admin = True\<rparr>"

text \<open>
  A rule that was cleared and set anew with another effect has the revision it started
  with, so the review hash does not move: a consent to delete an allowing rule deletes the denying rule that
  replaced it, without a stale review.
\<close>

theorem recreated_rule_is_deleted_unreviewed:
  "\<exists>t1 t2.
     setPolicy ''r1'' (set_api Allow) [] = Some (t1, ''r1'') \<and>
     setPolicy ''r2'' (set_api Deny) (fst (clearPolicy ''r1'' t1)) = Some (t2, ''r2'') \<and>
     policyRevisions (readPolicyBaseline [(ConnectorCap, ''api'')] t1) = policyRevisions (readPolicyBaseline [(ConnectorCap, ''api'')] t2) \<and>
     map po_effect t1 = [Allow] \<and> map po_effect t2 = [Deny] \<and>
     applyDispositions (readPolicyBaseline [(ConnectorCap, ''api'')] t2)
       (analysePolicies (readPolicyBaseline [(ConnectorCap, ''api'')] t2) [] admin_actor) admin_actor
       [(''system:connector:api::'', Delete)] t2 = Inr ([], t2)"
  by (simp add: setPolicy_def new_policy_def set_api_def subject_of_def subject_check_def clearPolicy_def policyRevisions_def
      readPolicyBaseline_def policyKey_def or_empty_def analysePolicies_def js_map_def assertDispositionAllowed_def
      admin_actor_def ownsPolicy_def outlook_of_def Let_def)

subsection \<open>What survives a stale review can be carried out\<close>

lemma survives_iff:
  "(key, d) \<in> set (survivingDispositions ds (analysePolicies b surviving a)) \<longleftrightarrow>
     (key, d) \<in> set ds \<and> (\<exists>r. map_of (js_map policyKey b) key = Some r \<and>
       (d = Delete \<longrightarrow> (po_type r, po_key r) \<notin> set surviving \<and> ownsPolicy r a))"
  by (auto simp: survivingDispositions_def outlook_lookup outlook_row_def outlook_of_def simp del: map_of_eq_Some_iff split: option.splits)

lemma surviving_go_through:
  assumes valid: "distinct (map po_id t0)"
    and "distinct (map fst ds)" and "\<forall>(key, d) \<in> set ds. d \<noteq> Reassign"
    and "set ds \<subseteq> set (survivingDispositions ds0 (analysePolicies b surviving a))"
    and "set b \<subseteq> set t0"
    and "\<forall>r \<in> set b. policyKey r \<in> fst ` set ds \<longrightarrow> r \<in> set t" and "set t \<subseteq> set t0"
  shows "\<exists>t' deleted. applyDispositions b (analysePolicies b surviving a) a ds t = Inr (t', deleted)"
  using assms(2-)
proof (induction ds arbitrary: t)
  case (Cons e ds)
  obtain key d where e: "e = (key, d)" by (cases e)
  have sub: "set ds \<subseteq> set (survivingDispositions ds0 (analysePolicies b surviving a))" using Cons.prems(3) by simp
  show ?case
  proof (cases "d = Keep")
    case True
    then show ?thesis using Cons.IH [of t] Cons.prems sub by (simp add: e)
  next
    case False
    with Cons.prems(2) have d: "d = Delete" by (cases d) (auto simp: e)
    with Cons.prems(3) e obtain r where r: "map_of (js_map policyKey b) key = Some r"
      "(po_type r, po_key r) \<notin> set surviving" "ownsPolicy r a"
      by (auto simp: survives_iff simp del: map_of_eq_Some_iff)
    note rb = baseline_lookup [OF r(1)]
    let ?t = "delete_where (\<lambda>x. po_id x = po_id r \<and> po_revision x = po_revision r) t"
    have "r \<in> set t" using Cons.prems(5) rb by (auto simp: e)
    then have hit: "filter (\<lambda>x. po_id x = po_id r \<and> po_revision x = po_revision r) t \<noteq> []" by (auto simp: filter_empty_conv)
    have "\<forall>x \<in> set b. policyKey x \<in> fst ` set ds \<longrightarrow> x \<in> set ?t"
    proof (intro ballI impI)
      fix x assume x: "x \<in> set b" "policyKey x \<in> fst ` set ds"
      then have "x \<noteq> r" using Cons.prems(1) rb by (auto simp: e)
      then have "po_id x \<noteq> po_id r" using same_key_same_row [OF valid, of x r] x(1) rb Cons.prems(4) by auto
      then show "x \<in> set ?t" using Cons.prems(5) x by auto
    qed
    moreover have "set ?t \<subseteq> set t0" using Cons.prems(6) by auto
    ultimately obtain t' deleted where "applyDispositions b (analysePolicies b surviving a) a ds ?t = Inr (t', deleted)"
      using Cons.IH [of ?t] Cons.prems(1,2,4) sub by (auto simp: e)
    with hit r show ?thesis
      by (auto simp: e d outlook_lookup assertDispositionAllowed_def outlook_row_def outlook_of_def Let_def simp del: map_of_eq_Some_iff)
  qed
qed simp

text \<open>
  The decisions a stale refusal hands back against the fresh baseline can all be carried out: unless
  one of them is a reassignment, applying them to the table the baseline was read from succeeds.
\<close>

theorem surviving_dispositions_succeed:
  assumes "valid_policies t" and "distinct (map fst ds)" and "\<forall>(key, d) \<in> set ds. d \<noteq> Reassign"
  shows "\<exists>t' deleted.
    applyDispositions (readPolicyBaseline names t) (analysePolicies (readPolicyBaseline names t) surviving a) a
      (survivingDispositions ds (analysePolicies (readPolicyBaseline names t) surviving a)) t = Inr (t', deleted)"
proof (rule surviving_go_through [where t0 = t])
  let ?s = "survivingDispositions ds (analysePolicies (readPolicyBaseline names t) surviving a)"
  show "distinct (map po_id t)" using assms(1) by (simp add: valid_policies_def)
  show "distinct (map fst ?s)" using assms(2) by (simp add: survivingDispositions_def distinct_map_filter)
  show "\<forall>(key, d) \<in> set ?s. d \<noteq> Reassign" using assms(3) by (auto simp: survivingDispositions_def)
qed (use baseline_subset in auto)

theorem surviving_dispositions_succeed_witness:
  "\<exists>t' deleted.
    applyDispositions (readPolicyBaseline [(ConnectorCap, ''api'')] demo_before)
      (analysePolicies (readPolicyBaseline [(ConnectorCap, ''api'')] demo_before) [] demo_member) demo_member
      (survivingDispositions [(''user:connector:api:u:'', Delete), (''system:connector:api::'', Delete)]
        (analysePolicies (readPolicyBaseline [(ConnectorCap, ''api'')] demo_before) [] demo_member)) demo_before = Inr (t', deleted)"
proof (rule surviving_dispositions_succeed)
  show "valid_policies demo_before" using demo_store by (simp add: valid_store_def)
qed simp_all

text \<open>A reassignment survives as well, and is refused once it is carried out.\<close>

lemma reassign_survives_and_fails:
  "survivingDispositions [(''user:connector:api:u:'', Reassign)] (analysePolicies demo_before [] demo_member) = [(''user:connector:api:u:'', Reassign)] \<and>
   applyDispositions demo_before (analysePolicies demo_before [] demo_member) demo_member [(''user:connector:api:u:'', Reassign)] demo_before =
     Inl (NotImplemented ''user:connector:api:u:'')"
  by (simp add: survivingDispositions_def demo_before_def demo_rule_def analysePolicies_def policyKey_def or_empty_def js_map_def
      assertDispositionAllowed_def ownsPolicy_def outlook_of_def)

end
