(* ===== verification/Effect_Ledger.thy ===== *)
theory Effect_Ledger
  imports Db_Schema Js_Text
begin

section \<open>The effect ledger (src/lib/tasks/effect-ledger.ts)\<close>

text \<open>
  What a turn has already done, kept so that a restarted turn does not do it twice: the table of
  executed tool calls with its write-ahead half, the wrapper that keeps a tool from running before
  its row is there, the union with what the reply's parts still show, and the note a restarted
  model is given. The note holds characters beyond Latin-1, so its text is a list of UTF-16 code
  units (\<open>jstr\<close>); a tool's name and id stay strings, and \<open>js\<close> reads a string as code units.
\<close>

definition js :: "string \<Rightarrow> jstr" where
  "js s = map (\<lambda>c. word_of_nat (of_char c)) s"

lemma length_js [simp]: "length (js s) = length s"
  by (simp add: js_def)

lemma js_append [simp]: "js (s @ t) = js s @ js t"
  by (simp add: js_def)

subsection \<open>Values, their JSON text and their size (src/lib/tool-output.ts, src/lib/tasks/sanitize.ts)\<close>

fun of_json :: "(rat \<Rightarrow> string) \<Rightarrow> json \<Rightarrow> js_value" where
  "of_json num JNull = VNull"
| "of_json num (JBool b) = VBool b"
| "of_json num (JNum q) = VNum (js (num q))"
| "of_json num (JStr s) = VStr (js s)"
| "of_json num (JArr vs) = VArr (map (of_json num) vs)"
| "of_json num (JObj kvs) = VObj (map (\<lambda>(k, v). (js k, of_json num v)) kvs)"

definition hex_digit :: "16 word \<Rightarrow> 16 word" where
  "hex_digit n = (if n < 10 then 48 + n else 87 + n)"

definition high_surrogate :: "16 word \<Rightarrow> bool" where "high_surrogate u \<longleftrightarrow> 0xD800 \<le> u \<and> u < 0xDC00"
definition low_surrogate :: "16 word \<Rightarrow> bool" where "low_surrogate u \<longleftrightarrow> 0xDC00 \<le> u \<and> u < 0xE000"

text \<open>The escapes of \<open>JSON.stringify\<close>: the control characters, the quote and the backslash, and a surrogate
  that stands alone; a pair goes through as it is.\<close>

definition hex_escape :: "16 word \<Rightarrow> jstr" where
  "hex_escape u = [92, 117, hex_digit (u div 4096), hex_digit (u div 256 mod 16), hex_digit (u div 16 mod 16), hex_digit (u mod 16)]"

definition escape_unit :: "16 word \<Rightarrow> jstr" where
  "escape_unit u =
     (if u = 34 then [92, 34] else if u = 92 then [92, 92]
      else if u = 8 then [92, 98] else if u = 9 then [92, 116] else if u = 10 then [92, 110]
      else if u = 12 then [92, 102] else if u = 13 then [92, 114]
      else if u < 32 \<or> high_surrogate u \<or> low_surrogate u then hex_escape u
      else [u])"

fun escape_text :: "jstr \<Rightarrow> jstr" where
  "escape_text [] = []"
| "escape_text [u] = escape_unit u"
| "escape_text (u # v # s) =
     (if high_surrogate u \<and> low_surrogate v then u # v # escape_text s else escape_unit u @ escape_text (v # s))"

definition quote_text :: "jstr \<Rightarrow> jstr" where
  "quote_text s = 34 # escape_text s @ [34]"

fun join_units :: "jstr \<Rightarrow> jstr list \<Rightarrow> jstr" where
  "join_units sep [] = []"
| "join_units sep [w] = w"
| "join_units sep (w # v # ws) = w @ sep @ join_units sep (v # ws)"

fun stringify :: "js_value \<Rightarrow> jstr" where
  "stringify VNull = js ''null''"
| "stringify (VBool b) = js (if b then ''true'' else ''false'')"
| "stringify (VNum t) = t"
| "stringify (VStr s) = quote_text s"
| "stringify (VArr vs) = 91 # join_units [44] (map stringify vs) @ [93]"
| "stringify (VObj kvs) = 123 # join_units [44] (map (\<lambda>(k, v). quote_text k @ 58 # stringify v) kvs) @ [125]"

text \<open>\<open>Buffer.byteLength(s, "utf8")\<close>: a surrogate pair is four bytes, a surrogate alone is replaced by
  a character of three.\<close>

definition unit_bytes :: "16 word \<Rightarrow> nat" where
  "unit_bytes u = (if u < 0x80 then 1 else if u < 0x800 then 2 else 3)"

fun utf8_bytes :: "jstr \<Rightarrow> nat" where
  "utf8_bytes [] = 0"
| "utf8_bytes [u] = unit_bytes u"
| "utf8_bytes (u # v # s) =
     (if high_surrogate u \<and> low_surrogate v then 4 + utf8_bytes s else unit_bytes u + utf8_bytes (v # s))"

definition sizeOf :: "js_value \<Rightarrow> (jstr \<Rightarrow> nat) \<Rightarrow> nat" where
  "sizeOf v size_fn = (case v of VStr s \<Rightarrow> size_fn s | _ \<Rightarrow> size_fn (stringify v))"

definition outputBytes :: "js_value \<Rightarrow> nat" where
  "outputBytes v = sizeOf v utf8_bytes"

definition outputChars :: "js_value \<Rightarrow> nat" where
  "outputChars v = sizeOf v length"

fun stripNul :: "js_value \<Rightarrow> js_value" where
  "stripNul (VStr s) = VStr (filter (\<lambda>u. u \<noteq> 0) s)"
| "stripNul (VArr vs) = VArr (map stripNul vs)"
| "stripNul (VObj kvs) = VObj (map (\<lambda>(k, v). (k, stripNul v)) kvs)"
| "stripNul v = v"

subsection \<open>Clamping what is stored\<close>

definition EFFECT_ARG_CHARS :: nat where "EFFECT_ARG_CHARS = 100"
definition EFFECT_INPUT_BYTES :: nat where "EFFECT_INPUT_BYTES = 2048"
definition EFFECT_INPUT_FIELDS :: nat where "EFFECT_INPUT_FIELDS = 32"

definition ellipsis :: "16 word" where "ellipsis = 0x2026"
definition num16 :: "nat \<Rightarrow> jstr" where "num16 n = js (decimal n)"

text \<open>\<open>Math.round(n / 1024)\<close>.\<close>

definition kilobytes :: "nat \<Rightarrow> nat" where
  "kilobytes n = (n + 512) div 1024"

definition clampValue :: "js_value \<Rightarrow> js_value" where
  "clampValue v = (case v of
       VStr s \<Rightarrow>
         if length s \<le> EFFECT_ARG_CHARS then v
         else VStr (take EFFECT_ARG_CHARS s @ ellipsis # js ''(+'' @ num16 (kilobytes (utf8_bytes s)) @ js '' KB)'')
     | VArr vs \<Rightarrow> VStr (ellipsis # js ''('' @ num16 (length vs) @ js '' items, '' @ num16 (kilobytes (outputBytes v)) @ js '' KB)'')
     | VObj kvs \<Rightarrow> VStr (ellipsis # js ''('' @ num16 (length kvs) @ js '' fields, '' @ num16 (kilobytes (outputBytes v)) @ js '' KB)'')
     | _ \<Rightarrow> v)"

definition clampEffectInput :: "js_value \<Rightarrow> js_value" where
  "clampEffectInput v =
     (if outputBytes v \<le> EFFECT_INPUT_BYTES then v
      else case v of
        VObj kvs \<Rightarrow>
          VObj (map (\<lambda>(k, x). (k, clampValue x)) (take EFFECT_INPUT_FIELDS kvs) @
            (if EFFECT_INPUT_FIELDS < length kvs
             then [([ellipsis], VStr (num16 (length kvs - EFFECT_INPUT_FIELDS) @ js '' more fields''))] else []))
      | _ \<Rightarrow> clampValue v)"

subsection \<open>The table and its upsert\<close>

record effect_write =
  ew_message :: ident
  ew_call :: ident
  ew_task :: ident
  ew_name :: string
  ew_input :: "js_value option"
  ew_failed :: bool

text \<open>Postgres takes no NUL in \<open>jsonb\<close>, in a key as little as in a value.\<close>

fun has_nul :: "js_value \<Rightarrow> bool" where
  "has_nul (VStr s) = (0 \<in> set s)"
| "has_nul (VArr vs) = list_ex has_nul vs"
| "has_nul (VObj kvs) = list_ex (\<lambda>(k, v). 0 \<in> set k \<or> has_nul v) kvs"
| "has_nul v = False"

definition effect_key :: "effect_row \<Rightarrow> ident \<times> ident" where
  "effect_key r = (e_message r, e_call r)"

definition written_row :: "time \<Rightarrow> effect_write \<Rightarrow> bool \<Rightarrow> effect_row" where
  "written_row now e settled =
     \<lparr>e_message = ew_message e, e_call = ew_call e, e_task = Some (ew_task e), e_name = ew_name e,
      e_input = (case ew_input e of None \<Rightarrow> VNull | Some v \<Rightarrow> clampEffectInput (stripNul v)),
      e_failed = ew_failed e, e_settled = settled, e_created = now\<rparr>"

text \<open>\<open>INSERT \<dots> ON CONFLICT (message_id, tool_call_id) DO UPDATE\<close>: the flags are or-ed, the name and
  the arguments replaced, the producer and the time of creation kept.\<close>

definition upsert_row :: "effect_row \<Rightarrow> effect_row list \<Rightarrow> effect_row list" where
  "upsert_row r t =
     (if effect_key r \<in> effect_key ` set t
      then update_where (\<lambda>x. effect_key x = effect_key r)
        (\<lambda>x. x\<lparr>e_name := e_name r, e_input := e_input r,
               e_failed := e_failed x \<or> e_failed r, e_settled := e_settled x \<or> e_settled r\<rparr>) t
      else t @ [r])"

datatype ledger_error = EffectLedgerError ident

text \<open>What becomes of one statement: it lands and says so, the database refuses it, or it lands and
  the answer is lost on the way.\<close>

datatype write_fate = Lands | Refused | Unheard

definition LEDGER_WRITE_ATTEMPTS :: nat where "LEDGER_WRITE_ATTEMPTS = 3"

fun upsert_attempts :: "time \<Rightarrow> (nat \<Rightarrow> write_fate) \<Rightarrow> nat \<Rightarrow> nat \<Rightarrow> effect_row \<Rightarrow> effect_row list \<Rightarrow>
    (ledger_error + unit) \<times> effect_row list" where
  "upsert_attempts now fate attempt 0 r t = (Inl (EffectLedgerError (e_call r)), t)"
| "upsert_attempts now fate attempt (Suc left) r t =
     (if has_nul (e_input r) then upsert_attempts now fate (Suc attempt) left r t
      else case fate attempt of
        Lands \<Rightarrow> (Inr (), upsert_row r t)
      | Refused \<Rightarrow> upsert_attempts now fate (Suc attempt) left r t
      | Unheard \<Rightarrow> upsert_attempts now fate (Suc attempt) left r (upsert_row r t))"

definition upsertEffect :: "time \<Rightarrow> (nat \<Rightarrow> write_fate) \<Rightarrow> effect_write \<Rightarrow> bool \<Rightarrow> effect_row list \<Rightarrow>
    (ledger_error + unit) \<times> effect_row list" where
  "upsertEffect now fate e settled t =
     upsert_attempts now fate 1 LEDGER_WRITE_ATTEMPTS (written_row now e settled) t"

definition recordEffect :: "time \<Rightarrow> (nat \<Rightarrow> write_fate) \<Rightarrow> effect_write \<Rightarrow> effect_row list \<Rightarrow>
    (ledger_error + unit) \<times> effect_row list" where
  "recordEffect now fate e t = upsertEffect now fate e True t"

definition recordEffectStarted :: "time \<Rightarrow> (nat \<Rightarrow> write_fate) \<Rightarrow> effect_write \<Rightarrow> effect_row list \<Rightarrow>
    (ledger_error + unit) \<times> effect_row list" where
  "recordEffectStarted now fate e t = upsertEffect now fate e False t"

text \<open>\<open>withEffectLedger\<close>: the wrapped \<open>execute\<close> of a tool. The tool acts on a state of its own, and
  only once the row is there.\<close>

definition logged_execute :: "time \<Rightarrow> (nat \<Rightarrow> write_fate) \<Rightarrow> ident \<Rightarrow> ident \<Rightarrow> string \<Rightarrow> ident \<Rightarrow> js_value option \<Rightarrow>
    (js_value option \<Rightarrow> 'w \<Rightarrow> 'r \<times> 'w) \<Rightarrow> effect_row list \<times> 'w \<Rightarrow> (ledger_error + 'r) \<times> effect_row list \<times> 'w" where
  "logged_execute now fate msg task name call input tool s =
     (case recordEffectStarted now fate
        \<lparr>ew_message = msg, ew_call = call, ew_task = task, ew_name = name, ew_input = input, ew_failed = False\<rparr> (fst s) of
       (Inl e, t) \<Rightarrow> (Inl e, t, snd s)
     | (Inr _, t) \<Rightarrow> (case tool input (snd s) of (r, w) \<Rightarrow> (Inr r, t, w)))"

text \<open>\<open>tools\<close> maps a name to its \<open>execute\<close>, \<open>None\<close> for a tool without one, which is handed through.\<close>

definition withEffectLedger :: "time \<Rightarrow> (nat \<Rightarrow> write_fate) \<Rightarrow> ident \<Rightarrow> ident \<Rightarrow>
    (string \<times> (js_value option \<Rightarrow> 'w \<Rightarrow> 'r \<times> 'w) option) list \<Rightarrow>
    (string \<times> (ident \<Rightarrow> js_value option \<Rightarrow> effect_row list \<times> 'w \<Rightarrow> (ledger_error + 'r) \<times> effect_row list \<times> 'w) option) list" where
  "withEffectLedger now fate msg task tools =
     map (\<lambda>(name, execute). (name, map_option (\<lambda>tool call input. logged_execute now fate msg task name call input tool) execute)) tools"

subsection \<open>Reading it back\<close>

record turn_effect =
  te_id :: "ident option"
  te_name :: string
  te_input :: "js_value option"
  te_failed :: bool
  te_unsettled :: bool

definition loaded :: "effect_row \<Rightarrow> turn_effect" where
  "loaded r = \<lparr>te_id = Some (e_call r), te_name = e_name r, te_input = Some (e_input r),
               te_failed = e_failed r, te_unsettled = \<not> e_settled r\<rparr>"

text \<open>\<open>ORDER BY created_at, tool_call_id\<close>: two stable sorts, the tie-break first.\<close>

definition loadEffects :: "effect_row list \<Rightarrow> ident \<Rightarrow> turn_effect list" where
  "loadEffects t msg = map loaded (sort_key e_created (sort_key e_call (filter (\<lambda>r. e_message r = msg) t)))"

text \<open>The calls by id, the last one of an id winning; then one effect per result or error, rejected
  calls left out.\<close>

definition part_call :: "stored_part list \<Rightarrow> ident \<Rightarrow> (string \<times> json) option" where
  "part_call ps i = map_of (rev (List.map_filter
     (\<lambda>p. case p of ToolCall c n inp _ _ \<Rightarrow> Some (c, (n, inp)) | _ \<Rightarrow> None) ps)) i"

definition part_effect :: "(rat \<Rightarrow> string) \<Rightarrow> stored_part list \<Rightarrow> ident \<Rightarrow> string \<Rightarrow> bool \<Rightarrow> turn_effect" where
  "part_effect num ps i name failed =
     \<lparr>te_id = Some i, te_name = (case part_call ps i of Some (n, _) \<Rightarrow> n | None \<Rightarrow> name),
      te_input = map_option (of_json num \<circ> snd) (part_call ps i), te_failed = failed, te_unsettled = False\<rparr>"

definition effectsFromParts :: "(rat \<Rightarrow> string) \<Rightarrow> stored_part list \<Rightarrow> turn_effect list" where
  "effectsFromParts num ps = List.map_filter
     (\<lambda>p. case p of
         ToolResult i name _ \<Rightarrow> Some (part_effect num ps i name False)
       | ToolError i name _ invalid \<Rightarrow> if invalid then None else Some (part_effect num ps i name True)
       | _ \<Rightarrow> None) ps"

text \<open>An empty id is no id.\<close>

definition mergeEffects :: "turn_effect list \<Rightarrow> turn_effect list \<Rightarrow> turn_effect list" where
  "mergeEffects ledger from_parts =
     filter (\<lambda>e. case te_id e of None \<Rightarrow> True | Some i \<Rightarrow> i = [] \<or> Some i \<notin> te_id ` set ledger) from_parts @ ledger"

definition INHERIT_MAX_HOPS :: nat where "INHERIT_MAX_HOPS = 12"

definition partial_category :: "error_category option \<Rightarrow> bool" where
  "partial_category c = (case c of
       Some InterruptedPartial \<Rightarrow> True | Some (OtherCategory s) \<Rightarrow> ends_with ''_partial'' s | _ \<Rightarrow> False)"

text \<open>The walk up the branch; the collected lists come newest first.\<close>

fun inherit_walk :: "(rat \<Rightarrow> string) \<Rightarrow> message_row list \<Rightarrow> effect_row list \<Rightarrow> nat \<Rightarrow> ident option \<Rightarrow> turn_effect list list" where
  "inherit_walk num ms t 0 cursor = []"
| "inherit_walk num ms t (Suc hops) None = []"
| "inherit_walk num ms t (Suc hops) (Some c) =
     (case find_row m_id c ms of
       None \<Rightarrow> []
     | Some row \<Rightarrow>
         if m_role row = Assistant
         then if \<not> partial_category (Option.bind (m_meta row) mm_category) then []
              else mergeEffects (loadEffects t c)
                     (effectsFromParts num (case Option.bind (m_meta row) mm_parts of None \<Rightarrow> [] | Some ps \<Rightarrow> ps))
                   # inherit_walk num ms t hops (m_parent row)
         else inherit_walk num ms t hops (m_parent row))"

definition loadInheritedEffects :: "(rat \<Rightarrow> string) \<Rightarrow> message_row list \<Rightarrow> effect_row list \<Rightarrow> ident \<Rightarrow> turn_effect list" where
  "loadInheritedEffects num ms t from = concat (rev (inherit_walk num ms t INHERIT_MAX_HOPS (Some from)))"

end
