(* ===== verification/Recovery_Note.thy ===== *)
theory Recovery_Note
  imports Effect_Ledger
begin

section \<open>The note a restarted turn is given (src/lib/tasks/effect-ledger.ts)\<close>

text \<open>
  \<open>renderArgs\<close> and \<open>buildRecoveryNote\<close> with the words of the source. The loops over fields and over
  tools are recursions with the loop's variables as arguments; the counts per tool are an association
  list in the order of first insertion, as a JavaScript \<open>Map\<close> keeps them.
\<close>

definition RECOVERY_NOTE_BUDGET :: nat where "RECOVERY_NOTE_BUDGET = 6000"

definition nl :: jstr where "nl = [10]"
definition dash :: jstr where "dash = [0x2014]"

definition ERRORED_MARKER :: jstr where "ERRORED_MARKER = js ''[errored]''"
definition UNSETTLED_MARKER :: jstr where "UNSETTLED_MARKER = js ''[outcome unknown]''"

definition INTERNAL :: jstr where
  "INTERNAL = js ''[Internal note from the platform '' @ dash @ js '' do not mention it to the user]'' @ nl"

definition OPENING :: jstr where
  "OPENING = js (''The tool calls below were issued earlier while working on this request; the transcript may show '' @
     ''them only in part, or not at all. '')"

definition INSPECT :: jstr where
  "INSPECT = js (''inspect the target its arguments identify using an available read, list or query '' @
     ''operation, then do only the work that is missing. '')"

definition CLOSING :: jstr where
  "CLOSING = js ''Continue the user's task from the current state.'' @ nl"

definition STATES :: "bool \<Rightarrow> jstr" where
  "STATES mixed =
     js ''Read each line's state separately:'' @ nl @
     js ''- unmarked: the call completed and its effects are live; do NOT repeat it.'' @ nl @
     js ''- '' @ ERRORED_MARKER @ js '': the call ran and threw; its result may be absent, partial or complete.'' @ nl @
     (if mixed
      then js ''- '' @ UNSETTLED_MARKER @ js '': dispatch was recorded, but whether execution began at all is '' @
           js ''unknown; do NOT count it as completed.'' @ nl
      else [])"

definition itemizedHeader :: "bool \<Rightarrow> jstr" where
  "itemizedHeader mixed =
     INTERNAL @ OPENING @ STATES mixed @
     js ''For a marked state, '' @ INSPECT @
     (if mixed
      then js ''If no reliable check exists and the operation is still needed, do it again '' @
           js ''rather than silently treating it as done.'' @ nl
      else nl) @
     CLOSING"

definition collapsedHeader :: "bool \<Rightarrow> jstr" where
  "collapsedHeader mixed =
     INTERNAL @ OPENING @ STATES mixed @
     js (''The individual arguments are not available, so the calls below are grouped by tool with counts only. '' @
         ''Do NOT replay any of these counts as a batch. Before another write with a tool listed '' @
         ''here, use an available read, list or query operation on that write's own target, and '' @
         ''issue the write only if the state it would create is missing.'') @ nl @ CLOSING"

definition remainder :: "nat \<Rightarrow> nat \<Rightarrow> jstr" where
  "remainder tools calls =
     js ''- '' @ ellipsis # js ''and '' @ num16 tools @ js '' more tools, '' @ num16 calls @ js '' calls '' @ dash @
     js '' check each target before writing it again''"

subsection \<open>Arguments\<close>

text \<open>Fields are taken cheapest first while they fit; two code units are the braces.\<close>

fun keep_fields :: "nat \<Rightarrow> jstr list \<Rightarrow> jstr list" where
  "keep_fields used [] = []"
| "keep_fields used (f # fs) =
     (if EFFECT_ARG_CHARS < used + length f then [] else f # keep_fields (used + length f + 1) fs)"

definition field_text :: "jstr \<times> js_value \<Rightarrow> jstr" where
  "field_text kv = quote_text (fst kv) @ 58 # stringify (snd kv)"

definition renderArgs :: "js_value option \<Rightarrow> jstr" where
  "renderArgs input = (case input of
       None \<Rightarrow> []
     | Some VNull \<Rightarrow> []
     | Some v \<Rightarrow>
         let s = (case v of VStr t \<Rightarrow> t | _ \<Rightarrow> stringify v);
             fields = (case v of VObj kvs \<Rightarrow> sort_key length (map field_text kvs) | _ \<Rightarrow> []);
             kept = keep_fields 2 fields;
             dropped = length fields - length kept
         in if length s \<le> EFFECT_ARG_CHARS then s
            else if kept \<noteq> []
            then 123 # join_units [44] kept @
                 (if 0 < dropped then [44, ellipsis, 43] @ num16 dropped else []) @ [125]
            else take EFFECT_ARG_CHARS s @ [ellipsis])"

text \<open>What ECMAScript's \<open>trimEnd\<close> removes.\<close>

definition space_unit :: "16 word \<Rightarrow> bool" where
  "space_unit u \<longleftrightarrow> u \<in> {9, 10, 11, 12, 13, 32, 160, 0x1680, 0x2028, 0x2029, 0x202F, 0x205F, 0x3000, 0xFEFF} \<or>
     (0x2000 \<le> u \<and> u \<le> 0x200A)"

definition trimEnd :: "jstr \<Rightarrow> jstr" where
  "trimEnd s = rev (dropWhile space_unit (rev s))"

text \<open>\<open>replace(/  +/g, " ")\<close>: every run of two or more spaces becomes one.\<close>

fun squeeze :: "jstr \<Rightarrow> jstr" where
  "squeeze [] = []"
| "squeeze [u] = [u]"
| "squeeze (u # v # s) = (if u = 32 \<and> v = 32 then squeeze (v # s) else u # squeeze (v # s))"

definition neutralizeTags :: "jstr \<Rightarrow> jstr" where
  "neutralizeTags s = map (\<lambda>u. if u \<in> {60, 0xFF1C, 0xFE64} then 0x2039 else u) s"

definition effect_line :: "turn_effect \<Rightarrow> jstr" where
  "effect_line e = trimEnd (squeeze (js ''- '' @
     (if te_unsettled e then UNSETTLED_MARKER @ js '' ''
      else if te_failed e then ERRORED_MARKER @ js '' '' else []) @
     js (te_name e) @ js '' '' @ renderArgs (te_input e)))"

definition itemized_note :: "turn_effect list \<Rightarrow> jstr" where
  "itemized_note effects =
     itemizedHeader (list_ex te_unsettled effects) @ neutralizeTags (join_units nl (map effect_line effects))"

subsection \<open>Counts per tool\<close>

record tool_count =
  tc_calls :: nat
  tc_failed :: nat
  tc_unsettled :: nat

definition add_call :: "turn_effect \<Rightarrow> tool_count \<Rightarrow> tool_count" where
  "add_call e c = (let d = c\<lparr>tc_calls := tc_calls c + 1\<rparr> in
     if te_unsettled e then d\<lparr>tc_unsettled := tc_unsettled d + 1\<rparr>
     else if te_failed e then d\<lparr>tc_failed := tc_failed d + 1\<rparr> else d)"

fun count_effect :: "turn_effect \<Rightarrow> (string \<times> tool_count) list \<Rightarrow> (string \<times> tool_count) list" where
  "count_effect e [] = [(te_name e, add_call e \<lparr>tc_calls = 0, tc_failed = 0, tc_unsettled = 0\<rparr>)]"
| "count_effect e ((n, c) # cs) = (if n = te_name e then (n, add_call e c) # cs else (n, c) # count_effect e cs)"

definition tool_counts :: "turn_effect list \<Rightarrow> (string \<times> tool_count) list" where
  "tool_counts effects = fold count_effect effects []"

definition ordered_counts :: "turn_effect list \<Rightarrow> (string \<times> tool_count) list" where
  "ordered_counts effects = sort_key (\<lambda>(n, c). - int (tc_calls c)) (tool_counts effects)"

definition completed_calls :: "tool_count \<Rightarrow> nat" where
  "completed_calls c = tc_calls c - tc_failed c - tc_unsettled c"

definition count_line :: "string \<Rightarrow> tool_count \<Rightarrow> jstr" where
  "count_line name c =
     js ''- '' @ js name @ js '' '' @ 0xD7 # num16 (tc_calls c) @
     (if 0 < tc_failed c \<or> 0 < tc_unsettled c
      then js '': '' @ join_units (js ''; '')
        ((if 0 < completed_calls c then [num16 (completed_calls c) @ js '' completed''] else []) @
         (if 0 < tc_failed c then [num16 (tc_failed c) @ js '' errored''] else []) @
         (if 0 < tc_unsettled c then [num16 (tc_unsettled c) @ js '' outcome unknown''] else []))
      else [])"

text \<open>The loop over the tools: which are listed, and how many tools and calls are left to the
  remainder. The first tool is always listed.\<close>

fun list_tools :: "nat \<Rightarrow> bool \<Rightarrow> nat \<Rightarrow> (string \<times> tool_count) list \<Rightarrow> (string \<times> tool_count) list \<times> nat \<times> nat" where
  "list_tools reserve listed used [] = ([], 0, 0)"
| "list_tools reserve listed used ((n, c) # cs) =
     (if listed \<and> RECOVERY_NOTE_BUDGET < used + length (count_line n c) + reserve
      then case list_tools reserve listed used cs of (shown, tools, calls) \<Rightarrow> (shown, tools + 1, calls + tc_calls c)
      else case list_tools reserve True (used + length (count_line n c) + 1) cs of
        (shown, tools, calls) \<Rightarrow> ((n, c) # shown, tools, calls))"

definition tools_listed :: "turn_effect list \<Rightarrow> (string \<times> tool_count) list \<times> nat \<times> nat" where
  "tools_listed effects =
     list_tools (length (remainder (length (ordered_counts effects)) (length effects))) False
       (length (collapsedHeader (list_ex te_unsettled effects))) (ordered_counts effects)"

definition collapsed_note :: "turn_effect list \<Rightarrow> jstr" where
  "collapsed_note effects =
     (case tools_listed effects of (shown, tools, calls) \<Rightarrow>
        collapsedHeader (list_ex te_unsettled effects) @
        neutralizeTags (join_units nl
          (map (\<lambda>(n, c). count_line n c) shown @ (if 0 < tools then [remainder tools calls] else []))))"

definition buildRecoveryNote :: "turn_effect list \<Rightarrow> jstr option" where
  "buildRecoveryNote effects =
     (if effects = [] then None
      else if length (itemized_note effects) \<le> RECOVERY_NOTE_BUDGET then Some (itemized_note effects)
      else Some (collapsed_note effects))"

end
