(* ===== verification/Ledger_Theorems.thy ===== *)
theory Ledger_Theorems
  imports Recovery_Note "HOL-Library.Multiset"
begin

section \<open>The effect ledger: what a restarted turn is told\<close>

text \<open>
  The note never exceeds its budget by more than one code unit, and one it can exceed; counting
  collapses the list without losing a call; a tool never runs without its row, and the row never
  says less than what happened.
\<close>

subsection \<open>Lengths\<close>

lemma length_num16: "length (num16 n) = length (decimal n)"
  by (simp add: num16_def)

lemma length_collapsedHeader: "length (collapsedHeader mixed) = (if mixed then 894 else 773)"
  by (simp add: collapsedHeader_def INTERNAL_def OPENING_def STATES_def CLOSING_def nl_def dash_def
      ERRORED_MARKER_def UNSETTLED_MARKER_def)

lemma length_itemizedHeader: "length (itemizedHeader mixed) = (if mixed then 828 else 591)"
  by (simp add: itemizedHeader_def INSPECT_def INTERNAL_def OPENING_def STATES_def CLOSING_def nl_def dash_def
      ERRORED_MARKER_def UNSETTLED_MARKER_def)

lemma length_remainder: "length (remainder m n) = 70 + length (decimal m) + length (decimal n)"
  by (simp add: remainder_def length_num16 dash_def)

lemma length_neutralizeTags [simp]: "length (neutralizeTags s) = length s"
  by (simp add: neutralizeTags_def)

lemma length_join_units:
  "ws \<noteq> [] \<Longrightarrow> length (join_units [u] ws) + 1 = (\<Sum>w\<leftarrow>ws. length w + 1)"
  by (induction "[u]" ws rule: join_units.induct) auto

lemma length_decimal_less: "n < 10 ^ Suc k \<Longrightarrow> length (decimal n) \<le> Suc k"
proof (induction k arbitrary: n)
  case 0
  then show ?case by (simp add: decimal.simps [of n])
next
  case (Suc k)
  then have "n div 10 < 10 ^ Suc k" by (simp add: less_mult_imp_div_less)
  from Suc.IH [OF this] show ?case by (simp add: decimal.simps [of n])
qed

subsection \<open>Counting loses no call\<close>

lemma count_effect_calls: "(\<Sum>(n, c)\<leftarrow>count_effect e cs. tc_calls c) = (\<Sum>(n, c)\<leftarrow>cs. tc_calls c) + 1"
  by (induction e cs rule: count_effect.induct) (auto simp: add_call_def Let_def)

lemma keys_count_effect:
  "map fst (count_effect e cs) = (if te_name e \<in> fst ` set cs then map fst cs else map fst cs @ [te_name e])"
  by (induction e cs rule: count_effect.induct) auto

lemma fst_set_count_effect: "fst ` set (count_effect e cs) = insert (te_name e) (fst ` set cs)"
proof -
  have "set (map fst (count_effect e cs)) = insert (te_name e) (set (map fst cs))"
    unfolding keys_count_effect by auto
  then show ?thesis by simp
qed

lemma distinct_count_effect: "distinct (map fst cs) \<Longrightarrow> distinct (map fst (count_effect e cs))"
  unfolding keys_count_effect by simp

text \<open>What the entry of a tool holds: how often it was called, failed and was left open.\<close>

definition tally :: "string \<Rightarrow> turn_effect list \<Rightarrow> tool_count" where
  "tally n es =
     \<lparr>tc_calls = length (filter (\<lambda>e. te_name e = n) es),
      tc_failed = length (filter (\<lambda>e. te_name e = n \<and> te_failed e \<and> \<not> te_unsettled e) es),
      tc_unsettled = length (filter (\<lambda>e. te_name e = n \<and> te_unsettled e) es)\<rparr>"

lemma tally_snoc: "tally n (es @ [e]) = (if te_name e = n then add_call e (tally n es) else tally n es)"
  by (simp add: tally_def add_call_def Let_def)

lemma tally_other: "n \<notin> te_name ` set es \<Longrightarrow> tally n es = \<lparr>tc_calls = 0, tc_failed = 0, tc_unsettled = 0\<rparr>"
  by (auto simp: tally_def filter_empty_conv)

lemma count_effect_tally:
  assumes "distinct (map fst cs)" and "\<And>n c. (n, c) \<in> set cs \<Longrightarrow> c = tally n es"
    and "fst ` set cs = te_name ` set es" and "(n, c) \<in> set (count_effect e cs)"
  shows "c = tally n (es @ [e])"
proof -
  have new: "c = (if n = te_name e then add_call e (tally n es) else tally n es)"
    if "(n, c) \<in> set (count_effect e ds)" "distinct (map fst ds)" "\<And>n c. (n, c) \<in> set ds \<Longrightarrow> c = tally n es"
      "te_name e \<notin> fst ` set ds \<Longrightarrow> te_name e \<notin> te_name ` set es" for ds
    using that
  proof (induction e ds rule: count_effect.induct)
    case (1 e)
    then show ?case by (simp add: tally_other)
  next
    case (2 e m d ds)
    have IH: "m \<noteq> te_name e \<Longrightarrow> (n, c) \<in> set (count_effect e ds) \<Longrightarrow>
        c = (if n = te_name e then add_call e (tally n es) else tally n es)"
      using "2.IH" "2.prems"(2-4) by (auto split: if_splits)
    show ?case
    proof (cases "m = te_name e")
      case True
      with "2.prems" show ?thesis by (force simp: image_iff)
    next
      case False
      with "2.prems" IH show ?thesis by auto
    qed
  qed
  show ?thesis unfolding tally_snoc using new [OF assms(4,1,2)] assms(3) by auto
qed

lemma tool_counts_snoc: "tool_counts (es @ [e]) = count_effect e (tool_counts es)"
  by (simp add: tool_counts_def)

lemma tool_counts_facts:
  "distinct (map fst (tool_counts es)) \<and> fst ` set (tool_counts es) = te_name ` set es \<and>
   (\<forall>(n, c) \<in> set (tool_counts es). c = tally n es) \<and> (\<Sum>(n, c)\<leftarrow>tool_counts es. tc_calls c) = length es"
proof (induction es rule: rev_induct)
  case Nil
  then show ?case by (simp add: tool_counts_def)
next
  case (snoc e es)
  then have "\<forall>(n, c) \<in> set (count_effect e (tool_counts es)). c = tally n (es @ [e])"
    by (intro ballI, clarify, intro count_effect_tally) auto
  with snoc show ?case
    by (simp add: tool_counts_snoc distinct_count_effect fst_set_count_effect count_effect_calls)
qed

lemma sum_list_sort_key: "(\<Sum>x\<leftarrow>sort_key f xs. (g x :: nat)) = (\<Sum>x\<leftarrow>xs. g x)"
  by (metis mset_map mset_sort sum_mset_sum_list)

lemma length_tool_counts: "length (tool_counts es) = card (te_name ` set es)"
  using tool_counts_facts [of es] by (metis distinct_card length_map set_map)

lemma ordered_calls: "(\<Sum>(n, c)\<leftarrow>ordered_counts es. tc_calls c) = length es"
  unfolding ordered_counts_def sum_list_sort_key using tool_counts_facts [of es] by simp

lemma length_ordered: "length (ordered_counts es) = card (te_name ` set es)"
  by (simp add: ordered_counts_def length_tool_counts)

lemma list_tools_account:
  "list_tools reserve listed used cs = (shown, tools, calls) \<Longrightarrow>
   (\<Sum>(n, c)\<leftarrow>shown. tc_calls c) + calls = (\<Sum>(n, c)\<leftarrow>cs. tc_calls c) \<and>
   length shown + tools = length cs \<and> set shown \<subseteq> set cs"
  by (induction reserve listed used cs arbitrary: shown tools calls rule: list_tools.induct)
    (auto split: if_splits prod.splits)

text \<open>
  Collapsing the list loses no call: the calls of the listed tools and the calls left to
  the remainder add up to the number of effects, listed and remaining tools to the number of different
  tools, and a listed tool stands with exactly its calls, its failures and its open calls.
\<close>

theorem every_call_is_accounted:
  assumes "tools_listed effects = (shown, tools, calls)"
  shows "(\<Sum>(n, c)\<leftarrow>shown. tc_calls c) + calls = length effects \<and>
    length shown + tools = card (te_name ` set effects) \<and> list_all (\<lambda>(n, c). c = tally n effects) shown"
proof -
  from list_tools_account [OF assms [unfolded tools_listed_def]]
  have "(\<Sum>(n, c)\<leftarrow>shown. tc_calls c) + calls = length effects" "length shown + tools = card (te_name ` set effects)"
    and sub: "set shown \<subseteq> set (ordered_counts effects)" by (simp_all add: ordered_calls length_ordered)
  moreover from sub tool_counts_facts [of effects] have "list_all (\<lambda>(n, c). c = tally n effects) shown"
    unfolding ordered_counts_def list_all_iff by auto
  ultimately show ?thesis by blast
qed

subsection \<open>The note's length\<close>

lemma list_tools_fits:
  "list_tools reserve True used cs = (shown, tools, calls) \<Longrightarrow> used + reserve \<le> RECOVERY_NOTE_BUDGET + 1 \<Longrightarrow>
   used + (\<Sum>(n, c)\<leftarrow>shown. length (count_line n c) + 1) + reserve \<le> RECOVERY_NOTE_BUDGET + 1"
proof (induction cs arbitrary: used shown tools calls)
  case (Cons x cs)
  obtain n c where x: "x = (n, c)" by (cases x)
  show ?case
  proof (cases "RECOVERY_NOTE_BUDGET < used + length (count_line n c) + reserve")
    case True
    with Cons show ?thesis by (auto simp: x split: prod.splits)
  next
    case False
    obtain s t k where rest: "list_tools reserve True (used + length (count_line n c) + 1) cs = (s, t, k)"
      by (metis prod_cases3)
    from Cons.IH [OF this] False have "used + length (count_line n c) + 1 +
        (\<Sum>(n, c)\<leftarrow>s. length (count_line n c) + 1) + reserve \<le> RECOVERY_NOTE_BUDGET + 1" by simp
    with Cons.prems(1) False rest show ?thesis by (auto simp: x)
  qed
qed simp

lemma length_count_line:
  assumes "tc_calls c < 10 ^ 9" "tc_failed c < 10 ^ 9" "tc_unsettled c < 10 ^ 9"
  shows "length (count_line n c) \<le> length n + 80"
proof -
  have digits: "m < 10 ^ 9 \<Longrightarrow> length (decimal m) \<le> 9" for m
    using length_decimal_less [of m 8] by simp
  have "length (decimal (completed_calls c)) \<le> 9"
    using digits assms(1) by (simp add: completed_calls_def)
  with assms digits [of "tc_calls c"] digits [of "tc_failed c"] digits [of "tc_unsettled c"] show ?thesis
    by (simp add: count_line_def length_num16)
qed

lemma tally_less: "tc_calls (tally n es) \<le> length es \<and> tc_failed (tally n es) \<le> length es \<and> tc_unsettled (tally n es) \<le> length es"
  by (simp add: tally_def)

text \<open>
  The recovery note is bounded: with tool names of at most 4900 characters and less than a
  billion effects it has at most one code unit more than its budget, however many tools there are and
  however large their arguments.
\<close>

theorem recovery_note_is_bounded:
  assumes names: "list_all (\<lambda>e. length (te_name e) \<le> 4900) effects" and few: "length effects < 10 ^ 9"
    and built: "buildRecoveryNote effects = Some body"
  shows "length body \<le> RECOVERY_NOTE_BUDGET + 1"
proof (cases "length (itemized_note effects) \<le> RECOVERY_NOTE_BUDGET")
  case True
  with built show ?thesis by (auto simp: buildRecoveryNote_def split: if_splits)
next
  case False
  with built have body: "body = collapsed_note effects" and "effects \<noteq> []"
    by (auto simp: buildRecoveryNote_def split: if_splits)
  let ?lead = "length (collapsedHeader (list_ex te_unsettled effects))"
  let ?reserve = "length (remainder (length (ordered_counts effects)) (length effects))"
  obtain shown tools calls where listed: "tools_listed effects = (shown, tools, calls)" by (metis prod_cases3)
  have "(\<Sum>(n, c)\<leftarrow>ordered_counts effects. tc_calls c) \<noteq> 0" unfolding ordered_calls using \<open>effects \<noteq> []\<close> by simp
  then obtain n c cs where first: "ordered_counts effects = (n, c) # cs" by (cases "ordered_counts effects") auto
  have entry: "(n, c) \<in> set (tool_counts effects)"
    using first by (metis list.set_intros(1) ordered_counts_def set_sort)
  then have c: "c = tally n effects" using tool_counts_facts [of effects] by auto
  from entry have "n \<in> fst ` set (tool_counts effects)" by (rule rev_image_eqI) simp
  then have "n \<in> te_name ` set effects" using tool_counts_facts [of effects] by simp
  then have "length n \<le> 4900" using names by (auto simp: list_all_iff)
  moreover have "length (count_line n c) \<le> length n + 80"
    using length_count_line [of c n] tally_less [of n effects] few by (simp add: c)
  moreover have ordered: "length (ordered_counts effects) \<le> length effects"
    unfolding length_ordered by (metis List.card_set card_image_le le_trans length_remdups_leq list.set_finite)
  then have "?reserve \<le> 70 + 9 + 9"
    unfolding length_remainder using few length_decimal_less [of _ 8] by (intro add_mono) auto
  ultimately have start: "?lead + length (count_line n c) + 1 + ?reserve \<le> RECOVERY_NOTE_BUDGET + 1"
    by (simp add: length_collapsedHeader RECOVERY_NOTE_BUDGET_def)
  from listed obtain s where rest: "list_tools ?reserve True (?lead + length (count_line n c) + 1) cs = (s, tools, calls)"
    and shown: "shown = (n, c) # s"
    by (auto simp: tools_listed_def first split: prod.splits)
  from list_tools_fits [OF rest start] have used:
    "?lead + (\<Sum>(n, c)\<leftarrow>shown. length (count_line n c) + 1) + ?reserve \<le> RECOVERY_NOTE_BUDGET + 1" by (simp add: shown)
  have "tools \<le> length (ordered_counts effects)" "calls \<le> length effects"
    using list_tools_account [OF listed [unfolded tools_listed_def]] by (auto simp: ordered_calls)
  then have "length (remainder tools calls) \<le> ?reserve"
    by (simp add: length_remainder add_mono length_decimal_mono)
  with used show ?thesis
    using length_join_units [of "map (\<lambda>(n, c). count_line n c) shown @ (if 0 < tools then [remainder tools calls] else [])" 10]
    by (simp add: body collapsed_note_def listed shown nl_def comp_def case_prod_unfold split: if_splits)
qed

theorem recovery_note_is_bounded_witness:
  "length (the (buildRecoveryNote [\<lparr>te_id = Some ''c1'', te_name = ''send_mail'', te_input = None, te_failed = True,
     te_unsettled = False\<rparr>])) \<le> RECOVERY_NOTE_BUDGET + 1"
proof (rule recovery_note_is_bounded [of "[\<lparr>te_id = Some ''c1'', te_name = ''send_mail'', te_input = None, te_failed = True,
     te_unsettled = False\<rparr>]"])
  show "list_all (\<lambda>e. length (te_name e) \<le> 4900) [\<lparr>te_id = Some ''c1'', te_name = ''send_mail'', te_input = None,
     te_failed = True, te_unsettled = False\<rparr>]" by simp
  show "length [\<lparr>te_id = Some ''c1'', te_name = ''send_mail'', te_input = None :: js_value option, te_failed = True,
     te_unsettled = False\<rparr>] < 10 ^ 9" by simp
qed (simp add: buildRecoveryNote_def)

subsection \<open>The note can exceed its budget\<close>

text \<open>Calls that completed, of tools with the given names and without arguments.\<close>

definition plain_effect :: "string \<Rightarrow> turn_effect" where
  "plain_effect n = \<lparr>te_id = Some n, te_name = n, te_input = None, te_failed = False, te_unsettled = False\<rparr>"

definition once :: tool_count where "once = \<lparr>tc_calls = 1, tc_failed = 0, tc_unsettled = 0\<rparr>"

lemma length_once: "length (count_line n once) = length n + 5"
  by (simp add: count_line_def once_def length_num16 decimal.simps)

lemma count_plain: "n \<notin> fst ` set cs \<Longrightarrow> count_effect (plain_effect n) cs = cs @ [(n, once)]"
  by (induction cs) (auto simp: plain_effect_def once_def add_call_def Let_def)

lemma ordered_plain:
  assumes "distinct ns"
  shows "ordered_counts (map plain_effect ns) = map (\<lambda>n. (n, once)) ns"
proof -
  have "tool_counts (map plain_effect ns) = map (\<lambda>n. (n, once)) ns"
    using assms
  proof (induction ns rule: rev_induct)
    case Nil
    then show ?case by (simp add: tool_counts_def)
  next
    case (snoc n ns)
    then show ?case by (auto simp: tool_counts_snoc intro!: count_plain)
  qed
  moreover have "sort_key (\<lambda>(n, c). - int (tc_calls c)) (map (\<lambda>n. (n, once)) ns) = map (\<lambda>n. (n, once)) ns" for ns :: "string list"
    by (rule sort_key_id_if_sorted) (induction ns, simp_all)
  ultimately show ?thesis by (simp add: ordered_counts_def)
qed

lemma list_tools_all:
  assumes "\<forall>n \<in> set ns. length n = m" and "used + length ns * (m + 6) + reserve \<le> RECOVERY_NOTE_BUDGET + 1"
    and "list_tools reserve (listed \<or> ns \<noteq> []) (used + length ns * (m + 6)) cs = (s, t, k)"
  shows "list_tools reserve listed used (map (\<lambda>n. (n, once)) ns @ cs) = (map (\<lambda>n. (n, once)) ns @ s, t, k)"
  using assms
proof (induction ns arbitrary: used listed)
  case (Cons n ns)
  have step: "used + length (count_line n once) + 1 = used + (m + 6)" using Cons.prems(1) by (simp add: length_once)
  moreover have "\<not> RECOVERY_NOTE_BUDGET < used + length (count_line n once) + reserve"
    using Cons.prems(1,2) by (simp add: length_once)
  moreover have "list_tools reserve True (used + length (count_line n once) + 1) (map (\<lambda>n. (n, once)) ns @ cs) =
      (map (\<lambda>n. (n, once)) ns @ s, t, k)"
    unfolding step using Cons.prems by (intro Cons.IH) (simp_all add: algebra_simps)
  ultimately show ?case by simp
qed simp

lemma list_tools_none:
  "RECOVERY_NOTE_BUDGET < used + reserve \<Longrightarrow>
   list_tools reserve True used (map (\<lambda>n. (n, once)) ns) = ([], length ns, length ns)"
  by (induction ns) (auto simp: once_def)

lemma squeeze_snoc: "32 \<notin> set s \<Longrightarrow> squeeze (s @ [32]) = s @ [32]"
  by (induction s rule: squeeze.induct) auto

lemma length_effect_line_plain:
  assumes letters: "set n \<subseteq> {CHR ''a'', CHR ''b'', CHR ''c''}" and "n \<noteq> []"
  shows "length (effect_line (plain_effect n)) = length n + 2"
proof -
  have units: "set (js n) \<subseteq> {97, 98, 99}" using letters by (auto simp: js_def)
  then have "\<forall>u \<in> set (js n). \<not> space_unit u" by (auto simp: space_unit_def)
  moreover have "js n \<noteq> []" using assms(2) by (simp add: js_def)
  ultimately have trim: "dropWhile space_unit (rev (js n) @ us) = rev (js n) @ us" for us
    by (cases "js n" rule: rev_cases) auto
  have no_space: "32 \<notin> set (js n)" using units by auto
  have "squeeze (js ''- '' @ js n @ [32]) = js ''- '' @ js n @ [32]"
    using squeeze_snoc [OF no_space] no_space \<open>js n \<noteq> []\<close> by (cases "js n") (auto simp: js_def)
  then show ?thesis using trim [of "[32, 45]"]
    by (simp add: effect_line_def plain_effect_def renderArgs_def trimEnd_def js_def space_unit_def)
qed

text \<open>57 tools with names of 101 letters and one, in the middle, of 119.\<close>

definition long_name :: "nat \<Rightarrow> string" where
  "long_name i = replicate i (CHR ''a'') @ replicate (101 - i) (CHR ''b'')"

definition many_tools :: "string list" where
  "many_tools = map long_name [0..<47] @ [replicate 119 (CHR ''c'')] @ map long_name [47..<57]"
lemma length_long_name: "i < 57 \<Longrightarrow> length (long_name i) = 101"
  by (simp add: long_name_def)

lemma sum_long_name: "j \<le> 57 \<Longrightarrow> (\<Sum>x\<leftarrow>[i..<j]. length (long_name x) + c) = (j - i) * (101 + c)"
proof -
  assume "j \<le> 57"
  then have "map (\<lambda>x. length (long_name x) + c) [i..<j] = map (\<lambda>x. 101 + c) [i..<j]" by (simp add: length_long_name)
  then show ?thesis by (simp only: sum_list_triv length_upt of_nat_id)
qed

lemma inj_long_name: "inj_on long_name {0..<57}"
proof (rule inj_onI)
  fix i j
  assume "i \<in> {0..<57}" "j \<in> {0..<57}" "long_name i = long_name j"
  then have "takeWhile (\<lambda>c. c = CHR ''a'') (long_name i) = takeWhile (\<lambda>c. c = CHR ''a'') (long_name j)" by simp
  then show "i = j" by (simp add: long_name_def takeWhile_append takeWhile_replicate)
qed

lemma distinct_around:
  assumes "k \<le> m" and inj: "inj_on f {0..<m}" and "x \<notin> f ` {0..<m}"
  shows "distinct (map f [0..<k] @ [x] @ map f [k..<m])"
proof -
  have "set [0..<k] \<subseteq> {0..<m}" "set [k..<m] \<subseteq> {0..<m}" using assms(1) by auto
  then have "inj_on f (set [0..<k])" "inj_on f (set [k..<m])" using inj inj_on_subset by blast+
  moreover have "f ` set [0..<k] \<inter> f ` set [k..<m] = {}"
    using assms(1) by (auto dest!: inj_onD [OF inj])
  moreover have "x \<notin> f ` set [0..<k]" "x \<notin> f ` set [k..<m]" using assms(1,3) by auto
  ultimately show ?thesis by (simp only: distinct_append distinct_map set_append set_map distinct_upt) auto
qed

lemma many_tools_facts:
  "distinct many_tools" "length many_tools = 58"
  "\<forall>n \<in> set many_tools. set n \<subseteq> {CHR ''a'', CHR ''b'', CHR ''c''} \<and> n \<noteq> []"
proof -
  have "CHR ''c'' \<notin> set (long_name i)" for i by (simp add: long_name_def)
  moreover have "CHR ''c'' \<in> set (replicate 119 (CHR ''c''))" by simp
  ultimately have "replicate 119 (CHR ''c'') \<noteq> long_name i" for i by metis
  then have "replicate 119 (CHR ''c'') \<notin> long_name ` {0..<57}" by (simp only: image_iff) blast
  then show "distinct many_tools"
    unfolding many_tools_def using inj_long_name by (intro distinct_around) simp_all
  show "length many_tools = 58" by (simp add: many_tools_def)
  have "set (long_name i) \<subseteq> {CHR ''a'', CHR ''b''} \<and> long_name i \<noteq> []" for i
    by (auto simp: long_name_def)
  moreover have "set (replicate 119 (CHR ''c'')) = {CHR ''c''}" by simp
  ultimately show "\<forall>n \<in> set many_tools. set n \<subseteq> {CHR ''a'', CHR ''b'', CHR ''c''} \<and> n \<noteq> []"
    unfolding many_tools_def by (simp only: set_append set_map) fastforce
qed

text \<open>
  The bound is reached: 58 completed calls of 58 tools whose names are within 128 characters
  give a note of 6001 code units, one more than its budget.
\<close>

theorem recovery_note_overshoots_its_budget:
  "map_option length (buildRecoveryNote (map plain_effect many_tools)) = Some (RECOVERY_NOTE_BUDGET + 1) \<and>
   list_all (\<lambda>n. length n \<le> 128) many_tools"
proof -
  let ?es = "map plain_effect many_tools"
  have plain: "\<not> list_ex te_unsettled ?es" by (simp add: list_ex_iff plain_effect_def)
  have "map effect_line ?es \<noteq> []" using many_tools_facts(2) by auto
  moreover have "map (\<lambda>n. length (effect_line (plain_effect n)) + 1) many_tools = map (\<lambda>n. length n + 3) many_tools"
    using many_tools_facts(3) by (simp add: length_effect_line_plain)
  ultimately have "length (itemized_note ?es) + 1 = 591 + (\<Sum>n\<leftarrow>many_tools. length n + 3)"
    using length_join_units [of "map effect_line ?es" 10]
    by (simp only: itemized_note_def plain length_itemizedHeader nl_def length_append length_neutralizeTags if_False
        map_map comp_def add.assoc simp_thms)
  then have long: "\<not> length (itemized_note ?es) \<le> RECOVERY_NOTE_BUDGET"
    by (simp only: many_tools_def map_append sum_list.append map_map comp_def sum_long_name) (simp add: RECOVERY_NOTE_BUDGET_def)
  have "ordered_counts ?es = map (\<lambda>n. (n, once)) many_tools"
    using ordered_plain many_tools_facts(1) by blast
  moreover have "list_tools 74 False 773 (map (\<lambda>n. (n, once)) many_tools) =
      (map (\<lambda>n. (n, once)) (map long_name [0..<47] @ [replicate 119 (CHR ''c'')]), 10, 10)"
    unfolding many_tools_def map_append [of "\<lambda>n. (n, once)"]
    by (rule list_tools_all [where m = 101])
      (auto simp: length_long_name RECOVERY_NOTE_BUDGET_def list_tools_none length_once once_def [THEN arg_cong [where f = tc_calls]])
  ultimately have listed: "tools_listed ?es = (map (\<lambda>n. (n, once)) (map long_name [0..<47] @ [replicate 119 (CHR ''c'')]), 10, 10)"
    by (simp add: tools_listed_def plain length_collapsedHeader length_remainder many_tools_facts decimal.simps)
  have sum47: "(\<Sum>x\<leftarrow>[0..<47]. 6 + length (long_name x)) = 5029"
    unfolding add.commute [of "6 :: nat"] by (subst sum_long_name) simp_all
  have "length (collapsed_note ?es) = RECOVERY_NOTE_BUDGET + 1"
    using length_join_units [of "map (\<lambda>(n, c). count_line n c) (fst (tools_listed ?es)) @ [remainder 10 10]" 10]
      sum47
    by (simp add: collapsed_note_def listed plain length_collapsedHeader nl_def comp_def length_once length_long_name
        sum_list_triv length_remainder decimal.simps RECOVERY_NOTE_BUDGET_def)
  then show ?thesis
    using long by (auto simp: buildRecoveryNote_def many_tools_def length_long_name list_all_iff)
qed

subsection \<open>The table of effects along a turn\<close>

lemma find_upsert:
  "find_row effect_key k (upsert_row r t) =
     (if k = effect_key r
      then Some (case find_row effect_key k t of None \<Rightarrow> r
        | Some x \<Rightarrow> x\<lparr>e_name := e_name r, e_input := e_input r,
            e_failed := e_failed x \<or> e_failed r, e_settled := e_settled x \<or> e_settled r\<rparr>)
      else find_row effect_key k t)"
proof -
  have key: "effect_key (x\<lparr>e_name := n, e_input := i, e_failed := f, e_settled := st\<rparr>) = effect_key x" for x n i f st
    by (simp add: effect_key_def)
  show ?thesis
  proof (cases "effect_key r \<in> effect_key ` set t")
    case True
    then obtain x where hit: "find_row effect_key (effect_key r) t = Some x" by (metis find_row_None_iff option.exhaust)
    have miss: "map_option (\<lambda>x. if effect_key x = effect_key r then f x else x) (find_row effect_key k t) = find_row effect_key k t"
      if "k \<noteq> effect_key r" for f
      using that find_row_SomeD [of effect_key k t] by (cases "find_row effect_key k t") auto
    show ?thesis
      using True hit miss find_row_SomeD [OF hit] by (simp add: upsert_row_def find_row_update_where key)
  next
    case False
    then have "find_row effect_key (effect_key r) t = None" by (simp add: find_row_None_iff)
    then show ?thesis by (auto simp: upsert_row_def False find_row_append split: option.split)
  qed
qed

lemma distinct_upsert: "distinct (map effect_key t) \<Longrightarrow> distinct (map effect_key (upsert_row r t))"
  by (auto simp: upsert_row_def keys_update_where effect_key_def)

lemma upsert_attempts_upserts:
  "upsert_attempts now fate a n r t = (res, t') \<Longrightarrow> \<exists>k. t' = (upsert_row r ^^ k) t \<and> (res = Inr () \<longrightarrow> 0 < k)"
proof (induction n arbitrary: a t)
  case 0
  then show ?case by (auto intro: exI [of _ 0])
next
  case (Suc n)
  show ?case
  proof (cases "has_nul (e_input r)")
    case True
    with Suc.prems Suc.IH show ?thesis by simp
  next
    case False
    show ?thesis
    proof (cases "fate a")
      case Lands
      with False Suc.prems show ?thesis by (auto intro: exI [of _ 1])
    next
      case Refused
      with False Suc.prems Suc.IH show ?thesis by simp
    next
      case Unheard
      with False Suc.prems have "upsert_attempts now fate (Suc a) n r (upsert_row r t) = (res, t')" by simp
      from Suc.IH [OF this] obtain k where "t' = (upsert_row r ^^ k) (upsert_row r t)" by auto
      then have "t' = (upsert_row r ^^ Suc k) t" by (simp add: funpow_swap1)
      then show ?thesis by blast
    qed
  qed
qed

text \<open>
  A turn as the table sees it: the calls that were really entered, the outcomes the worker tried to
  record, and those it was told were recorded.
\<close>

record ledger_state =
  ls_table :: "effect_row list"
  ls_entered :: "ident list"
  ls_reported :: "(ident \<times> bool) list"
  ls_acked :: "(ident \<times> bool) list"

inductive ledger_step :: "ident \<Rightarrow> time \<Rightarrow> ledger_state \<Rightarrow> ledger_state \<Rightarrow> bool" for msg where
  execute: "logged_execute now fate msg task name call input (\<lambda>i w. ((), call # w)) (ls_table s, ls_entered s) = (res, t, w) \<Longrightarrow>
    ledger_step msg now s (s\<lparr>ls_table := t, ls_entered := w\<rparr>)"
| outcome: "ew_message e = msg \<Longrightarrow> recordEffect now fate e (ls_table s) = (res, t) \<Longrightarrow>
    ledger_step msg now s (s\<lparr>ls_table := t, ls_reported := (ew_call e, ew_failed e) # ls_reported s,
      ls_acked := (if res = Inr () then (ew_call e, ew_failed e) # ls_acked s else ls_acked s)\<rparr>)"
| elsewhere: "ew_message e \<noteq> msg \<Longrightarrow> upsertEffect now fate e settled (ls_table s) = (res, t) \<Longrightarrow>
    ledger_step msg now s (s\<lparr>ls_table := t\<rparr>)"

definition told_truly :: "ident \<Rightarrow> ident list \<Rightarrow> (ident \<times> bool) list \<Rightarrow> (ident \<times> bool) list \<Rightarrow> effect_row list \<Rightarrow> bool" where
  "told_truly msg entered reported acked t \<longleftrightarrow>
     distinct (map effect_key t) \<and>
     (\<forall>c \<in> set entered. find_row effect_key (msg, c) t \<noteq> None) \<and>
     (\<forall>c r. find_row effect_key (msg, c) t = Some r \<longrightarrow>
        (e_settled r \<longrightarrow> c \<in> fst ` set reported) \<and> (e_failed r \<longrightarrow> (c, True) \<in> set reported)) \<and>
     (\<forall>(c, f) \<in> set acked. \<exists>r. find_row effect_key (msg, c) t = Some r \<and> e_settled r \<and> (f \<longrightarrow> e_failed r))"

lemma told_trulyD:
  assumes "told_truly msg entered reported acked t"
  shows "distinct (map effect_key t)"
    and "c \<in> set entered \<Longrightarrow> \<exists>r. find_row effect_key (msg, c) t = Some r"
    and "find_row effect_key (msg, c) t = Some r \<Longrightarrow> e_settled r \<Longrightarrow> c \<in> fst ` set reported"
    and "find_row effect_key (msg, c) t = Some r \<Longrightarrow> e_failed r \<Longrightarrow> (c, True) \<in> set reported"
    and "(c, f) \<in> set acked \<Longrightarrow> \<exists>r. find_row effect_key (msg, c) t = Some r \<and> e_settled r \<and> (f \<longrightarrow> e_failed r)"
  using assms by (auto simp: told_truly_def)

lemma told_truly_upsert:
  assumes ok: "told_truly msg entered reported acked t"
    and r: "e_message r = msg \<Longrightarrow> (e_settled r \<longrightarrow> e_call r \<in> fst ` set reported) \<and> (e_failed r \<longrightarrow> (e_call r, True) \<in> set reported)"
  shows "told_truly msg entered reported acked (upsert_row r t)"
  unfolding told_truly_def
proof (intro conjI ballI allI impI)
  note old = told_trulyD [OF ok]
  show "distinct (map effect_key (upsert_row r t))" by (rule distinct_upsert [OF old(1)])
  show "find_row effect_key (msg, c) (upsert_row r t) \<noteq> None" if "c \<in> set entered" for c
    using old(2) [OF that] by (auto simp: find_upsert)
  fix c x
  assume x: "find_row effect_key (msg, c) (upsert_row r t) = Some x"
  show "c \<in> fst ` set reported" if "e_settled x"
    using x that r old(3) [of c] by (force simp: find_upsert effect_key_def split: if_splits option.splits)
  show "(c, True) \<in> set reported" if "e_failed x"
    using x that r old(4) [of c] by (force simp: find_upsert effect_key_def split: if_splits option.splits)
next
  fix cf
  assume "cf \<in> set acked"
  then show "case cf of (c, f) \<Rightarrow> \<exists>x. find_row effect_key (msg, c) (upsert_row r t) = Some x \<and> e_settled x \<and> (f \<longrightarrow> e_failed x)"
    using told_trulyD(5) [OF ok, of "fst cf" "snd cf"] by (auto simp: find_upsert split: prod.split)
qed

lemma told_truly_attempts:
  assumes "upsert_attempts now fate a n r t = (res, t')" and "told_truly msg entered reported acked t"
    and "e_message r = msg \<Longrightarrow> (e_settled r \<longrightarrow> e_call r \<in> fst ` set reported) \<and> (e_failed r \<longrightarrow> (e_call r, True) \<in> set reported)"
  shows "told_truly msg entered reported acked t' \<and>
    (res = Inr () \<longrightarrow> (\<exists>x. find_row effect_key (effect_key r) t' = Some x \<and> (e_settled r \<longrightarrow> e_settled x) \<and> (e_failed r \<longrightarrow> e_failed x)))"
proof -
  obtain k where t': "t' = (upsert_row r ^^ k) t" and k: "res = Inr () \<longrightarrow> 0 < k"
    using upsert_attempts_upserts [OF assms(1)] by auto
  have "told_truly msg entered reported acked ((upsert_row r ^^ k) t)"
    by (induction k) (use assms(2,3) in \<open>auto intro: told_truly_upsert\<close>)
  moreover have "\<exists>x. find_row effect_key (effect_key r) ((upsert_row r ^^ k) t) = Some x \<and>
      (e_settled r \<longrightarrow> e_settled x) \<and> (e_failed r \<longrightarrow> e_failed x)" if "0 < k"
    using that by (cases k) (auto simp: find_upsert split: option.split)
  ultimately show ?thesis using k by (auto simp: t')
qed

lemma told_truly_step:
  assumes "ledger_step msg now s s'"
    and "told_truly msg (ls_entered s) (ls_reported s) (ls_acked s) (ls_table s)"
  shows "told_truly msg (ls_entered s') (ls_reported s') (ls_acked s') (ls_table s')"
  using assms
proof (induction rule: ledger_step.induct)
  case (execute now fate task name call input s res t w)
  let ?e = "\<lparr>ew_message = msg, ew_call = call, ew_task = task, ew_name = name, ew_input = input, ew_failed = False\<rparr>"
  obtain res' where up: "upsertEffect now fate ?e False (ls_table s) = (res', t)"
    and w: "w = (if res' = Inr () then call # ls_entered s else ls_entered s)"
    using execute.hyps by (auto simp: logged_execute_def recordEffectStarted_def split: prod.splits sum.splits)
  have "told_truly msg (ls_entered s) (ls_reported s) (ls_acked s) t \<and> (res' = Inr () \<longrightarrow> find_row effect_key (msg, call) t \<noteq> None)"
    using told_truly_attempts [OF up [unfolded upsertEffect_def] execute.prems]
    by (auto simp: written_row_def effect_key_def)
  then show ?case by (auto simp: w told_truly_def)
next
  case (outcome e now fate s res t)
  let ?rep = "(ew_call e, ew_failed e) # ls_reported s"
  have wider: "told_truly msg (ls_entered s) ?rep (ls_acked s) (ls_table s)"
    using outcome.prems by (fastforce simp: told_truly_def)
  have "told_truly msg (ls_entered s) ?rep (ls_acked s) t \<and> (res = Inr () \<longrightarrow>
      (\<exists>x. find_row effect_key (msg, ew_call e) t = Some x \<and> e_settled x \<and> (ew_failed e \<longrightarrow> e_failed x)))"
    using told_truly_attempts [OF outcome.hyps(2) [unfolded recordEffect_def upsertEffect_def] wider] outcome.hyps(1)
    by (auto simp: written_row_def effect_key_def)
  then show ?case by (auto simp: told_truly_def)
next
  case (elsewhere e now fate settled s res t)
  then show ?case
    using told_truly_attempts [OF elsewhere.hyps(2) [unfolded upsertEffect_def] elsewhere.prems]
    by (auto simp: written_row_def)
qed

lemma loaded_iff:
  "distinct (map effect_key t) \<Longrightarrow>
   e \<in> set (loadEffects t msg) \<longleftrightarrow> (\<exists>c r. find_row effect_key (msg, c) t = Some r \<and> e = loaded r)"
  by (auto simp: loadEffects_def find_row_Some_iff effect_key_def)

definition no_calls :: ledger_state where
  "no_calls = \<lparr>ls_table = [], ls_entered = [], ls_reported = [], ls_acked = []\<rparr>"

text \<open>
  Property C29. What a restart reads never says less than what happened, however the calls interleave and
  whichever writes are refused or unheard: every call that was entered is in the ledger, an entry stands
  as completed only if an outcome was reported for it and as failed only if a failure was, and an outcome
  the database acknowledged is never taken back.
\<close>

theorem restart_is_told_the_truth:
  assumes "timed_run (ledger_step msg) (t0, no_calls) (t1, s)"
  shows "set (ls_entered s) \<subseteq> {c. \<exists>e \<in> set (loadEffects (ls_table s) msg). te_id e = Some c} \<and>
    (\<forall>c e f. e \<in> set (loadEffects (ls_table s) msg) \<longrightarrow> te_id e = Some c \<longrightarrow>
       (te_unsettled e \<or> c \<in> fst ` set (ls_reported s)) \<and>
       (te_failed e \<longrightarrow> (c, True) \<in> set (ls_reported s)) \<and>
       ((c, f) \<in> set (ls_acked s) \<longrightarrow> \<not> te_unsettled e \<and> (f \<longrightarrow> te_failed e)))"
proof -
  have start: "told_truly msg (ls_entered no_calls) (ls_reported no_calls) (ls_acked no_calls) (ls_table no_calls)"
    by (simp add: no_calls_def told_truly_def)
  have ok: "told_truly msg (ls_entered s) (ls_reported s) (ls_acked s) (ls_table s)"
    by (rule timed_run_invariant [OF assms, where I = "\<lambda>s. told_truly msg (ls_entered s) (ls_reported s) (ls_acked s) (ls_table s)"])
      (auto intro: start told_truly_step)
  then have distinct: "distinct (map effect_key (ls_table s))" by (simp add: told_truly_def)
  have call: "e_call r = c" if "find_row effect_key (msg, c) (ls_table s) = Some r" for c r
    using find_row_SomeD [OF that] by (simp add: effect_key_def)
  have "\<exists>e \<in> set (loadEffects (ls_table s) msg). te_id e = Some c" if "c \<in> set (ls_entered s)" for c
  proof -
    from told_trulyD(2) [OF ok that] obtain r where r: "find_row effect_key (msg, c) (ls_table s) = Some r" ..
    then have "loaded r \<in> set (loadEffects (ls_table s) msg)" unfolding loaded_iff [OF distinct] by blast
    then show ?thesis using call [OF r] by (intro bexI [of _ "loaded r"]) (simp_all add: loaded_def)
  qed
  moreover have "(te_unsettled e \<or> c \<in> fst ` set (ls_reported s)) \<and>
       (te_failed e \<longrightarrow> (c, True) \<in> set (ls_reported s)) \<and>
       ((c, f) \<in> set (ls_acked s) \<longrightarrow> \<not> te_unsettled e \<and> (f \<longrightarrow> te_failed e))"
    if "e \<in> set (loadEffects (ls_table s) msg)" "te_id e = Some c" for c e f
  proof -
    from that obtain r where r: "find_row effect_key (msg, c) (ls_table s) = Some r" and e: "e = loaded r"
      unfolding loaded_iff [OF distinct] using call by (auto simp: loaded_def)
    have "te_unsettled e \<or> c \<in> fst ` set (ls_reported s)" "te_failed e \<longrightarrow> (c, True) \<in> set (ls_reported s)"
      using told_trulyD(3,4) [OF ok r] by (auto simp: e loaded_def)
    moreover have "(c, f) \<in> set (ls_acked s) \<longrightarrow> \<not> te_unsettled e \<and> (f \<longrightarrow> te_failed e)"
      using told_trulyD(5) [OF ok, of c f] r by (auto simp: e loaded_def)
    ultimately show ?thesis by blast
  qed
  ultimately show ?thesis by blast
qed

definition demo_execute :: "ident \<Rightarrow> (nat \<Rightarrow> write_fate) \<Rightarrow> effect_row list \<times> ident list \<Rightarrow> (ledger_error + unit) \<times> effect_row list \<times> ident list" where
  "demo_execute call fate = logged_execute 5 fate ''m'' ''t'' ''upload'' call None (\<lambda>i w. ((), call # w))"

theorem restart_is_told_the_truth_witness:
  "\<exists>s :: ledger_state. ls_entered s = [''c''] \<and> set (ls_entered s) \<subseteq> {c. \<exists>e \<in> set (loadEffects (ls_table s) ''m''). te_id e = Some c}"
proof -
  obtain res t w where run: "demo_execute ''c'' (\<lambda>n. if n = 1 then Unheard else Lands) ([], []) = (res, t, w)" by (metis prod_cases3)
  then have w: "w = [''c'']"
    by (simp add: demo_execute_def logged_execute_def recordEffectStarted_def upsertEffect_def LEDGER_WRITE_ATTEMPTS_def
        numeral_3_eq_3 written_row_def)
  have "ledger_step ''m'' 5 no_calls (no_calls\<lparr>ls_table := t, ls_entered := w\<rparr>)"
    using run unfolding demo_execute_def by (intro ledger_step.execute) (simp add: no_calls_def)
  then have "timed_run (ledger_step ''m'') (5, no_calls) (5, no_calls\<lparr>ls_table := t, ls_entered := w\<rparr>)"
    by (rule timed_run_one) simp
  from conjunct1 [OF restart_is_told_the_truth [OF this]] show ?thesis
    by (intro exI [of _ "no_calls\<lparr>ls_table := t, ls_entered := w\<rparr>"]) (simp add: w)
qed

subsection \<open>A NUL in a key\<close>

lemma nul_stays_nul: "has_nul (ew_in) \<Longrightarrow> e_input r = ew_in \<Longrightarrow> upsert_attempts now fate a n r t = (Inl (EffectLedgerError (e_call r)), t)"
  by (induction n arbitrary: a) auto

text \<open>
  A NUL in a key is not sanitised. Shown on arguments of one field with a key of at most a hundred
  characters (larger ones are clamped, which may drop the key): the row is refused on every attempt and the call
  fails without having run.
\<close>

theorem nul_in_a_key_blocks_the_call:
  assumes "0 \<in> set k" and "length k \<le> 100"
  shows "logged_execute now fate msg task name call (Some (VObj [(k, VBool b)])) tool (t, w) =
    (Inl (EffectLedgerError call), t, w)"
proof -
  have quoted: "utf8_bytes s \<le> 3 * length s" for s
    by (induction s rule: utf8_bytes.induct) (auto simp: unit_bytes_def)
  have "length (escape_unit u) \<le> 6" for u by (simp add: escape_unit_def hex_escape_def)
  then have "length (escape_text k) \<le> 6 * length k"
  proof (induction k rule: escape_text.induct)
    case (3 u v s)
    then show ?case using add_mono [of "length (escape_unit u)" 6 "length (escape_text (v # s))" "6 + 6 * length s"] by auto
  qed simp_all
  then have "length (stringify (VObj [(k, VBool b)])) \<le> 10 + 6 * length k"
    by (simp add: quote_text_def)
  then have "outputBytes (VObj [(k, VBool b)]) \<le> EFFECT_INPUT_BYTES"
    using quoted [of "stringify (VObj [(k, VBool b)])"] assms(2)
    by (simp add: outputBytes_def sizeOf_def EFFECT_INPUT_BYTES_def)
  then show ?thesis
    using assms(1)
    by (simp add: logged_execute_def recordEffectStarted_def upsertEffect_def written_row_def clampEffectInput_def
        nul_stays_nul [OF _ refl])
qed

theorem nul_in_a_key_blocks_the_call_witness:
  "logged_execute 5 (\<lambda>n. Lands) ''m'' ''t'' ''save'' ''c'' (Some (VObj [([0, 97], VBool True)])) (\<lambda>i n. ((), n + 1)) ([], 0 :: nat) =
    (Inl (EffectLedgerError ''c''), [], 0)"
  by (rule nul_in_a_key_blocks_the_call) simp_all

subsection \<open>What a continuing turn inherits\<close>

lemma set_merge:
  "set (mergeEffects ledger parts) = {e \<in> set parts. \<forall>i. te_id e = Some i \<longrightarrow> i = [] \<or> Some i \<notin> te_id ` set ledger} \<union> set ledger"
  by (auto simp: mergeEffects_def split: option.split)

lemma merge_ids: "te_id ` set (mergeEffects ledger parts) = te_id ` set ledger \<union> te_id ` set parts" (is "?l = ?r")
proof
  show "?l \<subseteq> ?r" unfolding set_merge by blast
  show "?r \<subseteq> ?l"
  proof
    fix i
    assume "i \<in> ?r"
    then consider "i \<in> te_id ` set ledger" | e where "e \<in> set parts" "i = te_id e" "i \<notin> te_id ` set ledger" by blast
    then show "i \<in> ?l" unfolding set_merge by cases auto
  qed
qed

lemma merge_counts_once:
  assumes "distinct (map te_id ledger)" and "distinct (map te_id parts)"
    and ids: "\<forall>e \<in> set parts. \<exists>i. te_id e = Some i \<and> i \<noteq> []"
  shows "distinct (map te_id (mergeEffects ledger parts))"
proof -
  have "te_id e \<notin> te_id ` set ledger"
    if "e \<in> set parts" "case te_id e of None \<Rightarrow> True | Some i \<Rightarrow> i = [] \<or> Some i \<notin> te_id ` set ledger" for e
  proof -
    from ids that(1) obtain i where "te_id e = Some i" "i \<noteq> []" by blast
    with that(2) show ?thesis by simp
  qed
  then show ?thesis
    using assms(1,2) unfolding mergeEffects_def map_append distinct_append
    by (intro conjI distinct_map_filter) auto
qed

lemma parts_show_only_what_ran:
  assumes "e \<in> set (effectsFromParts num ps)"
  shows "\<exists>i. te_id e = Some i \<and> ((\<exists>n out. ToolResult i n out \<in> set ps) \<or> (\<exists>n msg. ToolError i n msg False \<in> set ps))"
proof -
  from assms obtain p where p: "p \<in> set ps" and e: "(case p of
      ToolResult i name _ \<Rightarrow> Some (part_effect num ps i name False)
    | ToolError i name _ invalid \<Rightarrow> if invalid then None else Some (part_effect num ps i name True)
    | _ \<Rightarrow> None) = Some e" by (auto simp: effectsFromParts_def)
  with p show ?thesis by (cases p rule: stored_part.exhaust) (fastforce simp: part_effect_def split: if_splits)+
qed

text \<open>The branch above a message, and the walk as a reference: of its first twelve rows those before
  the first reply that did not fail part-way, replies only.\<close>

fun branch :: "message_row list \<Rightarrow> nat \<Rightarrow> ident option \<Rightarrow> message_row list" where
  "branch ms 0 cursor = []"
| "branch ms (Suc n) None = []"
| "branch ms (Suc n) (Some c) = (case find_row m_id c ms of None \<Rightarrow> [] | Some row \<Rightarrow> row # branch ms n (m_parent row))"

definition failed_part_way :: "message_row \<Rightarrow> bool" where
  "failed_part_way row \<longleftrightarrow> partial_category (Option.bind (m_meta row) mm_category)"

definition reply_effects :: "(rat \<Rightarrow> string) \<Rightarrow> effect_row list \<Rightarrow> message_row \<Rightarrow> turn_effect list" where
  "reply_effects num t row = mergeEffects (loadEffects t (m_id row))
     (effectsFromParts num (case Option.bind (m_meta row) mm_parts of None \<Rightarrow> [] | Some ps \<Rightarrow> ps))"

text \<open>
  A continuing turn inherits the effects of exactly the replies that failed part-way since
  the last one that did not, among the twelve messages above it, oldest first.
\<close>

theorem inherits_unbroken_failures:
  "loadInheritedEffects num ms t from =
     concat (map (reply_effects num t) (rev (filter (\<lambda>row. m_role row = Assistant)
       (takeWhile (\<lambda>row. m_role row = Assistant \<longrightarrow> failed_part_way row) (branch ms 12 (Some from))))))"
proof -
  have "inherit_walk num ms t n c = map (reply_effects num t) (filter (\<lambda>row. m_role row = Assistant)
      (takeWhile (\<lambda>row. m_role row = Assistant \<longrightarrow> failed_part_way row) (branch ms n c)))" for n c
  proof (induction ms n c rule: branch.induct)
    case (3 ms n c)
    then show ?case
      by (auto simp: failed_part_way_def reply_effects_def dest: find_row_SomeD split: option.split)
  qed simp_all
  then show ?thesis by (simp add: loadInheritedEffects_def INHERIT_MAX_HOPS_def rev_map)
qed

end
