(* ===== verification/Model_Context.thy ===== *)
theory Model_Context
  imports Db_Schema Js_Text
begin

section \<open>What of a conversation the model is sent (src/lib/chat/context, src/lib/tasks/turn-taint.ts)\<close>

text \<open>
  Building one turn's context out of the rows on the active path: how full the window is, the gate that
  decides whether stale tool bodies are cleared, the collapse at the newest compaction checkpoint, the
  clearing itself, and the mark of untrusted content that has to survive all of it.
\<close>

subsection \<open>Rows and their metadata\<close>

record compaction_mark =
  cp_summary :: string
  cp_up_to :: ident

record ctx_usage =
  cu_input :: int
  cu_cached :: int

record ctx_meta =
  cm_parts :: "stored_part list option"
  cm_compaction :: "compaction_mark option"
  cm_usage :: "ctx_usage option"
  cm_window :: "int option" \<comment> \<open>\<open>contextWindow\<close>\<close>
  cm_tokens :: "int option" \<comment> \<open>\<open>contextTokens\<close>\<close>
  cm_deep :: bool \<comment> \<open>\<open>contextDeep\<close>\<close>
  cm_cleared :: bool \<comment> \<open>\<open>toolsCleared\<close>\<close>
  cm_rest :: json \<comment> \<open>the keys the context code does not read\<close>

definition no_meta :: ctx_meta where
  "no_meta = \<lparr>cm_parts = None, cm_compaction = None, cm_usage = None, cm_window = None, cm_tokens = None,
     cm_deep = False, cm_cleared = False, cm_rest = JObj []\<rparr>"

record ContextRow =
  cr_id :: ident
  cr_role :: role
  cr_content :: string
  cr_meta :: "ctx_meta option"
  cr_created :: "time option"
  cr_platform :: "string option"
  cr_untrusted :: "bool option"

subsection \<open>How full the window is (budget.ts, fill.ts)\<close>

definition COMPACT_THRESHOLD :: rat where "COMPACT_THRESHOLD = 3 / 4"
definition DEFAULT_CONTEXT_LENGTH :: int where "DEFAULT_CONTEXT_LENGTH = 128000"

record context_budget =
  cb_limit :: int
  cb_used :: int
  cb_compact :: bool

text \<open>An absent or zero cap is no cap. Over a limit of zero JavaScript's quotient is infinite, or no
  number at all when nothing is used.\<close>

definition effective_limit :: "int option \<Rightarrow> int option \<Rightarrow> int" where
  "effective_limit model_length admin_cap =
     (let window = (case model_length of None \<Rightarrow> DEFAULT_CONTEXT_LENGTH | Some n \<Rightarrow> n) in
      case admin_cap of None \<Rightarrow> window | Some c \<Rightarrow> if c = 0 then window else min window c)"

definition contextBudget :: "int \<Rightarrow> int option \<Rightarrow> int option \<Rightarrow> context_budget" where
  "contextBudget used model_length admin_cap =
     (let limit = effective_limit model_length admin_cap in
      \<lparr>cb_limit = limit, cb_used = used,
       cb_compact = (if limit = 0 then 0 < used else COMPACT_THRESHOLD \<le> of_int used / of_int limit)\<rparr>)"

text \<open>\<open>deriveContextFill\<close>: nothing right after a checkpoint, else the last reply that reported.\<close>

definition deriveContextFill :: "ContextRow list \<Rightarrow> (int \<times> int) option" where
  "deriveContextFill rows =
     (if rows \<noteq> [] \<and> Option.bind (cr_meta (last rows)) cm_compaction \<noteq> None then None
      else case find (\<lambda>r. case cr_meta r of
               None \<Rightarrow> False
             | Some m \<Rightarrow> cm_usage m \<noteq> None \<and> cm_window m \<noteq> None \<and> cm_window m \<noteq> Some 0) (rev rows) of
        None \<Rightarrow> None
      | Some r \<Rightarrow>
          (case cr_meta r of
             None \<Rightarrow> None
           | Some m \<Rightarrow>
               (case (cm_usage m, cm_window m) of
                  (Some u, Some w) \<Rightarrow>
                    Some (case cm_tokens m of Some t \<Rightarrow> t | None \<Rightarrow> cu_input u + cu_cached u, w)
                | _ \<Rightarrow> None)))"

subsection \<open>When tool bodies are cleared (provider-edits.ts)\<close>

definition TOOL_CLEAR_KEEP_LAST :: nat where "TOOL_CLEAR_KEEP_LAST = 3"
definition TOOL_CLEAR_TRIGGER_MAX :: int where "TOOL_CLEAR_TRIGGER_MAX = 120000"

text \<open>\<open>Math.round(n * 0.5)\<close> rounds a half up.\<close>

definition thinkingClearTrigger :: "int \<Rightarrow> int" where
  "thinkingClearTrigger limit = (limit + 1) div 2"

definition toolClearTrigger :: "int \<Rightarrow> int" where
  "toolClearTrigger limit = min (thinkingClearTrigger limit) TOOL_CLEAR_TRIGGER_MAX"

text \<open>The metadata after the last checkpoint.\<close>

definition live_metas :: "ContextRow list \<Rightarrow> ctx_meta option list" where
  "live_metas path = rev (takeWhile (\<lambda>m. Option.bind m cm_compaction = None) (rev (map cr_meta path)))"

definition deepPast :: "ContextRow list \<Rightarrow> int \<Rightarrow> bool \<Rightarrow> bool" where
  "deepPast path trigger acceptToolsCleared =
     (list_ex (\<lambda>m. case m of None \<Rightarrow> False | Some m \<Rightarrow> cm_deep m \<or> acceptToolsCleared \<and> cm_cleared m) (live_metas path) \<or>
      trigger \<le> (case find (\<lambda>t. t \<noteq> None) (rev (map (\<lambda>m. Option.bind m cm_tokens) (live_metas path))) of
                   Some (Some t) \<Rightarrow> t | _ \<Rightarrow> 0))"

definition contextIsDeep :: "ContextRow list \<Rightarrow> int \<Rightarrow> bool" where
  "contextIsDeep path limit = deepPast path (toolClearTrigger limit) True"

definition thinkingIsDeep :: "ContextRow list \<Rightarrow> int \<Rightarrow> bool" where
  "thinkingIsDeep path limit = deepPast path (thinkingClearTrigger limit) False"

definition clearsToolResultsClientSide :: "string \<Rightarrow> bool" where
  "clearsToolResultsClientSide provider \<longleftrightarrow> provider \<noteq> ''anthropic''"

definition shouldClearToolResults :: "string \<Rightarrow> ContextRow list \<Rightarrow> int \<Rightarrow> bool" where
  "shouldClearToolResults provider path limit \<longleftrightarrow>
     clearsToolResultsClientSide provider \<and> contextIsDeep path limit"

subsection \<open>The collapse at a checkpoint (compaction.ts)\<close>

record CtxMessage =
  cx_id :: ident
  cx_role :: role
  cx_parts :: "stored_part list option"
  cx_compaction :: "compaction_mark option"

definition SUMMARY_HEADING :: string where
  "SUMMARY_HEADING = ''[Summary of the earlier conversation]''"

definition summary_message :: "CtxMessage \<Rightarrow> compaction_mark \<Rightarrow> CtxMessage" where
  "summary_message cp mark =
     \<lparr>cx_id = cx_id cp, cx_role = User,
      cx_parts = Some [TextPart (SUMMARY_HEADING @ [CHR 0x0A] @ cp_summary mark)], cx_compaction = None\<rparr>"

definition applyCompaction :: "CtxMessage list \<Rightarrow> CtxMessage list" where
  "applyCompaction ms =
     (let after = rev (takeWhile (\<lambda>m. cx_compaction m = None) (rev ms));
          upto = take (length ms - length after) ms
      in if upto = [] then ms
         else case cx_compaction (last upto) of
           None \<Rightarrow> ms
         | Some mark \<Rightarrow> summary_message (last upto) mark # after)"

subsection \<open>Clearing stale tool traffic (tool-clearing.ts)\<close>

definition CLEARED_TOOL_OUTPUT :: string where "CLEARED_TOOL_OUTPUT = ''[cleared to save context]''"
definition CLEARED_TOOL_INPUT :: string where "CLEARED_TOOL_INPUT = ''[cleared]''"

definition parts_list :: "CtxMessage \<Rightarrow> stored_part list" where
  "parts_list m = (case cx_parts m of None \<Rightarrow> [] | Some ps \<Rightarrow> ps)"

definition is_result :: "stored_part \<Rightarrow> bool" where
  "is_result p \<longleftrightarrow> (case p of ToolResult _ _ _ \<Rightarrow> True | _ \<Rightarrow> False)"

definition result_id :: "stored_part \<Rightarrow> ident option" where
  "result_id p = (case p of ToolResult i _ _ \<Rightarrow> Some i | _ \<Rightarrow> None)"

text \<open>Message and part of every tool result, in conversation order, with the id of its call.\<close>

definition result_positions :: "CtxMessage list \<Rightarrow> ((nat \<times> nat) \<times> ident) list" where
  "result_positions ms = concat (map (\<lambda>(mi, m).
     List.map_filter (\<lambda>(pi, p). map_option (\<lambda>i. ((mi, pi), i)) (result_id p)) (enumerate 0 (parts_list m))) (enumerate 0 ms))"

definition clear_part :: "(nat \<times> nat) list \<Rightarrow> ident list \<Rightarrow> nat \<Rightarrow> nat \<times> stored_part \<Rightarrow> stored_part" where
  "clear_part stale stale_ids mi = (\<lambda>(pi, p). case p of
       ToolResult i n out \<Rightarrow> if (mi, pi) \<in> set stale then ToolResult i n (JStr CLEARED_TOOL_OUTPUT) else p
     | ToolCall i n inp ap an \<Rightarrow>
         if i \<in> set stale_ids then ToolCall i n (JObj [(''note'', JStr CLEARED_TOOL_INPUT)]) ap an else p
     | _ \<Rightarrow> p)"

definition clear_message :: "(nat \<times> nat) list \<Rightarrow> ident list \<Rightarrow> nat \<times> CtxMessage \<Rightarrow> CtxMessage" where
  "clear_message stale stale_ids = (\<lambda>(mi, m). case cx_parts m of
       None \<Rightarrow> m
     | Some ps \<Rightarrow> m\<lparr>cx_parts := Some (map (clear_part stale stale_ids mi) (enumerate 0 ps))\<rparr>)"

definition clearStaleToolResults :: "CtxMessage list \<Rightarrow> nat \<Rightarrow> CtxMessage list" where
  "clearStaleToolResults ms keep_last =
     (let positions = result_positions ms; cut = take (length positions - keep_last) positions in
      if length positions \<le> keep_last then ms
      else map (clear_message (map fst cut) (map snd cut)) (enumerate 0 ms))"

subsection \<open>Putting it together (build.ts)\<close>

text \<open>\<open>trimToRecent\<close>: the emergency trim, down to the last rows and then to a user turn.\<close>

definition trimToRecent :: "('r \<Rightarrow> role) \<Rightarrow> 'r list \<Rightarrow> nat \<Rightarrow> 'r list" where
  "trimToRecent role_of rows keep =
     (if length rows \<le> keep then rows
      else dropWhile (\<lambda>r. role_of r \<noteq> User) (if keep = 0 then rows else drop (length rows - keep) rows))"

definition lift_row :: "ContextRow \<Rightarrow> CtxMessage" where
  "lift_row r = \<lparr>cx_id = cr_id r, cx_role = cr_role r, cx_parts = Option.bind (cr_meta r) cm_parts,
     cx_compaction = Option.bind (cr_meta r) cm_compaction\<rparr>"

definition meta_of :: "ContextRow \<Rightarrow> ctx_meta" where
  "meta_of r = (case cr_meta r of None \<Rightarrow> no_meta | Some m \<Rightarrow> m)"

definition lower_row :: "ContextRow list \<Rightarrow> CtxMessage \<Rightarrow> ContextRow" where
  "lower_row rows m =
     (case find_row cr_id (cx_id m) (rev rows) of
        Some orig \<Rightarrow>
          if cx_role m = cr_role orig then orig\<lparr>cr_meta := Some ((meta_of orig)\<lparr>cm_parts := cx_parts m\<rparr>)\<rparr>
          else \<lparr>cr_id = cx_id m, cr_role = cx_role m, cr_content = [],
                cr_meta = Some (no_meta\<lparr>cm_parts := cx_parts m\<rparr>), cr_created = cr_created orig,
                cr_platform = (case cr_platform orig of None \<Rightarrow> Some ''web'' | p \<Rightarrow> p), cr_untrusted = cr_untrusted orig\<rparr>
      | None \<Rightarrow>
          \<lparr>cr_id = cx_id m, cr_role = cx_role m, cr_content = [], cr_meta = Some (no_meta\<lparr>cm_parts := cx_parts m\<rparr>),
           cr_created = None, cr_platform = Some ''web'', cr_untrusted = None\<rparr>)"

definition buildModelContext :: "ContextRow list \<Rightarrow> nat option \<Rightarrow> ContextRow list" where
  "buildModelContext rows clear_keep =
     (let shaped = applyCompaction (map lift_row rows);
          shaped' = (case clear_keep of None \<Rightarrow> shaped | Some k \<Rightarrow> clearStaleToolResults shaped k)
      in map (lower_row rows) shaped')"

subsection \<open>The mark of untrusted content (turn-taint.ts)\<close>

definition foldAssembledRows :: "ContextRow list \<Rightarrow> bool" where
  "foldAssembledRows rows = list_ex (\<lambda>r. cr_untrusted r = Some True) rows"

text \<open>What the tool set declares for a name: \<open>None\<close> when the tool or its declaration is missing.\<close>

definition untrustedOutputOf :: "(string \<Rightarrow> bool option) \<Rightarrow> string \<Rightarrow> bool" where
  "untrustedOutputOf declared name \<longleftrightarrow> declared name \<noteq> Some False"

text \<open>A turn's mark in memory, the mark on its row, and how often the row was written.\<close>

record turn_taint =
  tt_seen :: bool
  tt_row :: bool
  tt_writes :: nat

datatype mark_error = MarkWriteFailed

definition makeTurnTaint :: "bool \<Rightarrow> bool \<Rightarrow> turn_taint" where
  "makeTurnTaint seeded row = \<lparr>tt_seen = seeded, tt_row = row, tt_writes = 0\<rparr>"

text \<open>\<open>mark\<close>: the flag in memory first, then the one statement. \<open>stored\<close> says whether the statement reached the
  row, \<open>answered\<close> whether the caller heard so; a statement without an answer rejects, and so does \<open>mark\<close>.\<close>

definition mark_taint :: "bool \<Rightarrow> bool \<Rightarrow> turn_taint \<Rightarrow> turn_taint \<times> (mark_error + unit)" where
  "mark_taint stored answered t =
     (if tt_seen t then (t, Inr ())
      else (t\<lparr>tt_seen := True, tt_row := tt_row t \<or> stored, tt_writes := tt_writes t + 1\<rparr>,
            if stored \<and> answered then Inr () else Inl MarkWriteFailed))"

end
