(* ===== verification/Context_Theorems.thy ===== *)
theory Context_Theorems
  imports Model_Context
begin

section \<open>The model's context: what shaping keeps\<close>

text \<open>
  Clearing takes the bodies of all but the newest tool results and nothing else; once it is on it stays
  on until the next checkpoint; no step of the shaping drops the mark of untrusted content, but a write of
  the mark that fails is never made up for.
\<close>

subsection \<open>Clearing\<close>

definition result_outputs :: "CtxMessage list \<Rightarrow> (ident \<times> json) list" where
  "result_outputs ms = concat (map (\<lambda>m. List.map_filter
     (\<lambda>p. case p of ToolResult i n out \<Rightarrow> Some (i, out) | _ \<Rightarrow> None) (parts_list m)) ms)"

definition call_inputs :: "CtxMessage list \<Rightarrow> (ident \<times> json) list" where
  "call_inputs ms = concat (map (\<lambda>m. List.map_filter
     (\<lambda>p. case p of ToolCall i n inp ap an \<Rightarrow> Some (i, inp) | _ \<Rightarrow> None) (parts_list m)) ms)"

text \<open>A part without what clearing may replace.\<close>

definition part_shape :: "stored_part \<Rightarrow> stored_part" where
  "part_shape p = (case p of
       ToolResult i n out \<Rightarrow> ToolResult i n JNull
     | ToolCall i n inp ap an \<Rightarrow> ToolCall i n JNull ap an
     | _ \<Rightarrow> p)"

definition message_shape :: "CtxMessage \<Rightarrow> CtxMessage" where
  "message_shape m = m\<lparr>cx_parts := map_option (map part_shape) (cx_parts m)\<rparr>"

text \<open>All parts with their positions, in conversation order.\<close>

definition flat :: "nat \<Rightarrow> CtxMessage list \<Rightarrow> ((nat \<times> nat) \<times> stored_part) list" where
  "flat n ms = concat (map (\<lambda>(mi, m). map (\<lambda>(pi, p). ((mi, pi), p)) (enumerate 0 (parts_list m))) (enumerate n ms))"

lemma flat_Nil [simp]: "flat n [] = []"
  by (simp add: flat_def)

lemma flat_Cons: "flat n (m # ms) = map (\<lambda>(pi, p). ((n, pi), p)) (enumerate 0 (parts_list m)) @ flat (Suc n) ms"
  by (simp add: flat_def)

lemma flat_keys_ge: "k \<in> fst ` set (flat n ms) \<Longrightarrow> n \<le> fst k"
proof (induction ms arbitrary: n)
  case (Cons m ms)
  from Cons.prems consider "fst k = n" | "k \<in> fst ` set (flat (Suc n) ms)" by (auto simp: flat_Cons)
  then show ?case using Cons.IH [of "Suc n"] by cases auto
qed simp

lemma distinct_flat: "distinct (map fst (flat n ms))"
proof (induction ms arbitrary: n)
  case (Cons m ms)
  have "map fst (map (\<lambda>(pi, p). ((n, pi), p)) (enumerate 0 (parts_list m))) = map (Pair n) (map fst (enumerate 0 (parts_list m)))"
    by (simp only: map_map comp_def case_prod_unfold fst_conv)
  then have "distinct (map fst (map (\<lambda>(pi, p). ((n, pi), p)) (enumerate 0 (parts_list m))))"
    by (simp add: distinct_map inj_on_def del: map_map)
  with Cons.IH [of "Suc n"] flat_keys_ge [of _ "Suc n" ms] show ?case
    by (fastforce simp: flat_Cons)
qed simp

lemma map_filter_map: "List.map_filter f (map g xs) = List.map_filter (f \<circ> g) xs"
  by (simp add: List.map_filter_def comp_def filter_map)

lemma map_filter_enumerate: "List.map_filter (\<lambda>(i, x). f x) (enumerate n xs) = List.map_filter f xs"
  by (induction xs arbitrary: n) (simp_all add: List.map_filter_simps split: option.split)

lemma map_filter_append: "List.map_filter f (xs @ ys) = List.map_filter f xs @ List.map_filter f ys"
  by (simp add: List.map_filter_def)

lemma flat_map_filter:
  "List.map_filter (\<lambda>(k, p). f p) (flat n ms) = concat (map (\<lambda>m. List.map_filter f (parts_list m)) ms)"
  by (induction ms arbitrary: n)
    (simp_all add: List.map_filter_simps flat_Cons map_filter_append map_filter_map map_filter_enumerate comp_def case_prod_unfold
      map_filter_enumerate [unfolded case_prod_unfold])

lemma positions_flat: "result_positions ms = List.map_filter (\<lambda>(k, p). map_option (Pair k) (result_id p)) (flat 0 ms)"
proof -
  have "List.map_filter (\<lambda>(k, p). map_option (Pair k) (result_id p)) (flat n ms) =
    concat (map (\<lambda>(mi, m). List.map_filter (\<lambda>(pi, p). map_option (\<lambda>i. ((mi, pi), i)) (result_id p))
      (enumerate 0 (parts_list m))) (enumerate n ms))" for n
    by (induction ms arbitrary: n)
      (simp_all add: List.map_filter_simps flat_Cons map_filter_append map_filter_map comp_def case_prod_unfold)
  then show ?thesis by (simp add: result_positions_def)
qed

lemma parts_clear_message:
  "parts_list (clear_message stale ids (mi, m)) = map (clear_part stale ids mi) (enumerate 0 (parts_list m))"
  by (simp add: parts_list_def clear_message_def split: option.split)

lemma enumerate_map_enumerate:
  "enumerate n (map g (enumerate n xs)) = map (\<lambda>(i, x). (i, g (i, x))) (enumerate n xs)"
  by (induction xs arbitrary: n) simp_all

lemma flat_clear:
  "flat n (map (clear_message stale ids) (enumerate n ms)) =
     map (\<lambda>((mi, pi), p). ((mi, pi), clear_part stale ids mi (pi, p))) (flat n ms)"
  by (induction ms arbitrary: n)
    (simp_all add: flat_Cons parts_clear_message enumerate_map_enumerate comp_def case_prod_unfold)

text \<open>Marking the first of a list of entries with distinct keys by their keys.\<close>

lemma mark_by_key:
  assumes "distinct (map fst xs)"
  shows "map (\<lambda>(k, v). if k \<in> set (map fst (take c xs)) then f k v else g k v) xs =
    map (\<lambda>(k, v). f k v) (take c xs) @ map (\<lambda>(k, v). g k v) (drop c xs)"
proof -
  have "distinct (map fst (take c xs @ drop c xs))" using assms by simp
  then have "fst x \<notin> set (map fst (take c xs))" if "x \<in> set (drop c xs)" for x
    using that unfolding map_append distinct_append by auto
  then have "map (\<lambda>(k, v). if k \<in> set (map fst (take c xs)) then f k v else g k v) (drop c xs) = map (\<lambda>(k, v). g k v) (drop c xs)"
    by (auto simp: case_prod_unfold)
  moreover have "map (\<lambda>(k, v). if k \<in> set (map fst (take c xs)) then f k v else g k v) (take c xs) = map (\<lambda>(k, v). f k v) (take c xs)"
    by (auto simp: case_prod_unfold)
  ultimately show ?thesis by (metis (no_types, lifting) append_take_drop_id map_append)
qed

lemma distinct_map_filter_keys:
  "distinct (map fst xs) \<Longrightarrow> distinct (map fst (List.map_filter (\<lambda>(k, p). map_option (Pair k) (h p)) xs))"
proof (induction xs)
  case (Cons x xs)
  obtain k p where x: "x = (k, p)" by (cases x)
  have "fst ` set (List.map_filter (\<lambda>(k, p). map_option (Pair k) (h p)) xs) \<subseteq> fst ` set xs"
    by (auto intro: rev_image_eqI)
  with Cons show ?case by (auto simp: x List.map_filter_simps image_iff split: option.split)
qed (simp add: List.map_filter_simps)

lemma distinct_positions: "distinct (map fst (result_positions ms))"
  unfolding positions_flat by (intro distinct_map_filter_keys distinct_flat)

lemma map_filter_map_Some: "List.map_filter f (map g xs) = map h (List.map_filter f' xs)"
  if "\<And>x. x \<in> set xs \<Longrightarrow> f (g x) = map_option h (f' x)"
  using that by (induction xs) (auto simp: List.map_filter_simps split: option.split)

lemma outputs_flat:
  "result_outputs ms = List.map_filter (\<lambda>(k, p). case p of ToolResult i n out \<Rightarrow> Some (i, out) | _ \<Rightarrow> None) (flat 0 ms)"
  by (simp add: result_outputs_def flat_map_filter)

lemma inputs_flat:
  "call_inputs ms = List.map_filter (\<lambda>(k, p). case p of ToolCall i n inp ap an \<Rightarrow> Some (i, inp) | _ \<Rightarrow> None) (flat 0 ms)"
  by (simp add: call_inputs_def flat_map_filter)

text \<open>The results with their positions; both lists above are its projections.\<close>

definition keyed_outputs :: "CtxMessage list \<Rightarrow> ((nat \<times> nat) \<times> ident \<times> json) list" where
  "keyed_outputs ms = List.map_filter (\<lambda>(k, p). case p of ToolResult i n out \<Rightarrow> Some (k, i, out) | _ \<Rightarrow> None) (flat 0 ms)"

lemma positions_keyed: "result_positions ms = map (\<lambda>(k, i, out). (k, i)) (keyed_outputs ms)"
  unfolding positions_flat keyed_outputs_def
  by (rule map_filter_map_Some [where g = "\<lambda>x. x", unfolded list.map_ident]) (auto simp: result_id_def split: stored_part.split)

lemma outputs_keyed: "result_outputs ms = map snd (keyed_outputs ms)"
  unfolding outputs_flat keyed_outputs_def
  by (rule map_filter_map_Some [where g = "\<lambda>x. x", unfolded list.map_ident]) (auto simp: result_id_def split: stored_part.split)

lemma keyed_clear:
  "keyed_outputs (map (clear_message stale ids) (enumerate 0 ms)) =
     map (\<lambda>(k, i, out). (k, i, if k \<in> set stale then JStr CLEARED_TOOL_OUTPUT else out)) (keyed_outputs ms)"
  unfolding keyed_outputs_def flat_clear
  by (rule map_filter_map_Some) (auto simp: clear_part_def split: stored_part.split)

lemma inputs_clear:
  "call_inputs (map (clear_message stale ids) (enumerate 0 ms)) =
     map (\<lambda>(i, inp). (i, if i \<in> set ids then JObj [(''note'', JStr CLEARED_TOOL_INPUT)] else inp)) (call_inputs ms)"
  unfolding inputs_flat flat_clear
  by (rule map_filter_map_Some) (auto simp: clear_part_def split: stored_part.split)

lemma shape_clear: "map message_shape (map (clear_message stale ids) (enumerate n ms)) = map message_shape ms"
proof (induction ms arbitrary: n)
  case (Cons m ms)
  have "part_shape (clear_part stale ids mi (pi, p)) = part_shape p" for mi pi p
    by (simp add: clear_part_def part_shape_def split: stored_part.split)
  then have "map part_shape (map (clear_part stale ids mi) (enumerate k ps)) = map part_shape ps" for mi k ps
    by (induction ps arbitrary: k) simp_all
  with Cons.IH [of "Suc n"] show ?case
    by (simp add: message_shape_def clear_message_def split: option.split)
qed simp

text \<open>
  Property C34. Clearing takes the bodies of exactly the tool results older than the newest few, counted
  over the whole conversation, and the arguments of exactly their calls; every message and part stays in
  its place with its kind, its id and its name.
\<close>

theorem clearing_takes_only_stale_bodies:
  "map message_shape (clearStaleToolResults ms k) = map message_shape ms \<and>
   result_outputs (clearStaleToolResults ms k) =
     map (\<lambda>(i, out). (i, JStr CLEARED_TOOL_OUTPUT)) (take (length (result_outputs ms) - k) (result_outputs ms)) @
     drop (length (result_outputs ms) - k) (result_outputs ms) \<and>
   call_inputs (clearStaleToolResults ms k) =
     map (\<lambda>(i, inp). (i, if i \<in> fst ` set (take (length (result_outputs ms) - k) (result_outputs ms))
                         then JObj [(''note'', JStr CLEARED_TOOL_INPUT)] else inp)) (call_inputs ms)"
proof (cases "length (result_positions ms) \<le> k")
  case True
  then have "length (result_outputs ms) - k = 0" by (simp add: positions_keyed outputs_keyed)
  with True show ?thesis by (simp add: clearStaleToolResults_def Let_def)
next
  case False
  let ?c = "length (keyed_outputs ms) - k"
  let ?stale = "map fst (take ?c (result_positions ms))" and ?ids = "map snd (take ?c (result_positions ms))"
  from False have cleared: "clearStaleToolResults ms k = map (clear_message ?stale ?ids) (enumerate 0 ms)"
    by (simp add: clearStaleToolResults_def Let_def positions_keyed)
  have stale: "?stale = map fst (take ?c (keyed_outputs ms))" and ids: "?ids = map fst (take ?c (result_outputs ms))"
    by (simp_all add: positions_keyed outputs_keyed take_map comp_def case_prod_unfold)
  have distinct: "distinct (map fst (keyed_outputs ms))"
    using distinct_positions [of ms] by (simp add: positions_keyed comp_def case_prod_unfold)
  have "keyed_outputs (map (clear_message ?stale ?ids) (enumerate 0 ms)) =
      map (\<lambda>(k, v). if k \<in> set (map fst (take ?c (keyed_outputs ms))) then (k, fst v, JStr CLEARED_TOOL_OUTPUT) else (k, v)) (keyed_outputs ms)"
    unfolding keyed_clear stale by (auto simp: case_prod_unfold)
  also have "\<dots> = map (\<lambda>(k, v). (k, fst v, JStr CLEARED_TOOL_OUTPUT)) (take ?c (keyed_outputs ms)) @ drop ?c (keyed_outputs ms)"
    using mark_by_key [OF distinct, of ?c "\<lambda>k v. (k, fst v, JStr CLEARED_TOOL_OUTPUT)" Pair] by simp
  finally have outputs: "result_outputs (clearStaleToolResults ms k) =
      map (\<lambda>(i, out). (i, JStr CLEARED_TOOL_OUTPUT)) (take ?c (result_outputs ms)) @ drop ?c (result_outputs ms)"
    by (simp add: cleared outputs_keyed take_map drop_map comp_def case_prod_unfold)
  have inputs: "call_inputs (clearStaleToolResults ms k) =
     map (\<lambda>(i, inp). (i, if i \<in> fst ` set (take ?c (result_outputs ms))
                         then JObj [(''note'', JStr CLEARED_TOOL_INPUT)] else inp)) (call_inputs ms)"
    unfolding cleared inputs_clear ids by simp
  have "?c = length (result_outputs ms) - k" by (simp add: outputs_keyed)
  with outputs inputs show ?thesis using shape_clear [of ?stale ?ids 0 ms] by (simp add: cleared del: map_map)
qed

subsection \<open>Clearing stays on until a checkpoint\<close>

lemma live_metas_append:
  "live_metas (path @ rows) =
     (if \<forall>r \<in> set rows. Option.bind (cr_meta r) cm_compaction = None then live_metas path @ map cr_meta rows else live_metas rows)"
proof (cases "\<forall>r \<in> set rows. Option.bind (cr_meta r) cm_compaction = None")
  case True
  then show ?thesis by (simp add: live_metas_def takeWhile_append)
next
  case False
  then have "\<exists>m \<in> set (rev (map cr_meta rows)). Option.bind m cm_compaction \<noteq> None" by auto
  with False show ?thesis by (auto simp: live_metas_def takeWhile_append)
qed

text \<open>
  The gate is sticky: once a turn was built with cleared tool bodies and its reply says so,
  every later turn of the provider is too, whatever its window and however small the cleared prompts
  measure, as long as no checkpoint follows.
\<close>

theorem clearing_is_sticky:
  assumes "shouldClearToolResults provider path limit"
    and "cr_meta reply = Some m" and "cm_cleared m" and "cm_compaction m = None"
    and "list_all (\<lambda>r. Option.bind (cr_meta r) cm_compaction = None) later"
  shows "shouldClearToolResults provider (path @ reply # later) limit'"
proof -
  have "\<forall>r \<in> set (reply # later). Option.bind (cr_meta r) cm_compaction = None"
    using assms(2,4,5) by (simp add: list_all_iff)
  then have "Some m \<in> set (live_metas (path @ reply # later))"
    using assms(2) by (simp add: live_metas_append)
  then have "list_ex (\<lambda>m. case m of None \<Rightarrow> False | Some m \<Rightarrow> cm_deep m \<or> True \<and> cm_cleared m) (live_metas (path @ reply # later))"
    using assms(3) by (auto simp: list_ex_iff intro: bexI [of _ "Some m"])
  then show ?thesis using assms(1) by (simp add: shouldClearToolResults_def contextIsDeep_def deepPast_def)
qed

definition demo_row :: "ident \<Rightarrow> ctx_meta \<Rightarrow> bool \<Rightarrow> ContextRow" where
  "demo_row i m u = \<lparr>cr_id = i, cr_role = Assistant, cr_content = [], cr_meta = Some m, cr_created = None,
     cr_platform = None, cr_untrusted = Some u\<rparr>"

theorem clearing_is_sticky_witness:
  "shouldClearToolResults ''openai''
     ([demo_row ''a'' (no_meta\<lparr>cm_tokens := Some 70000\<rparr>) False] @
      demo_row ''b'' (no_meta\<lparr>cm_tokens := Some 900, cm_cleared := True\<rparr>) False # [demo_row ''c'' no_meta False]) 1000000"
  by (rule clearing_is_sticky [where limit = 128000 and m = "no_meta\<lparr>cm_tokens := Some 900, cm_cleared := True\<rparr>"])
    (simp_all add: demo_row_def no_meta_def shouldClearToolResults_def clearsToolResultsClientSide_def contextIsDeep_def
      deepPast_def live_metas_def toolClearTrigger_def thinkingClearTrigger_def TOOL_CLEAR_TRIGGER_MAX_def)

subsection \<open>The mark of untrusted content\<close>

text \<open>The newest checkpoint with what follows it, or everything: what of the conversation survives.\<close>

definition surviving_rows :: "ContextRow list \<Rightarrow> ContextRow list" where
  "surviving_rows rows =
     (let after = rev (takeWhile (\<lambda>r. Option.bind (cr_meta r) cm_compaction = None) (rev rows))
      in drop (length rows - length after - 1) rows)"

lemma length_takeWhile_map: "length (takeWhile P (map f xs)) = length (takeWhile (P \<circ> f) xs)"
  by (simp add: takeWhile_map)

lemma ids_compaction: "map cx_id (applyCompaction (map lift_row rows)) = map cr_id (surviving_rows rows)"
proof -
  let ?live = "takeWhile (\<lambda>r. Option.bind (cr_meta r) cm_compaction = None) (rev rows)"
  have lifted: "takeWhile (\<lambda>m. cx_compaction m = None) (map lift_row (rev rows)) = map lift_row ?live"
    by (simp add: takeWhile_map comp_def lift_row_def)
  have split: "rows = take (length rows - length ?live) rows @ rev ?live"
  proof -
    have "rev rows = ?live @ dropWhile (\<lambda>r. Option.bind (cr_meta r) cm_compaction = None) (rev rows)" by simp
    then have "rows = rev (dropWhile (\<lambda>r. Option.bind (cr_meta r) cm_compaction = None) (rev rows)) @ rev ?live"
      by (metis rev_append rev_rev_ident)
    then show ?thesis by (metis append_eq_conv_conj diff_add_inverse2 length_append length_rev)
  qed
  show ?thesis
  proof (cases "take (length rows - length ?live) rows = []")
    case True
    then have "length rows - length ?live = 0" by auto
    with True show ?thesis
      by (simp add: applyCompaction_def Let_def rev_map lifted surviving_rows_def take_map lift_row_def comp_def)
  next
    case False
    let ?cp = "last (take (length rows - length ?live) rows)"
    have more: "dropWhile (\<lambda>r. Option.bind (cr_meta r) cm_compaction = None) (rev rows) = rev (take (length rows - length ?live) rows)"
      by (metis split append_same_eq rev_append rev_rev_ident takeWhile_dropWhile_id same_append_eq)
    then have "Option.bind (cr_meta ?cp) cm_compaction \<noteq> None"
      using False hd_dropWhile [of "\<lambda>r. Option.bind (cr_meta r) cm_compaction = None" "rev rows"]
      by (simp add: hd_rev)
    then obtain mark where mark: "cx_compaction (lift_row ?cp) = Some mark" by (auto simp: lift_row_def)
    have "take (length rows - length ?live) rows = butlast (take (length rows - length ?live) rows) @ [?cp]"
      using False by simp
    then have rows: "rows = butlast (take (length rows - length ?live) rows) @ ?cp # rev ?live"
      using split by (metis append.assoc append_Cons append_Nil)
    have "length rows - length ?live - 1 = length (butlast (take (length rows - length ?live) rows))" by simp
    then have "surviving_rows rows = ?cp # rev ?live"
      unfolding surviving_rows_def Let_def length_rev by (metis append_eq_conv_conj rows)
    then show ?thesis
      using False mark
      by (simp add: applyCompaction_def Let_def lifted take_map last_map summary_message_def rev_map lift_row_def comp_def)
  qed
qed

lemma ids_clear: "map cx_id (clearStaleToolResults ms k) = map cx_id ms"
proof -
  have "map cx_id (map (clear_message stale ids) (enumerate n ms)) = map cx_id ms" for stale ids n
    by (induction ms arbitrary: n) (simp_all add: clear_message_def split: option.split)
  then show ?thesis by (simp add: clearStaleToolResults_def Let_def del: map_map)
qed

lemma lower_row_untrusted:
  assumes "distinct (map cr_id rows)" and "r \<in> set rows"
  shows "cx_id m = cr_id r \<Longrightarrow> cr_untrusted (lower_row rows m) = cr_untrusted r"
  using assms find_row_Some_iff [of cr_id "rev rows" "cr_id r" r]
  by (simp add: lower_row_def rev_map [symmetric])

lemma lower_rows_untrusted:
  assumes "distinct (map cr_id rows)"
  shows "set rs \<subseteq> set rows \<Longrightarrow> map cx_id ms = map cr_id rs \<Longrightarrow>
    map cr_untrusted (map (lower_row rows) ms) = map cr_untrusted rs"
proof (induction rs arbitrary: ms)
  case (Cons r rs)
  then obtain m ms' where ms: "ms = m # ms'" and "cx_id m = cr_id r" "map cx_id ms' = map cr_id rs" by (cases ms) auto
  with Cons lower_row_untrusted [OF assms, of r m] show ?case by simp
qed simp

text \<open>
  Property C30. Shaping launders no taint: the model's context carries the mark exactly when the newest
  checkpoint or a row after it does, with or without clearing.
\<close>

theorem shaping_launders_no_taint:
  assumes "distinct (map cr_id rows)"
  shows "foldAssembledRows (buildModelContext rows clear_keep) = foldAssembledRows (surviving_rows rows)"
proof -
  let ?shaped = "case clear_keep of None \<Rightarrow> applyCompaction (map lift_row rows)
    | Some k \<Rightarrow> clearStaleToolResults (applyCompaction (map lift_row rows)) k"
  have "map cx_id ?shaped = map cr_id (surviving_rows rows)"
    by (simp add: ids_compaction ids_clear split: option.split)
  moreover have "set (surviving_rows rows) \<subseteq> set rows"
    by (auto simp: surviving_rows_def Let_def dest: in_set_dropD)
  ultimately have "map cr_untrusted (buildModelContext rows clear_keep) = map cr_untrusted (surviving_rows rows)"
    unfolding buildModelContext_def Let_def by (intro lower_rows_untrusted assms)
  moreover have "foldAssembledRows rs = (Some True \<in> set (map cr_untrusted rs))" for rs
    by (force simp: foldAssembledRows_def list_ex_iff)
  ultimately show ?thesis by (simp only:)
qed

definition demo_checkpoint :: ctx_meta where
  "demo_checkpoint = no_meta\<lparr>cm_compaction := Some \<lparr>cp_summary = ''recap'', cp_up_to = ''a''\<rparr>\<rparr>"

theorem shaping_launders_no_taint_witness:
  "foldAssembledRows (buildModelContext [demo_row ''a'' no_meta False, demo_row ''b'' demo_checkpoint True, demo_row ''c'' no_meta False] (Some 3))"
  by (subst shaping_launders_no_taint)
    (simp_all add: demo_row_def demo_checkpoint_def no_meta_def surviving_rows_def foldAssembledRows_def)

text \<open>
  A turn that goes on is marked on its row. \<open>mark\<close> writes at most once, and of all its calls only the one
  that writes can fail: as long as every call has returned, what the turn knows is what its row says.
\<close>

fun marks :: "(bool \<times> bool) list \<Rightarrow> turn_taint \<Rightarrow> turn_taint \<times> (mark_error + unit) list" where
  "marks [] t = (t, [])"
| "marks ((stored, answered) # fates) t =
     (case mark_taint stored answered t of (t1, r) \<Rightarrow> case marks fates t1 of (t2, rs) \<Rightarrow> (t2, r # rs))"

lemma marks_seen: "tt_seen t \<Longrightarrow> marks fates t = (t, replicate (length fates) (Inr ()))"
  by (induction fates) (auto simp: mark_taint_def)

theorem marked_turn_is_marked_on_its_row:
  assumes "marks fates (makeTurnTaint seeded row) = (t, rs)" and "seeded \<Longrightarrow> row" and "fates \<noteq> []"
  shows "tt_seen t \<and> tt_writes t \<le> 1 \<and> Inl MarkWriteFailed \<notin> set (tl rs) \<and> (Inl MarkWriteFailed \<notin> set rs \<longrightarrow> tt_row t)"
proof -
  obtain stored answered fates' where f: "fates = (stored, answered) # fates'" using assms(3) by (cases fates) auto
  show ?thesis
  proof (cases seeded)
    case True
    then show ?thesis using assms(1,2) marks_seen [of "makeTurnTaint seeded row" fates] by (auto simp: makeTurnTaint_def)
  next
    case False
    let ?t = "\<lparr>tt_seen = True, tt_row = row \<or> stored, tt_writes = 1\<rparr>"
    have "mark_taint stored answered (makeTurnTaint seeded row) = (?t, if stored \<and> answered then Inr () else Inl MarkWriteFailed)"
      using False by (simp add: mark_taint_def makeTurnTaint_def)
    then have "t = ?t" "rs = (if stored \<and> answered then Inr () else Inl MarkWriteFailed) # replicate (length fates') (Inr ())"
      using assms(1) marks_seen [of ?t fates'] by (simp_all add: f)
    then show ?thesis by auto
  qed
qed

end
