(* ===== verification/Step_Prompt.thy ===== *)
theory Step_Prompt
  imports Effect_Ledger Model_Context
begin

section \<open>The prompt of one step (src/lib/chat/context/step-control.ts, src/lib/tasks/runner.ts)\<close>

text \<open>
  Between the steps of a tool loop the SDK rebuilds its list of messages and \<open>prepareStep\<close> shapes it:
  reasoning folded into text for a backend that rejects its echo, the user's steers put back at the place
  they arrived, the tool traffic before the cut cleared, runs of user messages merged. A part carries the
  flag of the cache marker on it; everything else a provider option may hold is left out.
\<close>

subsection \<open>Model messages\<close>

datatype result_output = OutText string | OutJson json | OutContent json | OutError string

datatype part_body =
    MText string
  | MReasoning string
  | MFile ident
  | MCall ident string json
  | MResult ident string result_output

type_synonym mpart = "part_body \<times> bool" \<comment> \<open>with its cache marker\<close>

datatype mcontent = Str string | Parts "mpart list"

datatype mrole = RSystem | RUser | RAssistant | RTool

record model_message =
  mg_role :: mrole
  mg_content :: mcontent
  mg_marked :: bool

definition user_text :: "string \<Rightarrow> model_message" where
  "user_text s = \<lparr>mg_role = RUser, mg_content = Str s, mg_marked = False\<rparr>"

definition content_parts :: "model_message \<Rightarrow> mpart list" where
  "content_parts m = (case mg_content m of Str s \<Rightarrow> [] | Parts ps \<Rightarrow> ps)"

subsection \<open>Reasoning folded into text\<close>

definition is_reasoning :: "part_body \<Rightarrow> bool" where
  "is_reasoning p \<longleftrightarrow> (case p of MReasoning _ \<Rightarrow> True | _ \<Rightarrow> False)"

definition reasoning_of :: "mpart list \<Rightarrow> string" where
  "reasoning_of ps = concat (List.map_filter (\<lambda>(p, k). case p of MReasoning t \<Rightarrow> Some t | _ \<Rightarrow> None) ps)"

text \<open>The reasoning goes before the first text, or becomes a text of its own in front.\<close>

fun into_first_text :: "string \<Rightarrow> mpart list \<Rightarrow> mpart list option" where
  "into_first_text r [] = None"
| "into_first_text r ((p, k) # ps) = (case p of
       MText t \<Rightarrow> Some ((MText (r @ [CHR 0x0A, CHR 0x0A] @ t), k) # ps)
     | _ \<Rightarrow> map_option (Cons (p, k)) (into_first_text r ps))"

definition fold_message :: "model_message \<Rightarrow> model_message" where
  "fold_message m = (case mg_content m of
       Str s \<Rightarrow> m
     | Parts ps \<Rightarrow>
         if mg_role m \<noteq> RAssistant \<or> reasoning_of ps = [] then m
         else let rest = filter (\<lambda>(p, k). \<not> is_reasoning p) ps in
              m\<lparr>mg_content := Parts (case into_first_text (reasoning_of ps) rest of
                  Some merged \<Rightarrow> merged
                | None \<Rightarrow> (MText (reasoning_of ps), False) # rest)\<rparr>)"

definition foldReasoningIntoText :: "model_message list \<Rightarrow> model_message list" where
  "foldReasoningIntoText ms = map fold_message ms"

subsection \<open>The cut\<close>

definition result_ids :: "model_message list \<Rightarrow> ident list" where
  "result_ids ms = concat (map (\<lambda>m. if mg_role m = RTool
     then List.map_filter (\<lambda>(p, k). case p of MResult i n out \<Rightarrow> Some i | _ \<Rightarrow> None) (content_parts m) else []) ms)"

text \<open>Results that may be cleared: no error among them.\<close>

definition clearable_ids :: "model_message list \<Rightarrow> ident list" where
  "clearable_ids ms = concat (map (\<lambda>m. if mg_role m = RTool
     then List.map_filter (\<lambda>(p, k). case p of
         MResult i n out \<Rightarrow> (case out of OutError _ \<Rightarrow> None | _ \<Rightarrow> Some i) | _ \<Rightarrow> None) (content_parts m) else []) ms)"

definition stale_ids :: "model_message list \<Rightarrow> nat \<Rightarrow> ident list" where
  "stale_ids ms boundary = filter (\<lambda>i. i \<notin> set (result_ids (drop boundary ms))) (clearable_ids (take boundary ms))"

definition prune_part :: "ident list \<Rightarrow> mrole \<Rightarrow> mpart \<Rightarrow> mpart" where
  "prune_part stale r = (\<lambda>(p, k). case p of
       MCall i n inp \<Rightarrow>
         if r = RAssistant \<and> i \<in> set stale then (MCall i n (JObj [(''note'', JStr CLEARED_TOOL_INPUT)]), k) else (p, k)
     | MResult i n out \<Rightarrow>
         if r = RTool \<and> i \<in> set stale then (MResult i n (OutText CLEARED_TOOL_OUTPUT), k) else (p, k)
     | _ \<Rightarrow> (p, k))"

definition prune_message :: "ident list \<Rightarrow> model_message \<Rightarrow> model_message" where
  "prune_message stale m = (case mg_content m of
       Str s \<Rightarrow> m
     | Parts ps \<Rightarrow> m\<lparr>mg_content := Parts (map (prune_part stale (mg_role m)) ps)\<rparr>)"

definition pruneTurnToolTraffic :: "model_message list \<Rightarrow> nat \<Rightarrow> model_message list" where
  "pruneTurnToolTraffic ms boundary =
     (if boundary = 0 \<or> length ms \<le> boundary then ms
      else map (prune_message (stale_ids ms boundary)) (take boundary ms) @ drop boundary ms)"

definition MESSAGES_PER_TOOL_EXCHANGE :: nat where "MESSAGES_PER_TOOL_EXCHANGE = 2"

record arm_input =
  ai_trigger :: int
  ai_boundary :: nat
  ai_last_tokens :: int
  ai_estimated :: int \<comment> \<open>0 when it was not counted\<close>
  ai_count :: nat
  ai_step :: nat
  ai_armed :: bool

definition armPruneBoundary :: "arm_input \<Rightarrow> nat" where
  "armPruneBoundary a =
     (if ai_trigger a \<le> 0 then 0
      else let reported = (if ai_step a = 0 then 0 else ai_last_tokens a);
               size = (if reported \<noteq> 0 then reported else ai_estimated a)
           in if size < ai_trigger a then ai_boundary a
              else if ai_step a = 0 \<and> \<not> ai_armed a then ai_boundary a
              else max (ai_boundary a) (ai_count a - TOOL_CLEAR_KEEP_LAST * MESSAGES_PER_TOOL_EXCHANGE))"

subsection \<open>Steers\<close>

record placed_steer =
  ps_id :: ident
  ps_text :: string
  ps_index :: "nat option"

definition steerFrame :: "string \<Rightarrow> string" where
  "steerFrame t = ''The user added while you were working: '' @ t"

definition steers_at :: "nat \<Rightarrow> placed_steer list \<Rightarrow> model_message list" where
  "steers_at i ss = map (\<lambda>s. user_text (steerFrame (ps_text s))) (filter (\<lambda>s. ps_index s = Some i) ss)"

fun place_from :: "nat \<Rightarrow> placed_steer list \<Rightarrow> model_message list \<Rightarrow> model_message list" where
  "place_from i ss [] = steers_at i ss"
| "place_from i ss (m # ms) = steers_at i ss @ m # place_from (Suc i) ss ms"

definition place_new :: "nat \<Rightarrow> placed_steer \<Rightarrow> placed_steer" where
  "place_new n s = (case ps_index s of None \<Rightarrow> s\<lparr>ps_index := Some n\<rparr> | Some _ \<Rightarrow> s)"

definition injectSteers :: "model_message list \<Rightarrow> placed_steer list \<Rightarrow> model_message list \<times> placed_steer list" where
  "injectSteers ms ss =
     (if ss = [] then (ms, ss)
      else let placed = map (place_new (length ms)) ss in (place_from 0 placed ms, placed))"

subsection \<open>Size\<close>

definition BYTES_PER_TOKEN :: nat where "BYTES_PER_TOKEN = 3"

definition result_json :: "result_output \<Rightarrow> json" where
  "result_json out = (case out of
       OutText s \<Rightarrow> JObj [(''type'', JStr ''text''), (''value'', JStr s)]
     | OutJson v \<Rightarrow> JObj [(''type'', JStr ''json''), (''value'', v)]
     | OutContent v \<Rightarrow> JObj [(''type'', JStr ''content''), (''value'', v)]
     | OutError s \<Rightarrow> JObj [(''type'', JStr ''error-text''), (''value'', JStr s)])"

definition part_bytes :: "(rat \<Rightarrow> string) \<Rightarrow> part_body \<Rightarrow> nat" where
  "part_bytes num p = (case p of
       MText s \<Rightarrow> utf8_bytes (js s)
     | MReasoning s \<Rightarrow> utf8_bytes (js s)
     | MFile _ \<Rightarrow> 0
     | MCall i n inp \<Rightarrow> outputBytes (of_json num inp)
     | MResult i n out \<Rightarrow> outputBytes (of_json num (result_json out)))"

definition message_bytes :: "(rat \<Rightarrow> string) \<Rightarrow> model_message \<Rightarrow> nat" where
  "message_bytes num m = (case mg_content m of
       Str s \<Rightarrow> utf8_bytes (js s)
     | Parts ps \<Rightarrow> (\<Sum>(p, k)\<leftarrow>ps. part_bytes num p))"

definition estimatePromptTokens :: "(rat \<Rightarrow> string) \<Rightarrow> model_message list \<Rightarrow> nat" where
  "estimatePromptTokens num ms = ((\<Sum>m\<leftarrow>ms. message_bytes num m) + (BYTES_PER_TOKEN - 1)) div BYTES_PER_TOKEN"

subsection \<open>Runs of user messages and the marker on the tail (provider-edits.ts)\<close>

definition ownParts :: "model_message \<Rightarrow> mpart list" where
  "ownParts m =
     (let ps = (case mg_content m of Str s \<Rightarrow> [(MText s, False)] | Parts ps \<Rightarrow> ps);
          trailing = takeWhile (\<lambda>(p, k). p = MText []) (rev ps);
          n = length ps - length trailing
      in if \<not> mg_marked m \<or> n = 0 then ps
         else take (n - 1) ps @ map (\<lambda>(p, k). (p, True)) (take 1 (drop (n - 1) ps)) @ drop n ps)"

fun blank_line_first :: "mpart list \<Rightarrow> mpart list" where
  "blank_line_first [] = []"
| "blank_line_first ((p, k) # ps) = (case p of
       MText t \<Rightarrow> if t = [] then (p, k) # blank_line_first ps else (MText ([CHR 0x0A, CHR 0x0A] @ t), k) # ps
     | _ \<Rightarrow> (p, k) # blank_line_first ps)"

definition all_text :: "mpart list \<Rightarrow> string option" where
  "all_text ps = (if list_all (\<lambda>(p, k). case p of MText _ \<Rightarrow> True | _ \<Rightarrow> False) ps
     then Some (concat (List.map_filter (\<lambda>(p, k). case p of MText t \<Rightarrow> Some t | _ \<Rightarrow> None) ps)) else None)"

definition merge_two :: "string \<Rightarrow> model_message \<Rightarrow> model_message \<Rightarrow> model_message" where
  "merge_two provider prev m =
     (let next_parts = (if provider \<noteq> ''anthropic'' then blank_line_first (ownParts m) else ownParts m);
          parts = ownParts prev @ next_parts;
          keep = provider = ''anthropic'' \<or> provider = ''openrouter''
      in \<lparr>mg_role = RUser,
          mg_content = (case all_text parts of Some t \<Rightarrow> if keep then Parts parts else Str t | None \<Rightarrow> Parts parts),
          mg_marked = False\<rparr>)"

text \<open>\<open>out\<close> is held newest first.\<close>

fun merge_runs :: "string \<Rightarrow> model_message list \<Rightarrow> model_message list \<Rightarrow> model_message list" where
  "merge_runs provider out [] = rev out"
| "merge_runs provider out (m # ms) =
     (case out of
        prev # older \<Rightarrow>
          if mg_role m = RUser \<and> mg_role prev = RUser then merge_runs provider (merge_two provider prev m # older) ms
          else merge_runs provider (m # out) ms
      | [] \<Rightarrow> merge_runs provider [m] ms)"

definition mergeUserRuns :: "model_message list \<Rightarrow> string \<Rightarrow> model_message list" where
  "mergeUserRuns ms provider = merge_runs provider [] ms"

definition markStepTail :: "model_message list \<Rightarrow> nat \<Rightarrow> model_message list" where
  "markStepTail ms step = (if step = 0 \<or> ms = [] then ms else butlast ms @ [(last ms)\<lparr>mg_marked := True\<rparr>])"

subsection \<open>prepareStep\<close>

record step_state =
  ss_boundary :: nat
  ss_armed :: bool
  ss_anchors :: "placed_steer list"

record step_input =
  si_provider :: string
  si_trigger :: int
  si_stripped :: bool
  si_last_tokens :: int
  si_bridge :: "model_message option" \<comment> \<open>the pages of a viewed file, for one step\<close>

definition step_base :: "step_input \<Rightarrow> model_message list \<Rightarrow> model_message list" where
  "step_base si ms = (if si_stripped si then foldReasoningIntoText ms else ms)"

definition next_boundary :: "(rat \<Rightarrow> string) \<Rightarrow> step_input \<Rightarrow> nat \<Rightarrow> model_message list \<Rightarrow> step_state \<Rightarrow> nat" where
  "next_boundary num si step base ss =
     armPruneBoundary \<lparr>ai_trigger = si_trigger si, ai_boundary = ss_boundary ss, ai_last_tokens = si_last_tokens si,
       ai_estimated = (if step = 0 \<or> si_last_tokens si = 0 then int (estimatePromptTokens num base) else 0),
       ai_count = length base, ai_step = step, ai_armed = ss_armed ss\<rparr>"

definition steers_before :: "nat \<Rightarrow> placed_steer list \<Rightarrow> nat" where
  "steers_before c anchors = length (filter (\<lambda>a. case ps_index a of None \<Rightarrow> True | Some i \<Rightarrow> i \<le> c) anchors)"

text \<open>The shaped list before the tail marker and the merge, and the state for the next step. The steers
  anchored at or before the cut shift it by as many messages.\<close>

definition shape_step :: "(rat \<Rightarrow> string) \<Rightarrow> step_input \<Rightarrow> nat \<Rightarrow> placed_steer list \<Rightarrow> model_message list \<Rightarrow>
    step_state \<Rightarrow> model_message list \<times> step_state" where
  "shape_step num si step fresh ms ss =
     (let base = step_base si ms;
          steered = injectSteers base (ss_anchors ss @ fresh);
          anchors = snd steered;
          bridged = fst steered @ (case si_bridge si of None \<Rightarrow> [] | Some m \<Rightarrow> [m])
      in if si_trigger si = 0 then (bridged, ss\<lparr>ss_anchors := anchors\<rparr>)
         else let cut = next_boundary num si step base ss
              in (pruneTurnToolTraffic bridged (cut + steers_before cut anchors),
                  \<lparr>ss_boundary = cut, ss_armed = (ss_armed ss \<or> cut \<noteq> ss_boundary ss), ss_anchors = anchors\<rparr>))"

definition prepare_step :: "(rat \<Rightarrow> string) \<Rightarrow> step_input \<Rightarrow> nat \<Rightarrow> placed_steer list \<Rightarrow> model_message list \<Rightarrow>
    step_state \<Rightarrow> model_message list \<times> step_state" where
  "prepare_step num si step fresh ms ss =
     (case shape_step num si step fresh ms ss of
        (shaped, ss') \<Rightarrow> (mergeUserRuns (markStepTail shaped step) (si_provider si), ss'))"

text \<open>\<open>makeStream\<close>: a new stream voids what indexes the old list, not what the turn has earned.\<close>

definition restart_stream :: "step_state \<Rightarrow> step_state" where
  "restart_stream ss = ss\<lparr>ss_boundary := 0, ss_anchors := map (\<lambda>a. a\<lparr>ps_index := None\<rparr>) (ss_anchors ss)\<rparr>"

subsection \<open>Brakes\<close>

text \<open>\<open>stepSettings\<close>: whether the step may still call tools; \<open>force_after\<close> and \<open>wrap_up\<close> come from the
  environment.\<close>

definition stepSettings :: "nat \<Rightarrow> rat \<Rightarrow> nat \<Rightarrow> rat \<Rightarrow> bool" where
  "stepSettings force_after wrap_up step elapsed \<longleftrightarrow> force_after \<le> step \<or> wrap_up \<le> elapsed"

end
