(* ===== verification/Step_Theorems.thy ===== *)
theory Step_Theorems
  imports Step_Prompt
begin

section \<open>The prompt of one step: stable, whole and paired\<close>

text \<open>
  From step to step the shaped prompt only grows at its end while the cut stands still, so the provider's
  prompt cache goes on hitting; the cut never moves back and never reaches the newest exchanges; and
  clearing neither removes a message nor parts a call from its result.
\<close>

subsection \<open>Steers\<close>

lemma steers_at_append: "steers_at i (ss @ ts) = steers_at i ss @ steers_at i ts"
  by (simp add: steers_at_def)

lemma steers_at_None: "\<forall>s \<in> set ss. ps_index s \<noteq> Some i \<Longrightarrow> steers_at i ss = []"
  by (simp add: steers_at_def)

lemma place_from_extends:
  assumes "\<forall>t \<in> set ts. \<exists>j \<ge> i + length ms. ps_index t = Some j"
    and "\<forall>s \<in> set ss. \<exists>j \<le> i + length ms. ps_index s = Some j"
  shows "\<exists>rest. place_from i (ss @ ts) (ms @ new) = place_from i ss ms @ rest"
  using assms
proof (induction ms arbitrary: i)
  case Nil
  show ?case
  proof (cases new)
    case Nil
    then show ?thesis by (simp add: steers_at_append)
  next
    case (Cons m new')
    then show ?thesis by (simp add: steers_at_append)
  qed
next
  case (Cons m ms)
  have "steers_at i (ss @ ts) = steers_at i ss"
    using Cons.prems(1) by (fastforce simp: steers_at_append intro!: steers_at_None)
  moreover have "\<exists>rest. place_from (Suc i) (ss @ ts) (ms @ new) = place_from (Suc i) ss ms @ rest"
    using Cons.prems by (intro Cons.IH) simp_all
  ultimately show ?case by auto
qed

lemma length_place_from:
  "\<forall>s \<in> set ss. \<exists>j. i \<le> j \<and> j \<le> i + length ms \<and> ps_index s = Some j \<Longrightarrow> length (place_from i ss ms) = length ms + length ss"
proof (induction ms arbitrary: i ss)
  case Nil
  then have "filter (\<lambda>s. ps_index s = Some i) ss = ss" by (auto simp: filter_id_conv)
  then show ?case by (simp add: steers_at_def)
next
  case (Cons m ms)
  let ?later = "filter (\<lambda>s. ps_index s \<noteq> Some i) ss"
  have same: "place_from (Suc i) ss ms = place_from (Suc i) ?later ms"
  proof -
    have "steers_at j ss = steers_at j ?later" if "i < j" for j
    proof -
      have "filter (\<lambda>s. ps_index s = Some j) ss = filter (\<lambda>s. ps_index s = Some j) ?later"
        using that by (auto simp: intro!: filter_cong)
      then show ?thesis by (simp add: steers_at_def)
    qed
    then have "place_from k ss xs = place_from k ?later xs" if "i < k" for k xs
      using that by (induction xs arbitrary: k) simp_all
    then show ?thesis by simp
  qed
  have "length (place_from (Suc i) ?later ms) = length ms + length ?later"
  proof (intro Cons.IH ballI)
    fix s
    assume "s \<in> set ?later"
    with Cons.prems obtain j where "i \<le> j" "j \<le> i + length (m # ms)" "ps_index s = Some j" "j \<noteq> i" by fastforce
    then show "\<exists>j \<ge> Suc i. j \<le> Suc i + length ms \<and> ps_index s = Some j" by (intro exI [of _ j]) auto
  qed
  moreover have "length (steers_at i ss) + length ?later = length ss"
    using sum_length_filter_compl [of "\<lambda>s. ps_index s = Some i" ss] by (simp add: steers_at_def)
  ultimately show ?case using same by simp
qed

subsection \<open>The cut\<close>

lemma stale_ids_append:
  assumes "b \<le> length ms" and "set (result_ids rest) \<inter> set (clearable_ids (take b ms)) = {}"
  shows "stale_ids (ms @ rest) b = stale_ids ms b"
proof -
  have "result_ids (drop b ms @ rest) = result_ids (drop b ms) @ result_ids rest" by (simp add: result_ids_def)
  with assms show ?thesis by (auto simp: stale_ids_def intro!: filter_cong)
qed

lemma prune_append:
  assumes "b < length ms" and "set (result_ids rest) \<inter> set (clearable_ids (take b ms)) = {}"
  shows "pruneTurnToolTraffic (ms @ rest) b = pruneTurnToolTraffic ms b @ rest"
  using assms stale_ids_append [of b ms rest] by (simp add: pruneTurnToolTraffic_def)

lemma result_ids_append [simp]: "result_ids (ms @ ns) = result_ids ms @ result_ids ns"
  by (simp add: result_ids_def)

lemma clearable_subset: "set (clearable_ids ms) \<subseteq> set (result_ids ms)"
proof
  fix i
  assume "i \<in> set (clearable_ids ms)"
  then obtain m p k n out where "m \<in> set ms" "mg_role m = RTool" "(p, k) \<in> set (content_parts m)" "p = MResult i n out"
    by (auto simp: clearable_ids_def split: if_splits part_body.splits result_output.splits)
  then have "i \<in> set (List.map_filter (\<lambda>(p, k). case p of MResult i n out \<Rightarrow> Some i | _ \<Rightarrow> None) (content_parts m))"
    by (auto intro!: bexI [of _ "(p, k)"])
  with \<open>m \<in> set ms\<close> \<open>mg_role m = RTool\<close> show "i \<in> set (result_ids ms)"
    unfolding result_ids_def set_concat set_map image_image by (intro UN_I [of m]) simp_all
qed

lemma result_ids_steers [simp]: "result_ids (steers_at i ss) = []"
  by (simp add: result_ids_def steers_at_def user_text_def)

lemma result_ids_Nil [simp]: "result_ids [] = []"
  by (simp add: result_ids_def)

lemma result_ids_Cons: "result_ids (m # ms) = result_ids [m] @ result_ids ms"
  by (simp add: result_ids_def)

lemma result_ids_place [simp]: "result_ids (place_from i ss ms) = result_ids ms"
proof (induction ms arbitrary: i)
  case (Cons m ms)
  show ?case
    using result_ids_Cons [of m ms] result_ids_Cons [of m "place_from (Suc i) ss ms"] Cons.IH by simp
qed simp

lemma result_ids_base [simp]: "result_ids (step_base si ms) = result_ids ms"
proof -
  have role: "mg_role (fold_message m) = mg_role m" for m
    by (simp add: fold_message_def Let_def split: mcontent.split)
  have "content_parts (fold_message m) = content_parts m" if "mg_role m = RTool" for m
    using that by (simp add: fold_message_def content_parts_def split: mcontent.split)
  then have "result_ids (map fold_message ms) = result_ids ms"
    by (induction ms) (simp_all add: result_ids_def role)
  then show ?thesis by (simp add: step_base_def foldReasoningIntoText_def)
qed

lemma step_base_append: "step_base si (ms @ ns) = step_base si ms @ step_base si ns"
  by (simp add: step_base_def foldReasoningIntoText_def)

lemma length_step_base [simp]: "length (step_base si ms) = length ms"
  by (simp add: step_base_def foldReasoningIntoText_def)

subsection \<open>The marker and the merge\<close>

lemma merge_runs_append: "merge_runs provider out (xs @ ys) = merge_runs provider (rev (merge_runs provider out xs)) ys"
  by (induction xs arbitrary: out) (auto split: list.split)

lemma merge_runs_keeps: "\<exists>rest. merge_runs provider out ms = rev (tl out) @ rest"
proof (induction ms arbitrary: out)
  case Nil
  show ?case by (cases out) auto
next
  case (Cons m ms)
  show ?case
  proof (cases out)
    case Nil
    then show ?thesis by simp
  next
    case (Cons prev older)
    then show ?thesis
      using Cons.IH [of "merge_two provider prev m # older"] Cons.IH [of "m # prev # older"]
      by (auto split: if_splits)
  qed
qed

lemma merge_same_role:
  assumes "mg_role l = mg_role l'"
  shows "\<exists>rest. mergeUserRuns (p @ l' # zs) provider = butlast (mergeUserRuns (p @ [l]) provider) @ rest"
proof (cases "rev (merge_runs provider [] p)")
  case Nil
  then show ?thesis by (simp add: mergeUserRuns_def merge_runs_append)
next
  case (Cons prev older)
  then show ?thesis
    using merge_runs_keeps [of provider "merge_two provider prev l' # older" zs] merge_runs_keeps [of provider "l' # prev # older" zs] assms
    by (auto simp: mergeUserRuns_def merge_runs_append butlast_append)
qed

lemma sent_prefix:
  "\<exists>rest. mergeUserRuns (markStepTail (prompt @ later) step') provider =
     butlast (mergeUserRuns (markStepTail prompt step) provider) @ rest"
proof (cases prompt rule: rev_cases)
  case Nil
  then show ?thesis by (simp add: markStepTail_def mergeUserRuns_def)
next
  case (snoc p l)
  have marked: "\<exists>l1. markStepTail (p @ [l]) step = p @ [l1] \<and> mg_role l1 = mg_role l" for step
    by (simp add: markStepTail_def)
  from marked [of step] obtain l1 where l1: "markStepTail prompt step = p @ [l1]" "mg_role l1 = mg_role l"
    unfolding snoc by blast
  have "\<exists>l2 zs. markStepTail (prompt @ later) step' = p @ l2 # zs \<and> mg_role l2 = mg_role l"
    using marked [of step'] by (cases "later = []") (auto simp: markStepTail_def snoc butlast_append)
  then obtain l2 zs where "markStepTail (prompt @ later) step' = p @ l2 # zs" "mg_role l2 = mg_role l" by blast
  with l1 merge_same_role [of l1 l2] show ?thesis by simp
qed

subsection \<open>The prefix stands\<close>

text \<open>Anchors before a step: placed ones point into the list, the others are about to be placed.\<close>

definition anchors_within :: "nat \<Rightarrow> placed_steer list \<Rightarrow> bool" where
  "anchors_within n ss \<longleftrightarrow> list_all (\<lambda>s. case ps_index s of None \<Rightarrow> True | Some i \<Rightarrow> i \<le> n) ss"

lemma injectSteers_place:
  "injectSteers ms ss = (place_from 0 (map (place_new (length ms)) ss) ms, map (place_new (length ms)) ss)"
proof -
  have "place_from i [] ms = ms" for i by (induction ms arbitrary: i) (simp_all add: steers_at_def)
  then show ?thesis by (simp add: injectSteers_def Let_def)
qed

lemma placed_within:
  "anchors_within n ss \<Longrightarrow> s \<in> set (map (place_new n) ss) \<Longrightarrow> \<exists>j \<le> n. ps_index s = Some j"
  by (auto simp: anchors_within_def list_all_iff place_new_def split: option.splits)

lemma place_new_again: "anchors_within n ss \<Longrightarrow> map (place_new k) (map (place_new n) ss) = map (place_new n) ss"
  by (auto simp: place_new_def split: option.split)

lemma shape_step_boundary: "shape_step num si step fresh ms ss = (p, ss') \<Longrightarrow> si_trigger si \<noteq> 0 \<Longrightarrow>
   p = pruneTurnToolTraffic (fst (injectSteers (step_base si ms) (ss_anchors ss @ fresh)) @ (case si_bridge si of None \<Rightarrow> [] | Some m \<Rightarrow> [m]))
     (ss_boundary ss' + steers_before (ss_boundary ss') (ss_anchors ss')) \<and>
   ss_anchors ss' = snd (injectSteers (step_base si ms) (ss_anchors ss @ fresh))"
  by (auto simp: shape_step_def Let_def)

text \<open>
  Property C32. While the cut stands still, the list a step shapes (steers placed, traffic cleared; before the
  tail marker and the merging of user runs) begins with the list the step before shaped, message for message,
  and what the next step sends begins with all but the last message of what this one sent - the last carries
  the moving marker or may be merged with what follows. It is stated for a step without a bridge
  message, for two steps that agree on folding the reasoning, and for new results under new call ids.
\<close>

theorem prompt_prefix_is_stable:
  assumes first: "shape_step num si step fresh ms ss = (prompt, ss')"
    and second: "shape_step num si' step' fresh' (ms @ new) ss' = (prompt', ss'')"
    and same: "si_trigger si' = si_trigger si" "si_stripped si' = si_stripped si" "si_bridge si = None"
    and cut: "ss_boundary ss'' = ss_boundary ss'" "ss_boundary ss' < length ms"
    and anchors: "anchors_within (length ms) (ss_anchors ss @ fresh)" "list_all (\<lambda>s. ps_index s = None) fresh'"
    and provider: "si_provider si' = si_provider si"
    and ids: "set (result_ids new) \<inter> set (result_ids ms) = {}" and bridge_ids: "list_all (\<lambda>m. mg_role m = RUser) (case si_bridge si' of None \<Rightarrow> [] | Some m \<Rightarrow> [m])"
  shows "(\<exists>rest. prompt' = prompt @ rest) \<and>
    (\<exists>rest. fst (prepare_step num si' step' fresh' (ms @ new) ss') = butlast (fst (prepare_step num si step fresh ms ss)) @ rest)"
proof -
  let ?base = "step_base si ms" and ?grown = "step_base si ms @ step_base si new"
  let ?placed = "map (place_new (length ms)) (ss_anchors ss @ fresh)"
  let ?fresh = "map (place_new (length (ms @ new))) fresh'"
  let ?bridge = "case si_bridge si' of None \<Rightarrow> [] | Some m \<Rightarrow> [m]"
  have bridge: "result_ids ?bridge = []" using bridge_ids by (auto simp: result_ids_def split: option.splits)
  have base': "step_base si' (ms @ new) = ?grown" using same(2) by (simp add: step_base_def foldReasoningIntoText_def)
  have placed: "\<forall>s \<in> set ?placed. \<exists>j \<le> length ms. ps_index s = Some j" using placed_within [OF anchors(1)] by blast
  have fresh: "\<forall>s \<in> set ?fresh. ps_index s = Some (length (ms @ new))"
    using anchors(2) by (auto simp: list_all_iff place_new_def)
  have one: "fst (injectSteers ?base (ss_anchors ss @ fresh)) = place_from 0 ?placed ?base"
    "snd (injectSteers ?base (ss_anchors ss @ fresh)) = ?placed" by (simp_all add: injectSteers_place)
  have anchors': "ss_anchors ss' = ?placed"
    using first one by (auto simp: shape_step_def Let_def split: if_splits)
  have two: "fst (injectSteers ?grown (ss_anchors ss' @ fresh')) = place_from 0 (?placed @ ?fresh) ?grown"
    "snd (injectSteers ?grown (ss_anchors ss' @ fresh')) = ?placed @ ?fresh"
    using place_new_again [OF anchors(1), of "length (ms @ new)"]
    unfolding injectSteers_place anchors' map_append [of _ ?placed] fst_conv snd_conv by (simp_all only: length_step_base length_append)
  obtain rest where rest: "place_from 0 (?placed @ ?fresh) ?grown = place_from 0 ?placed ?base @ rest"
    using place_from_extends [of ?fresh 0 ?base ?placed "step_base si new"] placed fresh by auto
  have "\<exists>rest. prompt' = prompt @ rest"
  proof (cases "si_trigger si = 0")
    case True
    then have "prompt = place_from 0 ?placed ?base" "prompt' = place_from 0 (?placed @ ?fresh) ?grown @ ?bridge"
      using first second one two same by (auto simp: shape_step_def Let_def base')
    then show ?thesis using rest by simp
  next
    case False
    let ?b = "ss_boundary ss' + steers_before (ss_boundary ss') ?placed"
    have "steers_before (ss_boundary ss') (?placed @ ?fresh) = steers_before (ss_boundary ss') ?placed"
      using fresh cut(2) by (auto simp: steers_before_def filter_empty_conv)
    then have prompt': "prompt' = pruneTurnToolTraffic (place_from 0 ?placed ?base @ rest @ ?bridge) ?b"
      using shape_step_boundary [OF second] False same(1) two rest cut(1) by (simp add: base')
    have prompt: "prompt = pruneTurnToolTraffic (place_from 0 ?placed ?base) ?b"
      using shape_step_boundary [OF first False] one same(3) by simp
    have "length (place_from 0 ?placed ?base) = length ms + length ?placed"
      using length_place_from [of ?placed 0 ?base] placed by simp
    then have inside: "?b < length (place_from 0 ?placed ?base)"
      using cut(2) length_filter_le [of _ ?placed] by (simp add: steers_before_def add_less_le_mono)
    have "result_ids rest = result_ids new"
      using arg_cong [OF rest, of result_ids] unfolding result_ids_append result_ids_place result_ids_base by simp
    moreover have "set (clearable_ids (take ?b (place_from 0 ?placed ?base))) \<subseteq> set (result_ids ms)"
      using clearable_subset [of "take ?b (place_from 0 ?placed ?base)"]
        result_ids_append [of "take ?b (place_from 0 ?placed ?base)" "drop ?b (place_from 0 ?placed ?base)"] by auto
    ultimately have "set (result_ids (rest @ ?bridge)) \<inter> set (clearable_ids (take ?b (place_from 0 ?placed ?base))) = {}"
      using ids bridge by auto
    from prune_append [OF inside this] show ?thesis using prompt prompt' by simp
  qed
  then obtain rest' where grown: "prompt' = prompt @ rest'" ..
  with sent_prefix [of prompt rest' step' "si_provider si" step] show ?thesis
    by (simp add: prepare_step_def first second provider)
qed

definition demo_call :: "ident \<Rightarrow> model_message list" where
  "demo_call i =
     [\<lparr>mg_role = RAssistant, mg_content = Parts [(MCall i ''save'' (JStr ''row''), False)], mg_marked = False\<rparr>,
      \<lparr>mg_role = RTool, mg_content = Parts [(MResult i ''save'' (OutText ''done''), False)], mg_marked = False\<rparr>]"

definition demo_step :: step_input where
  "demo_step = \<lparr>si_provider = ''openai'', si_trigger = 10, si_stripped = False, si_last_tokens = 50, si_bridge = None\<rparr>"

definition demo_start :: step_state where
  "demo_start = \<lparr>ss_boundary = 2, ss_armed = True, ss_anchors = [\<lparr>ps_id = ''s'', ps_text = ''stop'', ps_index = Some 1\<rparr>]\<rparr>"

definition demo_shaped :: "model_message list \<times> step_state" where
  "demo_shaped = shape_step (\<lambda>q. []) demo_step 1 [] (demo_call ''a'' @ demo_call ''b'' @ demo_call ''c'') demo_start"

definition demo_shaped' :: "model_message list \<times> step_state" where
  "demo_shaped' = shape_step (\<lambda>q. []) demo_step 2 [\<lparr>ps_id = ''t'', ps_text = ''go'', ps_index = None\<rparr>]
     ((demo_call ''a'' @ demo_call ''b'' @ demo_call ''c'') @ demo_call ''d'') (snd demo_shaped)"

lemma demo_step_select:
  "si_trigger demo_step = 10" "si_stripped demo_step = False" "si_last_tokens demo_step = 50" "si_bridge demo_step = None"
  "ss_boundary demo_start = 2" "length (demo_call i) = 2" "result_ids (demo_call i) = [i]"
  by (simp_all add: demo_step_def demo_start_def demo_call_def result_ids_def content_parts_def)

lemma demo_boundaries: "ss_boundary (snd demo_shaped) = 2" "ss_boundary (snd demo_shaped') = 2"
proof -
  have step: "ss_boundary (snd (shape_step num demo_step step fresh ms ss)) = next_boundary num demo_step step (step_base demo_step ms) ss"
    for num step fresh ms ss by (simp add: shape_step_def Let_def demo_step_select)
  show "ss_boundary (snd demo_shaped) = 2"
    by (simp add: demo_shaped_def step next_boundary_def armPruneBoundary_def Let_def demo_step_select
        TOOL_CLEAR_KEEP_LAST_def MESSAGES_PER_TOOL_EXCHANGE_def)
  then show "ss_boundary (snd demo_shaped') = 2"
    by (simp add: demo_shaped'_def step next_boundary_def armPruneBoundary_def Let_def demo_step_select
        TOOL_CLEAR_KEEP_LAST_def MESSAGES_PER_TOOL_EXCHANGE_def)
qed

theorem prompt_prefix_is_stable_witness:
  "(\<exists>rest. fst demo_shaped' = fst demo_shaped @ rest) \<and>
   (\<exists>rest. fst (prepare_step (\<lambda>q. []) demo_step 2 [\<lparr>ps_id = ''t'', ps_text = ''go'', ps_index = None\<rparr>]
        ((demo_call ''a'' @ demo_call ''b'' @ demo_call ''c'') @ demo_call ''d'') (snd demo_shaped)) =
      butlast (fst (prepare_step (\<lambda>q. []) demo_step 1 [] (demo_call ''a'' @ demo_call ''b'' @ demo_call ''c'') demo_start)) @ rest)"
proof (rule prompt_prefix_is_stable [OF _ _ refl refl])
  show "shape_step (\<lambda>q. []) demo_step 1 [] (demo_call ''a'' @ demo_call ''b'' @ demo_call ''c'') demo_start = (fst demo_shaped, snd demo_shaped)"
    by (simp only: demo_shaped_def prod.collapse)
  show "shape_step (\<lambda>q. []) demo_step 2 [\<lparr>ps_id = ''t'', ps_text = ''go'', ps_index = None\<rparr>]
     ((demo_call ''a'' @ demo_call ''b'' @ demo_call ''c'') @ demo_call ''d'') (snd demo_shaped) = (fst demo_shaped', snd demo_shaped')"
    by (simp only: demo_shaped'_def prod.collapse)
qed (simp_all add: demo_boundaries demo_step_select, simp add: demo_start_def anchors_within_def)

subsection \<open>Clearing parts nothing\<close>

text \<open>
  What the cut means, message by message and part by part, without the lists of ids the code builds: an
  exchange is finished when its call has a result other than an error before the cut and none after it.
\<close>

definition has_result :: "model_message list \<Rightarrow> ident \<Rightarrow> (result_output \<Rightarrow> bool) \<Rightarrow> bool" where
  "has_result ms i good \<longleftrightarrow>
     (\<exists>m \<in> set ms. \<exists>ps n out k. mg_role m = RTool \<and> mg_content m = Parts ps \<and> (MResult i n out, k) \<in> set ps \<and> good out)"

definition finished_exchange :: "model_message list \<Rightarrow> nat \<Rightarrow> ident \<Rightarrow> bool" where
  "finished_exchange ms b i \<longleftrightarrow>
     has_result (take b ms) i (\<lambda>out. \<forall>e. out \<noteq> OutError e) \<and> \<not> has_result (drop b ms) i (\<lambda>out. True)"

text \<open>\<open>m'\<close> is \<open>m\<close> with the bodies of the exchanges in \<open>gone\<close> replaced by notes, and nothing else changed.\<close>

definition part_without :: "(ident \<Rightarrow> bool) \<Rightarrow> mrole \<Rightarrow> mpart \<Rightarrow> mpart \<Rightarrow> bool" where
  "part_without gone r p p' \<longleftrightarrow> snd p' = snd p \<and> (case fst p of
       MCall i n inp \<Rightarrow> fst p' = MCall i n (if r = RAssistant \<and> gone i then JObj [(''note'', JStr CLEARED_TOOL_INPUT)] else inp)
     | MResult i n out \<Rightarrow> fst p' = MResult i n (if r = RTool \<and> gone i then OutText CLEARED_TOOL_OUTPUT else out)
     | other \<Rightarrow> fst p' = other)"

definition message_without :: "(ident \<Rightarrow> bool) \<Rightarrow> model_message \<Rightarrow> model_message \<Rightarrow> bool" where
  "message_without gone m m' \<longleftrightarrow> mg_role m' = mg_role m \<and> mg_marked m' = mg_marked m \<and>
     (case mg_content m of
        Str s \<Rightarrow> mg_content m' = Str s
      | Parts ps \<Rightarrow> \<exists>ps'. mg_content m' = Parts ps' \<and> list_all2 (part_without gone (mg_role m)) ps ps')"

lemma in_map_filter: "x \<in> set (List.map_filter f xs) \<longleftrightarrow> (\<exists>y \<in> set xs. f y = Some x)"
  by (force simp: List.map_filter_def)

lemma in_content_parts: "x \<in> set (content_parts m) \<longleftrightarrow> (\<exists>ps. mg_content m = Parts ps \<and> x \<in> set ps)"
  by (cases "mg_content m") (auto simp: content_parts_def)

lemma in_tool_parts:
  "i \<in> set (concat (map (\<lambda>m. if mg_role m = RTool then List.map_filter f (content_parts m) else []) ms)) \<longleftrightarrow>
   (\<exists>m \<in> set ms. \<exists>ps. mg_role m = RTool \<and> mg_content m = Parts ps \<and> (\<exists>x \<in> set ps. f x = Some i))"
  by (force simp: in_map_filter in_content_parts split: if_splits)

lemma clearable_id: "(case x of (p, k) \<Rightarrow> (case p of
    MResult i n out \<Rightarrow> (case out of OutError _ \<Rightarrow> None | _ \<Rightarrow> Some i) | _ \<Rightarrow> None)) = Some j \<longleftrightarrow>
  (\<exists>n out k. x = (MResult j n out, k) \<and> (\<forall>e. out \<noteq> OutError e))"
  by (auto split: prod.split part_body.split result_output.split)

lemma result_id: "(case x of (p, k) \<Rightarrow> (case p of MResult i n out \<Rightarrow> Some i | _ \<Rightarrow> None)) = Some j \<longleftrightarrow>
  (\<exists>n out k. x = (MResult j n out, k))"
  by (auto split: prod.split part_body.split)

lemma clearable_iff: "i \<in> set (clearable_ids ms) \<longleftrightarrow> has_result ms i (\<lambda>out. \<forall>e. out \<noteq> OutError e)"
  unfolding clearable_ids_def in_tool_parts has_result_def clearable_id by blast

lemma result_iff: "i \<in> set (result_ids ms) \<longleftrightarrow> has_result ms i (\<lambda>out. True)"
  unfolding result_ids_def in_tool_parts has_result_def result_id by blast

lemma stale_iff: "i \<in> set (stale_ids ms b) \<longleftrightarrow> finished_exchange ms b i"
  by (simp add: stale_ids_def finished_exchange_def clearable_iff result_iff)

lemma pruned_message: "message_without (\<lambda>i. i \<in> set stale) m (prune_message stale m)"
  by (auto simp: message_without_def prune_message_def part_without_def prune_part_def list_all2_map2 list_all2_same
      split: mcontent.split part_body.split if_splits)

lemma untouched_message: "message_without (\<lambda>i. False) m m"
  by (auto simp: message_without_def part_without_def list_all2_same split: mcontent.split part_body.split)

text \<open>
  Property C33. The mid-turn cut takes the bodies of exactly the finished exchanges before it: every message keeps
  its place, role and kind of parts with their ids and names; a call before the cut loses its arguments and
  a result before the cut its output exactly when that call has a result other than an error before the cut
  and none after it, both halves together; and nothing else changes.
\<close>

theorem pruning_orphans_nothing:
  assumes "0 < b" and "b < length ms"
  shows "length (pruneTurnToolTraffic ms b) = length ms \<and>
    (\<forall>j < length ms. message_without (\<lambda>i. j < b \<and> finished_exchange ms b i) (ms ! j) (pruneTurnToolTraffic ms b ! j))"
proof -
  have pruned: "pruneTurnToolTraffic ms b = map (prune_message (stale_ids ms b)) (take b ms) @ drop b ms"
    using assms by (simp add: pruneTurnToolTraffic_def)
  have "message_without (\<lambda>i. j < b \<and> finished_exchange ms b i) (ms ! j) (pruneTurnToolTraffic ms b ! j)" if "j < length ms" for j
    using that assms pruned_message [of "stale_ids ms b" "ms ! j"] untouched_message [of "ms ! j"]
    by (cases "j < b") (simp_all add: pruned nth_append stale_iff)
  then show ?thesis using assms(2) by (simp add: pruned)
qed

lemma demo_finished: "finished_exchange (demo_call ''a'' @ demo_call ''b'') 2 ''a''"
  by (auto simp: finished_exchange_def has_result_def demo_call_def)

theorem pruning_orphans_nothing_witness:
  "message_without (\<lambda>i. finished_exchange (demo_call ''a'' @ demo_call ''b'') 2 i) (demo_call ''a'' ! 0)
     (pruneTurnToolTraffic (demo_call ''a'' @ demo_call ''b'') 2 ! 0) \<and>
   finished_exchange (demo_call ''a'' @ demo_call ''b'') 2 ''a''"
proof -
  let ?ms = "demo_call ''a'' @ demo_call ''b''"
  have "\<forall>j < length ?ms. message_without (\<lambda>i. j < 2 \<and> finished_exchange ?ms 2 i) (?ms ! j) (pruneTurnToolTraffic ?ms 2 ! j)"
    using pruning_orphans_nothing [of 2 ?ms] by (simp add: demo_step_select)
  from this [rule_format, of 0] show ?thesis using demo_finished by (simp add: demo_step_select nth_append)
qed

text \<open>
  The cut only moves forward, and by itself never into the newest three exchanges: with a
  positive trigger a step's cut is at least the last one and, where it moved, leaves the last six messages
  of the list alone.
\<close>

theorem cut_moves_forward:
  assumes "0 < ai_trigger a"
  shows "ai_boundary a \<le> armPruneBoundary a \<and>
    (armPruneBoundary a = ai_boundary a \<or> armPruneBoundary a + 6 = ai_count a)"
  using assms by (auto simp: armPruneBoundary_def Let_def TOOL_CLEAR_KEEP_LAST_def MESSAGES_PER_TOOL_EXCHANGE_def)

end
