(* ===== verification/Compactor.thy ===== *)
theory Compactor
  imports Step_Theorems
begin

section \<open>Compaction (src/lib/chat/context/compactor.ts)\<close>

text \<open>
  Summarising a conversation that may itself be too long to summarise: one request, one more with the
  reasoning folded when the backend rejects its echo, and past an overflow the shed conversation, split in
  two at a user turn and split again, twice over at most. The provider is an argument: what it answers to
  the \<open>n\<close>-th request. The requests sent are the state, in order.
\<close>

datatype model_reply = Summary string | Overflow | EchoRejected | OtherFailure

datatype model_error = ContextOverflow | ReasoningEchoRejected | ModelError

type_synonym requests = "model_message list list"

definition COMPACTION_INSTRUCTION :: string where
  "COMPACTION_INSTRUCTION = join_with [CHR 0x0A]
    [''Before we continue, compact our conversation so far into a high-fidelity summary'',
     ''that lets you carry on with no loss of important context.'', [],
     ''PRESERVE (never drop): my goals and constraints, decisions we made, unresolved'',
     ''problems and open bugs, key facts, file paths and names, and important results'',
     ''you produced.'', [],
     ''DISCARD: raw tool outputs you already acted on, verbose logs, redundant'',
     ''restatements, pleasantries, and resolved tangents.'', [],
     ''Write concise plain prose organized by topic. Output ONLY the summary.'']"

definition buildCompactionMessages :: "model_message list \<Rightarrow> model_message list \<Rightarrow> model_message list" where
  "buildCompactionMessages sys ms = sys @ ms @ [user_text COMPACTION_INSTRUCTION]"

text \<open>What the request summarises: the history, cut whole when the turn's own prompt was cut, and the reply.\<close>

definition compactionInput :: "model_message list \<Rightarrow> model_message list \<Rightarrow> bool \<Rightarrow> model_message list" where
  "compactionInput history reply prunedMidTurn =
     (if prunedMidTurn then pruneTurnToolTraffic (history @ reply) (length history) else history @ reply)"

definition run_request :: "(nat \<Rightarrow> model_message list \<Rightarrow> model_reply) \<Rightarrow> model_message list \<Rightarrow> requests \<Rightarrow>
    (model_error + string) \<times> requests" where
  "run_request ask ms sent =
     (case ask (length sent) ms of
        Summary text \<Rightarrow> Inr (js_trim text)
      | Overflow \<Rightarrow> Inl ContextOverflow
      | EchoRejected \<Rightarrow> Inl ReasoningEchoRejected
      | OtherFailure \<Rightarrow> Inl ModelError, sent @ [ms])"

text \<open>The cut: the user turn nearest the middle by size, never the first message; \<open>gap\<close> is twice the
  distance, \<open>None\<close> before one was found.\<close>

fun nearest_user :: "(model_message list \<Rightarrow> nat) \<Rightarrow> nat \<Rightarrow> nat \<Rightarrow> nat \<Rightarrow> nat \<times> nat option \<Rightarrow> model_message list \<Rightarrow> nat" where
  "nearest_user tokens whole i before (best, gap) [] = best"
| "nearest_user tokens whole i before (best, gap) (m # ms) =
     nearest_user tokens whole (Suc i) (before + tokens [m])
       (if 0 < i \<and> mg_role m = RUser \<and>
           (case gap of None \<Rightarrow> True | Some g \<Rightarrow> nat \<bar>2 * int before - int whole\<bar> < g)
        then (i, Some (nat \<bar>2 * int before - int whole\<bar>)) else (best, gap)) ms"

definition split_at :: "(model_message list \<Rightarrow> nat) \<Rightarrow> model_message list \<Rightarrow> nat" where
  "split_at tokens conv = nearest_user tokens (tokens conv) 0 0 (0, None) conv"

text \<open>The second half opens with the first half's summary.\<close>

definition with_recap :: "string \<Rightarrow> model_message list \<Rightarrow> model_message list" where
  "with_recap summary ms = (case ms of
       [] \<Rightarrow> []
     | m # rest \<Rightarrow>
         m\<lparr>mg_content := Parts ((MText (SUMMARY_HEADING @ [CHR 0x0A] @ summary), False) #
             (case mg_content m of Str s \<Rightarrow> [(MText s, False)] | Parts ps \<Rightarrow> ps))\<rparr> # rest)"

text \<open>\<open>left\<close> is how often the conversation may still be split (\<open>2 - depth\<close>).\<close>

fun fold_conversation :: "(nat \<Rightarrow> model_message list \<Rightarrow> model_reply) \<Rightarrow> (model_message list \<Rightarrow> nat) \<Rightarrow> model_message list \<Rightarrow>
    nat \<Rightarrow> model_message list \<Rightarrow> requests \<Rightarrow> (model_error + string) \<times> requests" where
  "fold_conversation ask tokens sys 0 conv sent = run_request ask (buildCompactionMessages sys conv) sent"
| "fold_conversation ask tokens sys (Suc left) conv sent =
     (case run_request ask (buildCompactionMessages sys conv) sent of
        (Inr summary, sent') \<Rightarrow> (Inr summary, sent')
      | (Inl e, sent') \<Rightarrow>
          if e \<noteq> ContextOverflow \<or> split_at tokens conv = 0 then (Inl e, sent')
          else case fold_conversation ask tokens sys left (take (split_at tokens conv) conv) sent' of
              (Inl e', sent'') \<Rightarrow> (Inl e', sent'')
            | (Inr head, sent'') \<Rightarrow>
                if head = [] then (Inl e, sent'')
                else fold_conversation ask tokens sys left (with_recap head (drop (split_at tokens conv) conv)) sent'')"

text \<open>All reasoning dropped, an assistant message left empty dropped with it.\<close>

definition drop_reasoning :: "model_message list \<Rightarrow> model_message list" where
  "drop_reasoning ms = List.map_filter (\<lambda>m. case mg_content m of
       Str s \<Rightarrow> Some m
     | Parts ps \<Rightarrow>
         if mg_role m \<noteq> RAssistant then Some m
         else let content = filter (\<lambda>(p, k). \<not> is_reasoning p) ps in
              if content = [] then None else Some (m\<lparr>mg_content := Parts content\<rparr>)) ms"

definition shed_conversation :: "model_message list \<Rightarrow> model_message list" where
  "shed_conversation ms =
     (let bare = drop_reasoning (buildCompactionMessages [] ms)
      in butlast (pruneTurnToolTraffic bare (length bare - 1)))"

definition shed_and_fold :: "(nat \<Rightarrow> model_message list \<Rightarrow> model_reply) \<Rightarrow> (model_message list \<Rightarrow> nat) \<Rightarrow> model_message list \<Rightarrow>
    model_message list \<Rightarrow> model_error \<Rightarrow> requests \<Rightarrow> (model_error + string) \<times> requests" where
  "shed_and_fold ask tokens sys ms e sent =
     (if e \<noteq> ContextOverflow then (Inl e, sent)
      else fold_conversation ask tokens sys 2 (shed_conversation ms) sent)"

text \<open>\<open>compactConversation\<close>: the summary with the mark of what it summarised, or nothing.\<close>

definition compactConversation :: "(nat \<Rightarrow> model_message list \<Rightarrow> model_reply) \<Rightarrow> (model_message list \<Rightarrow> nat) \<Rightarrow> model_message list \<Rightarrow>
    model_message list \<Rightarrow> bool \<Rightarrow> (string \<times> bool) option \<times> requests" where
  "compactConversation ask tokens sys ms trust =
     (let messages = buildCompactionMessages sys ms;
          outcome =
            (case run_request ask messages [] of
               (Inr s, sent) \<Rightarrow> (Inr s, sent)
             | (Inl e, sent) \<Rightarrow>
                 if e = ReasoningEchoRejected
                 then case run_request ask (foldReasoningIntoText messages) sent of
                     (Inr s, sent') \<Rightarrow> (Inr s, sent')
                   | (Inl e', sent') \<Rightarrow> shed_and_fold ask tokens sys ms e' sent'
                 else shed_and_fold ask tokens sys ms e sent)
      in (case fst outcome of
            Inr s \<Rightarrow> if s = [] then None else Some (s, trust)
          | Inl e \<Rightarrow> None, snd outcome))"

subsection \<open>How many requests\<close>

text \<open>One request, and two halves for every split that is left.\<close>

fun max_requests :: "nat \<Rightarrow> nat" where
  "max_requests 0 = 1"
| "max_requests (Suc left) = 1 + 2 * max_requests left"

lemma run_request_sent: "run_request ask ms sent = (r, sent') \<Longrightarrow> sent' = sent @ [ms]"
  by (simp add: run_request_def)

text \<open>What happens past the first request, case by case.\<close>

lemma fold_cases:
  assumes "fold_conversation ask tokens sys (Suc left) conv sent = (r, sent')"
  obtains (answered) s where "run_request ask (buildCompactionMessages sys conv) sent = (Inr s, sent')" "r = Inr s"
  | (stopped) e where "run_request ask (buildCompactionMessages sys conv) sent = (Inl e, sent')" "r = Inl e"
  | (head_failed) sent1 r1 e where "run_request ask (buildCompactionMessages sys conv) sent = (Inl ContextOverflow, sent1)"
      "fold_conversation ask tokens sys left (take (split_at tokens conv) conv) sent1 = (r1, sent')" "r = Inl e"
  | (both) sent1 head sent2 where "run_request ask (buildCompactionMessages sys conv) sent = (Inl ContextOverflow, sent1)"
      "split_at tokens conv \<noteq> 0"
      "fold_conversation ask tokens sys left (take (split_at tokens conv) conv) sent1 = (Inr head, sent2)" "head \<noteq> []"
      "fold_conversation ask tokens sys left (with_recap head (drop (split_at tokens conv) conv)) sent2 = (r, sent')"
proof -
  obtain r0 sent1 where run: "run_request ask (buildCompactionMessages sys conv) sent = (r0, sent1)" by (rule prod.exhaust)
  obtain r1 sent2 where head: "fold_conversation ask tokens sys left (take (split_at tokens conv) conv) sent1 = (r1, sent2)"
    by (rule prod.exhaust)
  show thesis
    using assms run head that by (cases r0; cases r1) (auto split: if_splits)
qed

lemma fold_requests:
  "fold_conversation ask tokens sys left conv sent = (r, sent') \<Longrightarrow>
   \<exists>new. sent' = sent @ new \<and> length new \<le> max_requests left"
proof (induction left arbitrary: conv sent r sent')
  case 0
  then show ?case by (auto dest!: run_request_sent)
next
  case (Suc left)
  from Suc.prems show ?case
  proof (cases rule: fold_cases)
    case (head_failed sent1 r1 e)
    from Suc.IH [OF head_failed(2)] run_request_sent [OF head_failed(1)] show ?thesis by auto
  next
    case (both sent1 head sent2)
    from Suc.IH [OF both(3)] Suc.IH [OF both(5)] run_request_sent [OF both(1)] show ?thesis by auto
  qed (auto dest: run_request_sent)
qed

lemma compact_outcome:
  assumes "compactConversation ask tokens sys ms trust = (res, sent)"
  obtains (whole) s msgs where "msgs \<in> {buildCompactionMessages sys ms, foldReasoningIntoText (buildCompactionMessages sys ms)}"
      "run_request ask msgs (butlast sent) = (Inr s, sent)" "length sent \<le> 2" "res = (if s = [] then None else Some (s, trust))"
  | (shed) before r where "length before \<le> 2" "fold_conversation ask tokens sys 2 (shed_conversation ms) before = (r, sent)"
      "res = (case r of Inr s \<Rightarrow> if s = [] then None else Some (s, trust) | Inl e \<Rightarrow> None)"
  | (failed) "res = None" "length sent \<le> 2"
proof -
  let ?m = "buildCompactionMessages sys ms"
  obtain r0 sent1 where run: "run_request ask ?m [] = (r0, sent1)" by (rule prod.exhaust)
  obtain r1 sent2 where again: "run_request ask (foldReasoningIntoText ?m) sent1 = (r1, sent2)" by (rule prod.exhaust)
  from run_request_sent [OF run] run_request_sent [OF again]
  have sent: "sent1 = [?m]" "sent2 = [?m, foldReasoningIntoText ?m]" by simp_all
  show thesis
  proof (cases r0)
    case (Inr s)
    with assms run have "res = (if s = [] then None else Some (s, trust))" "sent = sent1"
      by (auto simp: compactConversation_def Let_def split: if_splits)
    with run sent Inr show thesis by (intro whole [of ?m s]) simp_all
  next
    case (Inl e)
    show thesis
    proof (cases "e = ReasoningEchoRejected")
      case False
      obtain r s' where rest: "shed_and_fold ask tokens sys ms e sent1 = (r, s')" by (rule prod.exhaust)
      from rest False Inl assms run
      have "res = (case r of Inr s \<Rightarrow> if s = [] then None else Some (s, trust) | Inl e \<Rightarrow> None)" "sent = s'"
        by (auto simp: compactConversation_def Let_def)
      then show thesis
        using rest shed [of sent1 r] failed sent by (auto simp: shed_and_fold_def split: if_splits)
    next
      case True
      show thesis
      proof (cases r1)
        case (Inr s)
        with True Inl assms run again have "res = (if s = [] then None else Some (s, trust))" "sent = sent2"
          by (auto simp: compactConversation_def Let_def split: if_splits)
        with again sent Inr show thesis by (intro whole [of "foldReasoningIntoText ?m" s]) simp_all
      next
        case (Inl e')
        obtain r s' where rest: "shed_and_fold ask tokens sys ms e' sent2 = (r, s')" by (rule prod.exhaust)
        from rest True \<open>r0 = Inl e\<close> Inl assms run again
        have "res = (case r of Inr s \<Rightarrow> if s = [] then None else Some (s, trust) | Inl e \<Rightarrow> None)" "sent = s'"
          by (auto simp: compactConversation_def Let_def)
        then show thesis
          using rest shed [of sent2 r] failed sent by (auto simp: shed_and_fold_def split: if_splits)
      qed
    qed
  qed
qed

text \<open>
  Property C35. Compaction ends: whatever the provider answers, after at most nine requests - the first, one
  for a rejected echo, and seven from the shed conversation on.
\<close>

theorem compaction_ends:
  "length (snd (compactConversation ask tokens sys ms trust)) \<le> 9"
proof -
  obtain res sent where run: "compactConversation ask tokens sys ms trust = (res, sent)" by (rule prod.exhaust)
  from run have "length sent \<le> 9"
  proof (cases rule: compact_outcome)
    case (shed before r)
    from fold_requests [OF this(2)] this(1) show ?thesis by (auto simp: numeral_2_eq_2)
  qed simp_all
  with run show ?thesis by simp
qed

subsection \<open>What was read\<close>

definition told :: "(nat \<Rightarrow> model_message list \<Rightarrow> model_reply) \<Rightarrow> requests \<Rightarrow> model_message list \<Rightarrow> string \<Rightarrow> bool" where
  "told ask sent ms s \<longleftrightarrow> (\<exists>i < length sent. sent ! i = ms \<and> (\<exists>t. ask i ms = Summary t \<and> s = js_trim t))"

lemma told_append: "told ask sent ms s \<Longrightarrow> told ask (sent @ new) ms s"
  unfolding told_def by (metis length_append nth_append trans_less_add1)

lemma told_run: "run_request ask ms sent = (Inr s, sent') \<Longrightarrow> told ask sent' ms s"
  by (auto simp: run_request_def told_def split: model_reply.splits intro!: exI [of _ "length sent"])

lemma nearest_user_range:
  "nearest_user tokens whole i before (best, gap) ms = best \<or>
   (i \<le> nearest_user tokens whole i before (best, gap) ms \<and> nearest_user tokens whole i before (best, gap) ms < i + length ms)"
proof (induction ms arbitrary: i before best gap)
  case (Cons m ms)
  show ?case
    using Cons.IH [of "Suc i" "before + tokens [m]" best gap]
      Cons.IH [of "Suc i" "before + tokens [m]" i "Some (nat \<bar>2 * int before - int whole\<bar>)"]
    by (simp split: option.split) auto
qed simp

lemma split_at_less: "split_at tokens conv \<noteq> 0 \<Longrightarrow> split_at tokens conv < length conv"
  using nearest_user_range [of tokens "tokens conv" 0 0 0 None conv] by (auto simp: split_at_def)

text \<open>
  A conversation read in pieces: the first as it stands, each later one opening with the summary that was
  given for everything before it; \<open>s\<close> is the summary given for the last.
\<close>

definition own_parts :: "model_message \<Rightarrow> mpart list" where
  "own_parts m = (case mg_content m of Str s \<Rightarrow> [(MText s, False)] | Parts ps \<Rightarrow> ps)"

fun read_on :: "(model_message list \<Rightarrow> string \<Rightarrow> bool) \<Rightarrow> model_message list \<Rightarrow> string \<Rightarrow> model_message list list \<Rightarrow> string \<Rightarrow> bool" where
  "read_on answered sys h [] s \<longleftrightarrow> s = h"
| "read_on answered sys h (piece # pieces) s \<longleftrightarrow> h \<noteq> [] \<and>
     (\<exists>m rest s'. piece = m # rest \<and>
        answered (sys @ m\<lparr>mg_content := Parts ((MText (SUMMARY_HEADING @ [CHR 0x0A] @ h), False) # own_parts m)\<rparr>
                  # rest @ [user_text COMPACTION_INSTRUCTION]) s' \<and>
        read_on answered sys s' pieces s)"

definition read_in_pieces :: "(model_message list \<Rightarrow> string \<Rightarrow> bool) \<Rightarrow> model_message list \<Rightarrow> model_message list \<Rightarrow> string \<Rightarrow> bool" where
  "read_in_pieces answered sys conv s \<longleftrightarrow>
     (\<exists>piece pieces h. conv = piece @ concat pieces \<and> (piece \<noteq> [] \<or> conv = []) \<and>
        answered (sys @ piece @ [user_text COMPACTION_INSTRUCTION]) h \<and> read_on answered sys h pieces s)"

lemma read_on_mono:
  "read_on (told ask sent) sys h pieces s \<Longrightarrow> read_on (told ask (sent @ new)) sys h pieces s"
proof (induction pieces arbitrary: h)
  case (Cons piece pieces)
  then show ?case using told_append [of ask sent _ _ new] by fastforce
qed simp

lemma read_mono: "read_in_pieces (told ask sent) sys conv s \<Longrightarrow> read_in_pieces (told ask (sent @ new)) sys conv s"
  unfolding read_in_pieces_def using read_on_mono [of ask sent] told_append [of ask sent] by metis

lemma read_on_append:
  "read_on answered sys h ps h' \<Longrightarrow> read_on answered sys h' qs s \<Longrightarrow> read_on answered sys h (ps @ qs) s"
  by (induction ps arbitrary: h) auto

lemma read_whole:
  "told ask sent (buildCompactionMessages sys conv) s \<Longrightarrow> read_in_pieces (told ask sent) sys conv s"
  unfolding read_in_pieces_def buildCompactionMessages_def by (intro exI [of _ conv] exI [of _ "[]"] exI [of _ s]) simp

lemma with_recap_append:
  assumes "with_recap h conv = piece @ rest" and "piece \<noteq> []"
  obtains piece' where "conv = piece' @ rest" "piece = with_recap h piece'" "piece' \<noteq> []"
proof -
  from assms obtain m ms where conv: "conv = m # ms" by (cases conv) (auto simp: with_recap_def)
  with assms obtain ps where "piece = hd (with_recap h [m]) # ps" "ms = ps @ rest"
    by (cases piece) (auto simp: with_recap_def)
  then show thesis using that [of "m # ps"] by (simp add: conv with_recap_def)
qed

lemma read_recapped:
  assumes "answered (sys @ with_recap h piece @ [user_text COMPACTION_INSTRUCTION]) s'" and "piece \<noteq> []" and "h \<noteq> []"
    and "read_on answered sys s' pieces s"
  shows "read_on answered sys h (piece # pieces) s"
  using assms by (cases piece) (auto simp: with_recap_def own_parts_def)

lemma fold_reads:
  "fold_conversation ask tokens sys left conv sent = (Inr s, sent') \<Longrightarrow> read_in_pieces (told ask sent') sys conv s"
proof (induction left arbitrary: conv sent s sent')
  case 0
  then show ?case by (intro read_whole) (simp add: told_run)
next
  case (Suc left)
  from Suc.prems show ?case
  proof (cases rule: fold_cases)
    case (answered s')
    then show ?thesis by (intro read_whole) (simp add: told_run)
  next
    case (both sent1 head sent2)
    let ?c = "split_at tokens conv"
    obtain new where sent': "sent' = sent2 @ new" using fold_requests [OF both(5)] by blast
    have "read_in_pieces (told ask sent') sys (take ?c conv) head" unfolding sent' by (rule read_mono [OF Suc.IH [OF both(3)]])
    then obtain p ps h where first: "take ?c conv = p @ concat ps" "p \<noteq> [] \<or> take ?c conv = []"
      "told ask sent' (sys @ p @ [user_text COMPACTION_INSTRUCTION]) h" "read_on (told ask sent') sys h ps head"
      unfolding read_in_pieces_def by blast
    from Suc.IH [OF both(5)] obtain q qs h' where second: "with_recap head (drop ?c conv) = q @ concat qs"
      "q \<noteq> [] \<or> with_recap head (drop ?c conv) = []"
      "told ask sent' (sys @ q @ [user_text COMPACTION_INSTRUCTION]) h'" "read_on (told ask sent') sys h' qs s"
      unfolding read_in_pieces_def by blast
    have less: "?c < length conv" by (rule split_at_less [OF both(2)])
    then have "with_recap head (drop ?c conv) \<noteq> []" by (cases "drop ?c conv") (simp_all add: with_recap_def)
    with second(1,2) obtain q' where q: "drop ?c conv = q' @ concat qs" "q = with_recap head q'" "q' \<noteq> []"
      using with_recap_append by metis
    have "conv = p @ concat (ps @ q' # qs)" using first(1) q(1) by (metis append.assoc append_take_drop_id concat.simps(2) concat_append)
    moreover have "p \<noteq> []" using first(2) less both(2) by auto
    moreover have "read_on (told ask sent') sys head (q' # qs) s"
      using read_recapped [OF _ q(3) both(4) second(4)] second(3) q(2) by blast
    ultimately show ?thesis
      unfolding read_in_pieces_def using first(3) read_on_append [OF first(4)]
      by (intro exI [of _ p] exI [of _ "ps @ q' # qs"] exI [of _ h]) simp
  qed simp_all
qed

text \<open>
  Property C31. A summary leaves nothing out and launders nothing: when compaction returns one, it carries
  the mark it was called with, and it is what the provider gave for the whole conversation (as it stands or with
  the reasoning folded), or for the last of pieces that together are all of the shed conversation, where
  each later piece opened with the summary the provider gave for everything before it.
\<close>

theorem summary_covers_everything:
  assumes "compactConversation ask tokens sys ms trust = (Some (summary, mark), sent)"
  shows "mark = trust \<and> summary \<noteq> [] \<and>
    (told ask sent (buildCompactionMessages sys ms) summary \<or>
     told ask sent (foldReasoningIntoText (buildCompactionMessages sys ms)) summary \<or>
     read_in_pieces (told ask sent) sys (shed_conversation ms) summary)"
  using assms
proof (cases rule: compact_outcome)
  case (whole s msgs)
  from told_run [OF whole(2)] whole show ?thesis by (auto split: if_splits)
next
  case (shed before r)
  then show ?thesis using fold_reads by (auto split: sum.splits if_splits)
qed simp

text \<open>A provider that finds the first three requests too long: the talk is read in two pieces.\<close>

definition demo_ask :: "nat \<Rightarrow> model_message list \<Rightarrow> model_reply" where
  "demo_ask n ms = (if n < 2 then Overflow else if n = 2 then Summary ''first'' else Summary ''recap'')"

definition demo_talk :: "model_message list" where
  "demo_talk = [user_text ''hi'', user_text ''more'']"

lemma demo_compaction:
  "compactConversation demo_ask length [] demo_talk True =
     (Some (''recap'', True), [buildCompactionMessages [] demo_talk, buildCompactionMessages [] demo_talk,
        buildCompactionMessages [] [user_text ''hi''], buildCompactionMessages [] (with_recap ''first'' [user_text ''more''])])"
proof -
  have "shed_conversation demo_talk = demo_talk"
    by (simp add: shed_conversation_def drop_reasoning_def buildCompactionMessages_def demo_talk_def user_text_def
        pruneTurnToolTraffic_def prune_message_def List.map_filter_simps)
  moreover have "split_at length demo_talk = 1" by (simp add: split_at_def demo_talk_def user_text_def)
  moreover have "js_trim ''recap'' = ''recap''" "js_trim ''first'' = ''first''" by (simp_all add: js_trim_def js_space_def js_space_unit_def)
  moreover have "take 1 demo_talk = [user_text ''hi'']" "drop 1 demo_talk = [user_text ''more'']" by (simp_all add: demo_talk_def)
  ultimately show ?thesis
    by (simp add: compactConversation_def run_request_def demo_ask_def shed_and_fold_def numeral_2_eq_2 Let_def)
qed

theorem summary_covers_everything_witness:
  "\<exists>sent. compactConversation demo_ask length [] demo_talk True = (Some (''recap'', True), sent) \<and>
     (told demo_ask sent (buildCompactionMessages [] demo_talk) ''recap'' \<or>
      told demo_ask sent (foldReasoningIntoText (buildCompactionMessages [] demo_talk)) ''recap'' \<or>
      read_in_pieces (told demo_ask sent) [] (shed_conversation demo_talk) ''recap'')"
  using summary_covers_everything [OF demo_compaction] demo_compaction by blast

end
