(* ===== verification/Vault_Store.thy ===== *)
theory Vault_Store
  imports Effect_Ledger
begin

section \<open>The memory vault: spaces, nodes, edges and the search projection (src/lib/vault)\<close>

text \<open>
  The tables of the vault and the modules that own them: \<open>spaces.ts\<close> (the fence of a retired space and its
  teardown), \<open>nodes.ts\<close> (a node's soft delete with its edges, and its inverse), \<open>edges.ts\<close> (the legal relations
  and the parity control between the \<open>contains\<close> edges and \<open>note_claims\<close>) and \<open>search-documents.ts\<close> (the projection).
  A move runs inside one transaction, so it is one step; what it raises rolls it back. The clock, the ids
  \<open>nanoid\<close> draws, the digest and the text of a number come with the call.
\<close>

subsection \<open>Rows\<close>

datatype space_type = UserSpace | ProjectSpace

record space_row =
  sp_id :: ident
  sp_type :: space_type
  sp_ref :: ident
  sp_owner :: ident
  sp_retired :: "time option"

datatype node_kind = NoteNode | ClaimNode | SourceNode

record node_row =
  nd_id :: ident
  nd_space :: ident
  nd_kind :: node_kind
  nd_deleted :: "time option"

datatype relation = Contains | References | DerivedFrom

datatype vault_actor = UserActor "ident option" | AgentActor | SystemActor

record edge_row =
  ed_id :: ident
  ed_space :: ident
  ed_from :: ident
  ed_to :: ident
  ed_relation :: relation
  ed_by :: vault_actor
  ed_deleted :: "time option"

record search_doc =
  sd_space :: ident
  sd_node :: ident
  sd_kind :: node_kind
  sd_title :: string
  sd_owner :: string
  sd_model :: "string option"

text \<open>A note with its head version (title, body, sensitive), when it has one.\<close>

record vault_note =
  vn_id :: ident
  vn_space :: ident
  vn_head :: "(string \<times> string \<times> bool) option"

datatype source_class = LegacyConfirmed | OwnerAuthored | UserDirect | AgentInferred | UntrustedDerived

datatype prompt_access = ManifestAccess | MemorySearch | KnowledgeSearch | OwnerOnly

datatype review_status = Unverified | Confirmed

record claim_row =
  vc_id :: ident
  vc_space :: ident
  vc_statement :: string
  vc_slot :: "string option"
  vc_value :: json
  vc_kind :: string
  vc_origin :: json
  vc_review :: review_status
  vc_approved_at :: "time option"
  vc_approved_by :: "ident option"
  vc_sensitive :: bool
  vc_valid_from :: "time option"
  vc_valid_to :: "time option"
  vc_recorded :: time
  vc_revision :: nat
  vc_supersedes :: "ident option"
  vc_superseded :: "time option"
  vc_class :: source_class
  vc_conflicts :: "ident option"
  vc_hash :: "string option"
  vc_task :: "ident option"
  vc_expires :: "time option"
  vc_retired :: "time option"

definition promptAccess :: "claim_row \<Rightarrow> prompt_access" where
  "promptAccess r =
     (if vc_sensitive r then OwnerOnly
      else if vc_class r \<in> {LegacyConfirmed, OwnerAuthored, UserDirect} then ManifestAccess
      else if vc_class r = AgentInferred then MemorySearch
      else KnowledgeSearch)"

record evidence_row =
  ev_claim :: ident
  ev_relation :: string
  ev_fragment :: "ident option"
  ev_message :: "ident option"
  ev_quote :: "string option"
  ev_locator :: json

record vault_event =
  ve_space :: ident
  ve_actor :: vault_actor
  ve_action :: string
  ve_subject :: ident
  ve_payload :: json

text \<open>The candidates and sources by what a teardown needs of them: id and space, and a source's tombstone.\<close>

record vault =
  v_spaces :: "space_row list"
  v_nodes :: "node_row list"
  v_edges :: "edge_row list"
  v_docs :: "search_doc list"
  v_notes :: "vault_note list"
  v_claims :: "claim_row list"
  v_members :: "(ident \<times> ident) list" \<comment> \<open>\<open>note_claims\<close>: the note and the claim\<close>
  v_evidence :: "evidence_row list"
  v_candidates :: "(ident \<times> ident) list"
  v_sources :: "(ident \<times> ident \<times> time option) list"
  v_events :: "vault_event list"

datatype vault_error =
    SpaceRetired ident
  | OwnedByOther ident
  | TopicElsewhere ident
  | EndpointMissing
  | IllegalRelation
  | ParityDiverged ident
  | NoSuchClaim ident
  | ChainTooLong
  | ConstraintViolated
  | SecondSuccessor ident

text \<open>What a call finds in its environment; \<open>vx_armed\<close> is false in production.\<close>

record vault_ctx =
  vx_now :: time
  vx_id :: "nat \<Rightarrow> ident"
  vx_sha :: "string \<Rightarrow> string"
  vx_num :: "rat \<Rightarrow> string"
  vx_armed :: bool

definition or_fail :: "'e + 'a \<Rightarrow> ('a \<Rightarrow> 'e + 'b) \<Rightarrow> 'e + 'b" where
  "or_fail r k = (case r of Inl e \<Rightarrow> Inl e | Inr x \<Rightarrow> k x)"

lemma or_fail_simps [simp]: "or_fail (Inl e) k = Inl e" "or_fail (Inr x) k = k x"
  by (simp_all add: or_fail_def)

lemma or_fail_Inr: "or_fail r k = Inr y \<longleftrightarrow> (\<exists>x. r = Inr x \<and> k x = Inr y)"
  by (cases r) simp_all

subsection \<open>The search projection (search-documents.ts)\<close>

text \<open>The unit key is the space and the node; a second projection of a node replaces its row.\<close>

definition upsert_doc :: "search_doc \<Rightarrow> vault \<Rightarrow> vault" where
  "upsert_doc d v =
     (let same = (\<lambda>x. sd_space x = sd_space d \<and> sd_node x = sd_node d) in
      v\<lparr>v_docs := if list_ex same (v_docs v) then update_where same (\<lambda>_. d) (v_docs v) else v_docs v @ [d]\<rparr>)"

definition projectClaimDoc :: "ident \<Rightarrow> vault \<Rightarrow> vault" where
  "projectClaimDoc c v =
     (case find_row vc_id c (v_claims v) of
        None \<Rightarrow> v
      | Some r \<Rightarrow>
          (let owner = (case vc_slot r of
                          Some k \<Rightarrow> if k = [] then vc_statement r else vc_statement r @ '' '' @ k
                        | None \<Rightarrow> vc_statement r)
           in upsert_doc \<lparr>sd_space = vc_space r, sd_node = c, sd_kind = ClaimNode, sd_title = [], sd_owner = owner,
                sd_model = (if vc_sensitive r then None else Some owner)\<rparr> v))"

definition projectNoteDoc :: "ident \<Rightarrow> vault \<Rightarrow> vault" where
  "projectNoteDoc n v =
     (case find_row vn_id n (v_notes v) of
        None \<Rightarrow> v
      | Some r \<Rightarrow> (case vn_head r of
            None \<Rightarrow> v
          | Some (title, body, sensitive) \<Rightarrow>
              upsert_doc \<lparr>sd_space = vn_space r, sd_node = n, sd_kind = NoteNode, sd_title = title, sd_owner = body,
                sd_model = (if sensitive then None else Some body)\<rparr> v))"

definition unprojectNode :: "ident \<Rightarrow> ident \<Rightarrow> vault \<Rightarrow> vault" where
  "unprojectNode n s v = v\<lparr>v_docs := delete_where (\<lambda>d. sd_space d = s \<and> sd_node d = n) (v_docs v)\<rparr>"

definition unprojectSpace :: "ident \<Rightarrow> vault \<Rightarrow> vault" where
  "unprojectSpace s v = v\<lparr>v_docs := delete_where (\<lambda>d. sd_space d = s) (v_docs v)\<rparr>"

definition live_node :: "vault \<Rightarrow> ident \<Rightarrow> bool" where
  "live_node v n \<longleftrightarrow> list_ex (\<lambda>d. nd_id d = n \<and> nd_deleted d = None) (v_nodes v)"

definition rebuildSearchDocuments :: "ident \<Rightarrow> vault \<Rightarrow> vault \<times> nat" where
  "rebuildSearchDocuments s v =
     (let claims = map vc_id (filter (\<lambda>r. vc_space r = s \<and> live_node v (vc_id r)) (v_claims v));
          notes = map vn_id (filter (\<lambda>r. vn_space r = s \<and> live_node v (vn_id r)) (v_notes v))
      in (fold projectNoteDoc notes (fold projectClaimDoc claims (unprojectSpace s v)), length claims + length notes))"

subsection \<open>Nodes (nodes.ts)\<close>

definition insertNode :: "ident \<Rightarrow> ident \<Rightarrow> node_kind \<Rightarrow> vault \<Rightarrow> vault" where
  "insertNode n s k v = v\<lparr>v_nodes := v_nodes v @ [\<lparr>nd_id = n, nd_space = s, nd_kind = k, nd_deleted = None\<rparr>]\<rparr>"

definition touches :: "ident \<Rightarrow> ident \<Rightarrow> edge_row \<Rightarrow> bool" where
  "touches n s e \<longleftrightarrow> ed_space e = s \<and> (ed_from e = n \<or> ed_to e = n)"

text \<open>\<open>only_if\<close> is the extra condition some callers put on the node's own statement.\<close>

definition deleteNode :: "time \<Rightarrow> bool option \<Rightarrow> ident \<Rightarrow> ident \<Rightarrow> vault \<Rightarrow> vault \<times> bool" where
  "deleteNode now only_if n s v =
     (let hit = (\<lambda>d. nd_id d = n \<and> nd_space d = s \<and> nd_deleted d = None \<and> only_if \<noteq> Some False) in
      if only_if \<noteq> None \<and> \<not> list_ex hit (v_nodes v) then (v, False)
      else (unprojectNode n s
              (v\<lparr>v_nodes := update_where hit (\<lambda>d. d\<lparr>nd_deleted := Some now\<rparr>) (v_nodes v),
                 v_edges := update_where (\<lambda>e. touches n s e \<and> ed_deleted e = None) (\<lambda>e. e\<lparr>ed_deleted := Some now\<rparr>) (v_edges v)\<rparr>),
            True))"

definition restoreNode :: "ident \<Rightarrow> ident \<Rightarrow> time \<Rightarrow> vault \<Rightarrow> vault \<times> bool" where
  "restoreNode n s at_time v =
     (let hit = (\<lambda>d. nd_id d = n \<and> nd_space d = s \<and> nd_deleted d = Some at_time) in
      if \<not> list_ex hit (v_nodes v) then (v, False)
      else (v\<lparr>v_nodes := update_where hit (\<lambda>d. d\<lparr>nd_deleted := None\<rparr>) (v_nodes v),
              v_edges := update_where (\<lambda>e. touches n s e \<and> ed_deleted e = Some at_time) (\<lambda>e. e\<lparr>ed_deleted := None\<rparr>) (v_edges v)\<rparr>,
            True))"

definition deleteSpaceNodes :: "time \<Rightarrow> ident \<Rightarrow> vault \<Rightarrow> vault \<times> nat" where
  "deleteSpaceNodes now s v =
     (let live = (\<lambda>d. nd_space d = s \<and> nd_deleted d = None) in
      (unprojectSpace s
         (v\<lparr>v_nodes := update_where live (\<lambda>d. d\<lparr>nd_deleted := Some now\<rparr>) (v_nodes v),
            v_edges := update_where (\<lambda>e. ed_space e = s \<and> ed_deleted e = None) (\<lambda>e. e\<lparr>ed_deleted := Some now\<rparr>) (v_edges v)\<rparr>),
       length (filter live (v_nodes v))))"

subsection \<open>Edges (edges.ts)\<close>

definition LEGAL :: "relation \<Rightarrow> node_kind list \<times> node_kind list" where
  "LEGAL r = (case r of
       Contains \<Rightarrow> ([NoteNode], [NoteNode, ClaimNode])
     | References \<Rightarrow> ([NoteNode], [NoteNode, ClaimNode, SourceNode])
     | DerivedFrom \<Rightarrow> ([NoteNode, ClaimNode], [SourceNode]))"

definition live_edge :: "ident \<Rightarrow> ident \<Rightarrow> ident \<Rightarrow> relation \<Rightarrow> edge_row \<Rightarrow> bool" where
  "live_edge s a b r e \<longleftrightarrow> ed_space e = s \<and> ed_from e = a \<and> ed_to e = b \<and> ed_relation e = r \<and> ed_deleted e = None"

text \<open>The insert loses to the live edge of the same ends and relation, if there is one. An edge to itself is
  legal for no relation but the note's own, which the check of the table refuses.\<close>

definition linkNodes :: "ident \<Rightarrow> ident \<Rightarrow> ident \<Rightarrow> ident \<Rightarrow> relation \<Rightarrow> vault_actor \<Rightarrow> vault \<Rightarrow>
    vault_error + vault \<times> (ident \<times> bool)" where
  "linkNodes fresh s a b r by_actor v =
     (let node = (\<lambda>n. find (\<lambda>d. nd_space d = s \<and> nd_id d = n \<and> nd_deleted d = None) (v_nodes v)) in
      case (node a, node b) of
        (Some x, Some y) \<Rightarrow>
          if nd_kind x \<notin> set (fst (LEGAL r)) \<or> nd_kind y \<notin> set (snd (LEGAL r)) then Inl IllegalRelation
          else if a = b then Inl ConstraintViolated
          else (case find (live_edge s a b r) (v_edges v) of
              Some e \<Rightarrow> Inr (v, ed_id e, False)
            | None \<Rightarrow> Inr (v\<lparr>v_edges := v_edges v @ [\<lparr>ed_id = fresh, ed_space = s, ed_from = a, ed_to = b,
                  ed_relation = r, ed_by = by_actor, ed_deleted = None\<rparr>]\<rparr>, fresh, True))
      | _ \<Rightarrow> Inl EndpointMissing)"

definition unlinkEdge :: "time \<Rightarrow> ident \<Rightarrow> ident \<Rightarrow> vault \<Rightarrow> vault \<times> bool" where
  "unlinkEdge now e s v =
     (let hit = (\<lambda>x. ed_id x = e \<and> ed_space x = s \<and> ed_deleted x = None) in
      (v\<lparr>v_edges := update_where hit (\<lambda>x. x\<lparr>ed_deleted := Some now\<rparr>) (v_edges v)\<rparr>, list_ex hit (v_edges v)))"

definition unlinkContainsInto :: "time \<Rightarrow> ident \<Rightarrow> ident \<Rightarrow> vault \<Rightarrow> vault" where
  "unlinkContainsInto now c s v =
     v\<lparr>v_edges := update_where (\<lambda>e. ed_space e = s \<and> ed_to e = c \<and> ed_relation e = Contains \<and> ed_deleted e = None)
        (\<lambda>e. e\<lparr>ed_deleted := Some now\<rparr>) (v_edges v)\<rparr>"

definition unlinkReferencesFrom :: "time \<Rightarrow> ident \<Rightarrow> ident \<Rightarrow> ident list \<Rightarrow> vault \<Rightarrow> vault" where
  "unlinkReferencesFrom now n s keep v =
     v\<lparr>v_edges := update_where (\<lambda>e. ed_space e = s \<and> ed_from e = n \<and> ed_relation e = References \<and> ed_deleted e = None \<and> ed_to e \<notin> set keep)
        (\<lambda>e. e\<lparr>ed_deleted := Some now\<rparr>) (v_edges v)\<rparr>"

text \<open>The two sides of the parity control, as the statement computes them: memberships of live nodes, and live
  \<open>contains\<close> edges that end at a claim - whose own node may be a tombstone.\<close>

definition member_pairs :: "ident \<Rightarrow> vault \<Rightarrow> (ident \<times> ident) list" where
  "member_pairs s v = filter (\<lambda>(n, c).
     list_ex (\<lambda>d. nd_id d = n \<and> nd_space d = s \<and> nd_deleted d = None) (v_nodes v) \<and>
     list_ex (\<lambda>d. nd_id d = c \<and> nd_space d = s \<and> nd_deleted d = None) (v_nodes v)) (v_members v)"

definition edge_pairs :: "ident \<Rightarrow> vault \<Rightarrow> (ident \<times> ident) list" where
  "edge_pairs s v = map (\<lambda>e. (ed_from e, ed_to e))
     (filter (\<lambda>e. ed_space e = s \<and> ed_relation e = Contains \<and> ed_deleted e = None \<and>
        list_ex (\<lambda>d. nd_id d = ed_to e \<and> nd_space d = s \<and> nd_kind d = ClaimNode) (v_nodes v)) (v_edges v))"

definition containsParity :: "ident \<Rightarrow> vault \<Rightarrow> bool \<times> (ident \<times> ident) list \<times> (ident \<times> ident) list" where
  "containsParity s v =
     (let ps = member_pairs s v; ls = edge_pairs s v;
          only_p = filter (\<lambda>p. p \<notin> set ls) ps; only_l = filter (\<lambda>p. p \<notin> set ps) ls
      in (only_p = [] \<and> only_l = [], only_p, only_l))"

definition PARITY_LOG_SAMPLE :: nat where "PARITY_LOG_SAMPLE = 20"

text \<open>The sweep of the worker: one warning per live space that diverged, one error per space whose check failed;
  \<open>check\<close> answers \<open>None\<close> when it threw.\<close>

datatype parity_line =
    Diverged ident nat nat "(ident \<times> ident) list" "(ident \<times> ident) list"
  | CheckFailed ident

definition sweepContainsParity :: "(ident \<Rightarrow> (bool \<times> (ident \<times> ident) list \<times> (ident \<times> ident) list) option) \<Rightarrow>
    vault \<Rightarrow> parity_line list" where
  "sweepContainsParity check v = List.map_filter (\<lambda>s. case check s of
       None \<Rightarrow> Some (CheckFailed s)
     | Some (ok, ps, ls) \<Rightarrow> if ok then None
         else Some (Diverged s (length ps) (length ls) (take PARITY_LOG_SAMPLE ps) (take PARITY_LOG_SAMPLE ls)))
     (map sp_id (filter (\<lambda>x. sp_retired x = None) (v_spaces v)))"

definition assertContainsParity :: "vault_ctx \<Rightarrow> ident \<Rightarrow> vault \<Rightarrow> vault_error + vault" where
  "assertContainsParity x s v =
     (if vx_armed x \<and> \<not> fst (containsParity s v) then Inl (ParityDiverged s) else Inr v)"

subsection \<open>Spaces (spaces.ts)\<close>

definition spaceAcceptsWrites :: "ident \<Rightarrow> vault \<Rightarrow> bool" where
  "spaceAcceptsWrites s v \<longleftrightarrow> list_ex (\<lambda>x. sp_id x = s \<and> sp_retired x = None) (v_spaces v)"

definition find_space :: "space_type \<Rightarrow> ident \<Rightarrow> vault \<Rightarrow> space_row option" where
  "find_space t ref v = find (\<lambda>x. sp_type x = t \<and> sp_ref x = ref) (v_spaces v)"

definition getOrCreateSpace :: "ident \<Rightarrow> space_type \<Rightarrow> ident \<Rightarrow> ident \<Rightarrow> vault \<Rightarrow> vault_error + vault \<times> ident" where
  "getOrCreateSpace fresh t ref owner v =
     (case find_space t ref v of
        Some x \<Rightarrow> if t = ProjectSpace \<and> sp_owner x \<noteq> owner then Inl (OwnedByOther ref) else Inr (v, sp_id x)
      | None \<Rightarrow> Inr (v\<lparr>v_spaces := v_spaces v @ [\<lparr>sp_id = fresh, sp_type = t, sp_ref = ref,
            sp_owner = (if t = UserSpace then ref else owner), sp_retired = None\<rparr>]\<rparr>, fresh))"

definition log_event :: "ident \<Rightarrow> vault_actor \<Rightarrow> string \<Rightarrow> ident \<Rightarrow> json \<Rightarrow> vault \<Rightarrow> vault" where
  "log_event s a action subject payload v =
     v\<lparr>v_events := v_events v @ [\<lparr>ve_space = s, ve_actor = a, ve_action = action, ve_subject = subject, ve_payload = payload\<rparr>]\<rparr>"

text \<open>Deleting the claims and notes of a space takes their memberships and evidence with them.\<close>

definition erase_space :: "time \<Rightarrow> ident \<Rightarrow> vault \<Rightarrow> vault" where
  "erase_space now s v =
     (let claims = map vc_id (filter (\<lambda>r. vc_space r = s) (v_claims v));
          notes = map vn_id (filter (\<lambda>r. vn_space r = s) (v_notes v))
      in v\<lparr>v_claims := delete_where (\<lambda>r. vc_space r = s) (v_claims v),
           v_notes := delete_where (\<lambda>r. vn_space r = s) (v_notes v),
           v_members := delete_where (\<lambda>(n, c). n \<in> set notes \<or> c \<in> set claims) (v_members v),
           v_evidence := delete_where (\<lambda>e. ev_claim e \<in> set claims) (v_evidence v),
           v_candidates := delete_where (\<lambda>(i, sp). sp = s) (v_candidates v),
           v_sources := update_where (\<lambda>(i, sp, d). sp = s \<and> d = None) (\<lambda>(i, sp, d). (i, sp, Some now)) (v_sources v)\<rparr>)"

text \<open>\<open>project_owner\<close> is the owner of a deleted project's row, when there is one.\<close>

definition retire_space :: "vault_ctx \<Rightarrow> ident \<Rightarrow> ident \<Rightarrow> vault \<Rightarrow> vault" where
  "retire_space x project s v =
     (let closed = v\<lparr>v_spaces := update_where (\<lambda>r. sp_id r = s \<and> sp_retired r = None)
                        (\<lambda>r. r\<lparr>sp_retired := Some (vx_now x)\<rparr>) (v_spaces v)\<rparr>;
          (bare, nodes) = deleteSpaceNodes (vx_now x) s (erase_space (vx_now x) s closed)
      in if list_ex (\<lambda>e. ve_space e = s \<and> ve_action e = ''space.retire'') (v_events v) then bare
         else log_event s SystemActor ''space.retire'' s
           (JObj [(''projectId'', JStr project),
                  (''claims'', JNum (of_nat (length (filter (\<lambda>r. vc_space r = s) (v_claims v))))),
                  (''notes'', JNum (of_nat (length (filter (\<lambda>r. vn_space r = s) (v_notes v))))),
                  (''candidates'', JNum (of_nat (length (filter (\<lambda>(i, sp). sp = s) (v_candidates v))))),
                  (''sources'', JNum (of_nat (length (filter (\<lambda>(i, sp, d). sp = s \<and> d = None) (v_sources v))))),
                  (''nodes'', JNum (of_nat nodes))]) bare)"

definition retireProjectSpace :: "vault_ctx \<Rightarrow> (ident \<Rightarrow> ident option) \<Rightarrow> ident \<Rightarrow> vault \<Rightarrow> vault" where
  "retireProjectSpace x project_owner project v =
     (case find_space ProjectSpace project v of
        Some r \<Rightarrow> retire_space x project (sp_id r) v
      | None \<Rightarrow> (case project_owner project of
            None \<Rightarrow> v
          | Some owner \<Rightarrow> retire_space x project (vx_id x 0)
              (v\<lparr>v_spaces := v_spaces v @ [\<lparr>sp_id = vx_id x 0, sp_type = ProjectSpace, sp_ref = project, sp_owner = owner,
                   sp_retired = Some (vx_now x)\<rparr>]\<rparr>)))"

text \<open>Deleting the space rows of a user cascades to everything in them.\<close>

definition purgeUserSpaces :: "ident \<Rightarrow> vault \<Rightarrow> vault" where
  "purgeUserSpaces user v =
     (let gone = map sp_id (filter (\<lambda>x. sp_owner x = user) (v_spaces v));
          claims = map vc_id (filter (\<lambda>r. vc_space r \<in> set gone) (v_claims v));
          notes = map vn_id (filter (\<lambda>r. vn_space r \<in> set gone) (v_notes v))
      in v\<lparr>v_spaces := delete_where (\<lambda>x. sp_owner x = user) (v_spaces v),
           v_nodes := delete_where (\<lambda>d. nd_space d \<in> set gone) (v_nodes v),
           v_edges := delete_where (\<lambda>e. ed_space e \<in> set gone) (v_edges v),
           v_docs := delete_where (\<lambda>d. sd_space d \<in> set gone) (v_docs v),
           v_notes := delete_where (\<lambda>r. vn_space r \<in> set gone) (v_notes v),
           v_claims := delete_where (\<lambda>r. vc_space r \<in> set gone) (v_claims v),
           v_members := delete_where (\<lambda>(n, c). n \<in> set notes \<or> c \<in> set claims) (v_members v),
           v_evidence := delete_where (\<lambda>e. ev_claim e \<in> set claims) (v_evidence v),
           v_candidates := delete_where (\<lambda>(i, sp). sp \<in> set gone) (v_candidates v),
           v_sources := delete_where (\<lambda>(i, sp, d). sp \<in> set gone) (v_sources v),
           v_events := delete_where (\<lambda>e. ve_space e \<in> set gone) (v_events v)\<rparr>)"

end
