(* ===== verification/Vault_Claims.thy ===== *)
theory Vault_Claims
  imports Vault_Store
begin

section \<open>Claims (src/lib/vault/claims.ts)\<close>

text \<open>
  The facts of the vault. A claim is never rewritten: a new version is a new row that supersedes the old one,
  forgetting leaves a chain without a head, and only \<open>confirmClaim\<close> grants approval.
\<close>

subsection \<open>The screen for secrets\<close>

definition opaque_char :: "char \<Rightarrow> bool" where
  "opaque_char c \<longleftrightarrow> (let n = of_char c :: nat in (48 \<le> n \<and> n \<le> 57) \<or> (65 \<le> n \<and> n \<le> 90) \<or> (97 \<le> n \<and> n \<le> 122) \<or>
     c \<in> {CHR ''+'', CHR ''/'', CHR ''_''})"

definition regex_word :: "char \<Rightarrow> bool" where
  "regex_word c \<longleftrightarrow> opaque_char c \<and> c \<noteq> CHR ''+'' \<and> c \<noteq> CHR ''/''"

text \<open>\<open>\b\<close> at position \<open>i\<close>, and the class, the equals signs and the boundaries of the pattern.\<close>

definition word_at :: "string \<Rightarrow> nat \<Rightarrow> bool" where
  "word_at s i \<longleftrightarrow> i < length s \<and> regex_word (s ! i)"

definition boundary :: "string \<Rightarrow> nat \<Rightarrow> bool" where
  "boundary s i \<longleftrightarrow> (0 < i \<and> word_at s (i - 1)) \<noteq> word_at s i"

definition OPAQUE_RUN :: "string \<Rightarrow> bool" where
  "OPAQUE_RUN s \<longleftrightarrow> list_ex (\<lambda>i. boundary s i \<and>
     list_ex (\<lambda>j. list_all opaque_char (take (j - i) (drop i s)) \<and>
       list_ex (\<lambda>k. j + k \<le> length s \<and> take k (drop j s) = replicate k (CHR ''='') \<and> boundary s (j + k)) [0, 1, 2])
     [i + 28..<Suc (length s)]) [0..<length s]"

definition looksLikeSecret :: "string \<Rightarrow> bool" where
  "looksLikeSecret s = OPAQUE_RUN s"

definition pathishSecret :: "string \<Rightarrow> bool" where
  "pathishSecret s \<longleftrightarrow> list_ex OPAQUE_RUN (split_on (CHR ''/'') s)"

text \<open>The JSON text of a value over the characters of this model.\<close>

definition json_text :: "(rat \<Rightarrow> string) \<Rightarrow> json \<Rightarrow> string" where
  "json_text num j = map (\<lambda>u. char_of (unat u)) (stringify (of_json num j))"

definition valueText :: "(rat \<Rightarrow> string) \<Rightarrow> json \<Rightarrow> string" where
  "valueText num j = (if j = JNull then [] else json_text num j)"

definition screenOnce :: "(rat \<Rightarrow> string) \<Rightarrow> string \<Rightarrow> string option \<Rightarrow> json \<Rightarrow> bool" where
  "screenOnce num statement slot j \<longleftrightarrow>
     looksLikeSecret statement \<or> pathishSecret (case slot of None \<Rightarrow> [] | Some k \<Rightarrow> k) \<or> pathishSecret (valueText num j)"

subsection \<open>What is stored of a text\<close>

definition STATEMENT_MAX_CHARS :: nat where "STATEMENT_MAX_CHARS = 500"
definition SLOT_KEY_MAX_CHARS :: nat where "SLOT_KEY_MAX_CHARS = 120"

definition line_break :: "char \<Rightarrow> bool" where
  "line_break c \<longleftrightarrow> c = CHR 0x0A \<or> c = CHR 0x0D"

text \<open>Every maximal run of white space that holds a line break becomes one space; \<open>gap\<close> is the run so far.\<close>

fun one_line :: "string \<Rightarrow> string \<Rightarrow> string" where
  "one_line gap [] = (if list_ex line_break gap then '' '' else gap)"
| "one_line gap (c # cs) =
     (if js_space c then one_line (gap @ [c]) cs
      else (if list_ex line_break gap then '' '' else gap) @ c # one_line [] cs)"

definition fitStatement :: "string \<Rightarrow> string" where
  "fitStatement s = take STATEMENT_MAX_CHARS (js_trim (one_line [] s))"

text \<open>Every run of white space becomes one space.\<close>

fun squash :: "string \<Rightarrow> string" where
  "squash [] = []"
| "squash (c # cs) =
     (if js_space c then (case squash cs of d # ds \<Rightarrow> if d = CHR '' '' then d # ds else CHR '' '' # d # ds | [] \<Rightarrow> '' '')
      else c # squash cs)"

definition fitSlotKey :: "string option \<Rightarrow> string option" where
  "fitSlotKey slot = (case slot of
       None \<Rightarrow> None
     | Some k \<Rightarrow> (let fit = take SLOT_KEY_MAX_CHARS (js_trim (squash k)) in if fit = [] then None else Some fit))"

definition secretShaped :: "(rat \<Rightarrow> string) \<Rightarrow> string \<Rightarrow> string option \<Rightarrow> json \<Rightarrow> bool" where
  "secretShaped num statement slot j \<longleftrightarrow>
     screenOnce num statement slot j \<or> screenOnce num (fitStatement statement) (fitSlotKey slot) j"

subsection \<open>The key of exact duplicates\<close>

text \<open>Objects with their keys in order, everywhere inside.\<close>

fun ordered_keys :: "json \<Rightarrow> json"
  and ordered_entries :: "(string \<times> json) list \<Rightarrow> (string \<times> json) list" where
  "ordered_keys (JArr vs) = JArr (map ordered_keys vs)"
| "ordered_keys (JObj kvs) = JObj (sort_key fst (ordered_entries kvs))"
| "ordered_keys j = j"
| "ordered_entries [] = []"
| "ordered_entries ((k, j) # kvs) = (k, ordered_keys j) # ordered_entries kvs"

definition isDeepStrictEqual :: "json \<Rightarrow> json \<Rightarrow> bool" where
  "isDeepStrictEqual a b \<longleftrightarrow> ordered_keys a = ordered_keys b"

definition canonicalValue :: "(rat \<Rightarrow> string) \<Rightarrow> json \<Rightarrow> string" where
  "canonicalValue num j = json_text num (ordered_keys j)"

definition dedupKeyNorm :: "string \<Rightarrow> string" where
  "dedupKeyNorm s = squash (js_trim (lower s))"

definition normalizedHashOf :: "vault_ctx \<Rightarrow> string \<Rightarrow> json \<Rightarrow> string" where
  "normalizedHashOf x statement j = vx_sha x (dedupKeyNorm statement @ CHR 0x0A # canonicalValue (vx_num x) j)"

subsection \<open>Retention (grounding.ts)\<close>

definition HORIZON_DAYS :: int where "HORIZON_DAYS = 90"

definition horizonFor :: "time \<Rightarrow> source_class \<Rightarrow> time option" where
  "horizonFor now c =
     (if c \<in> {UserDirect, OwnerAuthored, LegacyConfirmed} then None
      else Some (now + HORIZON_DAYS * 24 * 60 * 60 * 1000))"

subsection \<open>Reads\<close>

definition MAX_CHAIN :: nat where "MAX_CHAIN = 1000"

definition in_scope :: "ident list option \<Rightarrow> claim_row \<Rightarrow> bool" where
  "in_scope allowed r \<longleftrightarrow> (case allowed of None \<Rightarrow> True | Some ss \<Rightarrow> vc_space r \<in> set ss)"

text \<open>The walk along \<open>supersedes\<close>, with the hops it still may take.\<close>

fun walk_chain :: "nat \<Rightarrow> ident list option \<Rightarrow> claim_row list \<Rightarrow> claim_row \<Rightarrow> vault_error + claim_row" where
  "walk_chain fuel allowed t r =
     (case find (\<lambda>n. vc_supersedes n = Some (vc_id r) \<and> in_scope allowed n) t of
        None \<Rightarrow> Inr r
      | Some n \<Rightarrow> (case fuel of 0 \<Rightarrow> Inl ChainTooLong | Suc f \<Rightarrow> walk_chain f allowed t n))"

declare walk_chain.simps [simp del]

text \<open>The loop reads a successor \<open>MAX_CHAIN + 1\<close> times before it gives up.\<close>

definition findCurrentHead :: "ident \<Rightarrow> ident list option \<Rightarrow> vault \<Rightarrow> vault_error + claim_row option" where
  "findCurrentHead c allowed v =
     (case find (\<lambda>r. vc_id r = c \<and> in_scope allowed r) (v_claims v) of
        None \<Rightarrow> Inr None
      | Some start \<Rightarrow> or_fail (walk_chain MAX_CHAIN allowed (v_claims v) start)
          (\<lambda>r. Inr (if vc_superseded r = None then Some r else None)))"

definition listHeadClaims :: "ident \<Rightarrow> string option \<Rightarrow> ident option \<Rightarrow> bool \<Rightarrow> vault \<Rightarrow> claim_row list" where
  "listHeadClaims s slot topic only_confirmed v =
     (let hits = filter (\<lambda>r. vc_space r = s \<and> vc_superseded r = None \<and>
                   (case slot of Some k \<Rightarrow> if k = [] then True else vc_slot r = Some k | None \<Rightarrow> True) \<and>
                   (only_confirmed \<longrightarrow> vc_review r = Confirmed) \<and>
                   (case topic of Some n \<Rightarrow> (n, vc_id r) \<in> set (v_members v) | None \<Rightarrow> True)) (v_claims v)
      in sort_key (\<lambda>r. - vc_recorded r) (sort_key vc_id hits))"

definition first_head :: "(claim_row \<Rightarrow> bool) \<Rightarrow> claim_row list \<Rightarrow> claim_row option" where
  "first_head P t = (case sort_key (\<lambda>r. - vc_recorded r) (sort_key vc_id (filter P t)) of [] \<Rightarrow> None | r # _ \<Rightarrow> Some r)"

definition headBySlot :: "ident \<Rightarrow> string \<Rightarrow> vault \<Rightarrow> claim_row option" where
  "headBySlot s slot v = first_head (\<lambda>r. vc_space r = s \<and> vc_slot r = Some slot \<and> vc_superseded r = None) (v_claims v)"

definition findExactDuplicate :: "vault_ctx \<Rightarrow> ident \<Rightarrow> string \<Rightarrow> json \<Rightarrow> vault \<Rightarrow> (ident \<times> nat) option" where
  "findExactDuplicate x s statement j v =
     map_option (\<lambda>r. (vc_id r, vc_revision r))
       (first_head (\<lambda>r. vc_space r = s \<and> vc_hash r = Some (normalizedHashOf x (fitStatement statement) j) \<and>
          vc_superseded r = None \<and> vc_retired r = None) (v_claims v))"

subsection \<open>Writing a claim\<close>

record fact_input =
  ci_space :: ident
  ci_statement :: string
  ci_slot :: "string option"
  ci_value :: json \<comment> \<open>\<open>JNull\<close> when there is none\<close>
  ci_origin :: json
  ci_sensitive :: bool
  ci_topic :: "ident option"
  ci_class :: source_class
  ci_task :: "ident option"
  ci_conflicts :: "ident option"
  ci_clause :: "nat option"

definition assertSpaceLive :: "ident \<Rightarrow> vault \<Rightarrow> vault_error + vault" where
  "assertSpaceLive s v = (if spaceAcceptsWrites s v then Inr v else Inl (SpaceRetired s))"

definition assertTopicInSpace :: "ident \<Rightarrow> ident \<Rightarrow> vault \<Rightarrow> vault_error + vault" where
  "assertTopicInSpace n s v =
     (if map_option vn_space (find_row vn_id n (v_notes v)) = Some s then Inr v else Inl (TopicElsewhere n))"

text \<open>Filing a claim under a topic: the membership and its edge.\<close>

definition file_under :: "vault_ctx \<Rightarrow> nat \<Rightarrow> ident \<Rightarrow> ident \<Rightarrow> ident \<Rightarrow> vault_actor \<Rightarrow> vault \<Rightarrow> vault_error + vault" where
  "file_under x i n c s a v =
     or_fail (assertTopicInSpace n s v) (\<lambda>v.
     or_fail (linkNodes (vx_id x i) s n c Contains a (v\<lparr>v_members := v_members v @ [(n, c)]\<rparr>)) (\<lambda>(v, _). Inr v))"

definition insert_claim :: "claim_row \<Rightarrow> vault \<Rightarrow> vault_error + vault" where
  "insert_claim r v =
     (if (case vc_conflicts r of None \<Rightarrow> False
          | Some n \<Rightarrow> \<not> list_ex (\<lambda>d. nd_id d = n \<and> nd_space d = vc_space r) (v_nodes v)) then Inl ConstraintViolated
      else case vc_supersedes r of
          None \<Rightarrow> Inr (v\<lparr>v_claims := v_claims v @ [r]\<rparr>)
        | Some p \<Rightarrow> if p \<in> {q. Some q \<in> set (map vc_supersedes (v_claims v))} then Inl (SecondSuccessor p)
            else Inr (v\<lparr>v_claims := v_claims v @ [r]\<rparr>))"

definition new_claim :: "vault_ctx \<Rightarrow> fact_input \<Rightarrow> claim_row" where
  "new_claim x i =
     \<lparr>vc_id = vx_id x 0, vc_space = ci_space i, vc_statement = fitStatement (ci_statement i), vc_slot = fitSlotKey (ci_slot i),
      vc_value = ci_value i, vc_kind = ''fact'', vc_origin = ci_origin i, vc_review = Unverified,
      vc_approved_at = None, vc_approved_by = None,
      vc_sensitive = (ci_sensitive i \<or> secretShaped (vx_num x) (ci_statement i) (ci_slot i) (ci_value i)),
      vc_valid_from = None, vc_valid_to = None, vc_recorded = vx_now x, vc_revision = 1, vc_supersedes = None,
      vc_superseded = None, vc_class = ci_class i, vc_conflicts = ci_conflicts i,
      vc_hash = Some (normalizedHashOf x (fitStatement (ci_statement i)) (ci_value i)), vc_task = ci_task i,
      vc_expires = horizonFor (vx_now x) (ci_class i), vc_retired = None\<rparr>"

definition createClaim :: "vault_ctx \<Rightarrow> fact_input \<Rightarrow> vault_actor \<Rightarrow> vault \<Rightarrow> vault_error + vault \<times> (ident \<times> nat \<times> bool)" where
  "createClaim x i a v =
     or_fail (assertSpaceLive (ci_space i) v) (\<lambda>v.
     (let r = new_claim x i in
      or_fail (insert_claim r (insertNode (vc_id r) (ci_space i) ClaimNode v)) (\<lambda>v.
      or_fail (case ci_topic i of
                 None \<Rightarrow> Inr v
               | Some n \<Rightarrow> or_fail (file_under x 1 n (vc_id r) (ci_space i) a v) (assertContainsParity x (ci_space i))) (\<lambda>v.
      Inr (projectClaimDoc (vc_id r)
             (log_event (ci_space i) a ''claim.create'' (vc_id r)
               (JObj ([(''reviewStatus'', JStr ''unverified''), (''sensitive'', JBool (vc_sensitive r))] @
                  (case ci_clause i of None \<Rightarrow> [] | Some k \<Rightarrow> [(''failedClause'', JNum (of_nat k))]))) v),
           vc_id r, 1, vc_sensitive r)))))"

subsection \<open>Superseding a claim\<close>

record claim_patch =
  cp_statement :: "string option"
  cp_value :: "json option"
  cp_slot :: "string option"
  cp_sensitive :: "bool option"
  cp_origin :: "json option"
  cp_topic :: "ident option"

text \<open>The row the compare-and-set hits: this revision, still the head, in one of the caller's spaces.\<close>

definition cas_hit :: "ident \<Rightarrow> nat \<Rightarrow> ident list \<Rightarrow> claim_row \<Rightarrow> bool" where
  "cas_hit c revision spaces r \<longleftrightarrow>
     vc_id r = c \<and> vc_revision r = revision \<and> vc_superseded r = None \<and> vc_space r \<in> set spaces"

definition review_text :: "review_status \<Rightarrow> string" where
  "review_text s = (case s of Unverified \<Rightarrow> ''unverified'' | Confirmed \<Rightarrow> ''confirmed'')"

definition or_else :: "'a option \<Rightarrow> 'a \<Rightarrow> 'a" where
  "or_else p d = (case p of None \<Rightarrow> d | Some y \<Rightarrow> y)"

definition rewritesText :: "claim_patch \<Rightarrow> claim_row \<Rightarrow> bool" where
  "rewritesText p prev \<longleftrightarrow>
     fitStatement (or_else (cp_statement p) (vc_statement prev)) \<noteq> fitStatement (vc_statement prev) \<or>
     fitSlotKey (case cp_slot p of None \<Rightarrow> vc_slot prev | s \<Rightarrow> s) \<noteq> fitSlotKey (vc_slot prev) \<or>
     \<not> isDeepStrictEqual (or_else (cp_value p) (vc_value prev)) (vc_value prev)"

definition successor :: "vault_ctx \<Rightarrow> claim_patch \<Rightarrow> source_class \<Rightarrow> claim_row \<Rightarrow> claim_row" where
  "successor x p cls prev =
     (let raw = or_else (cp_statement p) (vc_statement prev);
          raw_slot = (case cp_slot p of None \<Rightarrow> vc_slot prev | s \<Rightarrow> s);
          j = or_else (cp_value p) (vc_value prev);
          fresh = rewritesText p prev
      in \<lparr>vc_id = vx_id x 0, vc_space = vc_space prev, vc_statement = fitStatement raw, vc_slot = fitSlotKey raw_slot,
          vc_value = j, vc_kind = vc_kind prev, vc_origin = or_else (cp_origin p) (vc_origin prev),
          vc_review = (if fresh then Unverified else vc_review prev),
          vc_approved_at = (if fresh then None else vc_approved_at prev),
          vc_approved_by = (if fresh then None else vc_approved_by prev),
          vc_sensitive = (vc_sensitive prev \<or> or_else (cp_sensitive p) False \<or> secretShaped (vx_num x) raw raw_slot j),
          vc_valid_from = vc_valid_from prev, vc_valid_to = vc_valid_to prev, vc_recorded = vx_now x,
          vc_revision = vc_revision prev + 1, vc_supersedes = Some (vc_id prev), vc_superseded = None, vc_class = cls,
          vc_conflicts = None, vc_hash = Some (normalizedHashOf x (fitStatement raw) j), vc_task = vc_task prev,
          vc_expires = horizonFor (vx_now x) cls, vc_retired = None\<rparr>)"

text \<open>The memberships travel in one statement; the predecessor's edges close and one opens per membership.\<close>

fun link_moved :: "vault_ctx \<Rightarrow> ident \<Rightarrow> ident \<Rightarrow> vault_actor \<Rightarrow> nat \<Rightarrow> ident list \<Rightarrow> vault \<Rightarrow> vault_error + vault" where
  "link_moved x c s a i [] v = Inr v"
| "link_moved x c s a i (n # ns) v =
     or_fail (linkNodes (vx_id x i) s n c Contains a v) (\<lambda>(v, _). link_moved x c s a (Suc i) ns v)"

definition move_members :: "ident \<Rightarrow> ident \<Rightarrow> vault \<Rightarrow> vault \<times> ident list" where
  "move_members old new v =
     (v\<lparr>v_members := update_where (\<lambda>(n, c). c = old) (\<lambda>(n, c). (n, new)) (v_members v)\<rparr>,
      map fst (filter (\<lambda>(n, c). c = old) (v_members v)))"

text \<open>What follows the compare-and-set: the successor with its node, its memberships and the event.\<close>

definition supersede :: "vault_ctx \<Rightarrow> claim_patch \<Rightarrow> source_class \<Rightarrow> vault_actor \<Rightarrow> claim_row \<Rightarrow> vault \<Rightarrow>
    vault_error + vault \<times> (ident \<times> nat)" where
  "supersede x p cls a prev v =
     (let r = successor x p cls prev; s = vc_space prev in
      or_fail (insert_claim r (insertNode (vc_id r) s ClaimNode v)) (\<lambda>v.
      (let (v, moved) = move_members (vc_id prev) (vc_id r) v in
      or_fail (link_moved x (vc_id r) s a 1 moved (unlinkContainsInto (vx_now x) (vc_id prev) s v)) (\<lambda>v.
      or_fail (case cp_topic p of
                 Some n \<Rightarrow> if moved = [] then file_under x 1 n (vc_id r) s a v else Inr v
               | None \<Rightarrow> Inr v) (\<lambda>v.
      or_fail (assertContainsParity x s v) (\<lambda>v.
      Inr (projectClaimDoc (vc_id r)
             (log_event s a ''claim.supersede'' (vc_id prev)
               (JObj [(''successor'', JStr (vc_id r)), (''revision'', JNum (of_nat (vc_revision r))),
                      (''reviewStatus'', JStr (review_text (vc_review r))), (''sensitive'', JBool (vc_sensitive r))]) v),
           vc_id r, vc_revision r)))))))"

text \<open>A lost compare-and-set hands back the current head: \<open>Inl\<close> of the result.\<close>

definition updateClaim :: "vault_ctx \<Rightarrow> ident \<Rightarrow> nat \<Rightarrow> claim_patch \<Rightarrow> source_class \<Rightarrow> ident list \<Rightarrow> vault_actor \<Rightarrow> vault \<Rightarrow>
    vault_error + vault \<times> (claim_row option + ident \<times> nat)" where
  "updateClaim x c revision p cls spaces a v =
     or_fail (case find (\<lambda>r. vc_id r = c \<and> vc_space r \<in> set spaces) (v_claims v) of
                None \<Rightarrow> Inr v
              | Some r \<Rightarrow> assertSpaceLive (vc_space r) v) (\<lambda>v.
     (case find (cas_hit c revision spaces) (v_claims v) of
        None \<Rightarrow> or_fail (findCurrentHead c (Some spaces) v) (\<lambda>h. Inr (v, Inl h))
      | Some prev \<Rightarrow>
          or_fail (supersede x p cls a prev
            (v\<lparr>v_claims := update_where (cas_hit c revision spaces) (\<lambda>r. r\<lparr>vc_superseded := Some (vx_now x)\<rparr>) (v_claims v)\<rparr>))
            (\<lambda>(v, done). Inr (v, Inr done))))"

subsection \<open>Forgetting and restoring\<close>

text \<open>\<open>task\<close> is the bound of the agent's own undo.\<close>

definition forget_hit :: "ident \<Rightarrow> nat \<Rightarrow> ident list \<Rightarrow> ident option \<Rightarrow> claim_row \<Rightarrow> bool" where
  "forget_hit c revision spaces task r \<longleftrightarrow>
     cas_hit c revision spaces r \<and> (case task of None \<Rightarrow> True | Some t \<Rightarrow> vc_task r = Some t)"

definition forgetClaim :: "vault_ctx \<Rightarrow> ident \<Rightarrow> nat \<Rightarrow> ident list \<Rightarrow> vault_actor \<Rightarrow> ident option \<Rightarrow> vault \<Rightarrow>
    vault_error + vault \<times> (claim_row option + unit)" where
  "forgetClaim x c revision spaces a task v =
     (case find (forget_hit c revision spaces task) (v_claims v) of
        None \<Rightarrow> or_fail (findCurrentHead c (Some spaces) v) (\<lambda>h. Inr (v, Inl h))
      | Some prev \<Rightarrow>
          Inr (log_event (vc_space prev) a ''claim.forget'' c (JObj [(''revision'', JNum (of_nat (vc_revision prev)))])
                 (fst (deleteNode (vx_now x) None c (vc_space prev)
                   (v\<lparr>v_claims := update_where (forget_hit c revision spaces task)
                        (\<lambda>r. r\<lparr>vc_superseded := Some (vx_now x)\<rparr>) (v_claims v)\<rparr>))), Inr ()))"

text \<open>The tombstone the restore undoes: the claim's space and the moment its node was deleted.\<close>

definition tombstone :: "ident \<Rightarrow> ident list \<Rightarrow> vault \<Rightarrow> (ident \<times> time) option" where
  "tombstone c spaces v =
     (case find (\<lambda>r. vc_id r = c \<and> vc_space r \<in> set spaces) (v_claims v) of
        None \<Rightarrow> None
      | Some r \<Rightarrow> (case find (\<lambda>d. nd_id d = c \<and> nd_space d = vc_space r \<and> nd_deleted d \<noteq> None) (v_nodes v) of
            None \<Rightarrow> None
          | Some d \<Rightarrow> map_option (Pair (vc_space r)) (nd_deleted d)))"

definition revivable :: "ident \<Rightarrow> ident \<Rightarrow> vault \<Rightarrow> claim_row \<Rightarrow> bool" where
  "revivable c s v r \<longleftrightarrow> vc_id r = c \<and> vc_space r = s \<and> vc_superseded r \<noteq> None \<and>
     \<not> list_ex (\<lambda>n. vc_supersedes n = Some c) (v_claims v)"

definition restoreClaim :: "ident \<Rightarrow> ident list \<Rightarrow> vault_actor \<Rightarrow> vault \<Rightarrow> vault \<times> bool" where
  "restoreClaim c spaces a v =
     (if spaces = [] then (v, False)
      else case tombstone c spaces v of
          None \<Rightarrow> (v, False)
        | Some (s, gone) \<Rightarrow>
            (case find (revivable c s v) (v_claims v) of
               None \<Rightarrow> (v, False)
             | Some r \<Rightarrow>
                 (case restoreNode c s gone
                     (v\<lparr>v_claims := update_where (revivable c s v) (\<lambda>r. r\<lparr>vc_superseded := None\<rparr>) (v_claims v)\<rparr>) of
                    (v', False) \<Rightarrow> (v', False)
                  | (v', True) \<Rightarrow>
                      (log_event s a ''claim.restore'' c (JObj [(''revision'', JNum (of_nat (vc_revision r)))])
                         (projectClaimDoc c v'), True))))"

definition forgetAllClaims :: "vault_ctx \<Rightarrow> ident \<Rightarrow> vault_actor \<Rightarrow> vault \<Rightarrow> vault \<times> nat" where
  "forgetAllClaims x s a v =
     (let live = (\<lambda>r. vc_space r = s \<and> vc_superseded r = None); heads = filter live (v_claims v) in
      if heads = [] then (v, 0)
      else (fold (\<lambda>h. log_event s a ''claim.forget'' (vc_id h)
                    (JObj [(''revision'', JNum (of_nat (vc_revision h))), (''bulk'', JBool True)])) heads
              (fold (\<lambda>h v. fst (deleteNode (vx_now x) None (vc_id h) s v)) heads
                (v\<lparr>v_claims := update_where live (\<lambda>r. r\<lparr>vc_superseded := Some (vx_now x)\<rparr>) (v_claims v)\<rparr>)),
            length heads))"

subsection \<open>Deciding\<close>

datatype keep = KeepBoth | KeepThis | KeepOther

definition keep_text :: "keep \<Rightarrow> string" where
  "keep_text k = (case k of KeepBoth \<Rightarrow> ''both'' | KeepThis \<Rightarrow> ''this'' | KeepOther \<Rightarrow> ''other'')"

definition contesting :: "ident \<Rightarrow> ident list \<Rightarrow> claim_row \<Rightarrow> bool" where
  "contesting c spaces r \<longleftrightarrow>
     vc_id r = c \<and> vc_superseded r = None \<and> vc_conflicts r \<noteq> None \<and> vc_space r \<in> set spaces"

text \<open>An early return inside the transaction commits what was written before it.\<close>

definition resolveConflict :: "vault_ctx \<Rightarrow> ident \<Rightarrow> keep \<Rightarrow> ident list \<Rightarrow> vault_actor \<Rightarrow> vault \<Rightarrow> vault_error + vault \<times> bool" where
  "resolveConflict x c k spaces a v =
     (case find (contesting c spaces) (v_claims v) of
        None \<Rightarrow> Inr (v, False)
      | Some r \<Rightarrow>
          (let cleared = v\<lparr>v_claims := update_where (\<lambda>r. vc_id r = c) (\<lambda>r. r\<lparr>vc_conflicts := None\<rparr>) (v_claims v)\<rparr>;
               finish = log_event (vc_space r) a ''claim.conflict'' c
                 (JObj [(''keep'', JStr (keep_text k)), (''revision'', JNum (of_nat (vc_revision r)))])
           in if k = KeepBoth then Inr (finish cleared, True)
              else or_fail (findCurrentHead (if k = KeepThis then or_else (vc_conflicts r) c else c) (Some spaces) cleared)
                (\<lambda>h. case h of
                   None \<Rightarrow> Inr (cleared, False)
                 | Some head \<Rightarrow> or_fail (forgetClaim x (vc_id head) (vc_revision head) spaces a None cleared)
                     (\<lambda>(v', gone). case gone of
                        Inl _ \<Rightarrow> Inr (v', False)
                      | Inr _ \<Rightarrow> Inr (finish v', True)))))"

definition confirmClaim :: "time \<Rightarrow> ident \<Rightarrow> bool \<Rightarrow> vault_actor \<Rightarrow> vault \<Rightarrow> vault \<times> bool" where
  "confirmClaim now c sensitive a v =
     (let hit = (\<lambda>r. vc_id r = c \<and> vc_superseded r = None) in
      if list_ex hit (v_claims v)
      then (projectClaimDoc c (v\<lparr>v_claims := update_where hit
              (\<lambda>r. r\<lparr>vc_review := Confirmed, vc_sensitive := vc_sensitive r \<or> sensitive, vc_approved_at := Some now,
                     vc_approved_by := (case a of UserActor u \<Rightarrow> u | _ \<Rightarrow> None)\<rparr>) (v_claims v)\<rparr>), True)
      else (v, False))"

definition attachToTopic :: "vault_ctx \<Rightarrow> ident \<Rightarrow> ident \<Rightarrow> vault_actor \<Rightarrow> vault \<Rightarrow> vault_error + vault \<times> ident" where
  "attachToTopic x c n a v =
     (case find_row vc_id c (v_claims v) of
        None \<Rightarrow> Inl (NoSuchClaim c)
      | Some r \<Rightarrow>
          or_fail (assertTopicInSpace n (vc_space r) v) (\<lambda>v.
          or_fail (linkNodes (vx_id x 0) (vc_space r) n c Contains a
                     (if (n, c) \<in> set (v_members v) then v else v\<lparr>v_members := v_members v @ [(n, c)]\<rparr>)) (\<lambda>(v, e, _).
          or_fail (assertContainsParity x (vc_space r) v) (\<lambda>v. Inr (v, e)))))"

definition attachEvidence :: "evidence_row \<Rightarrow> vault \<Rightarrow> vault" where
  "attachEvidence e v = v\<lparr>v_evidence := v_evidence v @ [e]\<rparr>"

end
