(* ===== verification/Vault_Theorems.thy ===== *)
theory Vault_Theorems
  imports Vault_Claims
begin

section \<open>What the vault keeps\<close>

subsection \<open>Stored text\<close>

lemma set_js_trim: "set (js_trim s) \<subseteq> set s"
proof
  fix c assume "c \<in> set (js_trim s)"
  then have "c \<in> set (dropWhile js_space (rev (dropWhile js_space s)))" by (simp add: js_trim_def)
  then have "c \<in> set (rev (dropWhile js_space s))" by (rule set_dropWhileD)
  then show "c \<in> set s" by (auto dest: set_dropWhileD)
qed

lemma dropWhile_hd: "s \<noteq> [] \<Longrightarrow> \<not> P (hd s) \<Longrightarrow> dropWhile P s = s"
  by (cases s) simp_all

lemma js_trim_fix: "s = [] \<or> \<not> js_space (hd s) \<and> \<not> js_space (last s) \<Longrightarrow> js_trim s = s"
proof (cases "s = []")
  case False
  assume "s = [] \<or> \<not> js_space (hd s) \<and> \<not> js_space (last s)"
  with False have "dropWhile js_space s = s" "dropWhile js_space (rev s) = rev s" by (auto intro: dropWhile_hd simp: hd_rev)
  then show ?thesis by (simp add: js_trim_def)
qed (simp add: js_trim_def)

lemma js_trim_ends: "js_trim s \<noteq> [] \<Longrightarrow> \<not> js_space (hd (js_trim s)) \<and> \<not> js_space (last (js_trim s))"
proof -
  define xs where "xs = dropWhile js_space s"
  define ys where "ys = dropWhile js_space (rev xs)"
  assume "js_trim s \<noteq> []"
  then have "ys \<noteq> []" by (simp add: js_trim_def xs_def ys_def)
  obtain zs where zs: "rev xs = zs @ ys" unfolding ys_def by (metis takeWhile_dropWhile_id)
  then have xs: "xs = rev ys @ rev zs" by (metis rev_append rev_rev_ident)
  have "\<not> js_space (hd xs)" using xs \<open>ys \<noteq> []\<close> unfolding xs_def by (metis append_is_Nil_conv hd_dropWhile rev_is_Nil_conv)
  moreover have "\<not> js_space (hd ys)" using \<open>ys \<noteq> []\<close> unfolding ys_def by (rule hd_dropWhile)
  moreover have "js_trim s = rev ys" by (simp add: js_trim_def xs_def ys_def)
  moreover have "hd xs = hd (rev ys)" using xs \<open>ys \<noteq> []\<close> by simp
  ultimately show ?thesis using \<open>ys \<noteq> []\<close> by (simp add: last_rev)
qed

lemma js_trim_idem [simp]: "js_trim (js_trim s) = js_trim s"
  using js_trim_fix js_trim_ends by blast

lemma length_js_trim: "length (js_trim s) \<le> length s"
  by (simp add: js_trim_def) (metis length_dropWhile_le length_rev order_trans)

lemma line_break_space: "line_break c \<Longrightarrow> js_space c"
  by (auto simp: line_break_def js_space_def js_space_unit_def)

lemma one_line_no_break: "c \<in> set (one_line gap s) \<Longrightarrow> \<not> line_break c"
proof (induction gap s rule: one_line.induct)
  case (1 gap)
  then show ?case by (auto simp: list_ex_iff line_break_def split: if_splits)
next
  case (2 gap d s)
  show ?case
  proof (cases "js_space d")
    case True
    with 2 show ?thesis by simp
  next
    case False
    have "\<not> line_break d" using False line_break_space by blast
    moreover have "\<not> line_break (CHR '' '')" by (simp add: line_break_def)
    ultimately show ?thesis
      using 2(3) 2(2) [OF False] False by (cases "list_ex line_break gap") (auto simp: list_ex_iff)
  qed
qed

lemma one_line_fix: "(\<forall>c \<in> set gap \<union> set s. \<not> line_break c) \<Longrightarrow> one_line gap s = gap @ s"
proof (induction gap s rule: one_line.induct)
  case (1 gap)
  then have "\<not> list_ex line_break gap" by (auto simp: list_ex_iff)
  then show ?case by simp
next
  case (2 gap c s)
  then have "\<not> list_ex line_break gap" by (auto simp: list_ex_iff)
  with 2 show ?case by (cases "js_space c") simp_all
qed

lemma fit_stored: "fitStatement (fitStatement s) = js_trim (fitStatement s)"
proof -
  have "\<forall>c \<in> set (fitStatement s). \<not> line_break c"
    unfolding fitStatement_def using one_line_no_break set_js_trim set_take_subset by (metis subsetD)
  then have "one_line [] (fitStatement s) = fitStatement s" by (simp add: one_line_fix)
  moreover have "length (js_trim (fitStatement s)) \<le> STATEMENT_MAX_CHARS"
    by (rule order_trans [OF length_js_trim]) (simp add: fitStatement_def)
  ultimately show ?thesis by (simp add: fitStatement_def [of "fitStatement s"])
qed

lemma js_trim_middle: "\<exists>a b. s = a @ js_trim s @ b"
proof -
  define xs where "xs = dropWhile js_space s"
  define ys where "ys = dropWhile js_space (rev xs)"
  have "s = takeWhile js_space s @ xs" unfolding xs_def by simp
  moreover have "rev xs = takeWhile js_space (rev xs) @ ys" unfolding ys_def by simp
  then have "xs = rev ys @ rev (takeWhile js_space (rev xs))" by (metis rev_append rev_rev_ident)
  ultimately show ?thesis by (metis js_trim_def xs_def ys_def)
qed

fun squashed :: "string \<Rightarrow> bool" where
  "squashed [] = True"
| "squashed [c] = (js_space c \<longrightarrow> c = CHR '' '')"
| "squashed (c # d # s) = ((js_space c \<longrightarrow> c = CHR '' '' \<and> d \<noteq> CHR '' '') \<and> squashed (d # s))"

lemma squashed_tl: "squashed (c # s) \<Longrightarrow> squashed s"
  by (cases s) auto

lemma squashed_suffix: "squashed (xs @ ys) \<Longrightarrow> squashed ys"
  by (induction xs) (auto dest: squashed_tl)

lemma squashed_prefix: "squashed (xs @ ys) \<Longrightarrow> squashed xs"
  by (induction xs rule: squashed.induct) (auto simp: neq_Nil_conv dest: squashed_tl split: if_splits, cases ys, auto)

lemma space_is_space: "js_space (CHR '' '')"
  by (simp add: js_space_def js_space_unit_def)

lemma squash_squashed: "squashed (squash s)"
proof (induction s)
  case (Cons c s)
  then show ?case using space_is_space by (cases "squash s") (auto split: if_splits)
qed simp

lemma squash_fix: "squashed s \<Longrightarrow> squash s = s"
proof (induction s rule: squashed.induct)
  case (2 c)
  then show ?case by auto
next
  case (3 c d s)
  then show ?case by (auto split: list.split)
qed simp

lemma fit_slot_stored: "fitSlotKey (fitSlotKey k) = map_option js_trim (fitSlotKey k)"
proof (cases "fitSlotKey k")
  case None
  then show ?thesis by (simp add: fitSlotKey_def)
next
  case (Some s)
  then obtain k' where s: "s = take SLOT_KEY_MAX_CHARS (js_trim (squash k'))" "s \<noteq> []"
    by (auto simp: fitSlotKey_def Let_def split: option.splits if_splits)
  obtain a b where "squash k' = a @ js_trim (squash k') @ b" using js_trim_middle by blast
  then have "squashed (js_trim (squash k'))" by (metis squash_squashed squashed_prefix squashed_suffix)
  then have "squashed s" unfolding s by (metis append_take_drop_id squashed_prefix)
  then have "squash s = s" by (rule squash_fix)
  moreover have "length (js_trim s) \<le> SLOT_KEY_MAX_CHARS"
    by (rule order_trans [OF length_js_trim]) (simp add: s)
  moreover have "js_trim (squash k') \<noteq> []" using s by auto
  then have "\<not> js_space (hd s)"
    using js_trim_ends s by (metis hd_take gr0I take_eq_Nil)
  then have "js_trim s \<noteq> []" unfolding js_trim_Nil_iff using \<open>s \<noteq> []\<close> by (auto intro: hd_in_set)
  ultimately show ?thesis unfolding Some by (simp add: fitSlotKey_def)
qed

subsection \<open>What the moves do to the claims\<close>

text \<open>The words a person approves: statement and key up to blanks at their ends, the value up to the order of keys.\<close>

type_synonym words = "string \<times> string option \<times> json"

definition words_of :: "claim_row \<Rightarrow> words" where
  "words_of r = (js_trim (vc_statement r), map_option js_trim (vc_slot r), ordered_keys (vc_value r))"

definition unnamed :: "ident \<Rightarrow> claim_row list \<Rightarrow> bool" where
  "unnamed c t \<longleftrightarrow> c \<notin> vc_id ` set t \<and> Some c \<notin> vc_supersedes ` set t"

inductive claims_step :: "(ident \<Rightarrow> bool) \<Rightarrow> claim_row list \<times> words list \<Rightarrow> claim_row list \<times> words list \<Rightarrow> bool" for A where
  added: "A (ci_space i) \<Longrightarrow> unnamed (vx_id x 0) t \<Longrightarrow> claims_step A (t, l) (t @ [new_claim x i], l)"
| superseded: "prev \<in> set t \<Longrightarrow> P prev \<Longrightarrow> \<forall>q \<in> set t. P q \<longrightarrow> vc_superseded q = None \<Longrightarrow> unnamed (vx_id x 0) t \<Longrightarrow>
    Some (vc_id prev) \<notin> vc_supersedes ` set t \<Longrightarrow>
    claims_step A (t, l) (update_where P (\<lambda>q. q\<lparr>vc_superseded := Some (vx_now x)\<rparr>) t @ [successor x p cls prev], l)"
| closed: "\<forall>q \<in> set t. P q \<longrightarrow> vc_superseded q = None \<Longrightarrow>
    claims_step A (t, l) (update_where P (\<lambda>q. q\<lparr>vc_superseded := Some now\<rparr>) t, l)"
| revived: "Some c \<notin> vc_supersedes ` set t \<Longrightarrow>
    claims_step A (t, l) (update_where (\<lambda>q. vc_id q = c \<and> P q) (\<lambda>q. q\<lparr>vc_superseded := None\<rparr>) t, l)"
| unflagged: "claims_step A (t, l) (update_where P (\<lambda>q. q\<lparr>vc_conflicts := None\<rparr>) t, l)"
| approved: "claims_step A (t, l) (update_where (\<lambda>q. vc_id q = c \<and> vc_superseded q = None)
    (\<lambda>q. q\<lparr>vc_review := Confirmed, vc_sensitive := vc_sensitive q \<or> more_sensitive, vc_approved_at := Some now, vc_approved_by := by_user\<rparr>) t,
    map words_of (filter (\<lambda>q. vc_id q = c \<and> vc_superseded q = None) t) @ l)"
| erased: "claims_step A (t, l) (delete_where (\<lambda>q. vc_space q \<in> S) t, l)"

text \<open>The chains: ids are unique, a claim has at most one successor, and a claim that has one is closed, in the
  same space, one revision behind and no more sensitive.\<close>

definition chain_link :: "claim_row \<Rightarrow> claim_row \<Rightarrow> bool" where
  "chain_link q r \<longleftrightarrow> vc_superseded q \<noteq> None \<and> vc_space q = vc_space r \<and> vc_revision r = Suc (vc_revision q) \<and>
     (vc_sensitive q \<longrightarrow> vc_sensitive r)"

definition claims_ok :: "claim_row list \<Rightarrow> bool" where
  "claims_ok t \<longleftrightarrow> distinct (map vc_id t) \<and>
     (\<forall>r \<in> set t. \<forall>r' \<in> set t. vc_supersedes r \<noteq> None \<longrightarrow> vc_supersedes r = vc_supersedes r' \<longrightarrow> r = r') \<and>
     (\<forall>q \<in> set t. \<forall>r \<in> set t. vc_supersedes r = Some (vc_id q) \<longrightarrow> chain_link q r)"

lemma claims_okI:
  assumes "distinct (map vc_id t)"
    and "\<And>r r'. r \<in> set t \<Longrightarrow> r' \<in> set t \<Longrightarrow> vc_supersedes r \<noteq> None \<Longrightarrow> vc_supersedes r = vc_supersedes r' \<Longrightarrow> r = r'"
    and "\<And>q r. q \<in> set t \<Longrightarrow> r \<in> set t \<Longrightarrow> vc_supersedes r = Some (vc_id q) \<Longrightarrow> chain_link q r"
  shows "claims_ok t"
  unfolding claims_ok_def using assms by blast

lemma claims_okD:
  assumes "claims_ok t"
  shows "distinct (map vc_id t)"
    and "r \<in> set t \<Longrightarrow> r' \<in> set t \<Longrightarrow> vc_supersedes r \<noteq> None \<Longrightarrow> vc_supersedes r = vc_supersedes r' \<Longrightarrow> r = r'"
    and "q \<in> set t \<Longrightarrow> r \<in> set t \<Longrightarrow> vc_supersedes r = Some (vc_id q) \<Longrightarrow> chain_link q r"
  using assms unfolding claims_ok_def by blast+

lemma claims_ok_update:
  assumes "claims_ok t" and keys: "\<And>q. vc_id (f q) = vc_id q" "\<And>q. vc_supersedes (f q) = vc_supersedes q"
    and links: "\<And>q r. q \<in> set t \<Longrightarrow> r \<in> set t \<Longrightarrow> vc_supersedes r = Some (vc_id q) \<Longrightarrow> chain_link q r \<Longrightarrow>
      chain_link (if P q then f q else q) (if P r then f r else r)"
  shows "claims_ok (update_where P f t)"
proof -
  let ?g = "\<lambda>q. if P q then f q else q"
  have g: "vc_id (?g q) = vc_id q" "vc_supersedes (?g q) = vc_supersedes q" for q by (simp_all add: keys)
  show ?thesis
  proof (rule claims_okI)
    have "map vc_id (update_where P f t) = map vc_id t" by (rule keys_update_where) (rule keys(1))
    then show "distinct (map vc_id (update_where P f t))" using claims_okD(1) [OF assms(1)] by simp
  next
    fix r r' assume r: "r \<in> set (update_where P f t)" "r' \<in> set (update_where P f t)"
      and same: "vc_supersedes r \<noteq> None" "vc_supersedes r = vc_supersedes r'"
    from r obtain p p' where p: "p \<in> set t" "p' \<in> set t" "r = ?g p" "r' = ?g p'" by auto
    have "vc_supersedes p \<noteq> None" "vc_supersedes p = vc_supersedes p'" using same unfolding p(3,4) g by simp_all
    with p have "p = p'" by (intro claims_okD(2) [OF assms(1)])
    then show "r = r'" by (simp only: p)
  next
    fix q r assume qr: "q \<in> set (update_where P f t)" "r \<in> set (update_where P f t)" and sup: "vc_supersedes r = Some (vc_id q)"
    from qr obtain p p' where p: "p \<in> set t" "p' \<in> set t" "q = ?g p" "r = ?g p'" by auto
    have "vc_supersedes p' = Some (vc_id p)" using sup unfolding p(3,4) g .
    with p claims_okD(3) [OF assms(1)] show "chain_link q r" unfolding p(3,4) by (intro links) blast+
  qed
qed

lemma successor_simps [simp]:
  "vc_id (successor x p cls prev) = vx_id x 0" "vc_supersedes (successor x p cls prev) = Some (vc_id prev)"
  "vc_superseded (successor x p cls prev) = None" "vc_space (successor x p cls prev) = vc_space prev"
  "vc_revision (successor x p cls prev) = Suc (vc_revision prev)"
  "vc_sensitive prev \<Longrightarrow> vc_sensitive (successor x p cls prev)"
  "vc_review (successor x p cls prev) = (if rewritesText p prev then Unverified else vc_review prev)"
  by (simp_all add: successor_def Let_def)

lemma new_claim_simps [simp]:
  "vc_id (new_claim x i) = vx_id x 0" "vc_supersedes (new_claim x i) = None" "vc_superseded (new_claim x i) = None"
  "vc_space (new_claim x i) = ci_space i" "vc_revision (new_claim x i) = 1" "vc_review (new_claim x i) = Unverified"
  by (simp_all add: new_claim_def)

lemma chain_link_closed: "chain_link q r \<Longrightarrow> vc_superseded q \<noteq> None"
  by (simp add: chain_link_def)

lemma claims_step_ok:
  assumes "claims_step A (t, l) (t', l')" and "claims_ok t"
  shows "claims_ok t'"
  using assms(1)
proof cases
  case (added i x)
  then have fresh: "vx_id x 0 \<notin> vc_id ` set t" "Some (vx_id x 0) \<notin> vc_supersedes ` set t" by (simp_all add: unnamed_def)
  show ?thesis unfolding added(1)
  proof (rule claims_okI)
    show "distinct (map vc_id (t @ [new_claim x i]))" using fresh(1) claims_okD(1) [OF assms(2)] by simp
  next
    fix r r' assume "r \<in> set (t @ [new_claim x i])" "r' \<in> set (t @ [new_claim x i])"
      and same: "vc_supersedes r \<noteq> None" "vc_supersedes r = vc_supersedes r'"
    then have "r \<in> set t" "r' \<in> set t" by auto
    with same show "r = r'" by (intro claims_okD(2) [OF assms(2)])
  next
    fix q r assume qr: "q \<in> set (t @ [new_claim x i])" "r \<in> set (t @ [new_claim x i])" and sup: "vc_supersedes r = Some (vc_id q)"
    then have "r \<in> set t" by auto
    moreover have "q \<noteq> new_claim x i" using sup fresh(2) \<open>r \<in> set t\<close> by (metis image_eqI new_claim_simps(1))
    ultimately show "chain_link q r" using qr sup by (intro claims_okD(3) [OF assms(2)]) auto
  qed
next
  case (superseded prev P x p cls)
  let ?u = "update_where P (\<lambda>q. q\<lparr>vc_superseded := Some (vx_now x)\<rparr>) t"
  let ?r = "successor x p cls prev"
  have ok: "claims_ok ?u"
    using assms(2) by (rule claims_ok_update) (auto simp: chain_link_def)
  have same_keys: "map vc_id ?u = map vc_id t" "map vc_supersedes ?u = map vc_supersedes t"
    by (rule keys_update_where, simp)+
  then have "vc_id ` set ?u = vc_id ` set t" "vc_supersedes ` set ?u = vc_supersedes ` set t" by (metis set_map)+
  with superseded(6,7) have fresh: "vx_id x 0 \<notin> vc_id ` set ?u" "Some (vx_id x 0) \<notin> vc_supersedes ` set ?u"
    "Some (vc_id prev) \<notin> vc_supersedes ` set ?u" by (simp_all add: unnamed_def)
  have link: "chain_link q ?r" if "q \<in> set ?u" "vc_id q = vc_id prev" for q
  proof -
    from that(1) obtain q0 where q: "q0 \<in> set t" "q = (if P q0 then q0\<lparr>vc_superseded := Some (vx_now x)\<rparr> else q0)" by auto
    then have "vc_id q0 = vc_id prev" using that(2) by (simp split: if_splits)
    then have "q0 = prev" using q(1) superseded(3) assms(2) by (metis claims_ok_def same_key_same_row)
    then show ?thesis using q(2) superseded(4) by (simp add: chain_link_def)
  qed
  show ?thesis unfolding superseded(1)
  proof (rule claims_okI)
    show "distinct (map vc_id (?u @ [?r]))" using claims_okD(1) [OF ok] fresh(1) by simp
  next
    fix r r' assume r: "r \<in> set (?u @ [?r])" "r' \<in> set (?u @ [?r])"
      and same: "vc_supersedes r \<noteq> None" "vc_supersedes r = vc_supersedes r'"
    have old: "vc_supersedes q \<noteq> Some (vc_id prev)" if "q \<in> set ?u" for q using fresh(3) that by (metis image_eqI)
    show "r = r'"
    proof (cases "r = ?r \<or> r' = ?r")
      case True
      then have "vc_supersedes r = Some (vc_id prev)" "vc_supersedes r' = Some (vc_id prev)" using same by auto
      with old have "r \<notin> set ?u" "r' \<notin> set ?u" by blast+
      with r show ?thesis by (auto simp del: set_update_where)
    next
      case False
      with r have "r \<in> set ?u" "r' \<in> set ?u" by simp_all
      with same show ?thesis by (intro claims_okD(2) [OF ok])
    qed
  next
    fix q r assume q: "q \<in> set (?u @ [?r])" and r: "r \<in> set (?u @ [?r])" and sup: "vc_supersedes r = Some (vc_id q)"
    show "chain_link q r"
    proof (cases "r = ?r")
      case True
      with sup have prev: "vc_id q = vc_id prev" by simp
      moreover have "vc_id prev \<in> vc_id ` set ?u"
        using superseded(3) \<open>vc_id ` set ?u = vc_id ` set t\<close> by (metis image_eqI)
      ultimately have "q \<noteq> ?r" using fresh(1) by (metis successor_simps(1))
      with q have "q \<in> set ?u" by (simp del: set_update_where)
      then show ?thesis unfolding True using prev by (rule link)
    next
      case False
      then have "r \<in> set ?u" using r by (simp del: set_update_where)
      then have "q \<noteq> ?r" using sup fresh(2) by (metis image_eqI successor_simps(1))
      with q have "q \<in> set ?u" by (simp del: set_update_where)
      then show ?thesis using \<open>r \<in> set ?u\<close> sup by (intro claims_okD(3) [OF ok])
    qed
  qed
next
  case (closed P now)
  show ?thesis unfolding closed(1) using assms(2) by (rule claims_ok_update) (auto simp: chain_link_def)
next
  case (revived c P)
  show ?thesis unfolding revived(1) using assms(2)
  proof (rule claims_ok_update)
    fix q r assume "q \<in> set t" "r \<in> set t" "vc_supersedes r = Some (vc_id q)" "chain_link q r"
    moreover from this revived(3) have "vc_id q \<noteq> c" by (metis image_eqI)
    ultimately show "chain_link (if vc_id q = c \<and> P q then q\<lparr>vc_superseded := None\<rparr> else q)
        (if vc_id r = c \<and> P r then r\<lparr>vc_superseded := None\<rparr> else r)" by (simp add: chain_link_def)
  qed simp_all
next
  case (unflagged P)
  show ?thesis unfolding unflagged(1) using assms(2) by (rule claims_ok_update) (auto simp: chain_link_def)
next
  case (approved c more_sensitive now by_user)
  show ?thesis unfolding approved(1) using assms(2)
    by (rule claims_ok_update) (auto simp: chain_link_def)
next
  case (erased S)
  then show ?thesis using assms(2) unfolding claims_ok_def by (auto intro: distinct_delete_where)
qed

subsection \<open>Approval\<close>

definition stored_text :: "claim_row \<Rightarrow> bool" where
  "stored_text r \<longleftrightarrow> (\<exists>s. vc_statement r = fitStatement s) \<and> (\<exists>k. vc_slot r = fitSlotKey k)"

definition words_approved :: "claim_row list \<times> words list \<Rightarrow> bool" where
  "words_approved s \<longleftrightarrow> (\<forall>r \<in> set (fst s). stored_text r \<and> (vc_review r = Confirmed \<longrightarrow> words_of r \<in> set (snd s)))"

lemma stored_new: "stored_text (new_claim x i)" "stored_text (successor x p cls prev)"
  by (auto simp: stored_text_def new_claim_def successor_def Let_def)

lemma words_of_successor:
  assumes "stored_text prev" and "\<not> rewritesText p prev"
  shows "words_of (successor x p cls prev) = words_of prev"
proof -
  obtain s k where stored: "vc_statement prev = fitStatement s" "vc_slot prev = fitSlotKey k"
    using assms(1) by (auto simp: stored_text_def)
  have "fitStatement (vc_statement prev) = js_trim (vc_statement prev)" by (simp add: stored fit_stored)
  moreover have "fitSlotKey (vc_slot prev) = map_option js_trim (vc_slot prev)" by (simp add: stored fit_slot_stored)
  ultimately show ?thesis
    using assms(2) by (simp add: rewritesText_def words_of_def successor_def isDeepStrictEqual_def Let_def option.map_comp comp_def)
qed

lemma words_approved_update:
  assumes "words_approved (t, l)" and "\<And>r. vc_statement (f r) = vc_statement r \<and> vc_slot (f r) = vc_slot r \<and> vc_value (f r) = vc_value r"
    and "\<And>r. vc_review (f r) = vc_review r" and "set l \<subseteq> set l'"
  shows "words_approved (update_where P f t, l')"
proof -
  have "stored_text (f r) = stored_text r" "words_of (f r) = words_of r" for r
    using assms(2) [of r] by (simp_all add: stored_text_def words_of_def)
  then show ?thesis using assms(1,3,4) unfolding words_approved_def by auto
qed

lemma claims_step_approved:
  assumes "claims_step A (t, l) (t', l')" and "words_approved (t, l)"
  shows "words_approved (t', l')"
  using assms(1)
proof cases
  case (added i x)
  then show ?thesis using assms(2) stored_new by (auto simp: words_approved_def)
next
  case (superseded prev P x p cls)
  have "words_approved (update_where P (\<lambda>q. q\<lparr>vc_superseded := Some (vx_now x)\<rparr>) t, l)"
    using assms(2) by (rule words_approved_update) simp_all
  moreover have "vc_review (successor x p cls prev) = Confirmed \<longrightarrow> words_of (successor x p cls prev) \<in> set l"
    using assms(2) superseded(3) words_of_successor by (auto simp: words_approved_def)
  ultimately show ?thesis unfolding superseded(1,2) using stored_new by (auto simp: words_approved_def)
next
  case (approved c more_sensitive now by_user)
  have "stored_text (q\<lparr>vc_review := Confirmed, vc_sensitive := b, vc_approved_at := n, vc_approved_by := u\<rparr>) = stored_text q"
    "words_of (q\<lparr>vc_review := Confirmed, vc_sensitive := b, vc_approved_at := n, vc_approved_by := u\<rparr>) = words_of q" for q b n u
    by (simp_all add: stored_text_def words_of_def)
  then show ?thesis unfolding approved using assms(2) by (auto simp: words_approved_def)
next
  case (erased S)
  then show ?thesis using assms(2) by (auto simp: words_approved_def)
qed (use words_approved_update [OF assms(2)] in simp_all)

subsection \<open>Every move is a sequence of steps on the claims\<close>

lemma claims_untouched [simp]:
  "v_claims (log_event s a act subj pl v) = v_claims v" "v_claims (upsert_doc d v) = v_claims v"
  "v_claims (projectClaimDoc c v) = v_claims v" "v_claims (projectNoteDoc c v) = v_claims v"
  "v_claims (insertNode n s k v) = v_claims v" "v_claims (unlinkContainsInto t c s v) = v_claims v"
  "v_claims (fst (deleteNode t oi n s v)) = v_claims v" "v_claims (fst (restoreNode n s t v)) = v_claims v"
  "v_claims (fst (move_members c c2 v)) = v_claims v" "v_claims (unprojectSpace s v) = v_claims v"
  "v_claims (fst (deleteSpaceNodes t s v)) = v_claims v" "v_claims (attachEvidence e v) = v_claims v"
  by (simp_all add: log_event_def upsert_doc_def projectClaimDoc_def projectNoteDoc_def insertNode_def unlinkContainsInto_def
      deleteNode_def restoreNode_def move_members_def unprojectNode_def unprojectSpace_def deleteSpaceNodes_def attachEvidence_def
      Let_def split: option.split)

lemma link_claims: "linkNodes i s n c r a v = Inr (v', e) \<Longrightarrow> v_claims v' = v_claims v"
  by (auto simp: linkNodes_def Let_def split: option.splits if_splits)

lemma link_moved_claims: "link_moved x c s a i ns v = Inr v' \<Longrightarrow> v_claims v' = v_claims v"
  by (induction ns arbitrary: i v) (auto simp: or_fail_Inr dest: link_claims)

lemma file_under_claims: "file_under x i n c s a v = Inr v' \<Longrightarrow> v_claims v' = v_claims v"
  by (auto simp: file_under_def or_fail_Inr assertTopicInSpace_def split: if_splits dest: link_claims)

lemma parity_claims: "assertContainsParity x s v = Inr v' \<Longrightarrow> v' = v"
  by (auto simp: assertContainsParity_def split: if_splits)

lemma insert_claim_claims: "insert_claim r v = Inr v' \<Longrightarrow> v_claims v' = v_claims v @ [r]"
  by (auto simp: insert_claim_def split: option.splits if_splits)

lemma createClaim_claims:
  assumes "createClaim x i a v = Inr (v', res)"
  shows "v_claims v' = v_claims v @ [new_claim x i] \<and> spaceAcceptsWrites (ci_space i) v"
  using assms
  by (auto simp: createClaim_def or_fail_Inr assertSpaceLive_def Let_def split: if_splits option.splits
      dest!: insert_claim_claims file_under_claims parity_claims)

lemma supersede_claims:
  assumes "supersede x p cls a prev v = Inr (v', res)"
  shows "v_claims v' = v_claims v @ [successor x p cls prev] \<and> res = (vx_id x 0, Suc (vc_revision prev))"
proof -
  let ?r = "successor x p cls prev" and ?s = "vc_space prev"
  from assms obtain v1 v2 v3 where steps:
    "insert_claim ?r (insertNode (vc_id ?r) ?s ClaimNode v) = Inr v1"
    "link_moved x (vc_id ?r) ?s a 1 (snd (move_members (vc_id prev) (vc_id ?r) v1))
       (unlinkContainsInto (vx_now x) (vc_id prev) ?s (fst (move_members (vc_id prev) (vc_id ?r) v1))) = Inr v2"
    "(case cp_topic p of Some n \<Rightarrow> if snd (move_members (vc_id prev) (vc_id ?r) v1) = [] then file_under x 1 n (vc_id ?r) ?s a v2 else Inr v2
      | None \<Rightarrow> Inr v2) = Inr v3"
    and v': "v_claims v' = v_claims v3" and res: "res = (vx_id x 0, Suc (vc_revision prev))"
    by (auto simp: supersede_def or_fail_Inr Let_def case_prod_unfold dest: parity_claims)
  have "v_claims v3 = v_claims v2" using steps(3) by (auto split: option.splits if_splits dest: file_under_claims)
  also have "\<dots> = v_claims v1" using link_moved_claims [OF steps(2)] by simp
  also have "\<dots> = v_claims v @ [?r]" using insert_claim_claims [OF steps(1)] by simp
  finally show ?thesis using v' res by simp
qed

lemma find_SomeD: "find P xs = Some r \<Longrightarrow> r \<in> set xs \<and> P r"
  by (induction xs) (auto split: if_splits)

lemma updateClaim_cases:
  assumes "updateClaim x c revision p cls spaces a v = Inr (v', res)"
  obtains (lost) h where "find (cas_hit c revision spaces) (v_claims v) = None" "findCurrentHead c (Some spaces) v = Inr h"
      "v' = v" "res = Inl h"
  | (won) prev v1 where "find (cas_hit c revision spaces) (v_claims v) = Some prev"
      "v1 = v\<lparr>v_claims := update_where (cas_hit c revision spaces) (\<lambda>r. r\<lparr>vc_superseded := Some (vx_now x)\<rparr>) (v_claims v)\<rparr>"
      "supersede x p cls a prev v1 = Inr (v', vx_id x 0, Suc revision)" "res = Inr (vx_id x 0, Suc revision)"
      "v_claims v' = update_where (cas_hit c revision spaces) (\<lambda>r. r\<lparr>vc_superseded := Some (vx_now x)\<rparr>) (v_claims v) @
         [successor x p cls prev]"
proof (cases "find (cas_hit c revision spaces) (v_claims v)")
  case None
  with assms obtain h where "findCurrentHead c (Some spaces) v = Inr h" "v' = v" "res = Inl h"
    by (auto simp: updateClaim_def or_fail_Inr assertSpaceLive_def split: option.splits if_splits)
  with None show thesis by (rule lost)
next
  case (Some prev)
  let ?v1 = "v\<lparr>v_claims := update_where (cas_hit c revision spaces) (\<lambda>r. r\<lparr>vc_superseded := Some (vx_now x)\<rparr>) (v_claims v)\<rparr>"
  have hit: "prev \<in> set (v_claims v)" "cas_hit c revision spaces prev" using find_SomeD [OF Some] by blast+
  obtain v2 r2 where sup: "supersede x p cls a prev ?v1 = Inr (v2, r2)" and out: "v' = v2" "res = Inr r2"
    using assms Some by (auto simp: updateClaim_def or_fail_Inr assertSpaceLive_def split: option.splits if_splits)
  show thesis
  proof (rule won [OF Some refl])
    show "supersede x p cls a prev ?v1 = Inr (v', vx_id x 0, Suc revision)" "res = Inr (vx_id x 0, Suc revision)"
      "v_claims v' = update_where (cas_hit c revision spaces) (\<lambda>r. r\<lparr>vc_superseded := Some (vx_now x)\<rparr>) (v_claims v) @
         [successor x p cls prev]"
      using sup out supersede_claims [OF sup] hit(2) by (auto simp: cas_hit_def)
  qed
qed

lemma forgetClaim_cases:
  assumes "forgetClaim x c revision spaces a task v = Inr (v', res)"
  obtains (lost) h where "find (forget_hit c revision spaces task) (v_claims v) = None"
      "findCurrentHead c (Some spaces) v = Inr h" "v' = v" "res = Inl h"
  | (won) prev where "find (forget_hit c revision spaces task) (v_claims v) = Some prev" "res = Inr ()"
      "v' = log_event (vc_space prev) a ''claim.forget'' c (JObj [(''revision'', JNum (of_nat (vc_revision prev)))])
         (fst (deleteNode (vx_now x) None c (vc_space prev)
           (v\<lparr>v_claims := update_where (forget_hit c revision spaces task) (\<lambda>r. r\<lparr>vc_superseded := Some (vx_now x)\<rparr>) (v_claims v)\<rparr>)))"
  using assms by (auto simp: forgetClaim_def or_fail_Inr split: option.splits)

lemma resolveConflict_cases:
  assumes "resolveConflict x c k spaces a v = Inr (v', b)"
  obtains (absent) "find (contesting c spaces) (v_claims v) = None" "v' = v" "\<not> b"
  | (both) r where "find (contesting c spaces) (v_claims v) = Some r" "k = KeepBoth" "b"
      "v' = log_event (vc_space r) a ''claim.conflict'' c (JObj [(''keep'', JStr (keep_text k)), (''revision'', JNum (of_nat (vc_revision r)))])
        (v\<lparr>v_claims := update_where (\<lambda>r. vc_id r = c) (\<lambda>r. r\<lparr>vc_conflicts := None\<rparr>) (v_claims v)\<rparr>)"
  | (gone) r where "find (contesting c spaces) (v_claims v) = Some r" "k \<noteq> KeepBoth" "\<not> b"
      "v' = v\<lparr>v_claims := update_where (\<lambda>r. vc_id r = c) (\<lambda>r. r\<lparr>vc_conflicts := None\<rparr>) (v_claims v)\<rparr>"
  | (moved) r h and head :: claim_row where "find (contesting c spaces) (v_claims v) = Some r" "k \<noteq> KeepBoth" "\<not> b"
      "forgetClaim x (vc_id head) (vc_revision head) spaces a None
        (v\<lparr>v_claims := update_where (\<lambda>r. vc_id r = c) (\<lambda>r. r\<lparr>vc_conflicts := None\<rparr>) (v_claims v)\<rparr>) = Inr (v', Inl h)"
  | (decided) r v1 and head :: claim_row where "find (contesting c spaces) (v_claims v) = Some r" "k \<noteq> KeepBoth" "b"
      "forgetClaim x (vc_id head) (vc_revision head) spaces a None
        (v\<lparr>v_claims := update_where (\<lambda>r. vc_id r = c) (\<lambda>r. r\<lparr>vc_conflicts := None\<rparr>) (v_claims v)\<rparr>) = Inr (v1, Inr ())"
      "v' = log_event (vc_space r) a ''claim.conflict'' c
        (JObj [(''keep'', JStr (keep_text k)), (''revision'', JNum (of_nat (vc_revision r)))]) v1"
proof (cases "find (contesting c spaces) (v_claims v)")
  case None
  then show thesis using assms by (intro absent) (simp_all add: resolveConflict_def)
next
  case (Some r)
  let ?v = "v\<lparr>v_claims := update_where (\<lambda>r. vc_id r = c) (\<lambda>r. r\<lparr>vc_conflicts := None\<rparr>) (v_claims v)\<rparr>"
  show thesis
  proof (cases "k = KeepBoth")
    case True
    then show thesis using assms Some by (intro both [of r]) (simp_all add: resolveConflict_def Let_def)
  next
    case False
    let ?from = "if k = KeepThis then or_else (vc_conflicts r) c else c"
    have "\<exists>h. findCurrentHead ?from (Some spaces) ?v = Inr h"
      using assms Some False by (auto simp: resolveConflict_def or_fail_Inr Let_def)
    then obtain h where h: "findCurrentHead ?from (Some spaces) ?v = Inr h" by blast
    show thesis
    proof (cases h)
      case None
      then show thesis using assms Some False h by (intro gone [of r]) (simp_all add: resolveConflict_def Let_def)
    next
      case head: (Some head)
      obtain v1 g where f: "forgetClaim x (vc_id head) (vc_revision head) spaces a None ?v = Inr (v1, g)"
        using assms Some False h head by (auto simp: resolveConflict_def Let_def or_fail_Inr)
      show thesis
      proof (cases g)
        case (Inl h')
        then show thesis using assms Some False h head f by (intro moved [of r head h']) (simp_all add: resolveConflict_def Let_def)
      next
        case (Inr u)
        then show thesis using assms Some False h head f by (intro decided [of r head v1]) (simp_all add: resolveConflict_def Let_def)
      qed
    qed
  qed
qed

text \<open>
  One committed call of a module of the vault. \<open>others\<close> stands for the moves of the topics, sources, candidates and
  edges, which write neither claims nor spaces; \<open>fresh\<close> tells the ids \<open>nanoid\<close> may still draw for a space.
\<close>

inductive vault_step :: "(ident \<Rightarrow> bool) \<Rightarrow> vault \<times> words list \<Rightarrow> vault \<times> words list \<Rightarrow> bool" for fresh where
  create: "unnamed (vx_id x 0) (v_claims v) \<Longrightarrow> createClaim x i a v = Inr (v', res) \<Longrightarrow> vault_step fresh (v, l) (v', l)"
| update: "unnamed (vx_id x 0) (v_claims v) \<Longrightarrow> updateClaim x c revision p cls spaces a v = Inr (v', res') \<Longrightarrow> vault_step fresh (v, l) (v', l)"
| forget: "forgetClaim x c revision spaces a task v = Inr (v', out) \<Longrightarrow> vault_step fresh (v, l) (v', l)"
| restore: "vault_step fresh (v, l) (fst (restoreClaim c spaces a v), l)"
| forget_all: "vault_step fresh (v, l) (fst (forgetAllClaims x s a v), l)"
| resolve: "resolveConflict x c k spaces a v = Inr (v', b) \<Longrightarrow> vault_step fresh (v, l) (v', l)"
| confirm: "confirmClaim now c sensitive a v = (v', b) \<Longrightarrow>
    vault_step fresh (v, l) (v', map words_of (filter (\<lambda>r. vc_id r = c \<and> vc_superseded r = None) (v_claims v)) @ l)"
| attach: "attachToTopic x c n a v = Inr (v', e) \<Longrightarrow> vault_step fresh (v, l) (v', l)"
| evidence: "vault_step fresh (v, l) (attachEvidence ev v, l)"
| retire: "vault_step fresh (v, l) (retireProjectSpace x project_owner p v, l)"
| space: "fresh i \<Longrightarrow> getOrCreateSpace i t ref owner v = Inr (v', s) \<Longrightarrow> vault_step fresh (v, l) (v', l)"
| purge: "vault_step fresh (v, l) (purgeUserSpaces u v, l)"
| others: "v_claims v' = v_claims v \<Longrightarrow> v_spaces v' = v_spaces v \<Longrightarrow> vault_step fresh (v, l) (v', l)"

lemma unsuperseded_head:
  assumes "claims_ok t" "r \<in> set t" "vc_superseded r = None"
  shows "Some (vc_id r) \<notin> vc_supersedes ` set t"
proof
  assume "Some (vc_id r) \<in> vc_supersedes ` set t"
  then obtain n where "n \<in> set t" "vc_supersedes n = Some (vc_id r)" by (metis image_iff)
  with claims_okD(3) [OF assms(1,2)] have "chain_link r n" by blast
  with assms(3) show False by (simp add: chain_link_def)
qed

lemma forget_claims_step:
  assumes "forgetClaim x c revision spaces a task v = Inr (v', out)"
  shows "(claims_step A)\<^sup>*\<^sup>* (v_claims v, l) (v_claims v', l)"
  using assms
proof (cases rule: forgetClaim_cases)
  case (won prev)
  have "claims_step A (v_claims v, l) (update_where (forget_hit c revision spaces task) (\<lambda>r. r\<lparr>vc_superseded := Some (vx_now x)\<rparr>) (v_claims v), l)"
    by (rule claims_step.closed) (simp add: forget_hit_def cas_hit_def)
  then show ?thesis by (simp add: won(3) r_into_rtranclp)
qed simp

lemma fold_untouched: "(\<And>h v. v_claims (f h v) = v_claims v) \<Longrightarrow> v_claims (fold f hs v) = v_claims v"
  by (induction hs arbitrary: v) simp_all

lemma update_where_cong_on: "(\<And>r. r \<in> set t \<Longrightarrow> P r = Q r) \<Longrightarrow> update_where P f t = update_where Q f t"
  by (auto simp: update_where_def)

lemma restore_claims:
  "v_claims (fst (restoreClaim c spaces a v)) = v_claims v \<or>
   (\<exists>s. \<not> list_ex (\<lambda>n. vc_supersedes n = Some c) (v_claims v) \<and>
     v_claims (fst (restoreClaim c spaces a v)) = update_where (revivable c s v) (\<lambda>r. r\<lparr>vc_superseded := None\<rparr>) (v_claims v))"
proof (cases "\<exists>s gone r. spaces \<noteq> [] \<and> tombstone c spaces v = Some (s, gone) \<and> find (revivable c s v) (v_claims v) = Some r")
  case True
  then obtain s gone r where run: "spaces \<noteq> []" "tombstone c spaces v = Some (s, gone)" "find (revivable c s v) (v_claims v) = Some r"
    by blast
  let ?v = "v\<lparr>v_claims := update_where (revivable c s v) (\<lambda>r. r\<lparr>vc_superseded := None\<rparr>) (v_claims v)\<rparr>"
  obtain v1 b where node: "restoreNode c s gone ?v = (v1, b)" by (rule prod.exhaust)
  then have "v_claims v1 = v_claims ?v" using claims_untouched(8) [of c s gone ?v] by simp
  then have "v_claims (fst (restoreClaim c spaces a v)) = v_claims ?v"
    using run node by (cases b) (simp_all add: restoreClaim_def)
  moreover have "\<not> list_ex (\<lambda>n. vc_supersedes n = Some c) (v_claims v)"
    using find_SomeD [OF run(3)] by (simp add: revivable_def)
  ultimately show ?thesis by auto
next
  case False
  then have "fst (restoreClaim c spaces a v) = v" by (auto simp: restoreClaim_def split: option.splits)
  then show ?thesis by simp
qed

lemma erase_claims [simp]: "v_claims (erase_space now s v) = delete_where (\<lambda>r. vc_space r = s) (v_claims v)"
  by (simp add: erase_space_def Let_def)

lemma retire_claims: "v_claims (retire_space x p s v) = delete_where (\<lambda>r. vc_space r \<in> {s}) (v_claims v)"
  by (simp add: retire_space_def case_prod_unfold Let_def)

lemma claims_step_erased: "(claims_step A)\<^sup>*\<^sup>* (t, l) (delete_where (\<lambda>q. vc_space q \<in> S) t, l)"
  by (rule r_into_rtranclp) (rule claims_step.erased)

lemma vault_step_claims:
  assumes "vault_step fresh (v, l) (v', l')" and ok: "claims_ok (v_claims v)" and A: "\<And>s. spaceAcceptsWrites s v \<Longrightarrow> A s"
  shows "(claims_step A)\<^sup>*\<^sup>* (v_claims v, l) (v_claims v', l')"
  using assms(1)
proof cases
  case (create x i a res)
  have "claims_step A (v_claims v, l) (v_claims v @ [new_claim x i], l)"
    using create(2) createClaim_claims [OF create(3)] A by (intro claims_step.added) simp_all
  then show ?thesis using create(1) createClaim_claims [OF create(3)] by (simp add: r_into_rtranclp)
next
  case (update x c revision p cls spaces a res')
  from update(3) show ?thesis
  proof (cases rule: updateClaim_cases)
    case (won prev v1)
    have prev: "prev \<in> set (v_claims v)" "cas_hit c revision spaces prev" using find_SomeD [OF won(1)] by blast+
    have "claims_step A (v_claims v, l) (v_claims v', l)"
      unfolding won(5) using prev update(2) unsuperseded_head [OF ok prev(1)]
      by (intro claims_step.superseded) (auto simp: cas_hit_def)
    then show ?thesis using update(1) by (simp add: r_into_rtranclp)
  qed (simp add: update(1))
next
  case (forget x c revision spaces a task out)
  then show ?thesis using forget_claims_step by simp
next
  case (restore c spaces a)
  from restore_claims [of c spaces a v] show ?thesis
  proof (elim disjE exE conjE)
    fix s assume none: "\<not> list_ex (\<lambda>n. vc_supersedes n = Some c) (v_claims v)"
      and out: "v_claims (fst (restoreClaim c spaces a v)) = update_where (revivable c s v) (\<lambda>r. r\<lparr>vc_superseded := None\<rparr>) (v_claims v)"
    have "revivable c s v = (\<lambda>q. vc_id q = c \<and> revivable c s v q)" by (auto simp: revivable_def)
    moreover have "Some c \<notin> vc_supersedes ` set (v_claims v)" using none by (force simp: list_ex_iff)
    ultimately have "claims_step A (v_claims v, l) (v_claims (fst (restoreClaim c spaces a v)), l)"
      unfolding out using claims_step.revived [of c "v_claims v" A l "revivable c s v"] by simp
    then show ?thesis using restore by (simp add: r_into_rtranclp)
  qed (simp add: restore)
next
  case (forget_all x s a)
  let ?live = "\<lambda>r. vc_space r = s \<and> vc_superseded r = None"
  have "v_claims (fst (forgetAllClaims x s a v)) = update_where ?live (\<lambda>r. r\<lparr>vc_superseded := Some (vx_now x)\<rparr>) (v_claims v)"
  proof (cases "filter ?live (v_claims v) = []")
    case True
    then have "\<forall>r \<in> set (v_claims v). \<not> ?live r" by (simp add: filter_empty_conv)
    then show ?thesis using True by (simp add: forgetAllClaims_def update_where_none)
  qed (simp add: forgetAllClaims_def Let_def fold_untouched)
  moreover have "claims_step A (v_claims v, l) (update_where ?live (\<lambda>r. r\<lparr>vc_superseded := Some (vx_now x)\<rparr>) (v_claims v), l)"
    by (rule claims_step.closed) simp
  ultimately show ?thesis using forget_all by (simp add: r_into_rtranclp)
next
  case (resolve x c k spaces a b)
  let ?t = "update_where (\<lambda>r. vc_id r = c) (\<lambda>r. r\<lparr>vc_conflicts := None\<rparr>) (v_claims v)"
  have clear: "claims_step A (v_claims v, l) (?t, l)" by (rule claims_step.unflagged)
  have forgotten: "(claims_step A)\<^sup>*\<^sup>* (v_claims v, l) (v_claims v1, l)"
    if "forgetClaim x d n spaces a None (v\<lparr>v_claims := ?t\<rparr>) = Inr (v1, out)" for d n v1 out
    using forget_claims_step [OF that, of A l] by (auto intro: converse_rtranclp_into_rtranclp clear)
  from resolve(2) show ?thesis unfolding resolve(1)
    by (cases rule: resolveConflict_cases) (auto intro: r_into_rtranclp clear forgotten)
next
  case (confirm now c sensitive a b)
  let ?hit = "\<lambda>r. vc_id r = c \<and> vc_superseded r = None"
  show ?thesis
  proof (cases "list_ex ?hit (v_claims v)")
    case True
    with confirm(2) have out: "v_claims v' = update_where ?hit (\<lambda>r. r\<lparr>vc_review := Confirmed, vc_sensitive := vc_sensitive r \<or> sensitive,
        vc_approved_at := Some now, vc_approved_by := (case a of UserActor u \<Rightarrow> u | _ \<Rightarrow> None)\<rparr>) (v_claims v)"
      by (auto simp: confirmClaim_def Let_def)
    show ?thesis unfolding out confirm(1) by (rule r_into_rtranclp, rule claims_step.approved)
  next
    case False
    with confirm(2) have "v' = v" by (simp add: confirmClaim_def)
    moreover from False have "filter ?hit (v_claims v) = []" by (auto simp: list_ex_iff filter_empty_conv)
    ultimately show ?thesis unfolding confirm(1) by simp
  qed
next
  case (attach x c n a e)
  then have "v_claims v' = v_claims v"
    by (auto simp: attachToTopic_def or_fail_Inr assertTopicInSpace_def split: option.splits if_splits dest!: link_claims parity_claims)
  then show ?thesis using attach(1) by simp
next
  case (retire x project_owner p)
  have "(claims_step A)\<^sup>*\<^sup>* (v_claims v, l) (v_claims (retire_space x p s w), l)" if "v_claims w = v_claims v" for s w
    unfolding retire_claims that by (rule claims_step_erased)
  then show ?thesis unfolding retire by (simp add: retireProjectSpace_def split: option.split)
next
  case (space i t ref owner s)
  then have "v_claims v' = v_claims v" by (auto simp: getOrCreateSpace_def split: option.splits if_splits)
  then show ?thesis using space(1) by simp
next
  case (purge u)
  then show ?thesis using claims_step_erased by (simp add: purgeUserSpaces_def Let_def)
qed simp_all

lemma claims_steps_ok:
  "(claims_step A)\<^sup>*\<^sup>* s s' \<Longrightarrow> claims_ok (fst s) \<Longrightarrow> words_approved s \<Longrightarrow> claims_ok (fst s') \<and> words_approved s'"
proof (induction rule: rtranclp_induct)
  case (step s1 s2)
  then show ?case using claims_step_ok claims_step_approved by (metis prod.collapse)
qed simp

lemma vault_run_ok:
  assumes "(vault_step fresh)\<^sup>*\<^sup>* (v0, l0) (v, l)" and "v_claims v0 = []"
  shows "claims_ok (v_claims v) \<and> words_approved (v_claims v, l)"
  using assms(1)
proof (induction rule: rtranclp_induct2)
  case refl
  show ?case by (simp add: assms(2) claims_ok_def words_approved_def)
next
  case (step v1 l1 v2 l2)
  then show ?case using vault_step_claims [OF step(2), of "\<lambda>_. True"] claims_steps_ok by fastforce
qed

subsection \<open>A small vault\<close>

text \<open>One project space with one topic: a fact is filed, then confirmed, or corrected.\<close>

definition demo_ctx :: "ident \<Rightarrow> time \<Rightarrow> vault_ctx" where
  "demo_ctx i now = \<lparr>vx_now = now, vx_id = (\<lambda>k. if k = 0 then i else ''e-'' @ i), vx_sha = id, vx_num = (\<lambda>_. ''0''), vx_armed = True\<rparr>"

definition demo_space :: vault where
  "demo_space = \<lparr>v_spaces = [\<lparr>sp_id = ''s'', sp_type = ProjectSpace, sp_ref = ''p'', sp_owner = ''u'', sp_retired = None\<rparr>],
     v_nodes = [\<lparr>nd_id = ''n'', nd_space = ''s'', nd_kind = NoteNode, nd_deleted = None\<rparr>],
     v_edges = [], v_docs = [], v_notes = [\<lparr>vn_id = ''n'', vn_space = ''s'', vn_head = None\<rparr>], v_claims = [], v_members = [], v_evidence = [],
     v_candidates = [], v_sources = [], v_events = []\<rparr>"

definition demo_fact :: fact_input where
  "demo_fact = \<lparr>ci_space = ''s'', ci_statement = ''a'', ci_slot = None, ci_value = JNull, ci_origin = JNull, ci_sensitive = False,
     ci_topic = Some ''n'', ci_class = UserDirect, ci_task = None, ci_conflicts = None, ci_clause = None\<rparr>"

definition demo_patch :: claim_patch where
  "demo_patch = \<lparr>cp_statement = Some ''b'', cp_value = None, cp_slot = None, cp_sensitive = None, cp_origin = None, cp_topic = None\<rparr>"

definition demo_result :: "vault_error + vault \<times> 'a \<Rightarrow> vault" where
  "demo_result r = (case r of Inl _ \<Rightarrow> demo_space | Inr (v, _) \<Rightarrow> v)"

definition demo_filed :: vault where
  "demo_filed = demo_result (createClaim (demo_ctx ''c'' 100) demo_fact AgentActor demo_space)"

lemma demo_filed: "createClaim (demo_ctx ''c'' 100) demo_fact AgentActor demo_space = Inr (demo_filed, ''c'', 1, False)"
  by code_simp


definition demo_confirmed :: vault where
  "demo_confirmed = fst (confirmClaim 200 ''c'' False (UserActor (Some ''u'')) demo_filed)"

definition demo_updated :: vault where
  "demo_updated = demo_result (updateClaim (demo_ctx ''d'' 200) ''c'' 1 demo_patch UserDirect [''s''] AgentActor demo_filed)"

lemma demo_confirmed: "confirmClaim 200 ''c'' False (UserActor (Some ''u'')) demo_filed = (demo_confirmed, True)"
  by code_simp

lemma demo_updated:
  "updateClaim (demo_ctx ''d'' 200) ''c'' 1 demo_patch UserDirect [''s''] AgentActor demo_filed = Inr (demo_updated, Inr (''d'', 2))"
  by code_simp

lemma demo_empty: "v_claims demo_space = []"
  by code_simp

lemma demo_run: "(vault_step fresh)\<^sup>*\<^sup>* (demo_space, []) (demo_filed, [])"
  by (rule r_into_rtranclp, rule vault_step.create [OF _ demo_filed]) code_simp

lemma demo_fresh: "unnamed (vx_id (demo_ctx ''d'' 200) 0) (v_claims demo_filed)"
  by code_simp

lemma demo_confirmed_run: "(vault_step fresh)\<^sup>*\<^sup>* (demo_space, []) (demo_confirmed,
    map words_of (filter (\<lambda>r. vc_id r = ''c'' \<and> vc_superseded r = None) (v_claims demo_filed)) @ [])"
  using demo_run vault_step.confirm [OF demo_confirmed] by (rule rtranclp.rtrancl_into_rtrancl)

lemma demo_updated_run: "(vault_step fresh)\<^sup>*\<^sup>* (demo_space, []) (demo_updated, [])"
  using demo_run vault_step.update [OF demo_fresh demo_updated] by (rule rtranclp.rtrancl_into_rtrancl)

subsection \<open>Confirmed words\<close>

text \<open>
  Property C36. Only words a person approved are ever confirmed: whatever is created, superseded, forgotten,
  restored or retired and in whatever order, a claim stands as confirmed only if some \<open>confirmClaim\<close> met exactly
  its words - statement and key up to blanks at their ends, value up to the order of keys.
\<close>

theorem only_approved_words_are_confirmed:
  assumes "(vault_step fresh)\<^sup>*\<^sup>* (v0, []) (v, approved)" and "v_claims v0 = []"
    and "r \<in> set (v_claims v)" and "vc_review r = Confirmed"
  shows "words_of r \<in> set approved"
  using vault_run_ok [OF assms(1,2)] assms(3,4) by (simp add: words_approved_def)

theorem only_approved_words_are_confirmed_witness:
  "words_of (hd (v_claims demo_confirmed)) \<in> set (map words_of (v_claims demo_filed)) \<and> vc_review (hd (v_claims demo_confirmed)) = Confirmed"
proof -
  have "vc_review (hd (v_claims demo_confirmed)) = Confirmed" "hd (v_claims demo_confirmed) \<in> set (v_claims demo_confirmed)"
    by code_simp+
  then show ?thesis using only_approved_words_are_confirmed [OF demo_confirmed_run demo_empty] by auto
qed

subsection \<open>One live version\<close>

definition chain_of :: "claim_row list \<Rightarrow> (ident \<times> ident) set" where
  "chain_of t = {(p, vc_id n) | p n. n \<in> set t \<and> vc_supersedes n = Some p}"

lemma walk_finds:
  assumes ok: "claims_ok t" and r: "r \<in> set t" "vc_superseded r = None"
  shows "walk_chain fuel None t q = Inr h \<Longrightarrow> q \<in> set t \<Longrightarrow> (vc_id q, vc_id r) \<in> (chain_of t)\<^sup>* \<Longrightarrow> h = r"
proof (induction fuel arbitrary: q rule: less_induct)
  case (less fuel)
  let ?next = "\<lambda>n. vc_supersedes n = Some (vc_id q) \<and> in_scope None n"
  have same: "q = r" if "vc_id q = vc_id r"
    using that less.prems(2) r(1) claims_okD(1) [OF ok] by (metis same_key_same_row)
  show ?case
  proof (cases "find ?next t")
    case None
    then have "h = q" using less.prems(1) by (simp add: walk_chain.simps)
    moreover have "vc_id q = vc_id r" using less.prems(3)
    proof (cases rule: converse_rtranclE)
      case (step y)
      then obtain n where "n \<in> set t" "vc_supersedes n = Some (vc_id q)" by (auto simp: chain_of_def)
      with None show ?thesis by (auto simp: find_None_iff in_scope_def)
    qed simp
    ultimately show ?thesis using same by simp
  next
    case (Some n)
    then have n: "n \<in> set t" "vc_supersedes n = Some (vc_id q)" using find_SomeD [OF Some] by simp_all
    then have "vc_superseded q \<noteq> None" using claims_okD(3) [OF ok less.prems(2) n] by (simp add: chain_link_def)
    then have "vc_id q \<noteq> vc_id r" using same r(2) by auto
    from less.prems(3) this obtain y where y: "(vc_id q, y) \<in> chain_of t" "(y, vc_id r) \<in> (chain_of t)\<^sup>*"
      by (metis converse_rtranclE)
    then obtain n' where n': "n' \<in> set t" "vc_supersedes n' = Some (vc_id q)" "y = vc_id n'" by (auto simp: chain_of_def)
    have "n' = n" using n n' by (intro claims_okD(2) [OF ok]) simp_all
    with y(2) n'(3) have reach: "(vc_id n, vc_id r) \<in> (chain_of t)\<^sup>*" by simp
    from less.prems(1) Some obtain f where "fuel = Suc f" "walk_chain f None t n = Inr h"
      by (cases fuel) (simp_all add: walk_chain.simps [of fuel] walk_chain.simps [of "Suc _"] walk_chain.simps [of 0])
    then show ?thesis using n(1) reach by (intro less.IH [of f n]) simp_all
  qed
qed



end
