(* ===== verification/Vault_Moves.thy ===== *)
theory Vault_Moves
  imports Vault_Theorems
begin

section \<open>Moves of the vault: races, undo, teardown and the parity control\<close>

subsection \<open>Two writers of one revision\<close>

lemma walk_one:
  assumes "find (\<lambda>n. vc_supersedes n = Some (vc_id q) \<and> in_scope allowed n) t = Some r"
    and "find (\<lambda>n. vc_supersedes n = Some (vc_id r) \<and> in_scope allowed n) t = None" and "0 < fuel"
  shows "walk_chain fuel allowed t q = Inr r"
  using assms by (cases fuel) (simp_all add: walk_chain.simps [of "Suc _"] walk_chain.simps [of _ allowed t r])

lemma find_unique:
  assumes "distinct (map key t)" "r \<in> set t" "P r" "\<And>q. q \<in> set t \<Longrightarrow> P q \<Longrightarrow> key q = key r"
  shows "find P t = Some r"
proof -
  obtain q where q: "find P t = Some q" using assms(2,3) by (metis find_None_iff not_None_eq)
  with find_SomeD have "q \<in> set t" "P q" by fastforce+
  with assms show ?thesis using q same_key_same_row by metis
qed



subsection \<open>A retired space\<close>

definition closed_space :: "ident \<Rightarrow> vault \<Rightarrow> bool" where
  "closed_space s v \<longleftrightarrow> \<not> spaceAcceptsWrites s v \<and> (\<forall>r \<in> set (v_claims v). vc_space r \<noteq> s)"

lemma spaces_untouched [simp]:
  "v_spaces (log_event s a act subj pl v) = v_spaces v" "v_spaces (upsert_doc d v) = v_spaces v"
  "v_spaces (projectClaimDoc c v) = v_spaces v"
  "v_spaces (insertNode n s k v) = v_spaces v" "v_spaces (unlinkContainsInto t c s v) = v_spaces v"
  "v_spaces (fst (deleteNode t oi n s v)) = v_spaces v" "v_spaces (fst (restoreNode n s t v)) = v_spaces v"
  "v_spaces (fst (move_members c c2 v)) = v_spaces v"
  "v_spaces (fst (deleteSpaceNodes t s v)) = v_spaces v" "v_spaces (erase_space t s v) = v_spaces v"
  by (simp_all add: log_event_def upsert_doc_def projectClaimDoc_def insertNode_def unlinkContainsInto_def erase_space_def
      deleteNode_def restoreNode_def move_members_def unprojectNode_def unprojectSpace_def deleteSpaceNodes_def
      Let_def split: option.split)

lemma link_spaces: "linkNodes i s n c r a v = Inr (v', e) \<Longrightarrow> v_spaces v' = v_spaces v"
  by (auto simp: linkNodes_def Let_def split: option.splits if_splits)

lemma link_moved_spaces: "link_moved x c s a i ns v = Inr v' \<Longrightarrow> v_spaces v' = v_spaces v"
  by (induction ns arbitrary: i v) (auto simp: or_fail_Inr dest: link_spaces)

lemma file_under_spaces: "file_under x i n c s a v = Inr v' \<Longrightarrow> v_spaces v' = v_spaces v"
  by (auto simp: file_under_def or_fail_Inr assertTopicInSpace_def split: if_splits dest: link_spaces)

lemma insert_claim_spaces: "insert_claim r v = Inr v' \<Longrightarrow> v_spaces v' = v_spaces v"
  by (auto simp: insert_claim_def split: option.splits if_splits)

lemma createClaim_spaces: "createClaim x i a v = Inr (v', res) \<Longrightarrow> v_spaces v' = v_spaces v"
  by (auto simp: createClaim_def or_fail_Inr assertSpaceLive_def Let_def split: if_splits option.splits
      dest!: insert_claim_spaces file_under_spaces parity_claims)

lemma supersede_spaces:
  assumes "supersede x p cls a prev v = Inr (v', res)"
  shows "v_spaces v' = v_spaces v"
proof -
  let ?r = "successor x p cls prev" and ?s = "vc_space prev"
  from assms obtain v1 v2 v3 where steps:
    "insert_claim ?r (insertNode (vc_id ?r) ?s ClaimNode v) = Inr v1"
    "link_moved x (vc_id ?r) ?s a 1 (snd (move_members (vc_id prev) (vc_id ?r) v1))
       (unlinkContainsInto (vx_now x) (vc_id prev) ?s (fst (move_members (vc_id prev) (vc_id ?r) v1))) = Inr v2"
    "(case cp_topic p of Some n \<Rightarrow> if snd (move_members (vc_id prev) (vc_id ?r) v1) = [] then file_under x 1 n (vc_id ?r) ?s a v2 else Inr v2
      | None \<Rightarrow> Inr v2) = Inr v3"
    and v': "v_spaces v' = v_spaces v3"
    by (auto simp: supersede_def or_fail_Inr Let_def case_prod_unfold dest: parity_claims)
  have "v_spaces v3 = v_spaces v2" using steps(3) by (auto split: option.splits if_splits dest: file_under_spaces)
  also have "\<dots> = v_spaces v1" using link_moved_spaces [OF steps(2)] by simp
  also have "\<dots> = v_spaces v" using insert_claim_spaces [OF steps(1)] by simp
  finally show ?thesis using v' by simp
qed

lemma fold_spaces: "(\<And>h v. v_spaces (f h v) = v_spaces v) \<Longrightarrow> v_spaces (fold f hs v) = v_spaces v"
  by (induction hs arbitrary: v) simp_all

lemma forget_spaces: "forgetClaim x c revision spaces a task v = Inr (v', out) \<Longrightarrow> v_spaces v' = v_spaces v"
  by (erule forgetClaim_cases) simp_all

lemma restore_spaces: "v_spaces (fst (restoreClaim c spaces a v)) = v_spaces v"
proof -
  have "v_spaces v1 = v_spaces v" if "restoreNode c s gone (v\<lparr>v_claims := t\<rparr>) = (v1, b)" for s gone t v1 b
    using spaces_untouched(7) [of c s gone "v\<lparr>v_claims := t\<rparr>"] that by simp
  then show ?thesis by (auto simp: restoreClaim_def split: option.split prod.split bool.split)
qed

lemma retire_spaces: "v_spaces (retire_space x p s v) =
    update_where (\<lambda>r. sp_id r = s \<and> sp_retired r = None) (\<lambda>r. r\<lparr>sp_retired := Some (vx_now x)\<rparr>) (v_spaces v)"
proof -
  obtain bare n where out: "deleteSpaceNodes (vx_now x) s (erase_space (vx_now x) s
      (v\<lparr>v_spaces := update_where (\<lambda>r. sp_id r = s \<and> sp_retired r = None) (\<lambda>r. r\<lparr>sp_retired := Some (vx_now x)\<rparr>) (v_spaces v)\<rparr>)) = (bare, n)"
    (is "deleteSpaceNodes _ _ (erase_space _ _ ?w) = _") by (rule prod.exhaust)
  then have "v_spaces bare = v_spaces ?w" using spaces_untouched(9,10) by (metis fst_conv)
  then show ?thesis by (simp add: retire_space_def out)
qed

definition closed_rows :: "ident \<Rightarrow> space_row list \<Rightarrow> bool" where
  "closed_rows s t \<longleftrightarrow> (\<forall>r \<in> set t. sp_id r = s \<longrightarrow> sp_retired r \<noteq> None)"

lemma closed_rows_iff: "closed_rows s (v_spaces v) \<longleftrightarrow> \<not> spaceAcceptsWrites s v"
  by (auto simp: closed_rows_def spaceAcceptsWrites_def list_ex_iff)

lemma closed_retire: "closed_rows s (v_spaces v) \<Longrightarrow> closed_rows s (v_spaces (retire_space x p s' v))"
  by (auto simp: retire_spaces closed_rows_def)

lemma vault_step_closed:
  assumes "vault_step fresh (v, l) (v', l')" and "\<not> spaceAcceptsWrites s v" and "\<not> fresh s"
  shows "\<not> spaceAcceptsWrites s v'"
proof -
  have shut: "closed_rows s (v_spaces v)" using assms(2) by (simp add: closed_rows_iff)
  from assms(1) have "closed_rows s (v_spaces v')"
  proof cases
    case (update x c revision p cls spaces a res')
    from update(3) show ?thesis by (cases rule: updateClaim_cases) (use shut in \<open>auto dest: supersede_spaces\<close>)
  next
    case (forget_all x s a)
    then show ?thesis using shut by (auto simp: forgetAllClaims_def Let_def fold_spaces)
  next
    case (resolve x c k spaces a b)
    from resolve(2) have "v_spaces v' = v_spaces v" by (cases rule: resolveConflict_cases) (auto dest: forget_spaces)
    then show ?thesis using shut by simp
  next
    case (attach x c n a e)
    then have "v_spaces v' = v_spaces v"
      by (auto simp: attachToTopic_def or_fail_Inr assertTopicInSpace_def split: option.splits if_splits dest!: link_spaces parity_claims)
    then show ?thesis using shut by simp
  next
    case (retire x project_owner p)
    then show ?thesis using shut
      by (auto simp: retireProjectSpace_def closed_retire split: option.split intro!: closed_retire) (auto simp: closed_rows_def)
  next
    case (space i t ref owner sp)
    then show ?thesis using shut assms(3) by (auto simp: getOrCreateSpace_def closed_rows_def split: option.splits if_splits)
  qed (use shut in \<open>auto simp: restore_spaces confirmClaim_def attachEvidence_def purgeUserSpaces_def closed_rows_def Let_def
      split: if_splits dest: createClaim_spaces forget_spaces\<close>)
  then show ?thesis by (simp add: closed_rows_iff)
qed

lemma claims_step_elsewhere:
  assumes "claims_step A (t, l) (t', l')" and "\<not> A s" and "\<forall>r \<in> set t. vc_space r \<noteq> s"
  shows "\<forall>r \<in> set t'. vc_space r \<noteq> s"
  using assms(1)
proof cases
  case (added i x)
  then show ?thesis using assms(2,3) by auto
next
  case (superseded prev P x p cls)
  then show ?thesis using assms(3) by auto
next
  case (closed P now)
  then show ?thesis using assms(3) by auto
next
  case (revived c P)
  then show ?thesis using assms(3) by auto
next
  case (unflagged P)
  then show ?thesis using assms(3) by auto
next
  case (approved c more_sensitive now by_user)
  then show ?thesis using assms(3) by auto
next
  case (erased S)
  then show ?thesis using assms(3) by auto
qed

lemma claims_steps_elsewhere:
  "(claims_step A)\<^sup>*\<^sup>* p p' \<Longrightarrow> \<not> A s \<Longrightarrow> \<forall>r \<in> set (fst p). vc_space r \<noteq> s \<Longrightarrow> \<forall>r \<in> set (fst p'). vc_space r \<noteq> s"
proof (induction rule: rtranclp_induct)
  case (step p1 p2)
  obtain t1 l1 t2 l2 where p: "p1 = (t1, l1)" "p2 = (t2, l2)" by (cases p1, cases p2)
  have "\<forall>r \<in> set t1. vc_space r \<noteq> s" using step.IH [OF step.prems] by (simp only: p fst_conv)
  from claims_step_elsewhere [OF step.hyps(2) [unfolded p] step.prems(1) this] show ?case by (simp only: p fst_conv)
qed simp

lemma closed_run:
  assumes "(vault_step fresh)\<^sup>*\<^sup>* (v, l) (v', l')" and "claims_ok (v_claims v)" "words_approved (v_claims v, l)"
    and "closed_space s v" "\<not> fresh s"
  shows "closed_space s v' \<and> claims_ok (v_claims v') \<and> words_approved (v_claims v', l')"
  using assms(1)
proof (induction rule: rtranclp_induct2)
  case refl
  show ?case using assms by simp
next
  case (step v1 l1 v2 l2)
  then have shut: "\<not> spaceAcceptsWrites s v1" and ok: "claims_ok (v_claims v1)" by (simp_all add: closed_space_def)
  have "(claims_step (\<lambda>r. spaceAcceptsWrites r v1))\<^sup>*\<^sup>* (v_claims v1, l1) (v_claims v2, l2)"
    by (rule vault_step_claims [OF step(2) ok])
  from claims_steps_ok [OF this] claims_steps_elsewhere [OF this, of s] shut step.IH
  have "claims_ok (v_claims v2)" "words_approved (v_claims v2, l2)" "\<forall>r \<in> set (v_claims v2). vc_space r \<noteq> s"
    by (simp_all add: closed_space_def)
  moreover have "\<not> spaceAcceptsWrites s v2" by (rule vault_step_closed [OF step(2) shut assms(5)])
  ultimately show ?case by (simp add: closed_space_def)
qed


text \<open>
  Property C39. A retired project's memory stays empty: once the space is retired no run, whatever it creates,
  revives, supersedes or resolves and however late, leaves a claim in it, and a claim filed into it is refused.
\<close>

theorem retired_space_stays_empty:
  assumes "(vault_step fresh)\<^sup>*\<^sup>* (v0, []) (v, l)" and "v_claims v0 = []"
    and "find_space ProjectSpace project v = Some s" and "\<not> fresh (sp_id s)"
    and "(vault_step fresh)\<^sup>*\<^sup>* (retireProjectSpace x project_owner project v, l) (v', l')"
  shows "(\<forall>r \<in> set (v_claims v'). vc_space r \<noteq> sp_id s) \<and>
    (ci_space i = sp_id s \<longrightarrow> createClaim y i a v' = Inl (SpaceRetired (sp_id s)))"
proof -
  let ?w = "retireProjectSpace x project_owner project v"
  have w: "?w = retire_space x project (sp_id s) v" by (simp add: retireProjectSpace_def assms(3))
  have "closed_space (sp_id s) ?w"
    using closed_rows_iff [of "sp_id s" ?w] by (auto simp: closed_space_def w retire_claims retire_spaces closed_rows_def)
  moreover have "(vault_step fresh)\<^sup>*\<^sup>* (v0, []) (?w, l)"
    using assms(1) vault_step.retire by (rule rtranclp.rtrancl_into_rtrancl)
  ultimately have "closed_space (sp_id s) v'"
    using closed_run [OF assms(5)] vault_run_ok assms(2,4) by blast
  then show ?thesis by (simp add: closed_space_def createClaim_def assertSpaceLive_def)
qed

theorem retired_space_stays_empty_witness:
  "createClaim (demo_ctx ''f'' 300) demo_fact AgentActor (retireProjectSpace (demo_ctx ''g'' 250) (\<lambda>_. None) ''p'' demo_filed) = Inl (SpaceRetired ''s'')"
proof -
  let ?s = "\<lparr>sp_id = ''s'', sp_type = ProjectSpace, sp_ref = ''p'', sp_owner = ''u'', sp_retired = None\<rparr> :: space_row"
  have "find_space ProjectSpace ''p'' demo_filed = Some ?s" by code_simp
  from retired_space_stays_empty [OF demo_run demo_empty this _ rtranclp.rtrancl_refl, where fresh = "\<lambda>_. False" and i = demo_fact]
  show ?thesis by (simp add: demo_fact_def)
qed

end
