(* ===== verification/Vault_Undo.thy ===== *)
theory Vault_Undo
  imports Vault_Moves
begin

section \<open>Undo, the parity control and the disagreement card\<close>

subsection \<open>Forget and restore\<close>

lemma update_where_undo:
  assumes "\<And>r. r \<in> set t \<Longrightarrow> (if Q (if P r then f r else r) then g (if P r then f r else r) else (if P r then f r else r)) = r"
  shows "update_where Q g (update_where P f t) = t"
  using assms by (induction t) (simp_all add: update_where_def)

lemma update_whereE:
  assumes "z \<in> set (update_where P f t)"
  obtains (kept) "z \<in> set t" "\<not> P z" | (changed) r where "r \<in> set t" "P r" "z = f r"
proof -
  from assms obtain r where "r \<in> set t" "z = (if P r then f r else r)" unfolding set_update_where by blast
  then show thesis by (cases "P r") (simp_all add: that)
qed

lemma forget_hit_only:
  assumes "claims_ok t" "find (forget_hit c revision spaces task) t = Some prev" "r \<in> set t"
  shows "forget_hit c revision spaces task r \<longleftrightarrow> r = prev"
proof -
  have "prev \<in> set t" "forget_hit c revision spaces task prev" using find_SomeD [OF assms(2)] by blast+
  moreover have "r = prev" if "forget_hit c revision spaces task r"
    using claims_okD(1) [OF assms(1)] assms(3) calculation that by (metis cas_hit_def forget_hit_def same_key_same_row)
  ultimately show ?thesis by blast
qed

lemma find_stamped:
  assumes ok: "claims_ok t" and hit: "find (forget_hit c revision spaces task) t = Some prev"
    and P: "P (prev\<lparr>vc_superseded := Some now\<rparr>)" "\<And>r. P r \<Longrightarrow> vc_id r = c"
  shows "find P (update_where (forget_hit c revision spaces task) (\<lambda>r. r\<lparr>vc_superseded := Some now\<rparr>) t) =
    Some (prev\<lparr>vc_superseded := Some now\<rparr>)"
proof -
  have prev: "prev \<in> set t" "vc_id prev = c" using find_SomeD [OF hit] by (auto simp: forget_hit_def cas_hit_def)
  let ?t = "update_where (forget_hit c revision spaces task) (\<lambda>r. r\<lparr>vc_superseded := Some now\<rparr>) t"
  have "map vc_id ?t = map vc_id t" by (rule keys_update_where) simp
  then have "distinct (map vc_id ?t)" using claims_okD(1) [OF ok] by simp
  moreover have "prev\<lparr>vc_superseded := Some now\<rparr> \<in> set ?t"
    using find_SomeD [OF hit] by (intro update_where_hit) blast+
  ultimately show ?thesis using P prev(2) by (intro find_unique [where key = vc_id]) auto
qed

lemma upsert_doc_in: "d \<in> set (v_docs (upsert_doc d v))"
proof (cases "list_ex (\<lambda>x. sd_space x = sd_space d \<and> sd_node x = sd_node d) (v_docs v)")
  case True
  then obtain x where "x \<in> set (v_docs v)" "sd_space x = sd_space d \<and> sd_node x = sd_node d" by (auto simp: list_ex_iff)
  then have "d \<in> set (update_where (\<lambda>x. sd_space x = sd_space d \<and> sd_node x = sd_node d) (\<lambda>_. d) (v_docs v))"
    by (rule update_where_hit)
  then show ?thesis using True by (simp add: upsert_doc_def del: set_update_where)
qed (simp add: upsert_doc_def)

lemma projectClaimDoc_in:
  assumes "find_row vc_id c (v_claims v) = Some r"
  shows "list_ex (\<lambda>d. sd_node d = c) (v_docs (projectClaimDoc c v))"
proof -
  have "\<exists>d. projectClaimDoc c v = upsert_doc d v \<and> sd_node d = c"
    unfolding projectClaimDoc_def assms option.case Let_def by (intro exI conjI, rule refl) simp
  then obtain d where "projectClaimDoc c v = upsert_doc d v" "sd_node d = c" by blast
  then show ?thesis using upsert_doc_in [of d v] by (auto simp: list_ex_iff)
qed

text \<open>
  Property C40. Undo puts a forgotten fact back exactly: the claim, its node, every edge the delete closed and
  the filing are what they were, and the search projection has its row again.
\<close>

theorem forget_then_restore:
  assumes "(vault_step fresh)\<^sup>*\<^sup>* (v0, []) (v, l)" and "v_claims v0 = []"
    and "forgetClaim x c revision spaces a task v = Inr (v1, Inr ())"
    and "\<forall>r \<in> set (v_claims v). vc_id r = c \<longrightarrow>
      list_ex (\<lambda>d. nd_id d = c \<and> nd_space d = vc_space r) (v_nodes v)"
    and "\<forall>d \<in> set (v_nodes v). nd_id d = c \<longrightarrow> nd_deleted d = None"
    and "\<forall>e \<in> set (v_edges v). ed_deleted e \<noteq> Some (vx_now x)"
    and "restoreClaim c spaces b v1 = (v2, done_it)"
  shows "done_it \<and> v_claims v2 = v_claims v \<and> v_nodes v2 = v_nodes v \<and> v_edges v2 = v_edges v \<and>
    v_members v2 = v_members v \<and> list_ex (\<lambda>d. sd_node d = c) (v_docs v2)"
  using assms(3)
proof (cases rule: forgetClaim_cases)
  case (won prev)
  have ok: "claims_ok (v_claims v)" using vault_run_ok [OF assms(1,2)] by blast
  let ?s = "vc_space prev" and ?now = "vx_now x" and ?hit = "forget_hit c revision spaces task"
  have prev: "prev \<in> set (v_claims v)" "vc_id prev = c" "?s \<in> set spaces" "vc_superseded prev = None"
    using find_SomeD [OF won(1)] by (auto simp: forget_hit_def cas_hit_def)
  let ?gone = "prev\<lparr>vc_superseded := Some ?now\<rparr>"
  let ?node = "\<lambda>d. nd_id d = c \<and> nd_space d = ?s \<and> nd_deleted d = None"
  have v1: "v_claims v1 = update_where ?hit (\<lambda>r. r\<lparr>vc_superseded := Some ?now\<rparr>) (v_claims v)"
    "v_nodes v1 = update_where ?node (\<lambda>d. d\<lparr>nd_deleted := Some ?now\<rparr>) (v_nodes v)"
    "v_edges v1 = update_where (\<lambda>e. touches c ?s e \<and> ed_deleted e = None) (\<lambda>e. e\<lparr>ed_deleted := Some ?now\<rparr>) (v_edges v)"
    "v_members v1 = v_members v"
    unfolding won(3) by (simp_all add: log_event_def deleteNode_def unprojectNode_def Let_def)
  have heirs: "\<not> list_ex (\<lambda>n. vc_supersedes n = Some c) (v_claims v1)"
    using unsuperseded_head [OF ok prev(1,4)] prev(2) by (auto simp: v1(1) list_ex_iff image_iff)
  have alive: "\<exists>d \<in> set (v_nodes v). ?node d"
    using assms(4,5) prev(1,2) by (fastforce simp: list_ex_iff)
  then obtain d0 where "d0 \<in> set (v_nodes v)" "?node d0" by blast
  then have "d0\<lparr>nd_deleted := Some ?now\<rparr> \<in> set (v_nodes v1)" "nd_id d0 = c" "nd_space d0 = ?s"
    unfolding v1(2) by (simp_all add: update_where_hit del: set_update_where)
  then have "\<exists>d \<in> set (v_nodes v1). nd_id d = c \<and> nd_space d = ?s \<and> nd_deleted d \<noteq> None"
    by (intro bexI [of _ "d0\<lparr>nd_deleted := Some ?now\<rparr>"]) simp_all
  then have "find (\<lambda>d. nd_id d = c \<and> nd_space d = ?s \<and> nd_deleted d \<noteq> None) (v_nodes v1) \<noteq> None"
    unfolding find_None_iff by blast
  then obtain d where d: "find (\<lambda>d. nd_id d = c \<and> nd_space d = ?s \<and> nd_deleted d \<noteq> None) (v_nodes v1) = Some d"
    by blast
  have dd: "d \<in> set (v_nodes v1)" "nd_id d = c" "nd_deleted d \<noteq> None" "nd_space d = ?s" using find_SomeD [OF d] by blast+
  obtain d1 where d1: "d1 \<in> set (v_nodes v)" "d = (if ?node d1 then d1\<lparr>nd_deleted := Some ?now\<rparr> else d1)"
    using dd(1) unfolding v1(2) set_update_where by blast
  then have "nd_id d1 = c" using dd(2) by (cases "?node d1") simp_all
  then have "nd_deleted d1 = None" using assms(5) d1(1) by blast
  have "?node d1"
  proof (rule ccontr)
    assume "\<not> ?node d1"
    then have "d = d1" using d1(2) by (simp only: if_False)
    with dd(3) \<open>nd_deleted d1 = None\<close> show False by simp
  qed
  then have stamp: "nd_deleted d = Some ?now" using d1(2) by simp
  have row: "find (\<lambda>r. vc_id r = c \<and> vc_space r \<in> set spaces) (v_claims v1) = Some ?gone"
    unfolding v1(1) using prev by (intro find_stamped [OF ok won(1)]) auto
  then have tomb: "tombstone c spaces v1 = Some (?s, ?now)" using d stamp by (simp add: tombstone_def)
  have rev: "find (revivable c ?s v1) (v_claims v1) = Some ?gone"
    unfolding v1(1) using prev heirs by (intro find_stamped [OF ok won(1)]) (auto simp: revivable_def)
  let ?v = "v1\<lparr>v_claims := update_where (revivable c ?s v1) (\<lambda>r. r\<lparr>vc_superseded := None\<rparr>) (v_claims v1)\<rparr>"
  obtain v3 back_again where node: "restoreNode c ?s ?now ?v = (v3, back_again)" by (rule prod.exhaust)
  have "list_ex (\<lambda>d. nd_id d = c \<and> nd_space d = ?s \<and> nd_deleted d = Some ?now) (v_nodes v1)"
    unfolding list_ex_iff using dd stamp by blast
  then have v3: back_again "v_claims v3 = v_claims ?v" "v_members v3 = v_members v1"
    "v_nodes v3 = update_where (\<lambda>d. nd_id d = c \<and> nd_space d = ?s \<and> nd_deleted d = Some ?now) (\<lambda>d. d\<lparr>nd_deleted := None\<rparr>) (v_nodes v1)"
    "v_edges v3 = update_where (\<lambda>e. touches c ?s e \<and> ed_deleted e = Some ?now) (\<lambda>e. e\<lparr>ed_deleted := None\<rparr>) (v_edges v1)"
    using node by (auto simp: restoreNode_def Let_def)
  have "update_where (revivable c ?s v1) (\<lambda>r. r\<lparr>vc_superseded := None\<rparr>) (v_claims v1) = v_claims v"
    unfolding v1(1)
  proof (rule update_where_undo)
    fix r assume r: "r \<in> set (v_claims v)"
    have "\<not> revivable c ?s v1 r" if "r \<noteq> prev"
      using that r prev(1,2) claims_okD(1) [OF ok] by (auto simp: revivable_def dest: same_key_same_row)
    moreover have "revivable c ?s v1 ?gone" using prev(2) heirs by (simp add: revivable_def)
    ultimately show "(if revivable c ?s v1 (if ?hit r then r\<lparr>vc_superseded := Some ?now\<rparr> else r)
        then (if ?hit r then r\<lparr>vc_superseded := Some ?now\<rparr> else r)\<lparr>vc_superseded := None\<rparr>
        else (if ?hit r then r\<lparr>vc_superseded := Some ?now\<rparr> else r)) = r"
      using forget_hit_only [OF ok won(1) r] prev(4) by auto
  qed
  then have claims: "v_claims v3 = v_claims v" using v3(2) by simp
  have nodes: "v_nodes v3 = v_nodes v" unfolding v3(4) v1(2)
    using assms(5) by (intro update_where_undo) auto
  have edges: "v_edges v3 = v_edges v" unfolding v3(5) v1(3)
    using assms(6) by (intro update_where_undo) (auto simp: touches_def)
  have held: "spaces \<noteq> []" using prev(3) by auto
  have v2: "done_it" "v2 = log_event ?s b ''claim.restore'' c (JObj [(''revision'', JNum (of_nat (vc_revision ?gone)))]) (projectClaimDoc c v3)"
    using assms(7) held tomb rev node v3(1) by (simp_all add: restoreClaim_def)
  obtain r where "find_row vc_id c (v_claims v3) = Some r"
    using prev(1,2) unfolding claims by (metis find_row_None_iff image_eqI not_None_eq)
  then have "list_ex (\<lambda>d. sd_node d = c) (v_docs v2)"
    using projectClaimDoc_in by (simp add: v2(2) log_event_def)
  moreover have "v_claims v2 = v_claims v3" "v_nodes v2 = v_nodes v3" "v_edges v2 = v_edges v3" "v_members v2 = v_members v3"
    by (simp_all add: v2(2) log_event_def projectClaimDoc_def upsert_doc_def Let_def split: option.split)
  ultimately show ?thesis using v2(1) claims nodes edges v3(3) v1(4) by simp
qed simp


definition demo_forgotten :: vault where
  "demo_forgotten = demo_result (forgetClaim (demo_ctx ''z'' 200) ''c'' 1 [''s''] (UserActor (Some ''u'')) None demo_filed)"

lemma demo_forgotten: "forgetClaim (demo_ctx ''z'' 200) ''c'' 1 [''s''] (UserActor (Some ''u'')) None demo_filed = Inr (demo_forgotten, Inr ())"
  by code_simp

theorem forget_then_restore_witness:
  "v_claims (fst (restoreClaim ''c'' [''s''] (UserActor (Some ''u'')) demo_forgotten)) = v_claims demo_filed \<and> v_claims demo_forgotten \<noteq> v_claims demo_filed"
proof -
  have "\<forall>r \<in> set (v_claims demo_filed). vc_id r = ''c'' \<longrightarrow> list_ex (\<lambda>d. nd_id d = ''c'' \<and> nd_space d = vc_space r) (v_nodes demo_filed)"
    "\<forall>d \<in> set (v_nodes demo_filed). nd_id d = ''c'' \<longrightarrow> nd_deleted d = None"
    "\<forall>e \<in> set (v_edges demo_filed). ed_deleted e \<noteq> Some (vx_now (demo_ctx ''z'' 200))"
    by code_simp+
  from forget_then_restore [OF demo_run demo_empty demo_forgotten this surjective_pairing] have
    "v_claims (fst (restoreClaim ''c'' [''s''] (UserActor (Some ''u'')) demo_forgotten)) = v_claims demo_filed" by blast
  moreover have "v_claims demo_forgotten \<noteq> v_claims demo_filed" by code_simp
  ultimately show ?thesis by blast
qed

subsection \<open>Two deletes, one undo\<close>

lemma half_dead_edge:
  assumes "e \<in> set (v_edges v)" "ed_space e = s" "ed_relation e = Contains" "ed_deleted e = None"
    and "list_ex (\<lambda>d. nd_id d = ed_to e \<and> nd_space d = s \<and> nd_kind d = ClaimNode) (v_nodes v)"
    and "\<not> list_ex (\<lambda>d. nd_id d = ed_from e \<and> nd_space d = s \<and> nd_deleted d = None) (v_nodes v)"
  shows "\<not> fst (containsParity s v)"
proof -
  have "(ed_from e, ed_to e) \<in> set (edge_pairs s v)" using assms(1-5) by (auto simp: edge_pairs_def)
  moreover have "(ed_from e, ed_to e) \<notin> set (member_pairs s v)" using assms(6) by (auto simp: member_pairs_def)
  ultimately have "filter (\<lambda>p. p \<notin> set (member_pairs s v)) (edge_pairs s v) \<noteq> []" by (auto simp: filter_empty_conv)
  then show ?thesis by (simp add: containsParity_def Let_def)
qed

lemma restoreClaim_won:
  assumes "restoreClaim c spaces a v = (v', True)"
  obtains s gone w and r :: claim_row where "tombstone c spaces v = Some (s, gone)"
    "restoreNode c s gone (v\<lparr>v_claims := update_where (revivable c s v) (\<lambda>r. r\<lparr>vc_superseded := None\<rparr>) (v_claims v)\<rparr>) = (w, True)"
    "v' = log_event s a ''claim.restore'' c (JObj [(''revision'', JNum (of_nat (vc_revision r)))]) (projectClaimDoc c w)"
proof -
  obtain s gone r where run: "tombstone c spaces v = Some (s, gone)" "find (revivable c s v) (v_claims v) = Some r"
    using assms by (auto simp: restoreClaim_def split: if_splits option.splits)
  obtain w b where node: "restoreNode c s gone
      (v\<lparr>v_claims := update_where (revivable c s v) (\<lambda>r. r\<lparr>vc_superseded := None\<rparr>) (v_claims v)\<rparr>) = (w, b)"
    by (rule prod.exhaust)
  have held: "spaces \<noteq> []" using assms by (auto simp: restoreClaim_def)
  have b using assms run node held by (cases b) (simp_all add: restoreClaim_def)
  then have "v' = log_event s a ''claim.restore'' c (JObj [(''revision'', JNum (of_nat (vc_revision r)))]) (projectClaimDoc c w)"
    using assms run node held by (simp add: restoreClaim_def)
  with run(1) node \<open>b\<close> show thesis by (intro that [of s gone w r]) simp_all
qed

lemma attach_needs_parity:
  assumes "attachToTopic y c n b v = Inr (v', i)" "vx_armed y" "find_row vc_id c (v_claims v) = Some r"
  shows "fst (containsParity (vc_space r) v')" "v_nodes v' = v_nodes v" "set (v_edges v) \<subseteq> set (v_edges v')"
proof -
  let ?v = "if (n, c) \<in> set (v_members v) then v else v\<lparr>v_members := v_members v @ [(n, c)]\<rparr>"
  obtain v1 e where link: "linkNodes (vx_id y 0) (vc_space r) n c Contains b ?v = Inr (v1, e)"
    and armed: "assertContainsParity y (vc_space r) v1 = Inr v'"
    using assms(1,3) by (auto simp: attachToTopic_def or_fail_Inr assertTopicInSpace_def split: option.splits if_splits)
  have "v' = v1" "fst (containsParity (vc_space r) v1)"
    using armed assms(2) by (auto simp: assertContainsParity_def split: if_splits)
  moreover have "v_nodes v1 = v_nodes ?v" "set (v_edges ?v) \<subseteq> set (v_edges v1)"
    using link by (auto simp: linkNodes_def Let_def split: option.splits if_splits)
  moreover have "v_nodes ?v = v_nodes v" "v_edges ?v = v_edges v" by simp_all
  ultimately show "fst (containsParity (vc_space r) v')" "v_nodes v' = v_nodes v" "set (v_edges v) \<subseteq> set (v_edges v')"
    by simp_all
qed

text \<open>
  Undoing a delete can leave the parity control broken: a fact is forgotten, then the topic it is
  filed under is deleted, then the fact is restored. The restore reopens its \<open>contains\<close> edge although the topic is
  a tombstone, the control counts the edge and not the membership, and from there every write armed with the
  control that files a fact in that space is refused, whatever the fact and the topic.
\<close>

theorem undo_reopens_edge_of_a_deleted_topic:
  assumes "e \<in> set (v_edges v)" "ed_space e = s" "ed_from e = n" "ed_to e = c" "ed_relation e = Contains" "ed_deleted e = None"
    and "claim \<in> set (v_claims v)" "vc_id claim = c" "vc_space claim = s" "n \<noteq> c"
    and "\<forall>d \<in> set (v_nodes v). nd_id d = c \<longrightarrow> nd_space d = s \<and> nd_kind d = ClaimNode \<and> nd_deleted d = None"
    and "distinct (map vc_id (v_claims v))"
    and "forgetClaim x c revision spaces a task v = Inr (v1, Inr ())"
    and "deleteNode deleted_at (Some True) n s v1 = (v2, True)"
    and "restoreClaim c spaces a v2 = (v3, True)"
  shows "\<not> fst (containsParity s v3) \<and>
    (vx_armed y \<longrightarrow> vc_space other = s \<longrightarrow> find_row vc_id c' (v_claims v3) = Some other \<longrightarrow> \<not> (\<exists>out. attachToTopic y c' n' b v3 = Inr out))"
proof -
  let ?now = "vx_now x"
  have only: "r = claim" if "r \<in> set (v_claims v)" "vc_id r = c" for r
    using that assms(7,8,12) by (metis same_key_same_row)
  have forgotten: "\<exists>d. v1 = log_event s a ''claim.forget'' c d (fst (deleteNode ?now None c s
      (v\<lparr>v_claims := update_where (forget_hit c revision spaces task) (\<lambda>r. r\<lparr>vc_superseded := Some ?now\<rparr>) (v_claims v)\<rparr>)))"
    using assms(13)
  proof (cases rule: forgetClaim_cases)
    case (won prev)
    then have "prev = claim" using find_SomeD [OF won(1)] by (intro only) (auto simp: forget_hit_def cas_hit_def)
    then show ?thesis using won(3) assms(9) by auto
  qed simp
  then have v1: "v_nodes v1 = update_where (\<lambda>d. nd_id d = c \<and> nd_space d = s \<and> nd_deleted d = None) (\<lambda>d. d\<lparr>nd_deleted := Some ?now\<rparr>) (v_nodes v)"
    "v_edges v1 = update_where (\<lambda>e. touches c s e \<and> ed_deleted e = None) (\<lambda>e. e\<lparr>ed_deleted := Some ?now\<rparr>) (v_edges v)"
    "v_claims v1 = update_where (forget_hit c revision spaces task) (\<lambda>r. r\<lparr>vc_superseded := Some ?now\<rparr>) (v_claims v)"
    by (auto simp: log_event_def deleteNode_def unprojectNode_def Let_def)
  have v2: "v_nodes v2 = update_where (\<lambda>d. nd_id d = n \<and> nd_space d = s \<and> nd_deleted d = None) (\<lambda>d. d\<lparr>nd_deleted := Some deleted_at\<rparr>) (v_nodes v1)"
    "v_edges v2 = update_where (\<lambda>e. touches n s e \<and> ed_deleted e = None) (\<lambda>e. e\<lparr>ed_deleted := Some deleted_at\<rparr>) (v_edges v1)"
    "v_claims v2 = v_claims v1"
    using assms(14) by (auto simp: deleteNode_def unprojectNode_def Let_def split: if_splits)
  from assms(15) obtain s' gone w and r :: claim_row where tomb: "tombstone c spaces v2 = Some (s', gone)"
    and node: "restoreNode c s' gone (v2\<lparr>v_claims := update_where (revivable c s' v2) (\<lambda>r. r\<lparr>vc_superseded := None\<rparr>) (v_claims v2)\<rparr>) = (w, True)"
    and v3: "v3 = log_event s' a ''claim.restore'' c (JObj [(''revision'', JNum (of_nat (vc_revision r)))]) (projectClaimDoc c w)"
    by (rule restoreClaim_won)
  obtain q d where q: "q \<in> set (v_claims v2)" "vc_id q = c" "s' = vc_space q"
    and d: "d \<in> set (v_nodes v2)" "nd_id d = c" "nd_deleted d = Some gone"
    using tomb by (auto simp: tombstone_def dest!: find_SomeD split: option.splits)
  have "\<exists>q0 \<in> set (v_claims v). vc_id q0 = vc_id q \<and> vc_space q0 = vc_space q"
    using q(1) unfolding v2(3) v1(3) by (auto split: if_splits)
  then have s': "s' = s" using only q(2,3) assms(9) by auto
  obtain d1 where d1: "d1 \<in> set (v_nodes v1)"
    "d = (if nd_id d1 = n \<and> nd_space d1 = s \<and> nd_deleted d1 = None then d1\<lparr>nd_deleted := Some deleted_at\<rparr> else d1)"
    using d(1) unfolding v2(1) set_update_where by blast
  then have "d1 = d" using d(2) assms(10) by (simp split: if_splits)
  then obtain d0 where d0: "d0 \<in> set (v_nodes v)"
    "d = (if nd_id d0 = c \<and> nd_space d0 = s \<and> nd_deleted d0 = None then d0\<lparr>nd_deleted := Some ?now\<rparr> else d0)"
    using d1(1) unfolding v1(1) set_update_where by blast
  then have "nd_id d0 = c" using d(2) by (simp split: if_splits)
  then have "nd_space d0 = s \<and> nd_deleted d0 = None" using assms(11) d0(1) by blast
  then have gone: "gone = ?now" using d(3) d0(2) \<open>nd_id d0 = c\<close> by simp
  have w: "v_nodes w = update_where (\<lambda>d. nd_id d = c \<and> nd_space d = s \<and> nd_deleted d = Some ?now) (\<lambda>d. d\<lparr>nd_deleted := None\<rparr>) (v_nodes v2)"
    "v_edges w = update_where (\<lambda>e. touches c s e \<and> ed_deleted e = Some ?now) (\<lambda>e. e\<lparr>ed_deleted := None\<rparr>) (v_edges v2)"
    using node unfolding s' gone by (auto simp: restoreNode_def Let_def split: if_splits)
  have v3': "v_nodes v3 = v_nodes w" "v_edges v3 = v_edges w"
    by (simp_all add: v3 log_event_def projectClaimDoc_def upsert_doc_def Let_def split: option.split)
  have "e\<lparr>ed_deleted := Some ?now\<rparr> \<in> set (v_edges v1)"
    unfolding v1(2) using assms(1-6) by (intro update_where_hit) (simp_all add: touches_def)
  then have "e\<lparr>ed_deleted := Some ?now\<rparr> \<in> set (v_edges v2)" unfolding v2(2) by force
  then have "e\<lparr>ed_deleted := Some ?now\<rparr>\<lparr>ed_deleted := None\<rparr> \<in> set (v_edges v3)"
    unfolding v3' w(2) using assms(2,4) by (intro update_where_hit) (simp_all add: touches_def)
  then have edge: "e\<lparr>ed_deleted := None\<rparr> \<in> set (v_edges v3)" by simp
  have at_c: "nd_space d0 = s \<and> nd_kind d0 = ClaimNode" using assms(11) d0(1) \<open>nd_id d0 = c\<close> by blast
  then have kind: "nd_space d = s" "nd_kind d = ClaimNode" using d0(2) by simp_all
  then have "d\<lparr>nd_deleted := None\<rparr> \<in> set (v_nodes v3)"
    unfolding v3' w(1) using d gone by (intro update_where_hit) simp_all
  then have claim_node: "list_ex (\<lambda>d. nd_id d = c \<and> nd_space d = s \<and> nd_kind d = ClaimNode) (v_nodes v3)"
    unfolding list_ex_iff using d(2) kind by (intro bexI [of _ "d\<lparr>nd_deleted := None\<rparr>"]) simp_all
  have dead: "\<not> list_ex (\<lambda>d. nd_id d = n \<and> nd_space d = s \<and> nd_deleted d = None) (v_nodes v3)"
  proof
    assume "list_ex (\<lambda>d. nd_id d = n \<and> nd_space d = s \<and> nd_deleted d = None) (v_nodes v3)"
    then obtain z where z: "z \<in> set (v_nodes w)" "nd_id z = n" "nd_space z = s" "nd_deleted z = None"
      unfolding v3'(1) list_ex_iff by blast
    from z(1) have "z \<in> set (v_nodes v2)" unfolding w(1)
      by (rule update_whereE) (use z(2) assms(10) in simp_all)
    then show False unfolding v2(1) by (rule update_whereE) (use z in simp_all)
  qed
  have diverged: "\<not> fst (containsParity s u)" if "v_nodes u = v_nodes v3" "set (v_edges v3) \<subseteq> set (v_edges u)" for u
    using half_dead_edge [of "e\<lparr>ed_deleted := None\<rparr>" u s] edge claim_node dead that assms(2-5) by auto
  show ?thesis
  proof (intro conjI impI notI)
    show "fst (containsParity s v3) \<Longrightarrow> False" using diverged [of v3] by simp
  next
    assume "vx_armed y" "vc_space other = s" "find_row vc_id c' (v_claims v3) = Some other"
      and "\<exists>out. attachToTopic y c' n' b v3 = Inr out"
    then show False using attach_needs_parity diverged by (metis prod.collapse)
  qed
qed

theorem undo_reopens_edge_of_a_deleted_topic_witness:
  "\<not> fst (containsParity ''s'' (fst (restoreClaim ''c'' [''s''] (UserActor (Some ''u'')) (fst (deleteNode 300 (Some True) ''n'' ''s'' demo_forgotten)))))"
proof -
  let ?e = "hd (v_edges demo_filed)" and ?r = "hd (v_claims demo_filed)"
  let ?v2 = "fst (deleteNode 300 (Some True) ''n'' ''s'' demo_forgotten)"
  have e: "?e \<in> set (v_edges demo_filed)" "ed_space ?e = ''s''" "ed_from ?e = ''n''" "ed_to ?e = ''c''" "ed_relation ?e = Contains" "ed_deleted ?e = None"
    by code_simp+
  have c: "?r \<in> set (v_claims demo_filed)" "vc_id ?r = ''c''" "vc_space ?r = ''s''" "''n'' \<noteq> ''c''"
    "\<forall>d \<in> set (v_nodes demo_filed). nd_id d = ''c'' \<longrightarrow> nd_space d = ''s'' \<and> nd_kind d = ClaimNode \<and> nd_deleted d = None"
    "distinct (map vc_id (v_claims demo_filed))"
    by code_simp+
  have "snd (deleteNode 300 (Some True) ''n'' ''s'' demo_forgotten)" by code_simp
  then have del: "deleteNode 300 (Some True) ''n'' ''s'' demo_forgotten = (?v2, True)" by (metis prod.collapse)
  have "snd (restoreClaim ''c'' [''s''] (UserActor (Some ''u'')) ?v2)" by code_simp
  then have res: "restoreClaim ''c'' [''s''] (UserActor (Some ''u'')) ?v2 = (fst (restoreClaim ''c'' [''s''] (UserActor (Some ''u'')) ?v2), True)"
    by (metis prod.collapse)
  show ?thesis using undo_reopens_edge_of_a_deleted_topic [OF e c demo_forgotten del res] by blast
qed

end
