(* ===== verification/Spec2Isabelle.thy ===== *)
theory Spec2Isabelle
  imports Queue_Theorems Outcome_Theorems Budget_Theorems Tree_Theorems Apply_Theorems Folder_Theorems Fetch_Theorems Automation_Theorems Canonical Fence_Theorems Barrier_Theorems Policy_Theorems Ledger_Theorems Context_Theorems Compactor Vault_Undo
begin

text \<open>
  Verification development for Capka, a self-hosted chat agent (TypeScript, \<open>src/src/lib\<close>).
\<close>

end
